(* ===== verification/Prelude.thy ===== *)
theory Prelude
  imports Main "HOL-Library.Word"
begin

text \<open>
  Shared vocabulary of the development: the machine integer types of the C sources, the
  truncation that a store into a \<open>uint16_t\<close> performs, and the generic lemmas on lists and on
  64-bit words that several components use.  Each component has a named collection for the
  facts its proofs rewrite with.
\<close>

unbundle bit_operations_syntax

named_theorems region_simps "facts on free and allocated memory regions"
named_theorems flag_simps "facts on the system flag words"
named_theorems si_simps "facts on short integer words under the current word size"

type_synonym u8 = "8 word"
type_synonym u16 = "16 word"
type_synonym u32 = "32 word"
type_synonym u64 = "64 word"

section \<open>Stores into a 16-bit unsigned field\<close>

text \<open>Block addresses and sizes are \<open>uint16_t\<close> in the sources; a store truncates.\<close>

definition trunc16 :: "nat \<Rightarrow> nat" where
  "trunc16 n = n mod 65536"

lemma trunc16_id [simp]: "n < 65536 \<Longrightarrow> trunc16 n = n"
  by (simp add: trunc16_def)

lemma trunc16_less: "trunc16 n < 65536"
  by (simp add: trunc16_def)

section \<open>Lists\<close>

lemma take_append_drop_Suc:
  "i < length xs \<Longrightarrow> xs = take i xs @ xs ! i # drop (Suc i) xs"
  by (rule id_take_nth_drop)

lemma sorted_wrt_hd_last:
  "sorted_wrt P (xs @ ys) \<Longrightarrow> x \<in> set xs \<Longrightarrow> y \<in> set ys \<Longrightarrow> P x y"
  by (simp add: sorted_wrt_append)

section \<open>Words of 64 bits\<close>

lemma bit_u64_imp_less: "bit (w::u64) n \<Longrightarrow> n < 64"
  by (drule bit_imp_le_length) simp

end
