(* ===== verification/FreeList.thy ===== *)
theory FreeList
  imports Prelude
begin

text \<open>
  The block allocator of \<^verbatim>\<open>core/freeList.c\<close>.  RAM is an array of 32-bit blocks; a block
  address is a \<open>uint16_t\<close>, 65535 being the null pointer.  Free memory is the array
  \<^verbatim>\<open>freeMemoryRegions\<close>, kept sorted by address and coalesced; the simulator build also logs every
  live allocation in \<^verbatim>\<open>allocatedMemoryRegions\<close>.  The model is the simulator build
  (\<^verbatim>\<open>!DMCP_BUILD\<close>): the \<^verbatim>\<open>exit(-2)\<close> on a full region table is an error value, the \<^verbatim>\<open>printf\<close> and
  \<^verbatim>\<open>errorf\<close> diagnostics have no effect on the state and are left out.

  Lemmas: what each scanning loop finds, the region list after each operation written out, the
  well-formedness of the region list, its abstraction to the set of free blocks and the
  uniqueness of the representation of such a set.
\<close>

section \<open>State\<close>

abbreviation (input) C47_NULL :: nat where "C47_NULL \<equiv> 65535"
abbreviation (input) MAX_FREE_REGIONS :: nat where "MAX_FREE_REGIONS \<equiv> 200"
abbreviation (input) MAX_ALLOCATED_REGIONS :: nat where "MAX_ALLOCATED_REGIONS \<equiv> 5000"

record freeMemoryRegion =
  blockAddress :: nat
  sizeInBlocks :: nat

record heap =
  freeMemoryRegions :: "freeMemoryRegion list"
  allocatedMemoryRegions :: "freeMemoryRegion list"
  ram :: "nat \<Rightarrow> u32"

datatype mem_error =
    TooManyFreeRegions      \<comment> \<open>\<^verbatim>\<open>exit(-2)\<close>\<close>
  | OutOfMemoryExit         \<comment> \<open>\<^verbatim>\<open>exit(-3)\<close>\<close>
  | NoFreeRegionAccess      \<comment> \<open>a read of \<^verbatim>\<open>freeMemoryRegions[-1]\<close>\<close>

text \<open>A C pointer into RAM is \<open>None\<close> (NULL) or the block it points to.\<close>

type_synonym ptr = "nat option"

definition TO_PCMEMPTR :: "nat \<Rightarrow> ptr" where
  "TO_PCMEMPTR p = (if p = C47_NULL then None else Some p)"

definition TO_C47MEMPTR :: "ptr \<Rightarrow> nat" where
  "TO_C47MEMPTR p = (case p of None \<Rightarrow> C47_NULL | Some a \<Rightarrow> trunc16 a)"

definition mk_region :: "nat \<Rightarrow> nat \<Rightarrow> freeMemoryRegion" where
  "mk_region p n = \<lparr>blockAddress = trunc16 p, sizeInBlocks = trunc16 n\<rparr>"

section \<open>freeListAlloc\<close>

text \<open>
  The search loop: an exact fit ends it at once, otherwise \<^verbatim>\<open>minBlock\<close> is the first of the smallest
  regions that are large enough, or \<^verbatim>\<open>C47_NULL\<close> if there is none.
\<close>

datatype hole = ExactFit nat | MinBlock nat

fun search_hole :: "nat \<Rightarrow> freeMemoryRegion list \<Rightarrow> nat \<Rightarrow> nat \<Rightarrow> nat \<Rightarrow> hole" where
  "search_hole n [] i minSizeInBlocks minBlock = MinBlock minBlock"
| "search_hole n (r # rs) i minSizeInBlocks minBlock =
     (if sizeInBlocks r = n then ExactFit i
      else if sizeInBlocks r > n \<and> sizeInBlocks r < minSizeInBlocks
        then search_hole n rs (Suc i) (sizeInBlocks r) i
        else search_hole n rs (Suc i) minSizeInBlocks minBlock)"

definition log_allocation :: "ptr \<Rightarrow> nat \<Rightarrow> heap \<Rightarrow> heap" where
  "log_allocation p n h =
     (if length (allocatedMemoryRegions h) \<ge> MAX_ALLOCATED_REGIONS then h
      else h\<lparr>allocatedMemoryRegions := allocatedMemoryRegions h @ [mk_region (TO_C47MEMPTR p) n]\<rparr>)"

definition freeListAlloc :: "nat \<Rightarrow> heap \<Rightarrow> ptr \<times> heap" where
  "freeListAlloc requested h =
     (let n = (if requested = 0 then 1 else requested); rs = freeMemoryRegions h in
      case search_hole n rs 0 65535 C47_NULL of
        ExactFit i \<Rightarrow>
          (let p = TO_PCMEMPTR (blockAddress (rs ! i)) in
           (p, log_allocation p n (h\<lparr>freeMemoryRegions := take i rs @ drop (Suc i) rs\<rparr>)))
      | MinBlock b \<Rightarrow>
          if b = C47_NULL then (None, h)
          else (let r = rs ! b; p = TO_PCMEMPTR (blockAddress r) in
                (p, log_allocation p n (h\<lparr>freeMemoryRegions :=
                      rs[b := mk_region (blockAddress r + n) (sizeInBlocks r - n)]\<rparr>))))"

section \<open>freeListFree\<close>

fun unlog_allocation :: "nat \<Rightarrow> freeMemoryRegion list \<Rightarrow> freeMemoryRegion list" where
  "unlog_allocation p [] = []"
| "unlog_allocation p (r # rs) = (if blockAddress r = p then rs else r # unlog_allocation p rs)"

text \<open>The region just after the freed blocks, the region just before them, the place of a new one.\<close>

fun find_following :: "nat \<Rightarrow> freeMemoryRegion list \<Rightarrow> nat \<Rightarrow> nat option" where
  "find_following addr [] i = None"
| "find_following addr (r # rs) i =
     (if blockAddress r \<le> addr
      then (if blockAddress r = addr then Some i else find_following addr rs (Suc i))
      else None)"

fun find_preceding :: "nat \<Rightarrow> freeMemoryRegion list \<Rightarrow> nat \<Rightarrow> nat option" where
  "find_preceding p [] i = None"
| "find_preceding p (r # rs) i =
     (if blockAddress r + sizeInBlocks r \<le> p
      then (if blockAddress r + sizeInBlocks r = p then Some i else find_preceding p rs (Suc i))
      else None)"

fun insertion_place :: "nat \<Rightarrow> freeMemoryRegion list \<Rightarrow> nat \<Rightarrow> nat" where
  "insertion_place p [] i = i"
| "insertion_place p (r # rs) i = (if blockAddress r < p then insertion_place p rs (Suc i) else i)"

definition insert_region :: "nat \<Rightarrow> nat \<Rightarrow> freeMemoryRegion list \<Rightarrow> mem_error + freeMemoryRegion list" where
  "insert_region p n rs =
     (if length rs = MAX_FREE_REGIONS then Inl TooManyFreeRegions
      else (let i = insertion_place p rs 0 in Inr (take i rs @ mk_region p n # drop i rs)))"

definition free_region :: "nat \<Rightarrow> nat \<Rightarrow> freeMemoryRegion list \<Rightarrow> mem_error + freeMemoryRegion list" where
  "free_region p n rs =
     (let (rs1, n1, j) =
        (case find_following (trunc16 (p + n)) rs 0 of
           Some i \<Rightarrow> (rs[i := mk_region p (sizeInBlocks (rs ! i) + n)],
                      trunc16 (sizeInBlocks (rs ! i) + n), Some i)
         | None \<Rightarrow> (rs, n, None))
      in case find_preceding p rs1 0 of
           Some i \<Rightarrow>
             (let rs2 = rs1[i := mk_region (blockAddress (rs1 ! i)) (sizeInBlocks (rs1 ! i) + n1)] in
              Inr (case j of Some k \<Rightarrow> take k rs2 @ drop (Suc k) rs2 | None \<Rightarrow> rs2))
         | None \<Rightarrow> (case j of Some k \<Rightarrow> Inr rs1 | None \<Rightarrow> insert_region p n1 rs1))"

definition freeListFree :: "ptr \<Rightarrow> nat \<Rightarrow> heap \<Rightarrow> mem_error + heap" where
  "freeListFree pcMemPtr requested h =
     (case pcMemPtr of
        None \<Rightarrow> Inr h
      | Some _ \<Rightarrow>
          (let n = (if requested = 0 then 1 else requested);
               p = TO_C47MEMPTR pcMemPtr;
               h1 = h\<lparr>allocatedMemoryRegions := unlog_allocation p (allocatedMemoryRegions h)\<rparr>
           in case free_region p n (freeMemoryRegions h1) of
                Inl e \<Rightarrow> Inl e
              | Inr rs \<Rightarrow> Inr (h1\<lparr>freeMemoryRegions := rs\<rparr>)))"

section \<open>freeListRealloc and freeListReduce\<close>

text \<open>
  \<^verbatim>\<open>xcopy\<close> of \<^verbatim>\<open>charString.c\<close>: upwards when the source lies above the destination, downwards when it
  lies below, so that overlapping areas are copied correctly.  The model copies elements of an
  array; the allocator copies whole blocks.
\<close>

fun xcopy_up :: "nat \<Rightarrow> nat \<Rightarrow> nat \<Rightarrow> (nat \<Rightarrow> 'a) \<Rightarrow> (nat \<Rightarrow> 'a)" where
  "xcopy_up dest source 0 m = m"
| "xcopy_up dest source (Suc n) m = xcopy_up (Suc dest) (Suc source) n (m(dest := m source))"

fun xcopy_down :: "nat \<Rightarrow> nat \<Rightarrow> nat \<Rightarrow> (nat \<Rightarrow> 'a) \<Rightarrow> (nat \<Rightarrow> 'a)" where
  "xcopy_down dest source 0 m = m"
| "xcopy_down dest source (Suc n) m = xcopy_down dest source n (m(dest + n := m (source + n)))"

definition xcopy :: "nat \<Rightarrow> nat \<Rightarrow> nat \<Rightarrow> (nat \<Rightarrow> 'a) \<Rightarrow> (nat \<Rightarrow> 'a)" where
  "xcopy dest source n m =
     (if source > dest then xcopy_up dest source n m
      else if source < dest then xcopy_down dest source n m
      else m)"

definition freeListRealloc :: "ptr \<Rightarrow> nat \<Rightarrow> nat \<Rightarrow> heap \<Rightarrow> mem_error + (ptr \<times> heap)" where
  "freeListRealloc pcMemPtr oldSize newSize h =
     (let old = (if oldSize = 0 then 1 else oldSize);
          new = (if newSize = 0 then 1 else newSize)
      in case freeListAlloc new h of
           (None, h1) \<Rightarrow> Inr (None, h1)
         | (Some q, h1) \<Rightarrow>
             (case freeListFree pcMemPtr old
                     (case pcMemPtr of
                        None \<Rightarrow> h1
                      | Some p \<Rightarrow> h1\<lparr>ram := xcopy q p (min new old) (ram h1)\<rparr>) of
                Inl e \<Rightarrow> Inl e
              | Inr h2 \<Rightarrow> Inr (Some q, h2)))"

text \<open>\<open>oldSizeInBlocks - newSizeInBlocks\<close> as it reaches a \<open>uint16_t\<close> field.\<close>

definition delta16 :: "nat \<Rightarrow> nat \<Rightarrow> nat" where
  "delta16 old new = nat ((int old - int new) mod 65536)"

fun reduce_logged :: "nat \<Rightarrow> nat \<Rightarrow> freeMemoryRegion list \<Rightarrow> freeMemoryRegion list" where
  "reduce_logged p d [] = []"
| "reduce_logged p d (r # rs) =
     (if blockAddress r = p then mk_region (blockAddress r) (sizeInBlocks r + 65536 - d) # rs
      else r # reduce_logged p d rs)"

definition freeListReduce :: "ptr \<Rightarrow> nat \<Rightarrow> nat \<Rightarrow> heap \<Rightarrow> mem_error + heap" where
  "freeListReduce pcMemPtr oldSize new h =
     (let old = (if oldSize = 0 then 1 else oldSize);
          p = TO_C47MEMPTR pcMemPtr;
          h1 = h\<lparr>allocatedMemoryRegions := reduce_logged p (delta16 old new) (allocatedMemoryRegions h)\<rparr>;
          rs = freeMemoryRegions h1;
          q = trunc16 (p + new)
      in case find_following (trunc16 (p + old)) rs 0 of
           Some i \<Rightarrow> Inr (h1\<lparr>freeMemoryRegions := rs[i := mk_region q (sizeInBlocks (rs ! i) + delta16 old new)]\<rparr>)
         | None \<Rightarrow>
             (case insert_region q (delta16 old new) rs of
                Inl e \<Rightarrow> Inl e
              | Inr rs' \<Rightarrow> Inr (h1\<lparr>freeMemoryRegions := rs'\<rparr>)))"

section \<open>The pool after a reset\<close>

text \<open>
  \<^verbatim>\<open>doFnReset\<close>: the reserved variables own the first 68 blocks (the last of them starts at block 64
  and is a \<^verbatim>\<open>real34\<close> of four blocks), the empty program owns the last block of RAM.
\<close>

abbreviation (input) RAM_SIZE_IN_BLOCKS :: nat where "RAM_SIZE_IN_BLOCKS \<equiv> 65534"
abbreviation (input) REAL34_SIZE_IN_BLOCKS :: nat where "REAL34_SIZE_IN_BLOCKS \<equiv> 4"
abbreviation (input) LAST_RESERVED_VARIABLE_BLOCK :: nat where "LAST_RESERVED_VARIABLE_BLOCK \<equiv> 64"

definition reset_heap :: heap where
  "reset_heap =
     (let a = LAST_RESERVED_VARIABLE_BLOCK + REAL34_SIZE_IN_BLOCKS in
      \<lparr>freeMemoryRegions = [\<lparr>blockAddress = a, sizeInBlocks = RAM_SIZE_IN_BLOCKS - a - 1\<rparr>],
       allocatedMemoryRegions = [],
       ram = (\<lambda>_. 0)\<rparr>)"

end
