(* ===== verification/Ownership.thy ===== *)
theory Ownership
  imports Prelude "HOL-Library.Multiset"
begin

text \<open>
  Ownership of memory.  A piece is a start block and a number of blocks; \<open>pieces_ok lim F M\<close> says
  that the pieces of the multiset \<open>M\<close> are not empty, end at most at \<open>lim\<close>, do not meet the free set
  \<open>F\<close> and do not meet each other.  The interface of a block allocator is a locale over it; the
  clients' ownership lemmas are proved once, inside the locale.
\<close>

section \<open>Pieces\<close>

type_synonym piece = "nat \<times> nat"

definition piece_set :: "piece \<Rightarrow> nat set" where
  "piece_set x = {fst x ..< fst x + snd x}"

definition pieces_ok :: "nat \<Rightarrow> nat set \<Rightarrow> piece multiset \<Rightarrow> bool" where
  "pieces_ok lim F M \<longleftrightarrow>
     (\<forall>x \<in># M. 0 < snd x \<and> fst x + snd x \<le> lim \<and> piece_set x \<inter> F = {}) \<and>
     (\<forall>x \<in># M. \<forall>y \<in># M - {#x#}. piece_set x \<inter> piece_set y = {})"

definition owned_set :: "piece multiset \<Rightarrow> nat set" where
  "owned_set M = (\<Union>x \<in> set_mset M. piece_set x)"

lemma piece_set_pair [simp]: "piece_set (p, n) = {p ..< p + n}"
  by (simp add: piece_set_def)

lemma owned_set_simps [simp]:
  "owned_set {#} = {}" "owned_set (add_mset x M) = piece_set x \<union> owned_set M"
  "owned_set (M + N) = owned_set M \<union> owned_set N"
  by (auto simp: owned_set_def)

lemma pieces_ok_empty [simp]: "pieces_ok lim F {#}"
  by (simp add: pieces_ok_def)

lemma pieces_ok_memD:
  "pieces_ok lim F M \<Longrightarrow> x \<in># M \<Longrightarrow> 0 < snd x \<and> fst x + snd x \<le> lim \<and> piece_set x \<inter> F = {}"
  unfolding pieces_ok_def by blast

lemma pieces_ok_pairD:
  "pieces_ok lim F M \<Longrightarrow> x \<in># M \<Longrightarrow> y \<in># M - {#x#} \<Longrightarrow> piece_set x \<inter> piece_set y = {}"
  unfolding pieces_ok_def by blast

lemma piece_subset_owned: "x \<in># M \<Longrightarrow> piece_set x \<subseteq> owned_set M"
  by (auto simp: owned_set_def)

lemma pieces_ok_add [simp]:
  "pieces_ok lim F (add_mset x M) \<longleftrightarrow>
     0 < snd x \<and> fst x + snd x \<le> lim \<and> piece_set x \<inter> F = {} \<and> piece_set x \<inter> owned_set M = {} \<and> pieces_ok lim F M"
  (is "?l \<longleftrightarrow> ?r")
proof
  assume l: ?l
  have own: "piece_set x \<inter> owned_set M = {}"
  proof -
    have "\<forall>y \<in># M. piece_set x \<inter> piece_set y = {}"
      using pieces_ok_pairD [OF l, of x] by simp
    then show ?thesis by (auto simp: owned_set_def)
  qed
  have "\<forall>z \<in># M. \<forall>y \<in># M - {#z#}. piece_set z \<inter> piece_set y = {}"
  proof (intro ballI)
    fix z y assume z: "z \<in># M" and y: "y \<in># M - {#z#}"
    then have "y \<in># add_mset x M - {#z#}"
      by (auto simp: in_diff_count)
    then show "piece_set z \<inter> piece_set y = {}"
      using z by (intro pieces_ok_pairD [OF l]) auto
  qed
  with l own show ?r by (auto simp: pieces_ok_def)
next
  assume r: ?r
  have "piece_set z \<inter> piece_set y = {}" if z: "z \<in># add_mset x M" and y: "y \<in># add_mset x M - {#z#}" for z y
  proof (cases "z = x")
    case True
    with y r show ?thesis by (auto simp: owned_set_def)
  next
    case False
    then have zM: "z \<in># M" using z by simp
    show ?thesis
    proof (cases "y = x")
      case True
      with zM r show ?thesis by (auto simp: owned_set_def)
    next
      case neq: False
      then have "y \<in># M - {#z#}" using y by (auto simp: in_diff_count)
      with zM r show ?thesis by (auto simp: pieces_ok_def)
    qed
  qed
  with r show ?l by (auto simp: pieces_ok_def)
qed

lemma pieces_ok_free_mono: "pieces_ok lim F M \<Longrightarrow> G \<subseteq> F \<Longrightarrow> pieces_ok lim G M"
  by (auto simp: pieces_ok_def)

lemma pieces_ok_disjoint: "pieces_ok lim F M \<Longrightarrow> owned_set M \<inter> F = {}"
  by (auto simp: pieces_ok_def owned_set_def)

lemma pieces_ok_free_Un: "pieces_ok lim F M \<Longrightarrow> G \<inter> owned_set M = {} \<Longrightarrow> pieces_ok lim (F \<union> G) M"
  by (fastforce simp: pieces_ok_def owned_set_def)

text \<open>Allocating a free piece and releasing an owned one keep the ownership discipline.\<close>

lemma pieces_ok_acquire:
  "pieces_ok lim F M \<Longrightarrow> 0 < n \<Longrightarrow> p + n \<le> lim \<Longrightarrow> {p ..< p + n} \<subseteq> F \<Longrightarrow>
   pieces_ok lim (F - {p ..< p + n}) (add_mset (p, n) M)"
  using pieces_ok_disjoint [of lim F M] by (auto intro: pieces_ok_free_mono)

lemma pieces_ok_release:
  "pieces_ok lim F (add_mset (p, n) M) \<Longrightarrow> pieces_ok lim (F \<union> {p ..< p + n}) M"
  by (auto intro!: pieces_ok_free_Un)

lemma pieces_ok_shrink:
  assumes "pieces_ok lim F (add_mset (p, n) M)" "0 < k" "k < n"
  shows "pieces_ok lim (F \<union> {p + k ..< p + n}) (add_mset (p, k) M)"
proof -
  have "{p ..< p + n} = {p ..< p + k} \<union> {p + k ..< p + n}" using assms(2,3) by auto
  with assms(1) have "({p ..< p + k} \<union> {p + k ..< p + n}) \<inter> F = {}"
    "({p ..< p + k} \<union> {p + k ..< p + n}) \<inter> owned_set M = {}" by auto
  then show ?thesis
    using assms by (auto simp: Int_Un_distrib Int_Un_distrib2 intro!: pieces_ok_free_Un)
qed

text \<open>Moving the end of the pool when everything above \<open>a\<close> is free.\<close>

lemma pieces_ok_top:
  assumes ok: "pieces_ok lim F M" and top: "{a ..< lim} \<subseteq> F"
  shows "pieces_ok a F M"
proof -
  have "fst x + snd x \<le> a" if x: "x \<in># M" for x
  proof (rule ccontr)
    assume "\<not> fst x + snd x \<le> a"
    with pieces_ok_memD [OF ok x] have "fst x + snd x - 1 \<in> {a ..< lim}" "fst x + snd x - 1 \<in> piece_set x"
      by (auto simp: piece_set_def)
    with pieces_ok_memD [OF ok x] top show False by blast
  qed
  with ok show ?thesis unfolding pieces_ok_def by blast
qed

lemma pieces_ok_extend:
  assumes ok: "pieces_ok a F M" and le: "a \<le> lim"
  shows "pieces_ok lim (F \<union> {a ..< lim}) M"
proof -
  have "piece_set x \<inter> {a ..< lim} = {} \<and> fst x + snd x \<le> lim" if x: "x \<in># M" for x
    using pieces_ok_memD [OF ok x] le by (auto simp: piece_set_def)
  with ok show ?thesis unfolding pieces_ok_def by blast
qed

section \<open>The interface of a block allocator\<close>

text \<open>
  \<open>balloc\<close> returns a piece of the free set or fails without an effect; \<open>bfree\<close> returns a piece to
  it or stops the program.  \<open>binv\<close> is the provider's invariant.
\<close>

locale block_allocator =
  fixes balloc :: "nat \<Rightarrow> 'h \<Rightarrow> nat option \<times> 'h"
    and bfree :: "nat option \<Rightarrow> nat \<Rightarrow> 'h \<Rightarrow> 'e + 'h"
    and fset :: "'h \<Rightarrow> nat set"
    and binv :: "'h \<Rightarrow> bool"
    and lim :: nat
  assumes fset_lim: "binv h \<Longrightarrow> a \<in> fset h \<Longrightarrow> a < lim"
    and balloc_Some: "binv h \<Longrightarrow> 0 < n \<Longrightarrow> balloc n h = (Some p, h') \<Longrightarrow>
          {p ..< p + n} \<subseteq> fset h \<and> fset h' = fset h - {p ..< p + n} \<and> binv h'"
    and balloc_None: "binv h \<Longrightarrow> 0 < n \<Longrightarrow> balloc n h = (None, h') \<Longrightarrow> h' = h"
    and bfree_Inr: "binv h \<Longrightarrow> 0 < n \<Longrightarrow> p + n \<le> lim \<Longrightarrow> {p ..< p + n} \<inter> fset h = {} \<Longrightarrow>
          bfree (Some p) n h = Inr h' \<Longrightarrow> fset h' = fset h \<union> {p ..< p + n} \<and> binv h'"
begin

lemma balloc_piece_lim:
  assumes "binv h" "0 < n" "balloc n h = (Some p, h')"
  shows "p + n \<le> lim"
proof -
  have "p + n - 1 \<in> fset h" using balloc_Some [OF assms] assms(2) by auto
  then have "p + n - 1 < lim" by (rule fset_lim [OF assms(1)])
  with assms(2) show ?thesis by simp
qed

lemma balloc_owned:
  assumes "binv h" "pieces_ok lim (fset h) M" "0 < n" "balloc n h = (Some p, h')"
  shows "binv h' \<and> pieces_ok lim (fset h') (add_mset (p, n) M)"
proof -
  have "p + n \<le> lim" using assms(1,3,4) by (rule balloc_piece_lim)
  moreover have "{p ..< p + n} \<subseteq> fset h" "fset h' = fset h - {p ..< p + n}" "binv h'"
    using balloc_Some [OF assms(1,3,4)] by auto
  ultimately show ?thesis
    using pieces_ok_acquire [OF assms(2,3)] by (simp only:)
qed

lemma bfree_owned:
  assumes "binv h" "pieces_ok lim (fset h) (add_mset (p, n) M)" "bfree (Some p) n h = Inr h'"
  shows "binv h' \<and> pieces_ok lim (fset h') M"
proof -
  from assms(2) have "0 < n" "p + n \<le> lim" "{p ..< p + n} \<inter> fset h = {}" by auto
  with assms show ?thesis
    using bfree_Inr [of h n p h'] pieces_ok_release [OF assms(2)] by simp
qed

text \<open>Replacing an owned piece: allocate the new one, then free the old one.\<close>

lemma replace_owned:
  assumes "binv h" "pieces_ok lim (fset h) (add_mset (p, n) M)" "0 < k"
    and "balloc k h = (Some q, h1)" "bfree (Some p) n h1 = Inr h2"
  shows "binv h2 \<and> pieces_ok lim (fset h2) (add_mset (q, k) M)"
proof -
  have "binv h1 \<and> pieces_ok lim (fset h1) (add_mset (q, k) (add_mset (p, n) M))"
    using assms(1-4) by (rule balloc_owned)
  then have "binv h1" "pieces_ok lim (fset h1) (add_mset (p, n) (add_mset (q, k) M))"
    by (simp_all add: add_mset_commute)
  then show ?thesis using assms(5) by (rule bfree_owned)
qed

text \<open>A fresh piece meets no owned one: no two owners of one block.\<close>

lemma balloc_fresh:
  assumes "binv h" "pieces_ok lim (fset h) M" "0 < n" "balloc n h = (Some p, h')"
  shows "{p ..< p + n} \<inter> owned_set M = {}"
  using balloc_owned [OF assms] by simp

end

end
