(* ===== verification/FreeListLaws.thy ===== *)
theory FreeListLaws
  imports FreeList Ownership
begin

text \<open>
  Laws of the block allocator.  A region list is well formed below \<open>lim\<close> when it is sorted,
  its regions are not empty, end at most at \<open>lim\<close> and never touch: the condition the code itself
  tests for in its overlap check.  \<open>blocks_of\<close> abstracts a region list to the set of its blocks.
\<close>

section \<open>Regions and their blocks\<close>

definition r_end :: "freeMemoryRegion \<Rightarrow> nat" where
  "r_end r = blockAddress r + sizeInBlocks r"

definition r_blocks :: "freeMemoryRegion \<Rightarrow> nat set" where
  "r_blocks r = {blockAddress r ..< r_end r}"

definition blocks_of :: "freeMemoryRegion list \<Rightarrow> nat set" where
  "blocks_of rs = (\<Union>r \<in> set rs. r_blocks r)"

definition regions_wf :: "nat \<Rightarrow> freeMemoryRegion list \<Rightarrow> bool" where
  "regions_wf lim rs \<longleftrightarrow>
     sorted_wrt (\<lambda>r s. r_end r < blockAddress s) rs \<and> list_all (\<lambda>r. 0 < sizeInBlocks r \<and> r_end r \<le> lim) rs"

lemma blocks_of_simps [simp]:
  "blocks_of [] = {}"
  "blocks_of (r # rs) = r_blocks r \<union> blocks_of rs"
  "blocks_of (xs @ ys) = blocks_of xs \<union> blocks_of ys"
  by (auto simp: blocks_of_def)

lemma mk_region_simps [simp]:
  "blockAddress (mk_region p n) = trunc16 p"
  "sizeInBlocks (mk_region p n) = trunc16 n"
  by (simp_all add: mk_region_def)

lemma r_end_mk_region [simp]: "r_end (mk_region p n) = trunc16 p + trunc16 n"
  by (simp add: r_end_def)

lemma region_eqI:
  fixes r s :: freeMemoryRegion
  shows "blockAddress r = blockAddress s \<Longrightarrow> sizeInBlocks r = sizeInBlocks s \<Longrightarrow> r = s"
  by (cases r; cases s) simp

lemma regions_wf_Nil [simp]: "regions_wf lim []"
  by (simp add: regions_wf_def)

lemma regions_wf_Cons [simp]:
  "regions_wf lim (r # rs) \<longleftrightarrow>
     0 < sizeInBlocks r \<and> r_end r \<le> lim \<and> (\<forall>s \<in> set rs. r_end r < blockAddress s) \<and> regions_wf lim rs"
  by (auto simp: regions_wf_def)

lemma regions_wf_append [simp]:
  "regions_wf lim (xs @ ys) \<longleftrightarrow>
     regions_wf lim xs \<and> regions_wf lim ys \<and> (\<forall>r \<in> set xs. \<forall>s \<in> set ys. r_end r < blockAddress s)"
  by (auto simp: regions_wf_def sorted_wrt_append)

lemma regions_wf_member:
  "regions_wf lim rs \<Longrightarrow> r \<in> set rs \<Longrightarrow> 0 < sizeInBlocks r \<and> blockAddress r < r_end r \<and> r_end r \<le> lim"
  by (auto simp: regions_wf_def list_all_iff r_end_def)

lemma blocks_of_below: "regions_wf lim rs \<Longrightarrow> a \<in> blocks_of rs \<Longrightarrow> a < lim"
  by (auto simp: blocks_of_def r_blocks_def dest: regions_wf_member)

lemma finite_blocks_of [simp]: "finite (blocks_of rs)"
  by (simp add: blocks_of_def r_blocks_def)

lemma blocks_of_ge:
  "(\<forall>s \<in> set rs. b < blockAddress s) \<Longrightarrow> a \<in> blocks_of rs \<Longrightarrow> b < a"
  by (fastforce simp: blocks_of_def r_blocks_def)

text \<open>The number of free blocks is the sum of the region sizes (\<^verbatim>\<open>getFreeRamMemory\<close> relies on it).\<close>

lemma card_blocks_of: "regions_wf lim rs \<Longrightarrow> card (blocks_of rs) = sum_list (map sizeInBlocks rs)"
proof (induction rs)
  case (Cons r rs)
  then have "r_blocks r \<inter> blocks_of rs = {}"
    by (fastforce simp: r_blocks_def dest: blocks_of_ge)
  with Cons show ?case
    by (simp add: card_Un_disjoint r_blocks_def r_end_def)
qed simp

text \<open>A set of blocks has one well-formed region list: coalescing leaves no choice.\<close>

lemma hd_region_unique:
  assumes xs: "regions_wf lim (r # xs)" and ys: "regions_wf lim (s # ys)"
    and eq: "blocks_of (r # xs) = blocks_of (s # ys)"
  shows "r = s"
proof -
  have min_r: "Min (blocks_of (r # xs)) = blockAddress r"
    using xs by (intro Min_eqI) (fastforce simp: r_blocks_def r_end_def dest: blocks_of_ge)+
  have min_s: "Min (blocks_of (s # ys)) = blockAddress s"
    using ys by (intro Min_eqI) (fastforce simp: r_blocks_def r_end_def dest: blocks_of_ge)+
  have addr: "blockAddress r = blockAddress s"
    using min_r min_s eq by simp
  have r_not: "r_end r \<notin> blocks_of (r # xs)"
    using xs by (auto simp: r_blocks_def dest: blocks_of_ge)
  have s_not: "r_end s \<notin> blocks_of (s # ys)"
    using ys by (auto simp: r_blocks_def dest: blocks_of_ge)
  have "\<not> r_end r < r_end s"
    using r_not addr eq xs by (auto simp: r_blocks_def r_end_def)
  moreover have "\<not> r_end s < r_end r"
    using s_not addr eq ys by (auto simp: r_blocks_def r_end_def)
  ultimately have "r_end r = r_end s" by simp
  with addr show ?thesis by (simp add: r_end_def)
qed

lemma regions_wf_unique:
  "regions_wf lim xs \<Longrightarrow> regions_wf lim ys \<Longrightarrow> blocks_of xs = blocks_of ys \<Longrightarrow> xs = ys"
proof (induction xs arbitrary: ys)
  case Nil
  then show ?case by (cases ys) (auto simp: r_blocks_def r_end_def)
next
  case (Cons r xs)
  then obtain s ys' where ys: "ys = s # ys'"
    by (cases ys) (auto simp: r_blocks_def r_end_def)
  with Cons.prems have rs: "r = s" by (auto intro: hd_region_unique)
  have "r_blocks r \<inter> blocks_of xs = {}" "r_blocks r \<inter> blocks_of ys' = {}"
    using Cons.prems ys rs by (fastforce simp: r_blocks_def dest: blocks_of_ge)+
  with Cons.prems(3) ys rs have "blocks_of xs = blocks_of ys'" by auto
  with Cons ys rs show ?case by simp
qed

section \<open>What the scanning loops find\<close>

text \<open>Each loop walks past a prefix it does not stop in.\<close>

lemma find_following_append:
  "\<forall>r \<in> set us. blockAddress r < a \<Longrightarrow>
   find_following a (us @ zs) k = find_following a zs (k + length us)"
  by (induction us arbitrary: k) auto

lemma find_following_None:
  "\<forall>r \<in> set zs. a < blockAddress r \<Longrightarrow> find_following a zs k = None"
  by (cases zs) auto

lemma find_preceding_append:
  "\<forall>r \<in> set us. r_end r < p \<Longrightarrow>
   find_preceding p (us @ zs) k = find_preceding p zs (k + length us)"
  by (induction us arbitrary: k) (auto simp: r_end_def)

lemma find_preceding_None:
  "\<forall>r \<in> set zs. p < r_end r \<Longrightarrow> find_preceding p zs k = None"
  by (cases zs) (auto simp: r_end_def)

lemma insertion_place_append:
  "\<forall>r \<in> set us. blockAddress r < p \<Longrightarrow> insertion_place p (us @ zs) k = insertion_place p zs (k + length us)"
  by (induction us arbitrary: k) auto

lemma insertion_place_stop:
  "\<forall>r \<in> set zs. p \<le> blockAddress r \<Longrightarrow> insertion_place p zs k = k"
  by (cases zs) auto

text \<open>Blocks that are not free split a well-formed list into what ends before and what starts after.\<close>

lemma regions_split:
  assumes "regions_wf lim rs" and "0 < n" and "{p ..< p + n} \<inter> blocks_of rs = {}"
  obtains us zs where "rs = us @ zs" "\<forall>r \<in> set us. r_end r \<le> p" "\<forall>r \<in> set zs. p + n \<le> blockAddress r"
proof -
  have "\<exists>us zs. rs = us @ zs \<and> (\<forall>r \<in> set us. r_end r \<le> p) \<and> (\<forall>r \<in> set zs. p + n \<le> blockAddress r)"
    using assms
  proof (induction rs)
    case (Cons r rs)
    have r: "0 < sizeInBlocks r" "\<forall>s \<in> set rs. r_end r < blockAddress s"
      and dis: "{p ..< p + n} \<inter> r_blocks r = {}"
      using Cons.prems by auto
    show ?case
    proof (cases "blockAddress r < p")
      case True
      have "r_end r \<le> p"
      proof (rule ccontr)
        assume "\<not> r_end r \<le> p"
        with True Cons.prems(2) have "p \<in> {p ..< p + n} \<inter> r_blocks r"
          by (simp add: r_blocks_def)
        with dis show False by simp
      qed
      moreover from Cons obtain us zs where
        "rs = us @ zs" "\<forall>r \<in> set us. r_end r \<le> p" "\<forall>r \<in> set zs. p + n \<le> blockAddress r"
        by auto
      ultimately show ?thesis by (intro exI [of _ "r # us"] exI [of _ zs]) auto
    next
      case False
      have "p + n \<le> blockAddress r"
      proof (rule ccontr)
        assume "\<not> p + n \<le> blockAddress r"
        with False r(1) have "blockAddress r \<in> {p ..< p + n} \<inter> r_blocks r"
          by (simp add: r_blocks_def r_end_def)
        with dis show False by simp
      qed
      moreover from this r(2) have "\<forall>s \<in> set rs. p + n \<le> blockAddress s"
        by (fastforce simp: r_end_def)
      ultimately show ?thesis by (intro exI [of _ "[]"] exI [of _ "r # rs"]) auto
    qed
  qed auto
  then show thesis using that by blast
qed

section \<open>The region list after a free\<close>

lemma nth_append_mid [simp]: "(xs @ y # ys) ! length xs = y"
  by simp

lemma nth_append_mid2 [simp]: "(xs @ y # z # zs) ! Suc (length xs) = z"
  by (induction xs) auto

lemma update_append_mid2 [simp]: "(xs @ y # z # zs)[Suc (length xs) := z'] = xs @ y # z' # zs"
  by (induction xs) auto

lemma free_region_between:
  assumes us: "\<forall>r \<in> set us. 0 < sizeInBlocks r \<and> r_end r < p"
    and zs: "\<forall>r \<in> set zs. 0 < sizeInBlocks r \<and> p + n < blockAddress r"
    and small: "p + n < 65536"
  shows "free_region p n (us @ zs) =
     (if length us + length zs = MAX_FREE_REGIONS then Inl TooManyFreeRegions
      else Inr (us @ mk_region p n # zs))"
proof -
  have "find_following (p + n) (us @ zs) 0 = None"
    using us zs by (subst find_following_append) (auto simp: find_following_None r_end_def)
  moreover have "\<forall>r \<in> set zs. p < r_end r"
    using zs by (auto simp: r_end_def)
  then have "find_preceding p (us @ zs) 0 = None"
    using us by (subst find_preceding_append) (simp_all add: find_preceding_None)
  moreover have "insertion_place p (us @ zs) 0 = length us"
  proof (subst insertion_place_append)
    show "\<forall>r \<in> set us. blockAddress r < p" using us by (auto simp: r_end_def)
    show "insertion_place p zs (0 + length us) = length us"
      using zs by (simp, intro insertion_place_stop) auto
  qed
  ultimately show ?thesis
    using small by (simp add: free_region_def insert_region_def Let_def)
qed

lemma free_region_before:
  assumes us: "\<forall>r \<in> set us. 0 < sizeInBlocks r \<and> r_end r < p"
    and z: "blockAddress z = p + n" "r_end z < 65536"
    and zs: "\<forall>r \<in> set zs. r_end z < blockAddress r" and n: "0 < n"
  shows "free_region p n (us @ z # zs) = Inr (us @ mk_region p (sizeInBlocks z + n) # zs)"
proof -
  have "find_following (p + n) (us @ z # zs) 0 = Some (length us)"
    using us z by (subst find_following_append) (auto simp: r_end_def)
  moreover have "find_preceding p (us @ mk_region p (sizeInBlocks z + n) # zs) 0 = None"
    using us z zs n by (subst find_preceding_append) (auto simp: r_end_def)
  ultimately show ?thesis
    using z by (simp add: free_region_def Let_def r_end_def)
qed

lemma free_region_after:
  assumes us: "\<forall>r \<in> set us. 0 < sizeInBlocks r \<and> r_end r < blockAddress q"
    and q: "r_end q = p" "0 < sizeInBlocks q"
    and zs: "\<forall>r \<in> set zs. p + n < blockAddress r" and small: "p + n < 65536"
  shows "free_region p n (us @ q # zs) = Inr (us @ mk_region (blockAddress q) (sizeInBlocks q + n) # zs)"
proof -
  have "find_following (p + n) (us @ q # zs) 0 = None"
    using us q zs by (subst find_following_append) (auto simp: find_following_None r_end_def)
  moreover have "find_preceding p (us @ q # zs) 0 = Some (length us)"
    using us q by (subst find_preceding_append) (auto simp: r_end_def)
  ultimately show ?thesis
    using small q by (simp add: free_region_def Let_def)
qed

lemma free_region_joining:
  assumes us: "\<forall>r \<in> set us. 0 < sizeInBlocks r \<and> r_end r < blockAddress q"
    and q: "r_end q = p" "0 < sizeInBlocks q"
    and z: "blockAddress z = p + n" "r_end z < 65536" and n: "0 < n"
  shows "free_region p n (us @ q # z # zs) =
     Inr (us @ mk_region (blockAddress q) (sizeInBlocks q + (sizeInBlocks z + n)) # zs)"
proof -
  have "find_following (p + n) (us @ q # z # zs) 0 = Some (Suc (length us))"
    using us q z n by (subst find_following_append) (auto simp: r_end_def)
  moreover have "find_preceding p (us @ q # mk_region p (sizeInBlocks z + n) # zs) 0 = Some (length us)"
    using us q by (subst find_preceding_append) (auto simp: r_end_def)
  ultimately show ?thesis
    using z by (simp add: free_region_def Let_def r_end_def list_update_append)
qed

text \<open>A free that touches no free region needs a fresh entry of the region table.\<close>

definition touches :: "nat \<Rightarrow> nat \<Rightarrow> freeMemoryRegion list \<Rightarrow> bool" where
  "touches p n rs \<longleftrightarrow> list_ex (\<lambda>r. r_end r = p \<or> blockAddress r = p + n) rs"

definition freed_ok :: "nat \<Rightarrow> nat \<Rightarrow> nat \<Rightarrow> freeMemoryRegion list \<Rightarrow> freeMemoryRegion list \<Rightarrow> bool" where
  "freed_ok lim p n rs rs' \<longleftrightarrow>
     regions_wf lim rs' \<and> blocks_of rs' = blocks_of rs \<union> {p ..< p + n} \<and>
     (length rs' \<le> length rs \<or> length rs' = Suc (length rs) \<and> length rs \<noteq> MAX_FREE_REGIONS)"

lemma free_region_cases:
  assumes wf: "regions_wf lim rs" and n: "0 < n" and lim: "p + n \<le> lim" "lim < 65536"
    and dis: "{p ..< p + n} \<inter> blocks_of rs = {}"
  shows "free_region p n rs = Inl TooManyFreeRegions \<and> length rs = MAX_FREE_REGIONS \<and> \<not> touches p n rs
       \<or> (\<exists>rs'. free_region p n rs = Inr rs' \<and> freed_ok lim p n rs rs')"
proof -
  obtain us zs where rs: "rs = us @ zs" and us: "\<forall>r \<in> set us. r_end r \<le> p"
    and zs: "\<forall>r \<in> set zs. p + n \<le> blockAddress r"
    using regions_split [OF wf n dis] by blast
  have us0: "\<forall>r \<in> set us. 0 < sizeInBlocks r" and zs0: "\<forall>r \<in> set zs. 0 < sizeInBlocks r \<and> r_end r \<le> lim"
    using wf rs by (auto dest: regions_wf_member)
  show ?thesis
  proof (cases "\<exists>q \<in> set us. r_end q = p")
    case True
    then obtain us1 q us2 where split: "us = us1 @ q # us2" "r_end q = p" by (auto dest: split_list)
    have "us2 = []" using split us wf rs us0 by (cases us2) (auto simp: r_end_def)
    with split rs have rs1: "rs = us1 @ q # zs" by simp
    show ?thesis
    proof (cases "\<exists>z \<in> set zs. blockAddress z = p + n")
      case True
      then obtain zs1 z zs2 where zsplit: "zs = zs1 @ z # zs2" "blockAddress z = p + n" by (auto dest: split_list)
      have "zs1 = []" using zsplit zs wf rs zs0 by (cases zs1) (auto simp: r_end_def)
      with zsplit rs1 have rs2: "rs = us1 @ q # z # zs2" by simp
      have "freed_ok lim p n rs (us1 @ mk_region (blockAddress q) (sizeInBlocks q + (sizeInBlocks z + n)) # zs2)"
        using wf rs2 split(2) zsplit(2) lim n by (auto simp: freed_ok_def r_blocks_def r_end_def)
      moreover have "free_region p n rs = Inr (us1 @ mk_region (blockAddress q) (sizeInBlocks q + (sizeInBlocks z + n)) # zs2)"
        unfolding rs2 using wf rs2 split(2) zsplit(2) lim n
        by (intro free_region_joining) (auto dest: regions_wf_member)
      ultimately show ?thesis by blast
    next
      case False
      with zs have zs': "\<forall>r \<in> set zs. p + n < blockAddress r" by (metis le_neq_implies_less)
      have "freed_ok lim p n rs (us1 @ mk_region (blockAddress q) (sizeInBlocks q + n) # zs)"
        using wf rs1 split(2) zs' lim n by (auto simp: freed_ok_def r_blocks_def r_end_def)
      moreover have "free_region p n rs = Inr (us1 @ mk_region (blockAddress q) (sizeInBlocks q + n) # zs)"
        unfolding rs1 using wf rs1 split(2) zs' lim
        by (intro free_region_after) (auto dest: regions_wf_member)
      ultimately show ?thesis by blast
    qed
  next
    case False
    with us us0 have us': "\<forall>r \<in> set us. 0 < sizeInBlocks r \<and> r_end r < p" by (auto simp: le_less)
    show ?thesis
    proof (cases "\<exists>z \<in> set zs. blockAddress z = p + n")
      case True
      then obtain zs1 z zs2 where zsplit: "zs = zs1 @ z # zs2" "blockAddress z = p + n" by (auto dest: split_list)
      have "zs1 = []" using zsplit zs wf rs zs0 by (cases zs1) (auto simp: r_end_def)
      with zsplit rs have rs2: "rs = us @ z # zs2" by simp
      have "freed_ok lim p n rs (us @ mk_region p (sizeInBlocks z + n) # zs2)"
        using wf rs2 us' zsplit(2) lim n by (auto simp: freed_ok_def r_blocks_def r_end_def)
      moreover have "free_region p n rs = Inr (us @ mk_region p (sizeInBlocks z + n) # zs2)"
        unfolding rs2 using wf rs2 us' zsplit(2) lim n
        by (intro free_region_before) (auto dest: regions_wf_member)
      ultimately show ?thesis by blast
    next
      case no: False
      with zs zs0 have zs': "\<forall>r \<in> set zs. 0 < sizeInBlocks r \<and> p + n < blockAddress r" by (metis le_neq_implies_less)
      have eq: "free_region p n rs =
          (if length us + length zs = MAX_FREE_REGIONS then Inl TooManyFreeRegions else Inr (us @ mk_region p n # zs))"
        unfolding rs using us' zs' lim by (intro free_region_between) auto
      have "length rs \<noteq> MAX_FREE_REGIONS \<Longrightarrow> freed_ok lim p n rs (us @ mk_region p n # zs)"
        using wf rs us' zs' lim n by (auto simp: freed_ok_def r_blocks_def r_end_def)
      moreover have "\<not> touches p n rs"
        using rs us' zs' n by (auto simp: touches_def list_ex_iff r_end_def)
      ultimately show ?thesis using eq rs by auto
    qed
  qed
qed

section \<open>The search for a hole\<close>

lemma search_hole_ExactFit:
  "search_hole n rs k m b = ExactFit i \<Longrightarrow> k \<le> i \<and> i < k + length rs \<and> sizeInBlocks (rs ! (i - k)) = n"
proof (induction n rs k m b rule: search_hole.induct)
  case (2 n r rs k m b)
  then show ?case
    by (cases "sizeInBlocks r = n"; cases "sizeInBlocks r > n \<and> sizeInBlocks r < m") (auto simp: nth_Cons')
qed simp

lemma search_hole_no_exact:
  "search_hole n rs k m b = MinBlock i \<Longrightarrow> r \<in> set rs \<Longrightarrow> sizeInBlocks r \<noteq> n"
  by (induction n rs k m b rule: search_hole.induct) (auto split: if_splits)

text \<open>
  The region chosen without an exact fit: either none of the remaining ones improves on the
  one carried along, or it is a region of the list, large enough and at most as large as every
  other large enough one.
\<close>

lemma search_hole_MinBlock:
  "search_hole n rs k m b = MinBlock i \<Longrightarrow>
   i = b \<and> (\<forall>r \<in> set rs. n < sizeInBlocks r \<longrightarrow> m \<le> sizeInBlocks r) \<or>
   k \<le> i \<and> i < k + length rs \<and> n < sizeInBlocks (rs ! (i - k)) \<and> sizeInBlocks (rs ! (i - k)) < m \<and>
   (\<forall>r \<in> set rs. n < sizeInBlocks r \<longrightarrow> sizeInBlocks (rs ! (i - k)) \<le> sizeInBlocks r)"
proof (induction n rs k m b rule: search_hole.induct)
  case (2 n r rs k m b)
  then have ne: "sizeInBlocks r \<noteq> n" by (auto split: if_splits)
  show ?case
  proof (cases "sizeInBlocks r > n \<and> sizeInBlocks r < m")
    case True
    from 2 ne True have "search_hole n rs (Suc k) (sizeInBlocks r) k = MinBlock i" by simp
    note IH = "2.IH"(1) [OF ne True this]
    show ?thesis using IH True by (auto simp: nth_Cons')
  next
    case False
    from 2 ne False have "search_hole n rs (Suc k) m b = MinBlock i" by simp
    note IH = "2.IH"(2) [OF ne False this]
    show ?thesis using IH False ne by (auto simp: nth_Cons')
  qed
qed simp

definition alloc_size :: "nat \<Rightarrow> nat" where
  "alloc_size n = (if n = 0 then 1 else n)"

lemma alloc_size_pos [simp]: "0 < alloc_size n"
  by (simp add: alloc_size_def)

lemma alloc_size_id [simp]: "0 < n \<Longrightarrow> alloc_size n = n"
  by (simp add: alloc_size_def)

lemma log_allocation_frees [simp]:
  "freeMemoryRegions (log_allocation p n h) = freeMemoryRegions h" "ram (log_allocation p n h) = ram h"
  by (simp_all add: log_allocation_def)

text \<open>Where an allocation succeeds it takes the front of one region; it fails only when all are too small.\<close>

definition alloc_cut :: "nat \<Rightarrow> freeMemoryRegion \<Rightarrow> freeMemoryRegion list" where
  "alloc_cut n r = (if sizeInBlocks r = n then [] else [mk_region (blockAddress r + n) (sizeInBlocks r - n)])"

lemma freeListAlloc_cases:
  assumes wf: "regions_wf lim (freeMemoryRegions h)" and lim: "lim < C47_NULL"
    and len: "length (freeMemoryRegions h) < C47_NULL" and n: "n = alloc_size req"
  obtains (fail) "freeListAlloc req h = (None, h)" "\<forall>r \<in> set (freeMemoryRegions h). sizeInBlocks r < n"
  | (ok) us r vs where "freeMemoryRegions h = us @ r # vs" "n \<le> sizeInBlocks r"
      "freeListAlloc req h = (Some (blockAddress r),
         log_allocation (Some (blockAddress r)) n (h\<lparr>freeMemoryRegions := us @ alloc_cut n r @ vs\<rparr>))"
      "\<forall>s \<in> set us \<union> set vs. n \<le> sizeInBlocks s \<longrightarrow> sizeInBlocks r \<le> sizeInBlocks s"
proof -
  let ?rs = "freeMemoryRegions h"
  have ptr: "TO_PCMEMPTR (blockAddress r) = Some (blockAddress r)" if "r \<in> set ?rs" for r
    using regions_wf_member [OF wf that] lim by (simp add: TO_PCMEMPTR_def)
  show thesis
  proof (cases "search_hole n ?rs 0 65535 C47_NULL")
    case (ExactFit i)
    then have i: "i < length ?rs" "sizeInBlocks (?rs ! i) = n" by (auto dest: search_hole_ExactFit)
    have dec: "?rs = take i ?rs @ ?rs ! i # drop (Suc i) ?rs" by (rule id_take_nth_drop [OF i(1)])
    have eq: "freeListAlloc req h = (Some (blockAddress (?rs ! i)),
         log_allocation (Some (blockAddress (?rs ! i))) n
           (h\<lparr>freeMemoryRegions := take i ?rs @ alloc_cut n (?rs ! i) @ drop (Suc i) ?rs\<rparr>))"
      using ExactFit i ptr n by (simp add: freeListAlloc_def alloc_size_def alloc_cut_def Let_def)
    show thesis by (rule ok [OF dec _ eq]) (simp_all add: i)
  next
    case (MinBlock b)
    show thesis
    proof (cases "b = C47_NULL")
      case True
      have "sizeInBlocks r < n" if r: "r \<in> set ?rs" for r
      proof -
        have "sizeInBlocks r < C47_NULL"
          using regions_wf_member [OF wf r] lim by (simp add: r_end_def)
        then have "\<not> n < sizeInBlocks r"
          using search_hole_MinBlock [OF MinBlock] len True r by auto
        then show ?thesis using search_hole_no_exact [OF MinBlock r] by simp
      qed
      with True MinBlock n show thesis
        by (intro fail) (auto simp: freeListAlloc_def alloc_size_def Let_def)
    next
      case False
      with search_hole_MinBlock [OF MinBlock]
      have b: "b < length ?rs" "n < sizeInBlocks (?rs ! b)"
        and best: "\<forall>s \<in> set ?rs. n < sizeInBlocks s \<longrightarrow> sizeInBlocks (?rs ! b) \<le> sizeInBlocks s"
        by auto
      have dec: "?rs = take b ?rs @ ?rs ! b # drop (Suc b) ?rs" by (rule id_take_nth_drop [OF b(1)])
      have best': "\<forall>s \<in> set (take b ?rs) \<union> set (drop (Suc b) ?rs). n \<le> sizeInBlocks s \<longrightarrow> sizeInBlocks (?rs ! b) \<le> sizeInBlocks s"
      proof (intro ballI impI)
        fix s assume "s \<in> set (take b ?rs) \<union> set (drop (Suc b) ?rs)" and le: "n \<le> sizeInBlocks s"
        then have s: "s \<in> set ?rs" by (auto dest: in_set_takeD in_set_dropD)
        with le search_hole_no_exact [OF MinBlock s] have "n < sizeInBlocks s" by simp
        with best s show "sizeInBlocks (?rs ! b) \<le> sizeInBlocks s" by blast
      qed
      have "freeListAlloc req h = (Some (blockAddress (?rs ! b)),
         log_allocation (Some (blockAddress (?rs ! b))) n
           (h\<lparr>freeMemoryRegions := take b ?rs @ alloc_cut n (?rs ! b) @ drop (Suc b) ?rs\<rparr>))"
        using False MinBlock b n ptr [OF nth_mem [OF b(1)]]
        by (simp add: freeListAlloc_def alloc_size_def alloc_cut_def Let_def upd_conv_take_nth_drop [OF b(1)])
      then show thesis by (rule ok [OF dec less_imp_le [OF b(2)] _ best'])
    qed
  qed
qed

section \<open>The allocator's invariant and its interface\<close>

definition free_blocks :: "heap \<Rightarrow> nat set" where
  "free_blocks h = blocks_of (freeMemoryRegions h)"

definition fl_inv :: "nat \<Rightarrow> heap \<Rightarrow> bool" where
  "fl_inv lim h \<longleftrightarrow> lim < C47_NULL \<and> regions_wf lim (freeMemoryRegions h) \<and>
     length (freeMemoryRegions h) \<le> MAX_FREE_REGIONS"

lemma fl_inv_cong:
  "freeMemoryRegions h' = freeMemoryRegions h \<Longrightarrow> fl_inv lim h' = fl_inv lim h"
  by (simp add: fl_inv_def)

lemma free_blocks_log [simp]: "free_blocks (log_allocation p n h) = free_blocks h"
  by (simp add: free_blocks_def)

lemma fl_inv_log [simp]: "fl_inv lim (log_allocation p n h) = fl_inv lim h"
  by (simp add: fl_inv_def)

lemma alloc_cut_blocks:
  assumes "n \<le> sizeInBlocks r" "r_end r < 65536"
  shows "blocks_of (alloc_cut n r) = {blockAddress r + n ..< r_end r}"
  using assms by (auto simp: alloc_cut_def r_blocks_def r_end_def)

lemma alloc_cut_wf:
  assumes "0 < n" "n \<le> sizeInBlocks r" "r_end r \<le> lim" "lim < 65536"
  shows "regions_wf lim (alloc_cut n r)"
    and "s \<in> set (alloc_cut n r) \<Longrightarrow> r_end s = r_end r \<and> blockAddress r < blockAddress s"
    and "length (alloc_cut n r) \<le> 1"
  using assms by (auto simp: alloc_cut_def r_end_def split: if_splits)

text \<open>Cutting \<open>n\<close> blocks off the front of one region.\<close>

lemma cut_region:
  assumes wf: "regions_wf lim (us @ r # vs)" and lim: "lim < 65536" and n: "0 < n" "n \<le> sizeInBlocks r"
  defines "p \<equiv> blockAddress r"
  shows "regions_wf lim (us @ alloc_cut n r @ vs)"
    and "blocks_of (us @ alloc_cut n r @ vs) = blocks_of (us @ r # vs) - {p ..< p + n}"
    and "{p ..< p + n} \<subseteq> blocks_of (us @ r # vs)"
proof -
  have r: "r_end r \<le> lim" "\<forall>s \<in> set us. r_end s < blockAddress r" "\<forall>s \<in> set vs. r_end r < blockAddress s"
    and ends: "\<forall>s \<in> set us \<union> set vs. blockAddress s < r_end s"
    using wf by (auto dest: regions_wf_member)
  note cut = alloc_cut_wf [OF n r(1) lim]
  show "regions_wf lim (us @ alloc_cut n r @ vs)"
    using wf cut by (fastforce dest: cut(2))
  have "blocks_of us \<inter> {p ..< p + n} = {}"
    using r by (fastforce simp: blocks_of_def r_blocks_def p_def)
  moreover have "blocks_of vs \<inter> {p ..< p + n} = {}"
    using r n by (fastforce simp: blocks_of_def r_blocks_def p_def r_end_def)
  moreover have "blocks_of (alloc_cut n r) = r_blocks r - {p ..< p + n}"
    using alloc_cut_blocks [OF n(2)] r lim n by (auto simp: r_blocks_def p_def r_end_def)
  ultimately show "blocks_of (us @ alloc_cut n r @ vs) = blocks_of (us @ r # vs) - {p ..< p + n}"
    by auto
  show "{p ..< p + n} \<subseteq> blocks_of (us @ r # vs)"
    using n by (auto simp: r_blocks_def r_end_def p_def)
qed

lemma freeListAlloc_Some:
  assumes inv: "fl_inv lim h" and a: "freeListAlloc req h = (Some p, h')" and n: "n = alloc_size req"
  shows "{p ..< p + n} \<subseteq> free_blocks h \<and> free_blocks h' = free_blocks h - {p ..< p + n} \<and> fl_inv lim h' \<and>
    h' = log_allocation (Some p) n (h\<lparr>freeMemoryRegions := freeMemoryRegions h'\<rparr>)"
proof -
  have wf: "regions_wf lim (freeMemoryRegions h)" and lim: "lim < C47_NULL"
    and len: "length (freeMemoryRegions h) \<le> MAX_FREE_REGIONS" using inv by (auto simp: fl_inv_def)
  from wf lim _ n show ?thesis
  proof (rule freeListAlloc_cases)
    show "length (freeMemoryRegions h) < C47_NULL" using len by simp
  next
    assume "freeListAlloc req h = (None, h)"
    with a show ?thesis by simp
  next
    fix us r vs assume dec: "freeMemoryRegions h = us @ r # vs" and le: "n \<le> sizeInBlocks r"
      and eq: "freeListAlloc req h = (Some (blockAddress r),
         log_allocation (Some (blockAddress r)) n (h\<lparr>freeMemoryRegions := us @ alloc_cut n r @ vs\<rparr>))"
    note cut = cut_region [OF wf [unfolded dec] _ _ le]
    have r: "r_end r \<le> lim" using wf dec by simp
    have "length (alloc_cut n r) \<le> 1" by (simp add: alloc_cut_def)
    moreover have "0 < n" using n by simp
    ultimately show ?thesis
      using a eq cut lim len unfolding fl_inv_def free_blocks_def by (auto simp: dec)
  qed
qed

lemma freeListAlloc_None:
  assumes inv: "fl_inv lim h" and a: "freeListAlloc req h = (None, h')"
  shows "h' = h \<and> (\<forall>r \<in> set (freeMemoryRegions h). sizeInBlocks r < alloc_size req)"
proof -
  have wf: "regions_wf lim (freeMemoryRegions h)" and lim: "lim < C47_NULL"
    and len: "length (freeMemoryRegions h) < C47_NULL" using inv by (auto simp: fl_inv_def)
  from wf lim len refl [of "alloc_size req"] show ?thesis
    by (rule freeListAlloc_cases) (use a in auto)
qed

lemma freeListFree_cases:
  assumes inv: "fl_inv lim h" and n: "0 < n" and lim: "p + n \<le> lim"
    and dis: "{p ..< p + n} \<inter> free_blocks h = {}"
  obtains (full) "freeListFree (Some p) n h = Inl TooManyFreeRegions"
      "length (freeMemoryRegions h) = MAX_FREE_REGIONS" "\<not> touches p n (freeMemoryRegions h)"
  | (ok) rs where "freeListFree (Some p) n h = Inr (h\<lparr>freeMemoryRegions := rs,
         allocatedMemoryRegions := unlog_allocation p (allocatedMemoryRegions h)\<rparr>)"
      "freed_ok lim p n (freeMemoryRegions h) rs"
proof -
  have p: "TO_C47MEMPTR (Some p) = p" using inv lim by (simp add: TO_C47MEMPTR_def fl_inv_def)
  have "free_region p n (freeMemoryRegions h) = Inl TooManyFreeRegions \<and>
      length (freeMemoryRegions h) = MAX_FREE_REGIONS \<and> \<not> touches p n (freeMemoryRegions h)
     \<or> (\<exists>rs. free_region p n (freeMemoryRegions h) = Inr rs \<and> freed_ok lim p n (freeMemoryRegions h) rs)"
    using inv n lim dis by (intro free_region_cases) (auto simp: fl_inv_def free_blocks_def)
  then show thesis
  proof (elim disjE conjE exE)
    assume "free_region p n (freeMemoryRegions h) = Inl TooManyFreeRegions"
      "length (freeMemoryRegions h) = MAX_FREE_REGIONS" "\<not> touches p n (freeMemoryRegions h)"
    with n p show thesis by (intro full) (simp_all add: freeListFree_def Let_def)
  next
    fix rs assume "free_region p n (freeMemoryRegions h) = Inr rs" "freed_ok lim p n (freeMemoryRegions h) rs"
    with n p show thesis by (intro ok) (simp_all add: freeListFree_def Let_def)
  qed
qed

lemma freed_ok_inv:
  "fl_inv lim h \<Longrightarrow> freed_ok lim p n (freeMemoryRegions h) rs \<Longrightarrow>
   freeMemoryRegions h' = rs \<Longrightarrow> fl_inv lim h' \<and> free_blocks h' = free_blocks h \<union> {p ..< p + n}"
  by (auto simp: fl_inv_def freed_ok_def free_blocks_def)

lemma freeListFree_Inr:
  assumes "fl_inv lim h" "0 < n" "p + n \<le> lim" "{p ..< p + n} \<inter> free_blocks h = {}"
    and r: "freeListFree (Some p) n h = Inr h'"
  shows "free_blocks h' = free_blocks h \<union> {p ..< p + n} \<and> fl_inv lim h' \<and>
    h' = h\<lparr>freeMemoryRegions := freeMemoryRegions h',
           allocatedMemoryRegions := unlog_allocation p (allocatedMemoryRegions h)\<rparr>"
  using assms(1-4)
proof (cases rule: freeListFree_cases)
  case full
  with r show ?thesis by simp
next
  case (ok rs)
  with r have h': "h' = h\<lparr>freeMemoryRegions := rs,
         allocatedMemoryRegions := unlog_allocation p (allocatedMemoryRegions h)\<rparr>" by simp
  with freed_ok_inv [OF assms(1) ok(2), of h'] show ?thesis by simp
qed

interpretation free_list: block_allocator freeListAlloc freeListFree free_blocks "fl_inv lim" lim for lim
proof
  show "\<And>h a. fl_inv lim h \<Longrightarrow> a \<in> free_blocks h \<Longrightarrow> a < lim"
    by (auto simp: fl_inv_def free_blocks_def dest: blocks_of_below)
  show "\<And>h n p h'. fl_inv lim h \<Longrightarrow> 0 < n \<Longrightarrow> freeListAlloc n h = (Some p, h') \<Longrightarrow>
       {p ..< p + n} \<subseteq> free_blocks h \<and> free_blocks h' = free_blocks h - {p ..< p + n} \<and> fl_inv lim h'"
    using freeListAlloc_Some by fastforce
  show "\<And>h n h'. fl_inv lim h \<Longrightarrow> 0 < n \<Longrightarrow> freeListAlloc n h = (None, h') \<Longrightarrow> h' = h"
    using freeListAlloc_None by blast
  show "\<And>h n p h'. fl_inv lim h \<Longrightarrow> 0 < n \<Longrightarrow> p + n \<le> lim \<Longrightarrow> {p ..< p + n} \<inter> free_blocks h = {} \<Longrightarrow>
       freeListFree (Some p) n h = Inr h' \<Longrightarrow> free_blocks h' = free_blocks h \<union> {p ..< p + n} \<and> fl_inv lim h'"
    using freeListFree_Inr by blast
qed

section \<open>The log of live allocations\<close>

definition r_piece :: "freeMemoryRegion \<Rightarrow> piece" where
  "r_piece r = (blockAddress r, sizeInBlocks r)"

definition live :: "heap \<Rightarrow> piece multiset" where
  "live h = mset (map r_piece (allocatedMemoryRegions h))"

text \<open>The live allocations and the free regions are disjoint pieces of the pool below \<open>lim\<close>.\<close>

definition heap_inv :: "nat \<Rightarrow> heap \<Rightarrow> bool" where
  "heap_inv lim h \<longleftrightarrow> fl_inv lim h \<and> pieces_ok lim (free_blocks h) (live h)"

lemma live_log:
  assumes "length (allocatedMemoryRegions h) < MAX_ALLOCATED_REGIONS" "p + n < 65536"
  shows "live (log_allocation (Some p) n h) = add_mset (p, n) (live h)"
  using assms by (simp add: live_def log_allocation_def r_piece_def mk_region_def TO_C47MEMPTR_def)

lemma live_cong: "allocatedMemoryRegions h' = allocatedMemoryRegions h \<Longrightarrow> live h' = live h"
  by (simp add: live_def)

lemma unlog_allocation_live:
  assumes "pieces_ok lim F (mset (map r_piece rs))" "(p, n) \<in># mset (map r_piece rs)"
  shows "mset (map r_piece (unlog_allocation p rs)) = mset (map r_piece rs) - {#(p, n)#}"
  using assms
proof (induction rs)
  case (Cons r rs)
  have r: "0 < sizeInBlocks r" "piece_set (r_piece r) \<inter> owned_set (mset (map r_piece rs)) = {}"
    and ok: "pieces_ok lim F (mset (map r_piece rs))"
    using Cons.prems(1) by simp_all (simp add: r_piece_def)
  show ?case
  proof (cases "blockAddress r = p")
    case True
    have "r_piece r = (p, n)"
    proof (rule ccontr)
      assume ne: "r_piece r \<noteq> (p, n)"
      with Cons.prems(2) have mem: "(p, n) \<in># mset (map r_piece rs)" by auto
      have "0 < n" using pieces_ok_memD [OF ok mem] by simp
      with piece_subset_owned [OF mem] have "p \<in> owned_set (mset (map r_piece rs))" by auto
      moreover have "p \<in> piece_set (r_piece r)" using True r(1) by (simp add: r_piece_def)
      ultimately show False using r(2) by blast
    qed
    with True show ?thesis by simp
  next
    case False
    with Cons.prems(2) have mem: "(p, n) \<in># mset (map r_piece rs)" by (auto simp: r_piece_def)
    have "r_piece r \<noteq> (p, n)" using False by (simp add: r_piece_def)
    with False Cons.IH [OF ok mem] show ?thesis by simp
  qed
qed simp

text \<open>Allocation and release keep the heap invariant and the log says exactly what is live.\<close>

lemma freeListAlloc_heap:
  assumes inv: "heap_inv lim h" and room: "length (allocatedMemoryRegions h) < MAX_ALLOCATED_REGIONS"
    and a: "freeListAlloc req h = (Some p, h')" and n: "n = alloc_size req"
  shows "heap_inv lim h'" and "live h' = add_mset (p, n) (live h)" and "ram h' = ram h"
    and "{p ..< p + n} \<subseteq> free_blocks h" and "free_blocks h' = free_blocks h - {p ..< p + n}" and "p + n \<le> lim"
proof -
  have fl: "fl_inv lim h" and lim: "lim < C47_NULL" and ok: "pieces_ok lim (free_blocks h) (live h)"
    using inv by (auto simp: heap_inv_def fl_inv_def)
  have pos: "0 < n" using n by simp
  have a': "freeListAlloc n h = (Some p, h')" using a n by (cases "req = 0") (simp_all add: freeListAlloc_def alloc_size_def)
  note s = freeListAlloc_Some [OF fl a n]
  show "p + n \<le> lim" by (rule free_list.balloc_piece_lim [OF fl pos a'])
  then have "live (log_allocation (Some p) n (h\<lparr>freeMemoryRegions := freeMemoryRegions h'\<rparr>)) = add_mset (p, n) (live h)"
    using live_log [of "h\<lparr>freeMemoryRegions := freeMemoryRegions h'\<rparr>" p n] room lim
    by (simp add: live_def)
  with s show l: "live h' = add_mset (p, n) (live h)" by metis
  from s show "ram h' = ram h" by (metis heap.select_convs(3) heap.surjective heap.update_convs(1) log_allocation_frees(2))
  from s show "{p ..< p + n} \<subseteq> free_blocks h" "free_blocks h' = free_blocks h - {p ..< p + n}" by auto
  show "heap_inv lim h'"
    using free_list.balloc_owned [OF fl ok pos a'] l by (simp add: heap_inv_def)
qed

lemma freeListFree_heap:
  assumes inv: "heap_inv lim h" and mem: "(p, n) \<in># live h" and r: "freeListFree (Some p) n h = Inr h'"
  shows "heap_inv lim h'" and "live h' = live h - {#(p, n)#}" and "ram h' = ram h"
    and "free_blocks h' = free_blocks h \<union> {p ..< p + n}"
proof -
  have fl: "fl_inv lim h" and ok: "pieces_ok lim (free_blocks h) (live h)"
    using inv by (auto simp: heap_inv_def)
  obtain M where M: "live h = add_mset (p, n) M" using mem by (blast dest: multi_member_split)
  with ok have b: "0 < n" "p + n \<le> lim" "{p ..< p + n} \<inter> free_blocks h = {}" by auto
  note s = freeListFree_Inr [OF fl b r]
  have "allocatedMemoryRegions h' = unlog_allocation p (allocatedMemoryRegions h)" "ram h' = ram h"
    using s by (metis heap.select_convs heap.surjective heap.update_convs)+
  then show l: "live h' = live h - {#(p, n)#}" and "ram h' = ram h"
    using unlog_allocation_live [of lim "free_blocks h" "allocatedMemoryRegions h" p n] ok mem by (simp_all add: live_def)
  from s show "free_blocks h' = free_blocks h \<union> {p ..< p + n}" by simp
  show "heap_inv lim h'"
    using free_list.bfree_owned [OF fl ok [unfolded M] r] l M by (simp add: heap_inv_def)
qed

end
