(* ===== verification/FreeListProps.thy ===== *)
theory FreeListProps
  imports FreeListLaws
begin

text \<open>
  Properties of the block allocator of \<^verbatim>\<open>core/freeList.c\<close>: what each entry point does to the free
  set and to the pieces the callers own, the round trip of an allocation and its release, the data
  a reallocation keeps, and the invariant of every heap reachable from the one after a reset.
  \<open>pool_ok lim h M\<close> relates a heap to the multiset \<open>M\<close> of the pieces its callers own.
\<close>

definition pool_ok :: "nat \<Rightarrow> heap \<Rightarrow> piece multiset \<Rightarrow> bool" where
  "pool_ok lim h M \<longleftrightarrow> fl_inv lim h \<and> pieces_ok lim (free_blocks h) M"

lemma heap_inv_pool_ok: "heap_inv lim h = pool_ok lim h (live h)"
  by (simp add: heap_inv_def pool_ok_def)

section \<open>Allocation and release on pools\<close>

lemma freeListAlloc_size: "freeListAlloc (alloc_size req) h = freeListAlloc req h"
  by (cases "req = 0") (simp_all add: freeListAlloc_def alloc_size_def)

lemma pool_alloc:
  assumes ok: "pool_ok lim h M" and a: "freeListAlloc req h = (Some p, h')"
  shows "pool_ok lim h' (add_mset (p, alloc_size req) M)"
    and "{p ..< p + alloc_size req} \<subseteq> free_blocks h"
    and "free_blocks h' = free_blocks h - {p ..< p + alloc_size req}"
    and "ram h' = ram h" and "p + alloc_size req \<le> lim"
proof -
  have fl: "fl_inv lim h" and pc: "pieces_ok lim (free_blocks h) M" using ok by (auto simp: pool_ok_def)
  have a': "freeListAlloc (alloc_size req) h = (Some p, h')" using a by (simp add: freeListAlloc_size)
  note s = freeListAlloc_Some [OF fl a refl]
  from s show "{p ..< p + alloc_size req} \<subseteq> free_blocks h"
    and "free_blocks h' = free_blocks h - {p ..< p + alloc_size req}" by auto
  from s show "ram h' = ram h"
    by (metis heap.select_convs(3) heap.surjective heap.update_convs(1) log_allocation_frees(2))
  show "pool_ok lim h' (add_mset (p, alloc_size req) M)"
    using free_list.balloc_owned [OF fl pc alloc_size_pos a'] by (simp add: pool_ok_def)
  show "p + alloc_size req \<le> lim"
    using free_list.balloc_piece_lim [OF fl alloc_size_pos a'] .
qed

lemma pool_member:
  "pool_ok lim h M \<Longrightarrow> (p, n) \<in># M \<Longrightarrow> 0 < n \<and> p + n \<le> lim \<and> {p ..< p + n} \<inter> free_blocks h = {}"
  unfolding pool_ok_def by (metis pieces_ok_memD piece_set_pair fst_conv snd_conv)

lemma pool_free:
  assumes ok: "pool_ok lim h M" and mem: "(p, n) \<in># M" and f: "freeListFree (Some p) n h = Inr h'"
  shows "pool_ok lim h' (M - {#(p, n)#})" and "free_blocks h' = free_blocks h \<union> {p ..< p + n}"
    and "ram h' = ram h"
proof -
  have fl: "fl_inv lim h" using ok by (simp add: pool_ok_def)
  obtain N where N: "M = add_mset (p, n) N" using mem by (blast dest: multi_member_split)
  have pc: "pieces_ok lim (free_blocks h) (add_mset (p, n) N)" using ok N by (simp add: pool_ok_def)
  from pool_member [OF ok mem] have b: "0 < n" "p + n \<le> lim" "{p ..< p + n} \<inter> free_blocks h = {}" by auto
  note s = freeListFree_Inr [OF fl b f]
  from s show "free_blocks h' = free_blocks h \<union> {p ..< p + n}" by simp
  from s show "ram h' = ram h" by (metis heap.select_convs heap.surjective heap.update_convs)
  show "pool_ok lim h' (M - {#(p, n)#})"
    using free_list.bfree_owned [OF fl pc f] N by (simp add: pool_ok_def)
qed

text \<open>The one way a release fails: the table is full and the blocks touch no free region.\<close>

lemma pool_free_error:
  assumes ok: "pool_ok lim h M" and mem: "(p, n) \<in># M" and f: "freeListFree (Some p) n h = Inl e"
  shows "e = TooManyFreeRegions \<and> length (freeMemoryRegions h) = MAX_FREE_REGIONS \<and> \<not> touches p n (freeMemoryRegions h)"
proof -
  have fl: "fl_inv lim h" using ok by (simp add: pool_ok_def)
  from pool_member [OF ok mem] have b: "0 < n" "p + n \<le> lim" "{p ..< p + n} \<inter> free_blocks h = {}" by auto
  from fl b show ?thesis by (cases rule: freeListFree_cases) (use f in auto)
qed

text \<open>C1. An allocation of \<open>n\<close> blocks (1 for a request of 0) from a sound heap with room in its
  log either returns \<open>n\<close> consecutive free blocks, takes exactly these from the free set, logs them,
  leaves RAM as it was and keeps the heap sound (free regions sorted, coalesced, below the pool's
  end; live pieces disjoint from them and from each other), or it returns NULL, changes nothing, and
  every free region is smaller than the request.\<close>

theorem freeListAlloc_sound:
  assumes "heap_inv lim h" and "length (allocatedMemoryRegions h) < MAX_ALLOCATED_REGIONS"
  shows "case freeListAlloc req h of
      (Some p, h') \<Rightarrow> {p ..< p + alloc_size req} \<subseteq> free_blocks h \<and>
         free_blocks h' = free_blocks h - {p ..< p + alloc_size req} \<and>
         live h' = add_mset (p, alloc_size req) (live h) \<and> ram h' = ram h \<and> heap_inv lim h'
    | (None, h') \<Rightarrow> h' = h \<and> list_all (\<lambda>r. sizeInBlocks r < alloc_size req) (freeMemoryRegions h)"
proof (cases "freeListAlloc req h")
  case (Pair r h')
  show ?thesis
  proof (cases r)
    case None
    with Pair assms(1) freeListAlloc_None [of lim h req h'] show ?thesis
      by (simp add: heap_inv_def list_all_iff)
  next
    case (Some p)
    with Pair freeListAlloc_heap [OF assms, of req p h' "alloc_size req"] show ?thesis by simp
  qed
qed

definition small_heap :: heap where
  "small_heap = \<lparr>freeMemoryRegions = [mk_region 10 3, mk_region 20 8, mk_region 40 5],
     allocatedMemoryRegions = [mk_region 30 4], ram = (\<lambda>a. of_nat a)\<rparr>"

lemma small_heap_inv: "heap_inv 50 small_heap"
  by (auto simp: heap_inv_def fl_inv_def small_heap_def live_def r_piece_def free_blocks_def r_blocks_def)

lemma freeListAlloc_sound_witness:
  "heap_inv 50 (snd (freeListAlloc 4 small_heap)) \<and> fst (freeListAlloc 4 small_heap) = Some 40"
  using freeListAlloc_sound [OF small_heap_inv, of 4]
  by (simp add: small_heap_def freeListAlloc_def TO_PCMEMPTR_def Let_def)

text \<open>The allocator takes the smallest region that is large enough: the block it returns is the
  start of a region at least as large as the request, and no region large enough is smaller.\<close>

theorem freeListAlloc_best_fit:
  assumes "fl_inv lim h" and "freeListAlloc req h = (Some p, h')"
  shows "\<exists>r \<in> set (freeMemoryRegions h). blockAddress r = p \<and> alloc_size req \<le> sizeInBlocks r \<and>
     (\<forall>s \<in> set (freeMemoryRegions h). alloc_size req \<le> sizeInBlocks s \<longrightarrow> sizeInBlocks r \<le> sizeInBlocks s)"
proof -
  have wf: "regions_wf lim (freeMemoryRegions h)" and lim: "lim < C47_NULL"
    and len: "length (freeMemoryRegions h) < C47_NULL" using assms(1) by (auto simp: fl_inv_def)
  from wf lim len refl [of "alloc_size req"] show ?thesis
    by (rule freeListAlloc_cases) (use assms(2) in auto)
qed

lemma freeListAlloc_best_fit_witness:
  "\<exists>r \<in> set (freeMemoryRegions small_heap). blockAddress r = 40 \<and> alloc_size 4 \<le> sizeInBlocks r \<and>
     (\<forall>s \<in> set (freeMemoryRegions small_heap). alloc_size 4 \<le> sizeInBlocks s \<longrightarrow> sizeInBlocks r \<le> sizeInBlocks s)"
proof (rule freeListAlloc_best_fit [of 50 small_heap 4 40 "snd (freeListAlloc 4 small_heap)"])
  show "fl_inv 50 small_heap" using small_heap_inv by (simp add: heap_inv_def)
  show "freeListAlloc 4 small_heap = (Some 40, snd (freeListAlloc 4 small_heap))"
    by (simp add: small_heap_def freeListAlloc_def TO_PCMEMPTR_def Let_def)
qed

text \<open>C2. Releasing a live piece returns exactly its blocks to the free set, takes it out of the
  log, leaves RAM as it was and keeps the heap sound; it stops the program only when the table of
  free regions is full and the piece touches none of them.\<close>

theorem freeListFree_sound:
  assumes "heap_inv lim h" and "(p, n) \<in># live h"
  shows "case freeListFree (Some p) n h of
      Inr h' \<Rightarrow> free_blocks h' = free_blocks h \<union> {p ..< p + n} \<and> live h' = live h - {#(p, n)#} \<and>
        ram h' = ram h \<and> heap_inv lim h'
    | Inl e \<Rightarrow> e = TooManyFreeRegions \<and> length (freeMemoryRegions h) = MAX_FREE_REGIONS \<and>
        \<not> touches p n (freeMemoryRegions h)"
proof (cases "freeListFree (Some p) n h")
  case (Inl e)
  with pool_free_error [OF assms(1) [unfolded heap_inv_pool_ok] assms(2)] show ?thesis by simp
next
  case (Inr h')
  with freeListFree_heap [OF assms Inr] show ?thesis by simp
qed

lemma freeListFree_sound_witness:
  "\<exists>h'. freeListFree (Some 30) 4 small_heap = Inr h' \<and> heap_inv 50 h' \<and> live h' = {#}"
proof -
  have mem: "(30, 4) \<in># live small_heap" by (simp add: small_heap_def live_def r_piece_def)
  have "live small_heap = {#(30, 4)#}" by (simp add: small_heap_def live_def r_piece_def)
  moreover have "\<exists>h'. freeListFree (Some 30) 4 small_heap = Inr h'"
    by (simp add: small_heap_def freeListFree_def free_region_def insert_region_def Let_def TO_C47MEMPTR_def)
  ultimately show ?thesis
    using freeListFree_sound [OF small_heap_inv mem] by auto
qed

section \<open>Releasing what was just allocated\<close>

lemma unlog_last:
  "\<forall>r \<in> set rs. blockAddress r \<noteq> p \<Longrightarrow> unlog_allocation p (rs @ [mk_region p n]) =
     (if p < 65536 then rs else rs @ [mk_region p n])"
  by (induction rs) (auto simp: trunc16_def dest: mod_eq_self_iff_div_eq_0 [THEN iffD1])

text \<open>Where an allocation has just been cut from, a release never needs a new table entry.\<close>

lemma alloc_then_free_fits:
  assumes inv: "fl_inv lim h" and a: "freeListAlloc req h = (Some p, h')"
  shows "length (freeMemoryRegions h') < MAX_FREE_REGIONS \<or> touches p (alloc_size req) (freeMemoryRegions h')"
proof -
  have wf: "regions_wf lim (freeMemoryRegions h)" and lim: "lim < C47_NULL"
    and len: "length (freeMemoryRegions h) \<le> MAX_FREE_REGIONS" "length (freeMemoryRegions h) < C47_NULL"
    using inv by (auto simp: fl_inv_def)
  from wf lim len(2) refl [of "alloc_size req"] show ?thesis
  proof (rule freeListAlloc_cases)
    fix us r vs
    assume dec: "freeMemoryRegions h = us @ r # vs" "alloc_size req \<le> sizeInBlocks r"
      and eq: "freeListAlloc req h = (Some (blockAddress r), log_allocation (Some (blockAddress r)) (alloc_size req)
           (h\<lparr>freeMemoryRegions := us @ alloc_cut (alloc_size req) r @ vs\<rparr>))"
    have "r_end r \<le> lim" using wf dec by simp
    then have "blockAddress r + alloc_size req < 65536" using dec(2) lim by (simp add: r_end_def)
    then show ?thesis
      using a eq dec len by (auto simp: alloc_cut_def touches_def)
  qed (use a in simp)
qed

text \<open>Releasing the block an allocation has just returned never fails and restores the heap
  completely: the same table of free regions, entry by entry, the same log and the same RAM.\<close>

theorem freeListFree_undoes_alloc:
  assumes inv: "heap_inv lim h" and room: "length (allocatedMemoryRegions h) < MAX_ALLOCATED_REGIONS"
    and a: "freeListAlloc req h = (Some p, h')"
  shows "freeListFree (Some p) req h' = Inr h"
proof -
  let ?n = "alloc_size req"
  have ok: "pool_ok lim h (live h)" using inv by (simp add: heap_inv_pool_ok)
  have fl: "fl_inv lim h" using ok by (simp add: pool_ok_def)
  note al = pool_alloc [OF ok a]
  have fl': "fl_inv lim h'" using al(1) by (simp add: pool_ok_def)
  have p: "p < 65536" using al(5) fl by (simp add: fl_inv_def)
  have size: "freeListFree (Some p) req h' = freeListFree (Some p) ?n h'"
    by (cases "req = 0") (simp_all add: freeListFree_def alloc_size_def)
  have fits: "\<not> (length (freeMemoryRegions h') = MAX_FREE_REGIONS \<and> \<not> touches p ?n (freeMemoryRegions h'))"
    using alloc_then_free_fits [OF fl a] by auto
  have "p \<in> free_blocks h" using al(2) alloc_size_pos [of req] by fastforce
  then have "p \<notin> owned_set (live h)"
    using ok pieces_ok_disjoint [of lim "free_blocks h" "live h"] by (auto simp: pool_ok_def)
  then have fresh: "\<forall>r \<in> set (allocatedMemoryRegions h). blockAddress r \<noteq> p"
  proof (intro ballI notI, elim notE)
    fix r assume r: "r \<in> set (allocatedMemoryRegions h)" "blockAddress r = p"
    then have "r_piece r \<in># live h" by (simp add: live_def)
    moreover from this pool_member [OF ok] have "0 < sizeInBlocks r" by (simp add: r_piece_def)
    ultimately show "p \<in> owned_set (live h)"
      using r(2) piece_subset_owned [of "r_piece r" "live h"] by (auto simp: r_piece_def)
  qed
  have log: "allocatedMemoryRegions h' = allocatedMemoryRegions h @ [mk_region p ?n]"
  proof -
    from freeListAlloc_Some [OF fl a refl]
    have "h' = log_allocation (Some p) ?n (h\<lparr>freeMemoryRegions := freeMemoryRegions h'\<rparr>)" by simp
    then have "allocatedMemoryRegions h' = allocatedMemoryRegions (log_allocation (Some p) ?n (h\<lparr>freeMemoryRegions := freeMemoryRegions h'\<rparr>))"
      by (rule arg_cong)
    with room p show ?thesis by (simp add: log_allocation_def TO_C47MEMPTR_def)
  qed
  show ?thesis
  proof (cases "freeListFree (Some p) ?n h'")
    case (Inl e)
    from pool_free_error [OF al(1) _ Inl] fits show ?thesis by simp
  next
    case (Inr h2)
    have dis: "{p ..< p + ?n} \<inter> free_blocks h' = {}" using al(3) by auto
    note s = freeListFree_Inr [OF fl' alloc_size_pos al(5) dis Inr]
    have "blocks_of (freeMemoryRegions h2) = blocks_of (freeMemoryRegions h)"
      using s al(2,3) by (auto simp: free_blocks_def)
    moreover have "regions_wf lim (freeMemoryRegions h2)" "regions_wf lim (freeMemoryRegions h)"
      using s fl by (auto simp: fl_inv_def)
    ultimately have frees: "freeMemoryRegions h2 = freeMemoryRegions h" by (intro regions_wf_unique)
    have "allocatedMemoryRegions h2 = allocatedMemoryRegions h"
      using s log unlog_last [OF fresh, of ?n] p by (metis heap.select_convs(2) heap.surjective heap.update_convs(2))
    moreover have "ram h2 = ram h"
      using s al(4) by (metis heap.select_convs(3) heap.surjective heap.update_convs)
    ultimately have "h2 = h" using frees by simp
    with Inr size show ?thesis by simp
  qed
qed

lemma freeListFree_undoes_alloc_witness:
  "freeListFree (Some 20) 7 (snd (freeListAlloc 7 small_heap)) = Inr small_heap"
proof (rule freeListFree_undoes_alloc [OF small_heap_inv])
  show "length (allocatedMemoryRegions small_heap) < MAX_ALLOCATED_REGIONS" by (simp add: small_heap_def)
  show "freeListAlloc 7 small_heap = (Some 20, snd (freeListAlloc 7 small_heap))"
    by (simp add: small_heap_def freeListAlloc_def TO_PCMEMPTR_def Let_def)
qed

section \<open>Copying\<close>

lemma xcopy_up_apply:
  "dest < source \<Longrightarrow> xcopy_up dest source n m x = (if dest \<le> x \<and> x < dest + n then m (source + (x - dest)) else m x)"
proof (induction n arbitrary: dest source m)
  case (Suc n)
  then show ?case by (cases "x = dest") (auto simp: Suc_diff_Suc)
qed auto

lemma xcopy_down_apply:
  "source < dest \<Longrightarrow> xcopy_down dest source n m x = (if dest \<le> x \<and> x < dest + n then m (source + (x - dest)) else m x)"
proof (induction n arbitrary: m)
  case (Suc n)
  then show ?case by (cases "x = dest + n") auto
qed auto

lemma xcopy_apply:
  "xcopy dest source n m x = (if dest \<le> x \<and> x < dest + n then m (source + (x - dest)) else m x)"
  by (cases source dest rule: linorder_cases) (simp_all add: xcopy_def xcopy_up_apply xcopy_down_apply)

text \<open>C3. \<^verbatim>\<open>xcopy\<close> is a \<^verbatim>\<open>memmove\<close>: whatever the overlap of the two areas, the destination receives what
  the source held before the call, and nothing else changes.\<close>

theorem xcopy_memmove:
  "xcopy dest source n m = (\<lambda>x. if x \<in> {dest ..< dest + n} then m (source + (x - dest)) else m x)"
  by (rule ext) (simp add: xcopy_apply)

section \<open>Reallocation\<close>

lemma pool_realloc:
  assumes ok: "pool_ok lim h M" and mem: "(p, n) \<in># M"
    and r: "freeListRealloc (Some p) n req h = Inr (Some q, h')"
  defines "k \<equiv> alloc_size req"
  shows "pool_ok lim h' (add_mset (q, k) (M - {#(p, n)#}))"
    and "ram h' = xcopy q p (min k n) (ram h)"
    and "free_blocks h' = free_blocks h - {q ..< q + k} \<union> {p ..< p + n}"
    and "{q ..< q + k} \<subseteq> free_blocks h"
proof -
  have n: "0 < n" using pool_member [OF ok mem] by simp
  obtain h1 where a: "freeListAlloc k h = (Some q, h1)"
    and f: "freeListFree (Some p) n (h1\<lparr>ram := xcopy q p (min k n) (ram h1)\<rparr>) = Inr h'"
    using r n by (auto simp: freeListRealloc_def Let_def k_def alloc_size_def split: prod.splits option.splits sum.splits if_splits)
  have kk: "alloc_size k = k" by (simp add: k_def)
  note al = pool_alloc [OF ok a, unfolded kk]
  let ?h = "h1\<lparr>ram := xcopy q p (min k n) (ram h1)\<rparr>"
  have ok': "pool_ok lim ?h (add_mset (q, k) M)"
    using al(1) by (simp add: pool_ok_def fl_inv_def free_blocks_def)
  have "(p, n) \<in># add_mset (q, k) M" using mem by simp
  note fr = pool_free [OF ok' this f]
  show "ram h' = xcopy q p (min k n) (ram h)" using fr(3) al(4) by simp
  show "{q ..< q + k} \<subseteq> free_blocks h" using al(2) .
  show "free_blocks h' = free_blocks h - {q ..< q + k} \<union> {p ..< p + n}"
    using fr(2) al(3) by (simp add: free_blocks_def)
  show "pool_ok lim h' (add_mset (q, k) (M - {#(p, n)#}))"
    using fr(1) mem by (metis add_mset_commute add_mset_remove_trivial multi_member_split)
qed

lemma pool_realloc_None:
  assumes ok: "pool_ok lim h M" and r: "freeListRealloc p n req h = Inr (None, h')"
  shows "h' = h"
proof -
  have "freeListAlloc (alloc_size req) h = (None, h')"
    using r by (auto simp: freeListRealloc_def Let_def alloc_size_def split: prod.splits option.splits sum.splits if_splits)
  then show ?thesis using freeListAlloc_None [of lim h "alloc_size req" h'] ok by (simp add: pool_ok_def)
qed

text \<open>C4. A reallocation of an owned piece moves it to fresh blocks: the new piece starts with the
  first \<open>min\<close> of the old and the new size of the old contents, the data of every other owned piece is
  untouched, the old blocks are free again and the pool stays sound; when there is no room nothing
  changes and the caller still owns the old piece.\<close>

theorem freeListRealloc_sound:
  assumes ok: "pool_ok lim h (add_mset (p, n) M)"
    and r: "freeListRealloc (Some p) n req h = Inr (q, h')"
  shows "case q of
      None \<Rightarrow> h' = h
    | Some q \<Rightarrow> pool_ok lim h' (add_mset (q, alloc_size req) M) \<and>
        (\<forall>i < min (alloc_size req) n. ram h' (q + i) = ram h (p + i)) \<and>
        (\<forall>a \<in> owned_set M. ram h' a = ram h a) \<and>
        free_blocks h' = free_blocks h - {q ..< q + alloc_size req} \<union> {p ..< p + n}"
proof (cases q)
  case None
  with r pool_realloc_None [OF ok] show ?thesis by simp
next
  case (Some q')
  have mem: "(p, n) \<in># add_mset (p, n) M" by simp
  note re = pool_realloc [OF ok mem r [unfolded Some]]
  have "owned_set M \<inter> {q' ..< q' + alloc_size req} = {}"
    using ok re(4) pieces_ok_disjoint [of lim "free_blocks h" "add_mset (p, n) M"] by (auto simp: pool_ok_def)
  then have "\<forall>a \<in> owned_set M. ram h' a = ram h a"
    unfolding re(2) xcopy_apply by fastforce
  moreover have "\<forall>i < min (alloc_size req) n. ram h' (q' + i) = ram h (p + i)"
    unfolding re(2) xcopy_apply by auto
  ultimately show ?thesis using re Some by simp
qed

lemma small_heap_pool: "pool_ok 50 small_heap {#(30, 4)#}"
  using small_heap_inv by (simp add: heap_inv_pool_ok) (simp add: small_heap_def live_def r_piece_def)

lemma freeListRealloc_sound_witness:
  "\<exists>h'. freeListRealloc (Some 30) 4 6 small_heap = Inr (Some 20, h') \<and> pool_ok 50 h' {#(20, 6)#} \<and>
     ram h' 23 = 33"
proof -
  have "\<exists>h'. freeListRealloc (Some 30) 4 6 small_heap = Inr (Some 20, h')"
    by (simp add: small_heap_def freeListRealloc_def freeListAlloc_def freeListFree_def free_region_def
        insert_region_def Let_def TO_C47MEMPTR_def TO_PCMEMPTR_def log_allocation_def)
  then obtain h' where h': "freeListRealloc (Some 30) 4 6 small_heap = Inr (Some 20, h')" by blast
  have "pool_ok 50 h' {#(20, 6)#}" "\<forall>i < 4. ram h' (20 + i) = ram small_heap (30 + i)"
    using freeListRealloc_sound [OF small_heap_pool h'] by simp_all
  moreover from this(2) [rule_format, of 3] have "ram h' 23 = ram small_heap 33" by simp
  ultimately show ?thesis using h' by (simp add: small_heap_def)
qed

section \<open>Reduction\<close>

lemma find_preceding_Some:
  "find_preceding p rs k = Some i \<Longrightarrow> \<exists>r \<in> set rs. r_end r = p"
  by (induction rs arbitrary: k) (auto simp: r_end_def split: if_splits)

lemma find_following_Some:
  "find_following a rs k = Some i \<Longrightarrow> k \<le> i \<and> i < k + length rs \<and> blockAddress (rs ! (i - k)) = a"
  by (induction rs arbitrary: k) (fastforce simp: nth_Cons' split: if_splits)+

text \<open>Giving back the tail of an owned piece is a release that never finds a preceding region.\<close>

lemma reduce_region:
  assumes wf: "regions_wf lim rs" and lim: "lim < 65536" "p + n \<le> lim" and k: "0 < k" "k < n"
    and dis: "{p ..< p + n} \<inter> blocks_of rs = {}"
  shows "free_region (p + k) (n - k) rs =
     (case find_following (trunc16 (p + n)) rs 0 of
        Some i \<Rightarrow> Inr (rs[i := mk_region (trunc16 (p + k)) (sizeInBlocks (rs ! i) + (n - k))])
      | None \<Rightarrow> insert_region (trunc16 (p + k)) (n - k) rs)"
proof -
  have no: "r_end r \<noteq> p + k" if "r \<in> set rs" for r
  proof
    assume "r_end r = p + k"
    with regions_wf_member [OF wf that] k have "p + k - 1 \<in> r_blocks r" "p + k - 1 \<in> {p ..< p + n}"
      by (auto simp: r_blocks_def)
    with that dis show False by (fastforce simp: blocks_of_def)
  qed
  have none: "find_preceding (p + k) rs 0 = None"
    using find_preceding_Some [of "p + k" rs 0] no by (metis not_None_eq)
  have none': "find_preceding (p + k) (rs[i := mk_region (p + k) (sizeInBlocks (rs ! i) + (n - k))]) 0 = None"
    if i: "find_following (p + n) rs 0 = Some i" for i
  proof (rule ccontr)
    assume "find_preceding (p + k) (rs[i := mk_region (p + k) (sizeInBlocks (rs ! i) + (n - k))]) 0 \<noteq> None"
    then obtain r where r: "r \<in> set (rs[i := mk_region (p + k) (sizeInBlocks (rs ! i) + (n - k))])" "r_end r = p + k"
      using find_preceding_Some by blast
    from find_following_Some [OF i] have i': "i < length rs" "blockAddress (rs ! i) = p + n" by auto
    have "sizeInBlocks (rs ! i) + (p + n) \<le> lim"
      using regions_wf_member [OF wf nth_mem [OF i'(1)]] i'(2) by (simp add: r_end_def)
    then have "r_end (mk_region (p + k) (sizeInBlocks (rs ! i) + (n - k))) \<noteq> p + k" using k lim by simp
    with r no show False using set_update_subset_insert by fastforce
  qed
  show ?thesis
    using lim k none none' by (auto simp: free_region_def Let_def split: option.splits)
qed

lemma freeListReduce_region:
  assumes fl: "fl_inv lim h" and lim: "p + n \<le> lim" and k: "0 < k" "k < n"
    and dis: "{p ..< p + n} \<inter> free_blocks h = {}"
  shows "freeListReduce (Some p) n k h =
     (case free_region (p + k) (n - k) (freeMemoryRegions h) of
        Inl e \<Rightarrow> Inl e
      | Inr rs \<Rightarrow> Inr (h\<lparr>freeMemoryRegions := rs,
           allocatedMemoryRegions := reduce_logged p (n - k) (allocatedMemoryRegions h)\<rparr>))"
proof -
  have wf: "regions_wf lim (freeMemoryRegions h)" and l: "lim < 65536" using fl by (auto simp: fl_inv_def)
  have "TO_C47MEMPTR (Some p) = p" using lim l by (simp add: TO_C47MEMPTR_def)
  moreover have "delta16 n k = n - k" 
    using k lim l unfolding delta16_def by (subst mod_pos_pos_trivial) auto
  ultimately show ?thesis
    using k reduce_region [OF wf l lim k dis [unfolded free_blocks_def]]
    by (simp add: freeListReduce_def Let_def split: option.splits sum.splits)
qed

lemma pool_reduce:
  assumes ok: "pool_ok lim h M" and mem: "(p, n) \<in># M" and k: "0 < k" "k < n"
    and r: "freeListReduce (Some p) n k h = Inr h'"
  shows "pool_ok lim h' (add_mset (p, k) (M - {#(p, n)#}))"
    and "free_blocks h' = free_blocks h \<union> {p + k ..< p + n}" and "ram h' = ram h"
proof -
  have fl: "fl_inv lim h" using ok by (simp add: pool_ok_def)
  from pool_member [OF ok mem] have b: "p + n \<le> lim" "{p ..< p + n} \<inter> free_blocks h = {}" by auto
  have d: "{p + k ..< p + k + (n - k)} \<inter> blocks_of (freeMemoryRegions h) = {}"
  proof -
    have "{p + k ..< p + k + (n - k)} \<subseteq> {p ..< p + n}" using k by auto
    with b(2) show ?thesis unfolding free_blocks_def by blast
  qed
  obtain rs where rs: "free_region (p + k) (n - k) (freeMemoryRegions h) = Inr rs"
    and h': "h' = h\<lparr>freeMemoryRegions := rs, allocatedMemoryRegions := reduce_logged p (n - k) (allocatedMemoryRegions h)\<rparr>"
    using r freeListReduce_region [OF fl b(1) k b(2)] by (auto split: sum.splits)
  have "freed_ok lim (p + k) (n - k) (freeMemoryRegions h) rs"
    using free_region_cases [of lim "freeMemoryRegions h" "n - k" "p + k"] rs fl b(1) k d by (auto simp: fl_inv_def)
  from freed_ok_inv [OF fl this, of h'] h' k
  have fl': "fl_inv lim h'" and fb: "free_blocks h' = free_blocks h \<union> {p + k ..< p + n}" by auto
  from fb show "free_blocks h' = free_blocks h \<union> {p + k ..< p + n}" .
  show "ram h' = ram h" using h' by simp
  obtain N where N: "M = add_mset (p, n) N" using mem by (blast dest: multi_member_split)
  with ok have "pieces_ok lim (free_blocks h) (add_mset (p, n) N)" by (simp add: pool_ok_def)
  from pieces_ok_shrink [OF this k] N fl' fb show "pool_ok lim h' (add_mset (p, k) (M - {#(p, n)#}))"
    by (simp add: pool_ok_def del: pieces_ok_add)
qed

text \<open>Reducing an owned piece to \<open>k\<close> blocks, \<open>0 < k < n\<close>, keeps its start and its contents, returns
  exactly its last \<open>n - k\<close> blocks to the free set and keeps the pool sound.\<close>

theorem freeListReduce_sound:
  assumes "pool_ok lim h (add_mset (p, n) M)" and "0 < k" and "k < n"
    and "freeListReduce (Some p) n k h = Inr h'"
  shows "pool_ok lim h' (add_mset (p, k) M) \<and> free_blocks h' = free_blocks h \<union> {p + k ..< p + n} \<and>
    ram h' = ram h"
  using pool_reduce [OF assms(1) _ assms(2-4)] by simp

lemma freeListReduce_sound_witness:
  "\<exists>h'. freeListReduce (Some 30) 4 1 small_heap = Inr h' \<and> pool_ok 50 h' {#(30, 1)#} \<and>
     {31 ..< 34} \<subseteq> free_blocks h'"
proof -
  have "\<exists>h'. freeListReduce (Some 30) 4 1 small_heap = Inr h'"
    by (simp add: small_heap_def freeListReduce_def insert_region_def Let_def TO_C47MEMPTR_def delta16_def)
  then obtain h' where h': "freeListReduce (Some 30) 4 1 small_heap = Inr h'" by blast
  with freeListReduce_sound [OF small_heap_pool _ _ h'] show ?thesis by auto
qed

section \<open>Reachable heaps\<close>

text \<open>
  The calls of a client that frees, reallocates and reduces only pieces it owns.  The second
  component of the state is what the client owns; it does not depend on the simulator's log, whose
  5000 entries the code lets overflow.
\<close>

inductive pool_step :: "heap \<times> piece multiset \<Rightarrow> heap \<times> piece multiset \<Rightarrow> bool" where
  step_alloc: "freeListAlloc req h = (Some p, h') \<Longrightarrow> pool_step (h, M) (h', add_mset (p, alloc_size req) M)"
| step_alloc_fails: "freeListAlloc req h = (None, h') \<Longrightarrow> pool_step (h, M) (h', M)"
| step_free: "freeListFree (Some p) n h = Inr h' \<Longrightarrow> pool_step (h, add_mset (p, n) M) (h', M)"
| step_free_null: "freeListFree None n h = Inr h' \<Longrightarrow> pool_step (h, M) (h', M)"
| step_realloc: "freeListRealloc (Some p) n req h = Inr (Some q, h') \<Longrightarrow>
    pool_step (h, add_mset (p, n) M) (h', add_mset (q, alloc_size req) M)"
| step_realloc_fails: "freeListRealloc p n req h = Inr (None, h') \<Longrightarrow> pool_step (h, M) (h', M)"
| step_reduce: "0 < k \<Longrightarrow> k < n \<Longrightarrow> freeListReduce (Some p) n k h = Inr h' \<Longrightarrow>
    pool_step (h, add_mset (p, n) M) (h', add_mset (p, k) M)"

inductive pool_reachable :: "heap \<Rightarrow> piece multiset \<Rightarrow> bool" where
  reach_reset: "pool_reachable reset_heap {#}"
| reach_step: "pool_reachable h M \<Longrightarrow> pool_step (h, M) (h', M') \<Longrightarrow> pool_reachable h' M'"

inductive_cases pool_stepE: "pool_step (h, M) (h', M')"

abbreviation (input) POOL_END :: nat where "POOL_END \<equiv> RAM_SIZE_IN_BLOCKS - 1"

definition pool_full :: "heap \<Rightarrow> piece multiset \<Rightarrow> bool" where
  "pool_full h M \<longleftrightarrow> free_blocks h \<union> owned_set M = {68 ..< POOL_END}"

lemma pool_owned_free: "pool_ok lim h M \<Longrightarrow> owned_set M \<inter> free_blocks h = {}"
  by (auto simp: pool_ok_def dest: pieces_ok_disjoint)

lemma reset_heap_ok: "pool_ok POOL_END reset_heap {#} \<and> pool_full reset_heap {#}"
  by (simp add: pool_ok_def pool_full_def reset_heap_def fl_inv_def free_blocks_def r_blocks_def r_end_def)

lemma pool_step_ok:
  assumes "pool_step s t" and "pool_ok lim (fst s) (snd s)"
  shows "pool_ok lim (fst t) (snd t) \<and>
    free_blocks (fst t) \<union> owned_set (snd t) = free_blocks (fst s) \<union> owned_set (snd s)"
  using assms
proof (induction rule: pool_step.induct)
  case (step_alloc req h p h' M)
  with pool_alloc [of lim h M req p h'] show ?case by auto
next
  case (step_alloc_fails req h h' M)
  then show ?case using freeListAlloc_None [of lim h req h'] by (simp add: pool_ok_def)
next
  case (step_free p n h h' M)
  with pool_free [of lim h "add_mset (p, n) M" p n h'] show ?case by auto
next
  case (step_free_null n h h' M)
  then show ?case by (simp add: freeListFree_def)
next
  case (step_realloc p n req h q h' M)
  then have ok: "pool_ok lim h (add_mset (p, n) M)" by simp
  note re = pool_realloc [OF ok _ step_realloc.hyps]
  then have "{q ..< q + alloc_size req} \<subseteq> free_blocks h" by simp
  with re pool_owned_free [OF ok] show ?case by (simp del: pieces_ok_add) blast
next
  case (step_realloc_fails p n req h h' M)
  with pool_realloc_None [of lim h M p n req h'] show ?case by simp
next
  case (step_reduce k n p h h' M)
  then have ok: "pool_ok lim h (add_mset (p, n) M)" by simp
  have "{p ..< p + n} = {p ..< p + k} \<union> {p + k ..< p + n}" using step_reduce.hyps by auto
  with pool_reduce [OF ok _ step_reduce.hyps] show ?case by (simp del: pieces_ok_add) blast
qed

lemma pool_reachable_ok: "pool_reachable h M \<Longrightarrow> pool_ok POOL_END h M \<and> pool_full h M"
proof (induction rule: pool_reachable.induct)
  case reach_reset
  show ?case by (rule reset_heap_ok)
next
  case (reach_step h M h' M')
  with pool_step_ok [of "(h, M)" "(h', M')" POOL_END] show ?case by (simp add: pool_full_def)
qed

text \<open>C5. In every state reachable from a reset by allocations, releases, reallocations and
  reductions of owned pieces, the free regions are sorted, coalesced and inside the pool, the owned
  pieces are disjoint from them and from each other, and together they are the whole pool: no block
  is lost and none has two owners.\<close>

theorem pool_partition:
  "pool_reachable h M \<Longrightarrow>
   regions_wf POOL_END (freeMemoryRegions h) \<and> pieces_ok POOL_END (free_blocks h) M \<and>
   free_blocks h \<inter> owned_set M = {} \<and> free_blocks h \<union> owned_set M = {68 ..< POOL_END}"
  using pool_reachable_ok [of h M] pool_owned_free [of POOL_END h M]
  by (auto simp: pool_ok_def fl_inv_def pool_full_def)

lemma reach_first_alloc: "pool_reachable (snd (freeListAlloc 10 reset_heap)) {#(68, 10)#}"
proof -
  have "freeListAlloc 10 reset_heap = (Some 68, snd (freeListAlloc 10 reset_heap))"
    by (simp add: reset_heap_def freeListAlloc_def TO_PCMEMPTR_def Let_def)
  then have "pool_step (reset_heap, {#}) (snd (freeListAlloc 10 reset_heap), {#(68, alloc_size 10)#})"
    by (rule step_alloc)
  with reach_reset show ?thesis by (auto intro: reach_step)
qed

lemma pool_partition_witness:
  "free_blocks (snd (freeListAlloc 10 reset_heap)) \<union> owned_set {#(68, 10)#} = {68 ..< POOL_END}"
  using pool_partition [OF reach_first_alloc] by blast

section \<open>The size of the region table\<close>

text \<open>
  Every free region but the last is followed by a block that is not free, hence owned, and two such
  blocks never lie in one piece.
\<close>

lemma gap_pieces:
  assumes "regions_wf lim rs" and "pieces_ok L F M" and "blocks_of rs \<subseteq> F"
    and "\<forall>r \<in> set (butlast rs). r_end r \<in> owned_set M"
  shows "length rs \<le> Suc (size M)"
  using assms
proof (induction rs arbitrary: M)
  case (Cons r rs)
  show ?case
  proof (cases rs)
    case (Cons s ss)
    with Cons.prems(4) have "r_end r \<in> owned_set M" by simp
    then obtain x where x: "x \<in># M" "r_end r \<in> piece_set x" by (auto simp: owned_set_def)
    obtain N where N: "M = add_mset x N" using x by (blast dest: multi_member_split)
    have xF: "piece_set x \<inter> F = {}" using pieces_ok_memD [OF Cons.prems(2) x(1)] by simp
    have wf: "regions_wf lim rs" "\<forall>t \<in> set rs. r_end r < blockAddress t" using Cons.prems(1) by auto
    have next_not: "r_end t \<notin> piece_set x" if t: "t \<in> set (butlast rs)" for t
    proof
      assume m: "r_end t \<in> piece_set x"
      have t': "t \<in> set rs" using t by (rule in_set_butlastD)
      then have "blockAddress t \<in> F"
        using Cons.prems(3) regions_wf_member [OF wf(1) t'] by (force simp: blocks_of_def r_blocks_def)
      moreover have "blockAddress t \<in> piece_set x"
        using m x(2) wf(2) t' regions_wf_member [OF wf(1) t'] by (fastforce simp: piece_set_def)
      ultimately show False using xF by blast
    qed
    have "\<forall>t \<in> set (butlast rs). r_end t \<in> owned_set N"
      using Cons.prems(4) next_not N Cons by (auto split: if_splits)
    moreover have "pieces_ok L F N" using Cons.prems(2) N by simp
    ultimately have "length rs \<le> Suc (size N)"
      using Cons.IH [OF wf(1)] Cons.prems(3) by auto
    with N show ?thesis by simp
  qed simp
qed simp

lemma pool_full_gap:
  assumes ok: "pool_ok POOL_END h M" and full: "pool_full h M" and r: "r \<in> set (butlast (freeMemoryRegions h))"
  shows "r_end r \<in> owned_set M"
proof -
  let ?rs = "freeMemoryRegions h"
  have ne: "?rs \<noteq> []" using r by auto
  have wf: "regions_wf POOL_END ?rs" using ok by (simp add: pool_ok_def fl_inv_def)
  from r obtain us vs where dec: "butlast ?rs = us @ r # vs" by (auto dest: split_list)
  have dec': "?rs = us @ r # (vs @ [last ?rs])" using dec ne append_butlast_last_id [of ?rs] by simp
  with wf have later: "\<forall>s \<in> set (vs @ [last ?rs]). r_end r < blockAddress s"
    and earlier: "\<forall>s \<in> set us. r_end s < blockAddress r"
    and last: "last ?rs \<in> set ?rs" using ne by (metis regions_wf_append regions_wf_Cons, metis regions_wf_append list.set_intros(1), simp)
  have re: "blockAddress r < r_end r" using regions_wf_member [OF wf, of r] r in_set_butlastD [of r ?rs] by simp
  have "r_end r \<notin> free_blocks h"
  proof
    assume "r_end r \<in> free_blocks h"
    then obtain s where s: "s \<in> set ?rs" "r_end r \<in> r_blocks s" by (auto simp: free_blocks_def blocks_of_def)
    then have "s \<in> set us \<or> s = r \<or> s \<in> set (vs @ [last ?rs])" by (subst (asm) dec') auto
    with s(2) later earlier re show False by (fastforce simp: r_blocks_def)
  qed
  moreover have "r_end r < POOL_END"
  proof -
    have "r_end r < blockAddress (last ?rs)" using later by simp
    moreover have "blockAddress (last ?rs) < r_end (last ?rs)" "r_end (last ?rs) \<le> POOL_END"
      using regions_wf_member [OF wf last] by auto
    ultimately show ?thesis by simp
  qed
  moreover have "68 \<le> r_end r"
  proof -
    have "r \<in> set ?rs" using r by (rule in_set_butlastD)
    then have "blockAddress r \<in> free_blocks h"
      using re by (auto simp: free_blocks_def blocks_of_def r_blocks_def)
    with full have "blockAddress r \<in> {68 ..< POOL_END}" unfolding pool_full_def by blast
    with re show ?thesis by simp
  qed
  ultimately have "r_end r \<in> {68 ..< POOL_END} - free_blocks h" by simp
  then show ?thesis using full unfolding pool_full_def by blast
qed

lemma pool_regions_bound: "pool_reachable h M \<Longrightarrow> length (freeMemoryRegions h) \<le> Suc (size M)"
proof -
  assume "pool_reachable h M"
  from pool_reachable_ok [OF this] have ok: "pool_ok POOL_END h M" and full: "pool_full h M" by auto
  show ?thesis
  proof (rule gap_pieces)
    show "regions_wf POOL_END (freeMemoryRegions h)" using ok by (simp add: pool_ok_def fl_inv_def)
    show "pieces_ok POOL_END (free_blocks h) M" using ok by (simp add: pool_ok_def)
    show "blocks_of (freeMemoryRegions h) \<subseteq> free_blocks h" by (simp add: free_blocks_def)
    show "\<forall>r \<in> set (butlast (freeMemoryRegions h)). r_end r \<in> owned_set M"
      using pool_full_gap [OF ok full] by blast
  qed
qed

text \<open>C6. The table of free regions never has more entries than there are owned pieces, plus one:
  with fewer than 199 of them no release of an owned piece reaches the \<^verbatim>\<open>exit(-2)\<close> of a full table.\<close>

theorem freeListFree_no_exit:
  assumes "pool_reachable h M" and "size M < 199" and "(p, n) \<in># M"
  shows "\<exists>h'. freeListFree (Some p) n h = Inr h' \<and> pool_reachable h' (M - {#(p, n)#})"
proof (cases "freeListFree (Some p) n h")
  case (Inl e)
  with pool_free_error [of POOL_END h M p n e] assms(3) pool_reachable_ok [OF assms(1)] pool_regions_bound [OF assms(1)] assms(2)
  show ?thesis by simp
next
  case (Inr h')
  obtain N where N: "M = add_mset (p, n) N" using assms(3) by (blast dest: multi_member_split)
  with assms(1) step_free [OF Inr, of N] have "pool_reachable h' N" by (auto intro: reach_step)
  with Inr N show ?thesis by simp
qed

lemma freeListFree_no_exit_witness:
  "\<exists>h'. freeListFree (Some 68) 10 (snd (freeListAlloc 10 reset_heap)) = Inr h' \<and> pool_reachable h' {#}"
  using freeListFree_no_exit [OF reach_first_alloc, of 68 10] by simp

end
