(* ===== verification/Memory.thy ===== *)
theory Memory
  imports FreeListProps
begin

text \<open>
  The memory manager of \<^verbatim>\<open>memory.c\<close> above the block allocator: the allocation entry points the rest
  of the program calls, with their count of the blocks in use, the query whether a number of equal
  blocks is available, and the resizing of program memory, which lies at the top of RAM just above
  the pool.  The diagnostics, the GMP allocator (\<^verbatim>\<open>malloc\<close>) and the stack watermark are left out.
\<close>

section \<open>State\<close>

text \<open>\<^verbatim>\<open>beginOfProgramMemory\<close> is always a block address, \<^verbatim>\<open>firstFreeProgramByte\<close> a byte address.\<close>

record memory =
  pool :: heap
  c47MemInBlocks :: u64
  beginOfProgramMemory :: nat
  firstFreeProgramByte :: nat

abbreviation TO_BYTES :: "nat \<Rightarrow> nat" where "TO_BYTES n \<equiv> 4 * n"

section \<open>Operations\<close>

definition getFreeRamMemory :: "memory \<Rightarrow> nat" where
  "getFreeRamMemory m = TO_BYTES (foldl (\<lambda>freeMem r. freeMem + sizeInBlocks r) 0 (freeMemoryRegions (pool m)))"

text \<open>The loop of \<^verbatim>\<open>isMemoryBlockAvailable\<close>; the product with a \<^verbatim>\<open>float\<close> is its argument \<open>extraSize\<close>.\<close>

fun block_available ::
    "nat \<Rightarrow> nat \<Rightarrow> nat \<Rightarrow> freeMemoryRegion list \<Rightarrow> nat \<Rightarrow> bool \<Rightarrow> bool" where
  "block_available sz num extraSize [] countOfBlocksOfSize haveExtraBlock = False"
| "block_available sz num extraSize (r # rs) countOfBlocksOfSize haveExtraBlock =
     (let thisBlockSize = sizeInBlocks r in
      if thisBlockSize \<ge> sz * num + extraSize then True
      else if thisBlockSize \<ge> sz then
        (let cnt = countOfBlocksOfSize + thisBlockSize div sz;
             have_extra = (haveExtraBlock \<or> thisBlockSize mod sz \<ge> extraSize) in
         if cnt > num then True
         else if cnt = num \<and> have_extra then True
         else block_available sz num extraSize rs cnt have_extra)
      else if thisBlockSize \<ge> extraSize then
        (if countOfBlocksOfSize \<ge> num then True
         else block_available sz num extraSize rs countOfBlocksOfSize True)
      else block_available sz num extraSize rs countOfBlocksOfSize haveExtraBlock)"

definition isMemoryBlockAvailable :: "nat \<Rightarrow> nat \<Rightarrow> nat \<Rightarrow> memory \<Rightarrow> bool" where
  "isMemoryBlockAvailable sz num extraSize m =
     block_available sz num extraSize (freeMemoryRegions (pool m)) 0 False"

definition allocC47Blocks :: "nat \<Rightarrow> memory \<Rightarrow> ptr \<times> memory" where
  "allocC47Blocks n m =
     (case freeListAlloc n (pool m) of
        (None, h) \<Rightarrow> (None, m\<lparr>pool := h\<rparr>)
      | (Some p, h) \<Rightarrow> (Some p, m\<lparr>pool := h, c47MemInBlocks := c47MemInBlocks m + of_nat n\<rparr>))"

definition reallocC47Blocks :: "ptr \<Rightarrow> nat \<Rightarrow> nat \<Rightarrow> memory \<Rightarrow> mem_error + (ptr \<times> memory)" where
  "reallocC47Blocks pcMemPtr old new m =
     (case freeListRealloc pcMemPtr old new (pool m) of
        Inl e \<Rightarrow> Inl e
      | Inr (None, h) \<Rightarrow> Inr (None, m\<lparr>pool := h\<rparr>)
      | Inr (Some q, h) \<Rightarrow>
          Inr (Some q, m\<lparr>pool := h, c47MemInBlocks := c47MemInBlocks m + (of_nat new - of_nat old)\<rparr>))"

definition freeC47Blocks :: "ptr \<Rightarrow> nat \<Rightarrow> memory \<Rightarrow> mem_error + memory" where
  "freeC47Blocks pcMemPtr n m =
     (case pcMemPtr of
        None \<Rightarrow> Inr m
      | Some _ \<Rightarrow>
          (case freeListFree pcMemPtr n (pool m) of
             Inl e \<Rightarrow> Inl e
           | Inr h \<Rightarrow> Inr (m\<lparr>pool := h, c47MemInBlocks := c47MemInBlocks m - of_nat n\<rparr>)))"

definition reduceC47Blocks :: "ptr \<Rightarrow> nat \<Rightarrow> nat \<Rightarrow> memory \<Rightarrow> mem_error + memory" where
  "reduceC47Blocks pcMemPtr old new m =
     (if new = 0 then freeC47Blocks pcMemPtr old m
      else case freeListReduce pcMemPtr old new (pool m) of
             Inl e \<Rightarrow> Inl e
           | Inr h \<Rightarrow> Inr (m\<lparr>pool := h, c47MemInBlocks := c47MemInBlocks m + (of_nat new - of_nat old)\<rparr>))"

text \<open>
  The last entry of the region table is taken to be the region below program memory.  Without any
  region the code reads and writes entry \<open>-1\<close>, an error here.
\<close>

definition resize_last_region :: "nat \<Rightarrow> heap \<Rightarrow> heap" where
  "resize_last_region n h =
     (let rs = freeMemoryRegions h in
      h\<lparr>freeMemoryRegions := butlast rs @ [(last rs)\<lparr>sizeInBlocks := trunc16 n\<rparr>]\<rparr>)"

definition resizeProgramMemory :: "nat \<Rightarrow> memory \<Rightarrow> mem_error + memory" where
  "resizeProgramMemory newSizeInBlocks m =
     (let new = (if newSizeInBlocks = 0 then 1 else newSizeInBlocks);
          start = beginOfProgramMemory m;
          current = trunc16 (RAM_SIZE_IN_BLOCKS - TO_C47MEMPTR (Some start));
          rs = freeMemoryRegions (pool m);
          move = (\<lambda>dest blocks h. h\<lparr>ram := xcopy dest start blocks (ram h)\<rparr>)
      in if new = current then Inr m
         else if rs = [] then Inl NoFreeRegionAccess
         else if new > current then
           (let delta = new - current in
            if delta > sizeInBlocks (last rs) then Inl OutOfMemoryExit
            else Inr (m\<lparr>pool := move (start - delta) current (resize_last_region (sizeInBlocks (last rs) - delta) (pool m)),
                        beginOfProgramMemory := start - delta,
                        firstFreeProgramByte := firstFreeProgramByte m - TO_BYTES delta\<rparr>))
         else
           (let delta = current - new in
            Inr (m\<lparr>pool := move (start + delta) new (resize_last_region (sizeInBlocks (last rs) + delta) (pool m)),
                   beginOfProgramMemory := start + delta,
                   firstFreeProgramByte := firstFreeProgramByte m + TO_BYTES delta\<rparr>)))"

section \<open>The allocator interface at this level\<close>

lemma allocC47Blocks_Some:
  "allocC47Blocks n m = (Some p, m') \<longleftrightarrow>
     (\<exists>h. freeListAlloc n (pool m) = (Some p, h) \<and>
          m' = m\<lparr>pool := h, c47MemInBlocks := c47MemInBlocks m + of_nat n\<rparr>)"
  by (auto simp: allocC47Blocks_def split: prod.splits option.splits)

lemma allocC47Blocks_None:
  "allocC47Blocks n m = (None, m') \<longleftrightarrow> (\<exists>h. freeListAlloc n (pool m) = (None, h) \<and> m' = m\<lparr>pool := h\<rparr>)"
  by (auto simp: allocC47Blocks_def split: prod.splits option.splits)

lemma freeC47Blocks_Inr:
  "freeC47Blocks (Some p) n m = Inr m' \<longleftrightarrow>
     (\<exists>h. freeListFree (Some p) n (pool m) = Inr h \<and>
          m' = m\<lparr>pool := h, c47MemInBlocks := c47MemInBlocks m - of_nat n\<rparr>)"
  by (auto simp: freeC47Blocks_def split: sum.splits)

definition mem_free :: "memory \<Rightarrow> nat set" where
  "mem_free m = free_blocks (pool m)"

definition mem_inv :: "nat \<Rightarrow> memory \<Rightarrow> bool" where
  "mem_inv lim m = fl_inv lim (pool m)"

lemma allocC47Blocks_law:
  assumes "mem_inv lim m" "0 < n" "allocC47Blocks n m = (Some p, m')"
  shows "{p ..< p + n} \<subseteq> mem_free m \<and> mem_free m' = mem_free m - {p ..< p + n} \<and> mem_inv lim m'"
proof -
  obtain h where h: "freeListAlloc n (pool m) = (Some p, h)" "pool m' = h"
    using assms(3) by (auto simp: allocC47Blocks_Some)
  from free_list.balloc_Some [OF assms(1) [unfolded mem_inv_def] assms(2) h(1)] h(2)
  show ?thesis by (simp add: mem_inv_def mem_free_def)
qed

lemma allocC47Blocks_fails:
  assumes "mem_inv lim m" "0 < n" "allocC47Blocks n m = (None, m')"
  shows "m' = m"
proof -
  obtain h where h: "freeListAlloc n (pool m) = (None, h)" "m' = m\<lparr>pool := h\<rparr>"
    using assms(3) by (auto simp: allocC47Blocks_None)
  from free_list.balloc_None [OF assms(1) [unfolded mem_inv_def] assms(2) h(1)] h(2)
  show ?thesis by simp
qed

lemma freeC47Blocks_law:
  assumes "mem_inv lim m" "0 < n" "p + n \<le> lim" "{p ..< p + n} \<inter> mem_free m = {}"
    and "freeC47Blocks (Some p) n m = Inr m'"
  shows "mem_free m' = mem_free m \<union> {p ..< p + n} \<and> mem_inv lim m'"
proof -
  obtain h where h: "freeListFree (Some p) n (pool m) = Inr h" "pool m' = h"
    using assms(5) by (auto simp: freeC47Blocks_Inr)
  from free_list.bfree_Inr [OF assms(1) [unfolded mem_inv_def] assms(2,3) assms(4) [unfolded mem_free_def] h(1)] h(2)
  show ?thesis by (simp add: mem_inv_def mem_free_def)
qed

interpretation c47_memory: block_allocator allocC47Blocks freeC47Blocks mem_free "mem_inv lim" lim for lim
proof
  show "\<And>m a. mem_inv lim m \<Longrightarrow> a \<in> mem_free m \<Longrightarrow> a < lim"
    unfolding mem_inv_def mem_free_def by (rule free_list.fset_lim)
qed (fact allocC47Blocks_law allocC47Blocks_fails freeC47Blocks_law)+

section \<open>The free memory count\<close>

lemma foldl_sizes: "foldl (\<lambda>acc r. acc + sizeInBlocks r) a rs = a + sum_list (map sizeInBlocks rs)"
  by (induction rs arbitrary: a) auto

lemma getFreeRamMemory_card: "mem_inv lim m \<Longrightarrow> getFreeRamMemory m = TO_BYTES (card (mem_free m))"
  using card_blocks_of [of lim "freeMemoryRegions (pool m)"]
  by (simp add: getFreeRamMemory_def foldl_sizes mem_inv_def mem_free_def fl_inv_def free_blocks_def)

section \<open>How many equal blocks fit\<close>

definition capacity :: "nat \<Rightarrow> freeMemoryRegion list \<Rightarrow> nat" where
  "capacity sz rs = sum_list (map (\<lambda>r. sizeInBlocks r div sz) rs)"

lemma capacity_simps [simp]:
  "capacity sz [] = 0" "capacity sz (r # rs) = sizeInBlocks r div sz + capacity sz rs"
  "capacity sz (xs @ ys) = capacity sz xs + capacity sz ys"
  by (simp_all add: capacity_def)

text \<open>An allocation of \<open>sz\<close> blocks uses up one unit of capacity, wherever it is cut from.\<close>

lemma capacity_alloc:
  assumes inv: "fl_inv lim h" and sz: "0 < sz" and a: "freeListAlloc sz h = (Some p, h')"
  shows "Suc (capacity sz (freeMemoryRegions h')) = capacity sz (freeMemoryRegions h)"
proof -
  have wf: "regions_wf lim (freeMemoryRegions h)" and lim: "lim < C47_NULL"
    and len: "length (freeMemoryRegions h) < C47_NULL" using inv by (auto simp: fl_inv_def)
  from wf lim len alloc_size_id [OF sz, symmetric] show ?thesis
  proof (rule freeListAlloc_cases)
    fix us r vs assume dec: "freeMemoryRegions h = us @ r # vs" and le: "sz \<le> sizeInBlocks r"
      and eq: "freeListAlloc sz h = (Some (blockAddress r),
         log_allocation (Some (blockAddress r)) sz (h\<lparr>freeMemoryRegions := us @ alloc_cut sz r @ vs\<rparr>))"
    have "r_end r \<le> lim" using wf dec by simp
    then have "sizeInBlocks r < 65536" using lim by (simp add: r_end_def)
    then have "Suc (capacity sz (alloc_cut sz r)) = sizeInBlocks r div sz"
      using le sz by (auto simp: alloc_cut_def le_div_geq)
    with a eq dec show ?thesis by auto
  qed (use a in simp)
qed

lemma capacity_enough:
  assumes "fl_inv lim h" "0 < sz" "0 < capacity sz (freeMemoryRegions h)"
  shows "\<exists>p h'. freeListAlloc sz h = (Some p, h')"
proof (cases "freeListAlloc sz h")
  case (Pair r h')
  show ?thesis
  proof (cases r)
    case None
    with Pair freeListAlloc_None [OF assms(1), of sz h'] assms(2)
    have "\<forall>r \<in> set (freeMemoryRegions h). sizeInBlocks r div sz = 0" by simp
    then have "capacity sz (freeMemoryRegions h) = 0" by (induction "freeMemoryRegions h") (auto simp: capacity_def)
    with assms(3) show ?thesis by simp
  qed (use Pair in simp)
qed

lemma block_available_capacity:
  "0 < sz \<Longrightarrow> block_available sz num extra rs cnt have_extra \<Longrightarrow> num \<le> cnt + capacity sz rs"
proof (induction rs arbitrary: cnt have_extra)
  case (Cons r rs)
  show ?case
  proof (cases "sizeInBlocks r \<ge> sz * num + extra")
    case True
    then have "num \<le> sizeInBlocks r div sz"
      using Cons.prems(1) by (simp add: less_eq_div_iff_mult_less_eq mult.commute)
    then show ?thesis by simp
  next
    case False
    show ?thesis
    proof (cases "sz \<le> sizeInBlocks r")
      case True
      with False Cons.prems Cons.IH [of "cnt + sizeInBlocks r div sz"] show ?thesis
        by (fastforce simp: Let_def split: if_splits)
    next
      case small: False
      with False Cons.prems Cons.IH [of cnt] show ?thesis by (auto simp: Let_def split: if_splits)
    qed
  qed
qed simp

fun alloc_many :: "nat \<Rightarrow> nat \<Rightarrow> memory \<Rightarrow> memory option" where
  "alloc_many sz 0 m = Some m"
| "alloc_many sz (Suc k) m =
     (case allocC47Blocks sz m of (None, m') \<Rightarrow> None | (Some p, m') \<Rightarrow> alloc_many sz k m')"

lemma alloc_many_capacity:
  "mem_inv lim m \<Longrightarrow> 0 < sz \<Longrightarrow> k \<le> capacity sz (freeMemoryRegions (pool m)) \<Longrightarrow> \<exists>m'. alloc_many sz k m = Some m'"
proof (induction k arbitrary: m)
  case (Suc k)
  then obtain p h where a: "freeListAlloc sz (pool m) = (Some p, h)"
    using capacity_enough [of lim "pool m" sz] by (auto simp: mem_inv_def)
  define m1 where "m1 = m\<lparr>pool := h, c47MemInBlocks := c47MemInBlocks m + of_nat sz\<rparr>"
  have m1: "allocC47Blocks sz m = (Some p, m1)" using a by (simp add: allocC47Blocks_Some m1_def)
  have "mem_inv lim m1" using c47_memory.balloc_Some [OF Suc.prems(1,2) m1] by simp
  moreover have "k \<le> capacity sz (freeMemoryRegions (pool m1))"
    using capacity_alloc [of lim "pool m" sz p h] a Suc.prems by (simp add: mem_inv_def m1_def)
  ultimately obtain m' where "alloc_many sz k m1 = Some m'" using Suc by blast
  with m1 show ?case by simp
qed simp

text \<open>When \<^verbatim>\<open>isMemoryBlockAvailable\<close> answers yes for \<open>num\<close> blocks of a size, \<open>num\<close> successive
  allocations of that size all succeed, however fragmented the pool is.\<close>

theorem isMemoryBlockAvailable_sound:
  assumes "mem_inv lim m" and "0 < sz" and "isMemoryBlockAvailable sz num extraSize m"
  shows "\<exists>m'. alloc_many sz num m = Some m'"
  using assms block_available_capacity [of sz num extraSize "freeMemoryRegions (pool m)" 0 False]
  by (intro alloc_many_capacity) (simp_all add: isMemoryBlockAvailable_def)

definition small_memory :: memory where
  "small_memory = \<lparr>pool = small_heap, c47MemInBlocks = 4, beginOfProgramMemory = 45, firstFreeProgramByte = 190\<rparr>"

lemma small_memory_inv: "mem_inv 50 small_memory"
  using small_heap_inv by (simp add: mem_inv_def small_memory_def heap_inv_def)

lemma isMemoryBlockAvailable_sound_witness:
  "\<exists>m'. alloc_many 3 4 small_memory = Some m'"
  by (rule isMemoryBlockAvailable_sound [OF small_memory_inv, of 3 4 2])
    (simp_all add: isMemoryBlockAvailable_def small_memory_def small_heap_def Let_def)

section \<open>Resizing program memory\<close>

text \<open>
  What the code relies on: the pool ends where program memory begins, and the last region of the
  table is the free space just below it.
\<close>

definition program_ok :: "memory \<Rightarrow> piece multiset \<Rightarrow> bool" where
  "program_ok m M \<longleftrightarrow> beginOfProgramMemory m < RAM_SIZE_IN_BLOCKS \<and> pool_ok (beginOfProgramMemory m) (pool m) M \<and>
     freeMemoryRegions (pool m) \<noteq> [] \<and> r_end (last (freeMemoryRegions (pool m))) = beginOfProgramMemory m"

definition program_size :: "memory \<Rightarrow> nat" where
  "program_size m = RAM_SIZE_IN_BLOCKS - beginOfProgramMemory m"

abbreviation last_region :: "memory \<Rightarrow> freeMemoryRegion" where
  "last_region m \<equiv> last (freeMemoryRegions (pool m))"

lemma ram_resize_last_region [simp]: "ram (resize_last_region n h) = ram h"
  by (simp add: resize_last_region_def Let_def)

text \<open>Moving the end of the last region moves the end of the pool.\<close>

lemma resize_last_region_pool:
  assumes ok: "pool_ok lim h M" and rs: "freeMemoryRegions h = us @ [z]" and z: "r_end z = lim"
    and lim': "blockAddress z < lim'" "lim' < C47_NULL"
    and h': "freeMemoryRegions h' = us @ [z\<lparr>sizeInBlocks := lim' - blockAddress z\<rparr>]"
  shows "pool_ok lim' h' M"
proof -
  have wf: "regions_wf lim (us @ [z])" using ok rs by (simp add: pool_ok_def fl_inv_def)
  have zs: "r_end (z\<lparr>sizeInBlocks := lim' - blockAddress z\<rparr>) = lim'" using lim' by (simp add: r_end_def)
  have us: "\<forall>r \<in> set us. r_end r < blockAddress z" "regions_wf lim us" using wf by auto
  then have "regions_wf lim' us" using lim' by (auto simp: regions_wf_def list_all_iff)
  then have "regions_wf lim' (freeMemoryRegions h')" using us lim' zs by (simp add: h')
  then have fl: "fl_inv lim' h'" using ok lim' by (simp add: pool_ok_def fl_inv_def rs h')
  have top: "{blockAddress z ..< lim} \<subseteq> free_blocks h"
    using z by (auto simp: free_blocks_def rs r_blocks_def)
  have "pieces_ok (blockAddress z) (free_blocks h) M"
    using ok top by (auto simp: pool_ok_def intro: pieces_ok_top)
  then have "pieces_ok (blockAddress z) (blocks_of us) M"
    by (rule pieces_ok_free_mono) (simp add: free_blocks_def rs)
  then have "pieces_ok lim' (blocks_of us \<union> {blockAddress z ..< lim'}) M"
    using lim' by (intro pieces_ok_extend) simp_all
  moreover have "free_blocks h' = blocks_of us \<union> {blockAddress z ..< lim'}"
    using zs by (simp add: free_blocks_def h' r_blocks_def)
  ultimately show ?thesis using fl by (simp add: pool_ok_def)
qed

text \<open>One move of program memory from \<open>start\<close> to \<open>dest\<close>, up or down.\<close>

lemma move_program:
  assumes ok: "program_ok m M" and dest: "blockAddress (last_region m) < dest" "dest < RAM_SIZE_IN_BLOCKS"
    and k: "k = RAM_SIZE_IN_BLOCKS - max dest (beginOfProgramMemory m)"
    and m': "pool m' = (resize_last_region (dest - blockAddress (last_region m)) (pool m))
       \<lparr>ram := xcopy dest (beginOfProgramMemory m) k (ram (pool m))\<rparr>"
      "beginOfProgramMemory m' = dest"
  shows "program_ok m' M"
    and "\<forall>i < k. ram (pool m') (dest + i) = ram (pool m) (beginOfProgramMemory m + i)"
    and "\<forall>a \<in> owned_set M. ram (pool m') a = ram (pool m) a"
proof -
  let ?z = "last_region m"
  have pool: "pool_ok (beginOfProgramMemory m) (pool m) M" and ne: "freeMemoryRegions (pool m) \<noteq> []"
    and z: "r_end ?z = beginOfProgramMemory m" using ok by (auto simp: program_ok_def)
  have rs: "freeMemoryRegions (pool m) = butlast (freeMemoryRegions (pool m)) @ [?z]" using ne by simp
  have rs': "freeMemoryRegions (pool m') = butlast (freeMemoryRegions (pool m)) @ [?z\<lparr>sizeInBlocks := dest - blockAddress ?z\<rparr>]"
    using dest by (simp add: m' resize_last_region_def Let_def)
  have "pool_ok dest (pool m') M"
    using resize_last_region_pool [OF pool rs z dest(1) _ rs'] dest(2) by simp
  then show "program_ok m' M"
    using dest rs' by (simp add: program_ok_def m' r_end_def)
  show "\<forall>i < k. ram (pool m') (dest + i) = ram (pool m) (beginOfProgramMemory m + i)"
    by (simp add: m' xcopy_apply)
  have "?z \<in> set (freeMemoryRegions (pool m))" using ne by simp
  then have "{blockAddress ?z ..< beginOfProgramMemory m} \<subseteq> free_blocks (pool m)"
    using z by (force simp: free_blocks_def blocks_of_def r_blocks_def)
  then have pc: "pieces_ok (blockAddress ?z) (free_blocks (pool m)) M"
    using pool by (auto simp: pool_ok_def intro: pieces_ok_top)
  have "a < dest" if "a \<in> owned_set M" for a
    using that pieces_ok_memD [OF pc] dest by (fastforce simp: owned_set_def piece_set_def)
  then show "\<forall>a \<in> owned_set M. ram (pool m') a = ram (pool m) a"
    by (fastforce simp: m' xcopy_apply)
qed

lemma resizeProgramMemory_cases:
  assumes ok: "program_ok m M" and new: "n = max 1 new" "n < RAM_SIZE_IN_BLOCKS"
  defines "c \<equiv> program_size m" and "a \<equiv> beginOfProgramMemory m"
  shows "resizeProgramMemory new m =
     (if n = c then Inr m
      else if n > c + sizeInBlocks (last_region m) then Inl OutOfMemoryExit
      else Inr (m\<lparr>pool := (resize_last_region (RAM_SIZE_IN_BLOCKS - n - blockAddress (last_region m)) (pool m))
                    \<lparr>ram := xcopy (RAM_SIZE_IN_BLOCKS - n) a (min c n) (ram (pool m))\<rparr>,
                  beginOfProgramMemory := RAM_SIZE_IN_BLOCKS - n,
                  firstFreeProgramByte := firstFreeProgramByte m + TO_BYTES (c - n) - TO_BYTES (n - c)\<rparr>))"
proof -
  let ?z = "last_region m"
  have a: "a < RAM_SIZE_IN_BLOCKS" "freeMemoryRegions (pool m) \<noteq> []" "blockAddress ?z + sizeInBlocks ?z = a"
    using ok by (auto simp: program_ok_def a_def r_end_def)
  have c: "c = RAM_SIZE_IN_BLOCKS - a" by (simp add: c_def a_def program_size_def)
  have cur: "trunc16 (RAM_SIZE_IN_BLOCKS - TO_C47MEMPTR (Some a)) = c"
    using a by (simp add: TO_C47MEMPTR_def c)
  have nn: "(if new = 0 then 1 else new) = n" using new by auto
  have req: "n < c \<Longrightarrow> sizeInBlocks ?z + (c - n) = RAM_SIZE_IN_BLOCKS - n - blockAddress ?z \<and> a + (c - n) = RAM_SIZE_IN_BLOCKS - n"
    using a c by linarith
  have req': "c < n \<Longrightarrow> n \<le> c + sizeInBlocks ?z \<Longrightarrow>
      sizeInBlocks ?z - (n - c) = RAM_SIZE_IN_BLOCKS - n - blockAddress ?z \<and> a - (n - c) = RAM_SIZE_IN_BLOCKS - n"
    using a c by linarith
  show ?thesis
    unfolding resizeProgramMemory_def Let_def nn a_def [symmetric] cur
    using a(2) req req' by auto
qed

text \<open>C7. When the last region of the table ends where program memory begins and the request
  does not use it up exactly, resizing program memory to \<open>n\<close> blocks (at least one) moves it to end
  at the top of RAM: the first \<open>min\<close> of the old and the new size blocks of the program come along, the
  first free program byte keeps its distance from the beginning, no owned data changes and the pool
  stays sound; it exits only when the last region is too small.\<close>

theorem resizeProgramMemory_sound:
  assumes ok: "program_ok m M" and new: "n = max 1 new" "n < RAM_SIZE_IN_BLOCKS"
    and not_all: "n \<noteq> program_size m + sizeInBlocks (last_region m)"
    and first: "TO_BYTES (beginOfProgramMemory m) \<le> firstFreeProgramByte m"
  shows "case resizeProgramMemory new m of
      Inl e \<Rightarrow> e = OutOfMemoryExit \<and> n > program_size m + sizeInBlocks (last_region m)
    | Inr m' \<Rightarrow> program_ok m' M \<and> program_size m' = n \<and>
        (\<forall>i < min n (program_size m).
           ram (pool m') (beginOfProgramMemory m' + i) = ram (pool m) (beginOfProgramMemory m + i)) \<and>
        (\<forall>a \<in> owned_set M. ram (pool m') a = ram (pool m) a) \<and>
        firstFreeProgramByte m' - TO_BYTES (beginOfProgramMemory m') =
          firstFreeProgramByte m - TO_BYTES (beginOfProgramMemory m)"
proof (cases "n = program_size m \<or> n > program_size m + sizeInBlocks (last_region m)")
  case True
  then show ?thesis
    unfolding resizeProgramMemory_cases [OF ok new] using ok by auto
next
  case False
  let ?dest = "RAM_SIZE_IN_BLOCKS - n" and ?a = "beginOfProgramMemory m" and ?z = "last_region m"
  define m' where "m' = m\<lparr>pool := (resize_last_region (?dest - blockAddress ?z) (pool m))
      \<lparr>ram := xcopy ?dest ?a (min (program_size m) n) (ram (pool m))\<rparr>, beginOfProgramMemory := ?dest,
      firstFreeProgramByte := firstFreeProgramByte m + TO_BYTES (program_size m - n) - TO_BYTES (n - program_size m)\<rparr>"
  have res: "resizeProgramMemory new m = Inr m'"
    unfolding resizeProgramMemory_cases [OF ok new] m'_def using False by simp
  have a: "?a < RAM_SIZE_IN_BLOCKS" "blockAddress ?z + sizeInBlocks ?z = ?a"
    using ok by (auto simp: program_ok_def r_end_def)
  have n: "0 < n" "n < program_size m + sizeInBlocks ?z" using new False not_all by auto
  have dest: "blockAddress ?z < ?dest" "?dest < RAM_SIZE_IN_BLOCKS"
    using a n new by (auto simp: program_size_def)
  have k: "min (program_size m) n = RAM_SIZE_IN_BLOCKS - max ?dest ?a"
    using a new by (auto simp: program_size_def)
  note mv = move_program [OF ok dest k, of m']
  have "program_size m' = n" using new by (simp add: m'_def program_size_def)
  moreover have "firstFreeProgramByte m' - TO_BYTES (beginOfProgramMemory m') = firstFreeProgramByte m - TO_BYTES ?a"
    using first a n(2) new(2) by (simp add: m'_def program_size_def)
  ultimately show ?thesis
    using mv res by (simp add: m'_def min.commute)
qed

definition fresh_memory :: memory where
  "fresh_memory = \<lparr>pool = reset_heap, c47MemInBlocks = 0, beginOfProgramMemory = 65533, firstFreeProgramByte = 262132\<rparr>"

lemma fresh_memory_ok: "program_ok fresh_memory {#}"
  using reset_heap_ok by (simp add: program_ok_def fresh_memory_def) (simp add: reset_heap_def r_end_def)

lemma resizeProgramMemory_sound_witness:
  "\<exists>m'. resizeProgramMemory 5 fresh_memory = Inr m' \<and> program_ok m' {#} \<and> beginOfProgramMemory m' = 65529"
proof -
  have "case resizeProgramMemory 5 fresh_memory of
      Inl e \<Rightarrow> e = OutOfMemoryExit \<and> 5 > program_size fresh_memory + sizeInBlocks (last_region fresh_memory)
    | Inr m' \<Rightarrow> program_ok m' {#} \<and> program_size m' = 5"
    using resizeProgramMemory_sound [OF fresh_memory_ok, of 5 5]
    by (auto simp: program_size_def fresh_memory_def reset_heap_def split: sum.splits)
  then show ?thesis
    by (auto simp: program_size_def fresh_memory_def reset_heap_def program_ok_def split: sum.splits)
qed

text \<open>
  The assumption on the last region is needed: an allocation that fits the last region exactly
  removes it, and the next growth of program memory takes its blocks from a region elsewhere while
  program memory moves down over the allocated piece.
\<close>

definition exact_fit_memory :: memory where
  "exact_fit_memory = fresh_memory\<lparr>pool := \<lparr>freeMemoryRegions = [mk_region 68 100],
     allocatedMemoryRegions = [mk_region 168 65365], ram = (\<lambda>_. 0)\<rparr>\<rparr>"

lemma exact_fit_reached:
  "\<exists>m1 m2. allocC47Blocks 100 fresh_memory = (Some 68, m1) \<and> allocC47Blocks 65365 m1 = (Some 168, m2) \<and>
     freeC47Blocks (Some 68) 100 m2 = Inr (exact_fit_memory\<lparr>c47MemInBlocks := 65365\<rparr>)"
  by (simp add: allocC47Blocks_def freeC47Blocks_def fresh_memory_def exact_fit_memory_def reset_heap_def
      freeListAlloc_def freeListFree_def free_region_def insert_region_def log_allocation_def
      TO_PCMEMPTR_def TO_C47MEMPTR_def mk_region_def Let_def)

lemma resizeProgramMemory_hits_owned:
  "\<exists>m'. resizeProgramMemory 2 exact_fit_memory = Inr m' \<and> pool_ok 65533 (pool exact_fit_memory) {#(168, 65365)#} \<and>
     beginOfProgramMemory m' \<in> owned_set {#(168, 65365)#}"
proof -
  have "pool_ok 65533 (pool exact_fit_memory) {#(168, 65365)#}"
    by (simp add: pool_ok_def fl_inv_def exact_fit_memory_def r_end_def free_blocks_def r_blocks_def)
  then show ?thesis
    by (simp add: resizeProgramMemory_def exact_fit_memory_def fresh_memory_def TO_C47MEMPTR_def Let_def)
qed

end
