(* ===== verification/MemoryCount.thy ===== *)
theory MemoryCount
  imports Memory
begin

text \<open>
  The count of the blocks in use, \<^verbatim>\<open>c47MemInBlocks\<close>, against the free memory the calculator reports.
  A piece is remembered with the size its client asked for and gives back.  A request for no block takes one,
  which the count does not see, so that every such piece is one block in neither number.
\<close>

section \<open>Steps of the memory manager\<close>



definition piece_sizes :: "piece multiset \<Rightarrow> nat" where
  "piece_sizes M = sum_mset (image_mset snd M)"

lemma piece_sizes_simps [simp]:
  "piece_sizes {#} = 0" "piece_sizes (add_mset x M) = snd x + piece_sizes M"
  by (simp_all add: piece_sizes_def)


text \<open>The pieces that are really owned, and how many were requested with no block.\<close>

definition owned_pieces :: "piece multiset \<Rightarrow> piece multiset" where
  "owned_pieces M = image_mset (\<lambda>(p, n). (p, alloc_size n)) M"

definition empty_requests :: "piece multiset \<Rightarrow> nat" where
  "empty_requests M = size (filter_mset (\<lambda>x. snd x = 0) M)"

lemma owned_pieces_simps [simp]:
  "owned_pieces {#} = {#}" "owned_pieces (add_mset (p, n) M) = add_mset (p, alloc_size n) (owned_pieces M)"
  "empty_requests {#} = 0" "empty_requests (add_mset (p, n) M) = (if n = 0 then Suc (empty_requests M) else empty_requests M)"
  by (simp_all add: owned_pieces_def empty_requests_def)








end
