(* ===== verification/Strings.thy ===== *)
theory Strings
  imports Prelude "HOL-Library.Monad_Syntax"
begin

text \<open>
  Strings of the calculator: \<^verbatim>\<open>charString.c\<close> (glyphs, UTF-8), \<^verbatim>\<open>sort.c\<close> (comparison, folding of names) and the search
  for a glyph in \<^verbatim>\<open>fonts.c\<close>.  A glyph is one byte below 128 or a lead byte from 128 on and a second byte.

  A C string is the list of the bytes before its terminator; the byte at the length is the terminator.
  Positions are \<^verbatim>\<open>int16_t\<close> variables: integers that wrap at 32768.  An access before the string or behind
  its terminator has no value: \<open>None\<close>.  Positions in strings of 32768 bytes and more run into that, and so
  does a walk over a truncated last glyph.  The table of the font is an argument.
\<close>

type_synonym cstring = "u8 list"

definition byte :: "cstring \<Rightarrow> nat \<Rightarrow> nat" where
  "byte s i = (if i < length s then unat (s ! i) else 0)"

definition char_at :: "cstring \<Rightarrow> int \<Rightarrow> nat option" where
  "char_at s pos = (if 0 \<le> pos \<and> pos \<le> int (length s) then Some (byte s (nat pos)) else None)"

definition to_int16 :: "int \<Rightarrow> int" where
  "to_int16 i = (let r = i mod 65536 in if r < 32768 then r else r - 65536)"

lemma to_int16_small: "-32768 \<le> i \<Longrightarrow> i < 32768 \<Longrightarrow> to_int16 i = i"
proof (cases "0 \<le> i")
  case False
  assume "-32768 \<le> i"
  with False have "(i + 65536) mod 65536 = i + 65536" by (intro mod_pos_pos_trivial) auto
  with False \<open>-32768 \<le> i\<close> show ?thesis by (simp add: to_int16_def)
qed (simp add: to_int16_def)

section \<open>Glyphs\<close>

text \<open>The offset is a \<^verbatim>\<open>uint16_t\<close>.\<close>

definition charCodeFromString :: "cstring \<Rightarrow> nat \<Rightarrow> (nat \<times> nat) option" where
  "charCodeFromString s offset = do {
     charCode \<leftarrow> char_at s (int offset);
     if charCode AND 0x80 \<noteq> 0
     then do {
       low \<leftarrow> char_at s (int (trunc16 (offset + 1)));
       Some (push_bit 8 charCode OR low, trunc16 (offset + 2))
     }
     else Some (charCode, trunc16 (offset + 1))
   }"

definition stringNextGlyph :: "cstring \<Rightarrow> int \<Rightarrow> int option" where
  "stringNextGlyph s pos =
     (let lg = to_int16 (int (length s)) in
      if pos \<ge> lg then Some lg
      else do {
        c \<leftarrow> char_at s pos;
        let pos1 = to_int16 (pos + (if c AND 0x80 \<noteq> 0 then 2 else 1));
        Some (if pos1 \<ge> lg then lg else pos1)
      })"

text \<open>Without the search for the end; not for a position past the terminator.\<close>

definition stringNextGlyphNoEndCheck_JM :: "cstring \<Rightarrow> int \<Rightarrow> int option" where
  "stringNextGlyphNoEndCheck_JM s pos = do {
     c \<leftarrow> char_at s pos;
     if c = 0 then Some pos
     else if c AND 0x80 \<noteq> 0
     then do { d \<leftarrow> char_at s (pos + 2); Some (to_int16 (pos + 2)) }
     else do { d \<leftarrow> char_at s (pos + 1); Some (to_int16 (pos + 1)) }
   }"

text \<open>The loop of \<^verbatim>\<open>stringPrevGlyph\<close>.\<close>

partial_function (option) prev_loop :: "cstring \<Rightarrow> int \<Rightarrow> int \<Rightarrow> int \<Rightarrow> int option" where
  "prev_loop s pos prev cnt = do {
     c \<leftarrow> char_at s cnt;
     if c \<noteq> 0 \<and> cnt < pos then do { n \<leftarrow> stringNextGlyph s cnt; prev_loop s pos cnt n } else Some prev
   }"

definition stringPrevGlyph :: "cstring \<Rightarrow> int \<Rightarrow> int option" where
  "stringPrevGlyph s pos0 =
     (let lg = to_int16 (int (length s)); pos = (if pos0 \<ge> lg then lg else pos0)
      in if pos \<le> 1 then Some 0 else prev_loop s pos 0 0)"

text \<open>The loop of \<^verbatim>\<open>stringLastGlyph\<close>; \<^verbatim>\<open>next\<close> always is one glyph after \<open>lastGlyph\<close>.\<close>

partial_function (option) last_loop :: "cstring \<Rightarrow> int \<Rightarrow> int option" where
  "last_loop s lastGlyph = do {
     n \<leftarrow> stringNextGlyph s lastGlyph;
     if n = to_int16 (int (length s)) then Some lastGlyph else last_loop s n
   }"

definition stringLastGlyph :: "cstring option \<Rightarrow> int option" where
  "stringLastGlyph str = (case str of None \<Rightarrow> Some (-1) | Some s \<Rightarrow> last_loop s 0)"

definition glyph_width :: "cstring \<Rightarrow> nat \<Rightarrow> nat" where
  "glyph_width s pos = (if byte s pos AND 0x80 \<noteq> 0 then 2 else 1)"

text \<open>Here the walk goes by pointers.\<close>

function glyph_walk :: "cstring \<Rightarrow> nat \<Rightarrow> nat option" where
  "glyph_walk s pos =
     (if pos > length s then None
      else if pos = length s then Some 0
      else map_option Suc (glyph_walk s (pos + glyph_width s pos)))"
  by auto
termination
  by (relation "measure (\<lambda>(s, pos). Suc (length s) - pos)") (auto simp: glyph_width_def)

declare glyph_walk.simps [simp del]

definition stringGlyphLength :: "cstring \<Rightarrow> nat option" where
  "stringGlyphLength s = glyph_walk s 0"

definition isValidNumber :: "cstring \<Rightarrow> cstring \<Rightarrow> bool" where
  "isValidNumber ss template \<longleftrightarrow> length ss = length template \<and>
     list_all (\<lambda>n. \<not> (byte template n = 46 \<and> \<not> (byte ss n = 46 \<or> byte ss n = 44) \<or>
                      byte template n = 100 \<and> \<not> (48 \<le> byte ss n \<and> byte ss n \<le> 57) \<or>
                      byte template n = 115 \<and> \<not> (byte ss n = 45 \<or> byte ss n = 43)))
       [0 ..< trunc16 (length ss)]"

definition number_char :: "nat \<Rightarrow> bool" where
  "number_char c \<longleftrightarrow> 48 \<le> c \<and> c \<le> 57 \<or> c = 46 \<or> c = 44"

partial_function (option) stringPrevNumberGlyph :: "cstring \<Rightarrow> int \<Rightarrow> int option" where
  "stringPrevNumberGlyph s pos = do {
     pos2 \<leftarrow> stringPrevGlyph s pos;
     c \<leftarrow> char_at s pos2;
     if number_char c then Some pos2 else if pos2 = 0 then Some 0 else stringPrevNumberGlyph s pos2
   }"

section \<open>UTF-8\<close>

text \<open>The bytes \<^verbatim>\<open>codePointToUtf8\<close> writes before the first zero.\<close>

definition codePointToUtf8 :: "nat \<Rightarrow> nat list" where
  "codePointToUtf8 codePoint =
     takeWhile (\<lambda>b. b \<noteq> 0)
       (if codePoint \<le> 0x7F then [codePoint]
        else if codePoint \<le> 0x7FF then [(0xC0 OR drop_bit 6 codePoint) mod 256, (0x80 OR (codePoint AND 0x3F)) mod 256]
        else [(0xE0 OR drop_bit 12 codePoint) mod 256, (0x80 OR (drop_bit 6 codePoint AND 0x3F)) mod 256,
              (0x80 OR (codePoint AND 0x3F)) mod 256])"

text \<open>The code point at a position and the number of bytes read.\<close>

definition utf8ToCodePoint :: "cstring \<Rightarrow> nat \<Rightarrow> nat \<times> nat" where
  "utf8ToCodePoint u i =
     (let b0 = byte u i; b1 = byte u (i + 1); b2 = byte u (i + 2) in
      if b0 AND 0x80 = 0 then (b0, 1)
      else if b0 AND 0xE0 = 0xC0 then
        (if b1 = 0 then (63, 1) else (push_bit 6 (b0 AND 0x1F) OR (b1 AND 0x3F), 2))
      else if b1 = 0 then (63, 1)
      else if b2 = 0 then (63, 2)
      else (push_bit 12 (b0 AND 0x0F) OR push_bit 6 (b1 AND 0x3F) OR (b2 AND 0x3F), 3))"

text \<open>The loop over the glyphs: \<open>n\<close> are left, the next one starts at \<open>pos\<close>.\<close>

fun utf8_loop :: "cstring \<Rightarrow> nat \<Rightarrow> nat \<Rightarrow> nat list" where
  "utf8_loop s 0 pos = []"
| "utf8_loop s (Suc n) pos =
     (if byte s pos AND 0x80 \<noteq> 0
      then codePointToUtf8 ((byte s pos AND 0x7F) * 256 + byte s (pos + 1)) @ utf8_loop s n (pos + 2)
      else byte s pos # utf8_loop s n (pos + 1))"

text \<open>The number of glyphs is stored in an \<^verbatim>\<open>int16_t\<close>; with a negative one nothing is written, not even a terminator.\<close>

definition stringToUtf8 :: "cstring \<Rightarrow> cstring option" where
  "stringToUtf8 s = do {
     lg \<leftarrow> stringGlyphLength s;
     let len = to_int16 (int lg);
     if len < 0 then None else Some (map of_nat (utf8_loop s (nat len) 0))
   }"

text \<open>Code points whose low byte is 0 have a loan code point.\<close>

definition loan_code_point :: "nat \<Rightarrow> nat" where
  "loan_code_point codePoint =
     (if codePoint = 0x0100 then 0x017F else if codePoint = 0x1D00 then 0x045A else if codePoint = 0x2200 then 0x2C6F else codePoint)"

lemma utf8ToCodePoint_width:
  assumes "i < length u"
  shows "0 < snd (utf8ToCodePoint u i) \<and> i + snd (utf8ToCodePoint u i) \<le> length u"
proof -
  have "byte u j = 0" if "length u \<le> j" for j using that by (simp add: byte_def)
  then have "byte u (i + 1) \<noteq> 0 \<Longrightarrow> i + 1 < length u" "byte u (i + 2) \<noteq> 0 \<Longrightarrow> i + 2 < length u" by (metis not_less)+
  then show ?thesis using assms by (auto simp: utf8ToCodePoint_def Let_def)
qed

lemma utf8ToCodePoint_advance: "(c, w) = utf8ToCodePoint u i \<Longrightarrow> i < length u \<Longrightarrow> length u - (i + w) < length u - i"
  using utf8ToCodePoint_width [of i u] by (cases "utf8ToCodePoint u i") auto

text \<open>
  The walk of \<^verbatim>\<open>utf8ToStringToEnd\<close> from byte \<open>i\<close>, \<open>out\<close> bytes already written; \<open>limit\<close> is the number of
  bytes before the terminator, \<open>None\<close> without a limit.
\<close>

function utf8ToStringToEnd :: "cstring \<Rightarrow> nat option \<Rightarrow> nat \<Rightarrow> nat \<Rightarrow> cstring" where
  "utf8ToStringToEnd u limit out i =
     (if i < length u then
        (let (cp, width) = utf8ToCodePoint u i;
             codePoint = loan_code_point cp;
             fits = (\<lambda>n. case limit of None \<Rightarrow> True | Some m \<Rightarrow> out + n \<le> m)
         in if codePoint < 0x80 then
              (if fits 1 then of_nat codePoint # utf8ToStringToEnd u limit (out + 1) (i + width) else [])
            else if codePoint AND 0xFF = 0 then
              (if fits 1 then 63 # utf8ToStringToEnd u limit (out + 1) (i + width) else [])
            else
              (if fits 2
               then of_nat (drop_bit 8 (codePoint OR 0x8000)) # of_nat ((codePoint OR 0x8000) AND 0xFF) #
                      utf8ToStringToEnd u limit (out + 2) (i + width)
               else []))
      else [])"
  by auto
termination
  by (relation "measure (\<lambda>(u, _, _, i). length u - i)")
    (auto intro: utf8ToCodePoint_advance)

declare utf8ToStringToEnd.simps [simp del]

definition utf8ToString :: "cstring \<Rightarrow> cstring" where
  "utf8ToString u = utf8ToStringToEnd u None 0 0"

text \<open>With no room at all nothing is written, not even a terminator.\<close>

definition utf8ToStringWithLength :: "cstring \<Rightarrow> nat \<Rightarrow> cstring option" where
  "utf8ToStringWithLength u maxBytes = (if maxBytes = 0 then None else Some (utf8ToStringToEnd u (Some (maxBytes - 1)) 0 0))"

section \<open>Small edits\<close>

text \<open>The position is a \<^verbatim>\<open>uint16_t\<close>: without the pair in the first 65536 bytes of a longer string the search goes on for ever.\<close>

partial_function (option) findTwoChars_from :: "cstring \<Rightarrow> nat \<Rightarrow> nat \<Rightarrow> nat \<Rightarrow> nat option option" where
  "findTwoChars_from s char1 char2 i =
     (if i + 1 < length s then
        (if byte s i = char1 \<and> byte s (i + 1) = char2 then Some (Some i)
         else findTwoChars_from s char1 char2 (trunc16 (i + 1)))
      else Some None)"

definition findTwoChars :: "cstring \<Rightarrow> nat \<Rightarrow> nat \<Rightarrow> nat option option" where
  "findTwoChars s char1 char2 = findTwoChars_from s char1 char2 0"

text \<open>The bytes after the first pair equal to the start of \<open>search\<close> go.\<close>

partial_function (option) truncate_loop :: "cstring \<Rightarrow> cstring \<Rightarrow> int \<Rightarrow> cstring option" where
  "truncate_loop label search i = do {
     d \<leftarrow> char_at label (i + 1);
     if d = 0 then Some label
     else do {
       c \<leftarrow> char_at label i;
       if byte search 0 = c \<and> byte search 1 = d then Some (take (nat i) label) else truncate_loop label search (to_int16 (i + 1))
     }
   }"

definition truncateAtString :: "cstring \<Rightarrow> cstring \<Rightarrow> cstring option" where
  "truncateAtString label search = truncate_loop label search 0"

text \<open>The arrows to the right and to the left.\<close>

definition truncateAtArrow :: "cstring \<Rightarrow> cstring option" where
  "truncateAtArrow label = do {
     label1 \<leftarrow> truncateAtString label [0xa1, 0x92];
     truncateAtString label1 [0xa1, 0x90]
   }"

definition addChrBothSides :: "u8 \<Rightarrow> cstring \<Rightarrow> cstring" where
  "addChrBothSides t s = (if t = 0 then [] else t # s @ [t])"

definition addStrBothSides :: "cstring \<Rightarrow> cstring \<Rightarrow> cstring \<Rightarrow> cstring" where
  "addStrBothSides s str_b str_e = str_b @ s @ str_e"

section \<open>Comparison\<close>

definition compareChar :: "cstring \<Rightarrow> cstring \<Rightarrow> int" where
  "compareChar a b =
     (let code = (\<lambda>s. if byte s 0 AND 0x80 \<noteq> 0 then push_bit 8 (byte s 0 AND 0x7f) OR byte s 1 else byte s 0)
      in int (code a) - int (code b))"

text \<open>Low end, number of codes, plain character; superscript 2 is left out so that x squared keeps its exponent.\<close>

definition unSupSubRanges :: "(nat \<times> nat \<times> nat) list" where
  "unSupSubRanges =
     [(0xa4b6, 26, 65), (0xa482, 26, 97), (0xa160, 2, 48), (0xa163, 7, 51), (0xa4d0, 26, 65), (0xa49c, 26, 97), (0xa080, 10, 48)]"

definition unSupSubStruckTable :: "(nat \<times> nat) list" where
  "unSupSubStruckTable =
     [(0xa16a, 43), (0xa16b, 45), (0xa09e, 0xa21e), (0xa08f, 42), (0xa08a, 43), (0xa08b, 45), (0xa09f, 0xa21e),
      (0xa296, 0x83b1), (0xa297, 0x83b4), (0xa298, 0x83bc), (0xa29a, 0xa299), (0xa138, 84), (0xa145, 68), (0xa192, 62)]"

definition spaceLikeChars :: "nat list" where
  "spaceLikeChars = [0xa003, 0xa004, 0xa005, 0xa006, 0xa007, 0xa008, 0xa00a]"

definition charCodeFoldSpace :: "nat \<Rightarrow> nat" where
  "charCodeFoldSpace charCode = (if charCode \<in> set spaceLikeChars then 32 else charCode)"

definition charCodeUnSupSubStruck :: "nat \<Rightarrow> nat" where
  "charCodeUnSupSubStruck charCode =
     (case find (\<lambda>(low, num, base). low \<le> charCode \<and> charCode < low + num) unSupSubRanges of
        Some (low, num, base) \<Rightarrow> charCode - low + base
      | None \<Rightarrow> (case map_of unSupSubStruckTable charCode of Some c \<Rightarrow> c | None \<Rightarrow> charCode))"

definition nextFoldedNameCharCode :: "cstring \<Rightarrow> int \<Rightarrow> (nat \<times> int) option" where
  "nextFoldedNameCharCode name pos = do {
     c \<leftarrow> char_at name pos;
     if c AND 0x80 \<noteq> 0
     then do {
       d \<leftarrow> char_at name (pos + 1);
       Some (charCodeUnSupSubStruck (push_bit 8 c + d), to_int16 (pos + (if d = 0 then 1 else 2)))
     }
     else Some (charCodeUnSupSubStruck c, to_int16 (pos + 1))
   }"

text \<open>The inner option is the answer, \<open>None\<close> for \<open>-1\<close>.\<close>

function fold_loop :: "cstring \<Rightarrow> int \<Rightarrow> nat list \<Rightarrow> int \<Rightarrow> nat list option option" where
  "fold_loop name maxGlyphs folded pos =
     (case char_at name pos of
        None \<Rightarrow> None
      | Some c \<Rightarrow>
          if c = 0 then Some (Some folded)
          else if int (length folded) \<ge> maxGlyphs then Some None
          else (case nextFoldedNameCharCode name pos of
                  None \<Rightarrow> None
                | Some (code, pos1) \<Rightarrow> fold_loop name maxGlyphs (folded @ [code]) pos1))"
  by auto
termination
  by (relation "measure (\<lambda>(_, maxGlyphs, folded, _). nat (maxGlyphs - int (length folded)))") auto

declare fold_loop.simps [simp del]

definition foldNameToCharCodes :: "cstring \<Rightarrow> int \<Rightarrow> nat list option option" where
  "foldNameToCharCodes name maxGlyphs = fold_loop name maxGlyphs [] 0"

function prefolded_loop :: "cstring \<Rightarrow> nat list \<Rightarrow> nat \<Rightarrow> int \<Rightarrow> bool option" where
  "prefolded_loop candidate folded count pos =
     (case char_at candidate pos of
        None \<Rightarrow> None
      | Some c \<Rightarrow>
          if c = 0 then Some (count = length folded)
          else if count \<ge> length folded then Some False
          else (case nextFoldedNameCharCode candidate pos of
                  None \<Rightarrow> None
                | Some (code, pos1) \<Rightarrow>
                    if code \<noteq> folded ! count then Some False else prefolded_loop candidate folded (count + 1) pos1))"
  by auto
termination
  by (relation "measure (\<lambda>(_, folded, count, _). length folded - count)") auto

declare prefolded_loop.simps [simp del]

definition nameEqualsPrefolded :: "cstring \<Rightarrow> nat list \<Rightarrow> bool option" where
  "nameEqualsPrefolded candidate folded = prefolded_loop candidate folded 0 0"

section \<open>Glyphs of the font\<close>

record glyph =
  charCode :: nat
  rank1 :: int
  rank2 :: int

type_synonym font = "glyph list"

definition glyph_at :: "font \<Rightarrow> int \<Rightarrow> glyph option" where
  "glyph_at font i = (if 0 \<le> i \<and> i < int (length font) then Some (font ! nat i) else None)"

text \<open>The binary search keeps the code between two indices; \<open>middle\<close> always is their mean.\<close>

function glyph_search :: "font \<Rightarrow> nat \<Rightarrow> int \<Rightarrow> int \<Rightarrow> int \<times> int" where
  "glyph_search font code low high =
     (if high > low + 1 then
        (let middle = (low + high) div 2 in
         if code < charCode (font ! nat middle) then glyph_search font code low middle else glyph_search font code middle high)
      else (low, high))"
  by auto
termination
  by (relation "measure (\<lambda>(_, _, low, high). nat (high - low))") auto

declare glyph_search.simps [simp del]

definition findGlyphExact :: "font \<Rightarrow> nat \<Rightarrow> int option" where
  "findGlyphExact font code =
     (case glyph_search font code 0 (to_int16 (int (length font) - 1)) of
        (low, high) \<Rightarrow> do {
          g \<leftarrow> glyph_at font low;
          if charCode g = code then Some low
          else do { h \<leftarrow> glyph_at font high; Some (if charCode h = code then high else -1) }
        })"

text \<open>In the standard font, whose identification is 1.\<close>

definition findGlyph :: "font \<Rightarrow> nat \<Rightarrow> int option" where
  "findGlyph font code = do { i \<leftarrow> findGlyphExact font code; Some (if i \<ge> 0 then i else -1) }"

text \<open>A glyph that is missing is looked up at index \<open>-1\<close>: no value.\<close>

definition glyph_rank :: "(glyph \<Rightarrow> int) \<Rightarrow> font \<Rightarrow> nat \<Rightarrow> int option" where
  "glyph_rank r font code = do { i \<leftarrow> findGlyph font code; g \<leftarrow> glyph_at font i; Some (r g) }"

section \<open>Comparison of strings\<close>

abbreviation (input) CMP_BINARY :: nat where "CMP_BINARY \<equiv> 0"
abbreviation (input) CMP_CLEANED_STRING_ONLY :: nat where "CMP_CLEANED_STRING_ONLY \<equiv> 1"
abbreviation (input) CMP_EXTENSIVE :: nat where "CMP_EXTENSIVE \<equiv> 2"
abbreviation (input) CMP_NAME :: nat where "CMP_NAME \<equiv> 3"
abbreviation (input) CMP_COMMAND :: nat where "CMP_COMMAND \<equiv> 4"

definition charCode_at :: "cstring \<Rightarrow> int \<Rightarrow> nat option" where
  "charCode_at s pos = do {
     c \<leftarrow> char_at s pos;
     if c \<ge> 0x80 then do { d \<leftarrow> char_at s (pos + 1); Some (push_bit 8 c + d) } else Some c
   }"

fun compare_loop :: "(nat \<Rightarrow> int option) \<Rightarrow> cstring \<Rightarrow> cstring \<Rightarrow> nat \<Rightarrow> int \<Rightarrow> int \<Rightarrow> int option" where
  "compare_loop rank stra strb 0 posa posb = Some 0"
| "compare_loop rank stra strb (Suc n) posa posb = do {
     codea \<leftarrow> charCode_at stra posa;
     ranka \<leftarrow> rank codea;
     codeb \<leftarrow> charCode_at strb posb;
     rankb \<leftarrow> rank codeb;
     if ranka < rankb then Some (-1)
     else if ranka > rankb then Some 1
     else do {
       posa1 \<leftarrow> stringNextGlyph stra posa;
       posb1 \<leftarrow> stringNextGlyph strb posb;
       compare_loop rank stra strb n posa1 posb1
     }
   }"

definition compare_ranked :: "(nat \<Rightarrow> int option) \<Rightarrow> cstring \<Rightarrow> cstring \<Rightarrow> nat \<Rightarrow> nat \<Rightarrow> int option" where
  "compare_ranked rank stra strb lga lgb = do {
     r \<leftarrow> compare_loop rank stra strb (min lga lgb) 0 0;
     Some (if r \<noteq> 0 then r else if lga < lgb then -1 else if lga > lgb then 1 else 0)
   }"

text \<open>The rank of a code without the font, in a signed variable of 16 bits.\<close>

definition code_rank :: "nat \<Rightarrow> nat \<Rightarrow> int" where
  "code_rank comparisonType code =
     (let code1 = (if comparisonType = CMP_NAME \<or> comparisonType = CMP_COMMAND then charCodeUnSupSubStruck code else code)
      in to_int16 (int (if comparisonType = CMP_COMMAND then charCodeFoldSpace code1 else code1)))"

definition compareString :: "font \<Rightarrow> cstring \<Rightarrow> cstring \<Rightarrow> nat \<Rightarrow> int option" where
  "compareString font stra strb comparisonType = do {
     lga \<leftarrow> stringGlyphLength stra;
     lgb \<leftarrow> stringGlyphLength strb;
     if comparisonType = CMP_BINARY \<or> comparisonType = CMP_NAME \<or> comparisonType = CMP_COMMAND
     then compare_ranked (\<lambda>code. Some (code_rank comparisonType code)) stra strb lga lgb
     else do {
       r \<leftarrow> compare_ranked (glyph_rank rank1 font) stra strb lga lgb;
       if r \<noteq> 0 then Some r
       else if comparisonType = CMP_EXTENSIVE then compare_ranked (glyph_rank rank2 font) stra strb lga lgb
       else Some 0
     }
   }"

end
