(* ===== verification/StringProps.thy ===== *)
theory StringProps
  imports Strings "HOL-Library.List_Lexorder" "HOL-Library.Product_Lexorder"
begin

text \<open>
  Strings as lists of glyph codes: the walks over positions are list functions of the codes; comparison
  is the lexicographic order of ranks.  In strings of less than 32768 bytes no position wraps.
\<close>

section \<open>Bytes\<close>

lemma byte_less [simp]: "byte s i < 256"
  using unsigned_less [of "s ! i", where 'a = nat] by (simp add: byte_def)

lemma high_byte: "b < 256 \<Longrightarrow> b AND 0x80 \<noteq> 0 \<longleftrightarrow> 128 \<le> (b :: nat)"
proof -
  assume b: "b < 256"
  have "b AND 2 ^ 7 = 0 \<longleftrightarrow> \<not> bit b 7" by (rule and_exp_eq_0_iff_not_bit)
  moreover have "bit b 7 \<longleftrightarrow> odd (b div 128)" by (simp add: bit_iff_odd)
  moreover have "128 \<le> b \<Longrightarrow> b div 128 = 1" using b by (intro div_nat_eqI) auto
  moreover have "b < 128 \<Longrightarrow> b div 128 = 0" by simp
  ultimately show ?thesis by (cases "128 \<le> b") auto
qed

lemma high_bit_byte [simp]: "byte s i AND 0x80 = 0 \<longleftrightarrow> byte s i < 128"
  using high_byte [of "byte s i"] by auto

lemma high_bit_byte_pos [simp]: "0 < byte s i AND 0x80 \<longleftrightarrow> 128 \<le> byte s i"
  using high_bit_byte [of s i] by linarith

lemma char_at_nat [simp]: "pos \<le> length s \<Longrightarrow> char_at s (int pos) = Some (byte s pos)"
  by (simp add: char_at_def)

lemma char_at_Suc [simp]: "pos < length s \<Longrightarrow> char_at s (int pos + 1) = Some (byte s (pos + 1))"
  using char_at_nat [of "pos + 1" s] by (simp add: add.commute)

lemma char_at_Suc' [simp]: "pos < length s \<Longrightarrow> char_at s (1 + int pos) = Some (byte s (pos + 1))"
  using char_at_Suc [of pos s] by (simp add: add.commute)

lemma glyph_width_cases: "glyph_width s i = (if 128 \<le> byte s i then 2 else 1)"
  by (simp add: glyph_width_def not_less)

section \<open>Glyph codes\<close>

definition code_at :: "cstring \<Rightarrow> nat \<Rightarrow> nat" where
  "code_at s pos = (if byte s pos \<ge> 0x80 then push_bit 8 (byte s pos) + byte s (pos + 1) else byte s pos)"

fun glyphs :: "cstring \<Rightarrow> nat list option" where
  "glyphs [] = Some []"
| "glyphs [c] = (if 128 \<le> unat c then None else Some [unat c])"
| "glyphs (c # d # s) =
     (if 128 \<le> unat c then map_option ((#) (256 * unat c + unat d)) (glyphs s) else map_option ((#) (unat c)) (glyphs (d # s)))"

lemma glyphs_at:
  assumes "pos < length s"
  shows "glyphs (drop pos s) =
    (if length s < pos + glyph_width s pos then None
     else map_option ((#) (code_at s pos)) (glyphs (drop (pos + glyph_width s pos) s)))"
proof -
  obtain c t where t: "drop pos s = c # t" by (cases "drop pos s") (use assms in auto)
  have c: "byte s pos = unat c" using assms t by (simp add: byte_def) (metis Cons_nth_drop_Suc list.inject t)
  have t': "t = drop (Suc pos) s" using t by (metis drop_Suc list.sel(3) tl_drop)
  show ?thesis
  proof (cases t)
    case Nil
    then have l: "length s = Suc pos" using t' assms by simp
    show ?thesis using t Nil by (simp add: l glyph_width_cases code_at_def c)
  next
    case (Cons d r)
    then have d: "Suc pos < length s" "byte s (Suc pos) = unat d" "r = drop (Suc (Suc pos)) s"
      using t' by (auto simp: byte_def) (metis length_drop list.simps(3) not_less drop_all, metis Cons_nth_drop_Suc drop_all list.inject list.simps(3) not_less,
        metis drop_Suc list.sel(3) tl_drop)
    show ?thesis using t c d Cons t' by (auto simp: glyph_width_cases code_at_def push_bit_eq_mult mult.commute)
  qed
qed

lemma glyphs_step:
  assumes "pos < length s" "glyphs (drop pos s) = Some gs"
  obtains gs' where "gs = code_at s pos # gs'" "pos + glyph_width s pos \<le> length s"
    "glyphs (drop (pos + glyph_width s pos) s) = Some gs'"
  using assms glyphs_at [OF assms(1)] by (auto split: if_splits)

lemma glyphs_induct [consumes 2, case_names ends steps]:
  assumes "glyphs (drop pos s) = Some gs" "pos \<le> length s"
    and "P (length s) []"
    and "\<And>pos gs. pos < length s \<Longrightarrow> pos + glyph_width s pos \<le> length s \<Longrightarrow>
      glyphs (drop (pos + glyph_width s pos) s) = Some gs \<Longrightarrow> P (pos + glyph_width s pos) gs \<Longrightarrow> P pos (code_at s pos # gs)"
  shows "P pos gs"
  using assms(1,2)
proof (induction gs arbitrary: pos)
  case Nil
  have "pos = length s"
  proof (rule ccontr)
    assume "pos \<noteq> length s"
    with Nil.prems have "pos < length s" by simp
    from glyphs_step [OF this Nil.prems(1)] show False by blast
  qed
  with assms(3) show ?case by simp
next
  case (Cons g gs)
  have "pos < length s"
  proof (rule ccontr)
    assume "\<not> pos < length s"
    with Cons.prems show False by simp
  qed
  from glyphs_step [OF this Cons.prems(1)] assms(4) Cons.IH this show ?case by (metis list.inject)
qed

text \<open>One glyph further.\<close>

lemma next_glyph:
  assumes "length s < 32768" "pos < length s" "pos + glyph_width s pos \<le> length s"
  shows "stringNextGlyph s (int pos) = Some (int (pos + glyph_width s pos))"
proof -
  have lg: "to_int16 (int (length s)) = int (length s)" "\<not> int pos \<ge> int (length s)"
    using assms(1,2) by (auto intro: to_int16_small)
  have c: "char_at s (int pos) = Some (byte s pos)" using assms(2) by simp
  have w: "int pos + (if byte s pos AND 0x80 \<noteq> 0 then 2 else 1) = int (pos + glyph_width s pos)"
    by (simp add: glyph_width_def)
  have "to_int16 (int (pos + glyph_width s pos)) = int (pos + glyph_width s pos)" using assms by (intro to_int16_small) auto
  moreover have "int (pos + glyph_width s pos) \<ge> int (length s) \<Longrightarrow> pos + glyph_width s pos = length s" using assms(3) by linarith
  ultimately show ?thesis using lg(2) w
    by (simp add: stringNextGlyph_def Let_def lg c del: of_nat_add high_bit_byte high_bit_byte_pos) linarith
qed

lemma charCode_at_nat: "pos < length s \<Longrightarrow> charCode_at s (int pos) = Some (code_at s pos)"
  by (simp add: charCode_at_def code_at_def)

lemma code_at_less: "code_at s pos < 65536"
proof -
  have "byte s pos < 256" "byte s (pos + 1) < 256" by (rule byte_less)+
  then show ?thesis unfolding code_at_def push_bit_eq_mult by (auto simp del: byte_less)
qed

lemma glyph_walk_glyphs: "pos \<le> length s \<Longrightarrow> glyph_walk s pos = map_option length (glyphs (drop pos s))"
proof (induction "length s - pos" arbitrary: pos rule: less_induct)
  case less
  show ?case
  proof (cases "pos < length s")
    case True
    have w: "1 \<le> glyph_width s pos" by (simp add: glyph_width_def)
    show ?thesis
    proof (cases "length s < pos + glyph_width s pos")
      case True
      then have "glyph_walk s (pos + glyph_width s pos) = None" by (subst glyph_walk.simps) simp
      with True \<open>pos < length s\<close> show ?thesis by (subst glyph_walk.simps) (simp add: glyphs_at)
    next
      case False
      with less.hyps [of "pos + glyph_width s pos"] True w
      have "glyph_walk s (pos + glyph_width s pos) = map_option length (glyphs (drop (pos + glyph_width s pos) s))" by simp
      with True False show ?thesis by (subst glyph_walk.simps) (simp add: glyphs_at option.map_comp o_def)
    qed
  qed (use less.prems in \<open>subst glyph_walk.simps, simp\<close>)
qed

lemma stringGlyphLength_glyphs: "stringGlyphLength s = map_option length (glyphs s)"
  using glyph_walk_glyphs [of 0 s] by (simp add: stringGlyphLength_def)

section \<open>Folding and comparison\<close>

lemma next_folded:
  assumes "0 \<notin> set s" "length s < 32768" "pos < length s" "pos + glyph_width s pos \<le> length s"
  shows "nextFoldedNameCharCode s (int pos) = Some (charCodeUnSupSubStruck (code_at s pos), int (pos + glyph_width s pos))"
    "char_at s (int pos) = Some (byte s pos) \<and> byte s pos \<noteq> 0"
proof -
  have nonzero: "byte s i \<noteq> 0" if "i < length s" for i
  proof -
    have "s ! i \<noteq> 0" using assms(1) that by (metis nth_mem)
    with that show ?thesis by (simp add: byte_def unat_eq_0)
  qed
  then show "char_at s (int pos) = Some (byte s pos) \<and> byte s pos \<noteq> 0" using assms(3) by simp
  have "to_int16 (int (pos + glyph_width s pos)) = int (pos + glyph_width s pos)" using assms by (intro to_int16_small) auto
  moreover have "byte s (pos + 1) \<noteq> 0" if "128 \<le> byte s pos"
    using nonzero [of "pos + 1"] assms(4) that by (simp add: glyph_width_cases)
  ultimately show "nextFoldedNameCharCode s (int pos) = Some (charCodeUnSupSubStruck (code_at s pos), int (pos + glyph_width s pos))"
    using assms(3)
    by (cases "128 \<le> byte s pos") (simp_all add: nextFoldedNameCharCode_def code_at_def glyph_width_cases add.commute [of "int pos"])
qed

lemma terminator [simp]: "byte s (length s) = 0"
  by (simp add: byte_def)

lemma fold_loop_glyphs:
  assumes "0 \<notin> set s" "length s < 32768" "glyphs (drop pos s) = Some gs" "pos \<le> length s"
  shows "fold_loop s n acc (int pos) =
    Some (if int (length acc + length gs) \<le> n \<or> gs = [] then Some (acc @ map charCodeUnSupSubStruck gs) else None)"
  using assms(3,4)
proof (induction pos gs arbitrary: acc rule: glyphs_induct)
  case ends
  show ?case by (subst fold_loop.simps) simp
next
  case (steps pos gs)
  show ?case
    by (subst fold_loop.simps) (use steps next_folded [OF assms(1,2) steps(1,2)] in \<open>auto simp del: of_nat_add\<close>)
qed

lemma prefolded_loop_glyphs:
  assumes "0 \<notin> set s" "length s < 32768" "glyphs (drop pos s) = Some gs" "pos \<le> length s" "count \<le> length folded"
  shows "prefolded_loop s folded count (int pos) = Some (drop count folded = map charCodeUnSupSubStruck gs)"
  using assms(3-5)
proof (induction pos gs arbitrary: count rule: glyphs_induct)
  case ends
  then show ?case by (subst prefolded_loop.simps) auto
next
  case (steps pos gs)
  note nf = next_folded [OF assms(1,2) steps(1,2)]
  show ?case
  proof (cases "count < length folded")
    case True
    then have "drop count folded = folded ! count # drop (count + 1) folded" by (simp add: Cons_nth_drop_Suc)
    then show ?thesis
      using steps(4) [of "count + 1"] True nf by (subst prefolded_loop.simps) (auto simp del: of_nat_add)
  next
    case False
    then show ?thesis using nf by (subst prefolded_loop.simps) simp
  qed
qed

definition cmp :: "'a::linorder \<Rightarrow> 'a \<Rightarrow> int" where
  "cmp x y = (if x < y then -1 else if y < x then 1 else 0)"

lemma cmp_Cons [simp]: "cmp (x # xs) (y # ys) = (if x < y then -1 else if y < x then 1 else cmp xs ys)"
  by (auto simp: cmp_def)

text \<open>\<open>f\<close> are the ranks of the codes that occur.\<close>

lemma compare_loop_glyphs:
  assumes len: "length a < 32768" "length b < 32768" and rank: "\<And>c. c \<in> C \<Longrightarrow> rank c = Some (f c)"
    and "glyphs (drop pa a) = Some xs" "pa \<le> length a" "glyphs (drop pb b) = Some ys" "pb \<le> length b" "set xs \<subseteq> C" "set ys \<subseteq> C"
  shows "\<exists>r. compare_loop rank a b (min (length xs) (length ys)) (int pa) (int pb) = Some r \<and>
    (if r \<noteq> 0 then r else if length xs < length ys then -1 else if length xs > length ys then 1 else 0) = cmp (map f xs) (map f ys)"
  using assms(4-)
proof (induction pa xs arbitrary: pb ys rule: glyphs_induct)
  case ends
  then show ?case by (cases ys) (simp_all add: cmp_def)
next
  case (steps pa xs)
  show ?case
  proof (cases ys)
    case Nil
    then show ?thesis by (simp add: cmp_def)
  next
    case (Cons y ys')
    have pb: "pb < length b" using steps.prems Cons by (cases "pb < length b") auto
    obtain zs where z: "ys = code_at b pb # zs" "pb + glyph_width b pb \<le> length b" "glyphs (drop (pb + glyph_width b pb) b) = Some zs"
      using glyphs_step [OF pb steps.prems(1)] .
    have codes: "charCode_at a (int pa) = Some (code_at a pa)" "charCode_at b (int pb) = Some (code_at b pb)"
      "rank (code_at a pa) = Some (f (code_at a pa))" "rank (code_at b pb) = Some (f (code_at b pb))"
      using charCode_at_nat steps(1) pb rank steps.prems(3,4) z(1) by simp_all
    note nxt = next_glyph [OF len(1) steps(1,2)] next_glyph [OF len(2) pb z(2)]
    have m: "min (length (code_at a pa # xs)) (length ys) = Suc (min (length xs) (length zs))" by (simp add: z(1))
    consider "f (code_at a pa) < f (code_at b pb)" | "f (code_at b pb) < f (code_at a pa)" | "f (code_at a pa) = f (code_at b pb)"
      by (rule linorder_cases)
    then show ?thesis
    proof cases
      case 3
      have "set xs \<subseteq> C" "set zs \<subseteq> C" using steps.prems z(1) by auto
      from steps(4) [OF z(3,2) this] obtain r where
        "compare_loop rank a b (min (length xs) (length zs)) (int (pa + glyph_width a pa)) (int (pb + glyph_width b pb)) = Some r"
        "(if r \<noteq> 0 then r else if length xs < length zs then -1 else if length xs > length zs then 1 else 0) = cmp (map f xs) (map f zs)" by blast
      then show ?thesis unfolding m using codes nxt 3 z(1) by (auto simp del: of_nat_add split: if_splits)
    qed (unfold m, simp_all add: codes z(1))
  qed
qed

lemma compare_ranked_glyphs:
  assumes "length a < 32768" "length b < 32768" "\<And>c. c \<in> set xs \<union> set ys \<Longrightarrow> rank c = Some (f c)" "glyphs a = Some xs" "glyphs b = Some ys"
  shows "compare_ranked rank a b (length xs) (length ys) = Some (cmp (map f xs) (map f ys))"
  using compare_loop_glyphs [OF assms(1,2), where C = "set xs \<union> set ys" and rank = rank and f = f and pa = 0 and pb = 0 and xs = xs and ys = ys] assms(3-5)
  by (auto simp: compare_ranked_def)

section \<open>The search for a glyph\<close>

text \<open>The glyphs are in the order of their codes, and there are not too many for the indices.\<close>

definition font_ok :: "font \<Rightarrow> bool" where
  "font_ok font \<longleftrightarrow> sorted_wrt (<) (map charCode font) \<and> font \<noteq> [] \<and> length font \<le> 32768"

lemma glyph_search_bounds:
  "glyph_search font code low high = (l, h) \<Longrightarrow> low \<le> high \<Longrightarrow> low \<le> l \<and> l \<le> h \<and> h \<le> high"
proof (induction font code low high rule: glyph_search.induct)
  case (1 font code low high)
  show ?case
  proof (cases "high > low + 1")
    case True
    let ?m = "(low + high) div 2"
    have m: "low \<le> ?m" "?m \<le> high" using True by auto
    show ?thesis
    proof (cases "code < charCode (font ! nat ?m)")
      case c: True
      then have "glyph_search font code low ?m = (l, h)" using 1(3) True by (subst (asm) glyph_search.simps) simp
      from 1(1) [OF True refl c this m(1)] m show ?thesis by auto
    next
      case c: False
      then have "glyph_search font code ?m high = (l, h)" using 1(3) True by (subst (asm) glyph_search.simps) simp
      from 1(2) [OF True refl c this m(2)] m show ?thesis by auto
    qed
  next
    case False
    then show ?thesis using 1(3,4) by (subst (asm) glyph_search.simps) simp
  qed
qed

lemma glyph_search_finds:
  "glyph_search font code low high = (l, h) \<Longrightarrow> sorted_wrt (<) (map charCode font) \<Longrightarrow> i < length font \<Longrightarrow> charCode (font ! i) = code \<Longrightarrow>
    0 \<le> low \<Longrightarrow> low \<le> int i \<Longrightarrow> int i \<le> high \<Longrightarrow> high < int (length font) \<Longrightarrow> int i = l \<or> int i = h"
proof (induction font code low high rule: glyph_search.induct)
  case (1 font code low high)
  let ?m = "(low + high) div 2"
  have order: "charCode (font ! j) < charCode (font ! k)" if "j < k" "k < length font" for j k
    using sorted_wrt_nth_less [OF 1(4)] that by force
  show ?case
  proof (cases "high > low + 1")
    case True
    then have m: "0 \<le> ?m" "?m < int (length font)" using 1(7,10) by auto
    show ?thesis
    proof (cases "code < charCode (font ! nat ?m)")
      case c: True
      then have g: "glyph_search font code low ?m = (l, h)" using 1(3) True by (subst (asm) glyph_search.simps) simp
      have "int i \<le> ?m"
      proof (rule ccontr)
        assume "\<not> int i \<le> ?m"
        then have "nat ?m < i" using m(1) by linarith
        from order [OF this 1(5)] 1(6) c show False by simp
      qed
      from 1(1) [OF True refl c g 1(4-8) this m(2)] show ?thesis .
    next
      case c: False
      then have g: "glyph_search font code ?m high = (l, h)" using 1(3) True by (subst (asm) glyph_search.simps) simp
      have "?m \<le> int i"
      proof (rule ccontr)
        assume "\<not> ?m \<le> int i"
        then have "i < nat ?m" "nat ?m < length font" using m by linarith+
        from order [OF this] 1(6) c show False by simp
      qed
      from 1(2) [OF True refl c g 1(4-6) m(1) this 1(9,10)] show ?thesis .
    qed
  next
    case False
    then have "l = low" "h = high" using 1(3) by (subst (asm) glyph_search.simps, simp)+
    with False 1(8,9) show ?thesis by linarith
  qed
qed

lemma unique_code:
  assumes "font_ok font" "i < length font" "j < length font" "charCode (font ! i) = charCode (font ! j)"
  shows "i = j"
  using assms sorted_wrt_nth_less [of "(<)" "map charCode font" i j] sorted_wrt_nth_less [of "(<)" "map charCode font" j i]
  by (cases i j rule: linorder_cases) (auto simp: font_ok_def)

lemma findGlyphExact_correct:
  assumes ok: "font_ok font"
  shows "i < length font \<Longrightarrow> findGlyphExact font (charCode (font ! i)) = Some (int i)"
    "code \<notin> charCode ` set font \<Longrightarrow> findGlyphExact font code = Some (-1)"
proof -
  have last: "to_int16 (int (length font) - 1) = int (length font) - 1" "0 < length font"
    using ok by (auto simp: font_ok_def intro!: to_int16_small)
  have found: "findGlyphExact font code = Some (if charCode (font ! nat l) = code then l else if charCode (font ! nat h) = code then h else -1)"
    if "glyph_search font code 0 (int (length font) - 1) = (l, h)" "0 \<le> l" "l \<le> h" "h < int (length font)" for code l h
    using that last(1) by (simp add: findGlyphExact_def glyph_at_def)
  have bounds: "0 \<le> l \<and> l \<le> h \<and> h < int (length font)" if "glyph_search font code 0 (int (length font) - 1) = (l, h)" for code l h
    using glyph_search_bounds [OF that] last(2) by auto
  show "findGlyphExact font (charCode (font ! i)) = Some (int i)" if i: "i < length font"
  proof -
    obtain l h where lh: "glyph_search font (charCode (font ! i)) 0 (int (length font) - 1) = (l, h)" by force
    note b = bounds [OF lh]
    have "int i = l \<or> int i = h" using glyph_search_finds [OF lh _ i refl] ok i by (auto simp: font_ok_def)
    moreover have "l = int i" if "charCode (font ! nat l) = charCode (font ! i)"
      using unique_code [OF ok i, of "nat l"] b that by auto
    ultimately show ?thesis using found [OF lh] b by auto
  qed
  show "findGlyphExact font code = Some (-1)" if "code \<notin> charCode ` set font"
  proof -
    obtain l h where lh: "glyph_search font code 0 (int (length font) - 1) = (l, h)" by force
    note b = bounds [OF lh]
    have "charCode (font ! nat l) \<in> charCode ` set font" "charCode (font ! nat h) \<in> charCode ` set font" using b by auto
    with that found [OF lh] b show ?thesis by auto
  qed
qed

lemma glyph_rank_Some:
  assumes "font_ok font" "code \<in> charCode ` set font"
  shows "\<exists>g \<in> set font. charCode g = code \<and> glyph_rank r font code = Some (r g)"
proof -
  obtain i where i: "i < length font" "charCode (font ! i) = code" using assms(2) by (metis imageE in_set_conv_nth)
  then have "glyph_rank r font code = Some (r (font ! i))"
    using findGlyphExact_correct(1) [OF assms(1) i(1)] by (simp add: glyph_rank_def findGlyph_def glyph_at_def)
  with i show ?thesis by auto
qed

section \<open>The order of strings\<close>

text \<open>Every glyph of the string is in the font.\<close>

definition in_font :: "font \<Rightarrow> cstring \<Rightarrow> bool" where
  "in_font font s \<longleftrightarrow> (\<forall>gs. glyphs s = Some gs \<longrightarrow> set gs \<subseteq> charCode ` set font)"

text \<open>The modes that do not use the font.\<close>

abbreviation (input) code_modes :: "nat set" where "code_modes \<equiv> {CMP_BINARY, CMP_NAME, CMP_COMMAND}"

text \<open>The key by which a string is ordered.\<close>

definition sort_key :: "font \<Rightarrow> nat \<Rightarrow> nat list \<Rightarrow> int list \<times> int list" where
  "sort_key font t gs =
     (if t \<in> code_modes then (map (code_rank t) gs, [])
      else (map (\<lambda>c. the (glyph_rank rank1 font c)) gs,
            if t = CMP_EXTENSIVE then map (\<lambda>c. the (glyph_rank rank2 font c)) gs else []))"

lemma cmp_pair: "cmp (a, b) (c, d) = (if cmp a c \<noteq> 0 then cmp a c else cmp b d)"
  by (auto simp: cmp_def)

lemma cmp_self [simp]: "cmp x x = 0"
  by (simp add: cmp_def)

lemma compareString_key:
  assumes "glyphs a = Some xs" "glyphs b = Some ys" and len: "length a < 32768" "length b < 32768"
    and font: "t \<notin> code_modes \<Longrightarrow> font_ok font \<and> in_font font a \<and> in_font font b"
  shows "compareString font a b t = Some (cmp (sort_key font t xs) (sort_key font t ys))"
proof (cases "t \<in> code_modes")
  case True
  have "compare_ranked (\<lambda>c. Some (code_rank t c)) a b (length xs) (length ys) = Some (cmp (map (code_rank t) xs) (map (code_rank t) ys))"
    by (rule compare_ranked_glyphs [OF len _ assms(1,2)]) simp
  then show ?thesis using True assms(1,2) by (auto simp: compareString_def stringGlyphLength_glyphs sort_key_def cmp_pair)
next
  case False
  have "glyph_rank r font c = Some (the (glyph_rank r font c))" if "c \<in> set xs \<union> set ys" for r c
  proof -
    have "c \<in> charCode ` set font" using font [OF False] that assms(1,2) by (auto simp: in_font_def)
    with font [OF False] glyph_rank_Some [of font c r] show ?thesis by auto
  qed
  then have "compare_ranked (glyph_rank r font) a b (length xs) (length ys) =
      Some (cmp (map (\<lambda>c. the (glyph_rank r font c)) xs) (map (\<lambda>c. the (glyph_rank r font c)) ys))" for r
    by (intro compare_ranked_glyphs [OF len _ assms(1,2)]) blast
  then show ?thesis using False assms(1,2) by (auto simp: compareString_def stringGlyphLength_glyphs sort_key_def cmp_pair Let_def)
qed

lemma to_int16_inject: "c < 65536 \<Longrightarrow> d < 65536 \<Longrightarrow> to_int16 (int c) = to_int16 (int d) \<longleftrightarrow> c = d"
  by (auto simp: to_int16_def Let_def split: if_splits)

lemma unSup_less: "c < 65536 \<Longrightarrow> charCodeUnSupSubStruck c < 65536"
proof -
  assume c: "c < 65536"
  have ranges: "list_all (\<lambda>(_, num, base). base + num < 65536) unSupSubRanges" by (simp add: unSupSubRanges_def)
  have table: "list_all (\<lambda>(_, d). d < 65536) unSupSubStruckTable" by (simp add: unSupSubStruckTable_def)
  have "c - low + base < 65536"
    if "find (\<lambda>(low, num, base). low \<le> c \<and> c < low + num) unSupSubRanges = Some (low, num, base)" for low num base
    using that ranges by (fastforce simp: find_Some_iff list_all_length)
  moreover have "d < 65536" if "map_of unSupSubStruckTable c = Some d" for d
    using map_of_SomeD [OF that] table by (auto simp: list_all_iff)
  ultimately show ?thesis using c by (auto simp: charCodeUnSupSubStruck_def split: option.split)
qed

lemma glyphs_less: "glyphs s = Some gs \<Longrightarrow> c \<in> set gs \<Longrightarrow> c < 65536"
proof -
  assume "glyphs s = Some gs" "c \<in> set gs"
  then have "glyphs (drop 0 s) = Some gs" "0 \<le> length s" by simp_all
  then have "\<forall>c \<in> set gs. c < 65536" by (induction rule: glyphs_induct) (auto simp: code_at_less)
  with \<open>c \<in> set gs\<close> show ?thesis by blast
qed

lemma glyphs_Nil [simp]: "glyphs s = Some [] \<longleftrightarrow> s = []"
  by (cases s rule: glyphs.cases) (auto split: if_splits)

lemma unat_eq_iff: "x = (y :: u8) \<longleftrightarrow> unat x = unat y"
  by (simp add: unsigned_word_eqI word_unat_eq_iff)

lemma two_digits:
  assumes "q < 256" "q' < 256" "256 * p + q = 256 * p' + (q' :: nat)"
  shows "p = p' \<and> q = q'"
proof -
  have "(256 * p + q) div 256 = (256 * p' + q') div 256" "(256 * p + q) mod 256 = (256 * p' + q') mod 256" by (simp_all only: assms(3))
  then show ?thesis using assms(1,2) by simp
qed

lemma glyphs_inject: "glyphs a = Some gs \<Longrightarrow> glyphs b = Some gs \<Longrightarrow> a = b"
proof (induction a arbitrary: b gs rule: glyphs.induct)
  case 1
  then show ?case by (cases b rule: glyphs.cases) (auto split: if_splits)
next
  case (2 c)
  then show ?case by (cases b rule: glyphs.cases) (auto simp: unat_eq_iff split: if_splits)
next
  case (3 c d s)
  have less: "unat c < 256" for c :: u8 using unsigned_less [of c, where 'a = nat] by simp
  show ?case
  proof (cases b rule: glyphs.cases)
    case 1
    with 3 show ?thesis by (auto split: if_splits)
  next
    case (2 c')
    with 3 show ?thesis by (auto simp: unat_eq_iff split: if_splits)
  next
    case c: (3 c' d' s')
    have e: "256 * unat c + unat d = 256 * unat c' + unat d' \<Longrightarrow> c = c' \<and> d = d'"
      unfolding unat_eq_iff by (rule two_digits [OF less less])
    show ?thesis
    proof (cases "128 \<le> unat c")
      case True
      with 3(3) obtain hs where h: "glyphs s = Some hs" "gs = (256 * unat c + unat d) # hs" by auto
      with 3(4) c less [of c'] True have "128 \<le> unat c'" "256 * unat c + unat d = 256 * unat c' + unat d'" "glyphs s' = Some hs"
        by (auto split: if_splits)
      with 3(1) [OF True h(1)] e c show ?thesis by simp
    next
      case False
      with 3(3) obtain hs where h: "glyphs (d # s) = Some hs" "gs = unat c # hs" by auto
      with 3(4) c False have "unat c = unat c'" "glyphs (d' # s') = Some hs" by (auto split: if_splits)
      with 3(2) [OF False h(1)] c show ?thesis by (simp add: unat_eq_iff)
    qed
  qed
qed

lemma map_inject_below:
  assumes "\<And>x. x \<in> set xs \<Longrightarrow> x < n" "\<And>x. x \<in> set ys \<Longrightarrow> x < n" "\<And>c d. c < n \<Longrightarrow> d < n \<Longrightarrow> f c = f d \<longleftrightarrow> c = d"
  shows "map f xs = map f ys \<longleftrightarrow> xs = (ys :: nat list)"
  using assms(1,2)
proof (induction xs arbitrary: ys)
  case (Cons x xs)
  then show ?case by (cases ys) (auto simp: assms(3))
qed auto

lemma cmp_eq_0 [simp]: "cmp x y = 0 \<longleftrightarrow> x = y"
  by (auto simp: cmp_def)

text \<open>C31. Looking a name up with the folded form of another is the comparison of names: if \<open>original\<close> folds to
  \<open>folded\<close>, a candidate matches exactly when \<^verbatim>\<open>compareString\<close> in mode \<open>CMP_NAME\<close> answers 0, whatever the font.
  Both strings hold no byte zero, end at a glyph and have less than 32768 bytes, so that the positions, which
  are \<^verbatim>\<open>int16_t\<close>, do not wrap; every access then is inside the string.
\<close>

theorem nameEqualsPrefolded_correct:
  assumes "0 \<notin> set candidate" "0 \<notin> set original" "length candidate < 32768" "length original < 32768"
    and "stringGlyphLength candidate \<noteq> None" "stringGlyphLength original \<noteq> None"
    and "foldNameToCharCodes original n = Some (Some folded)"
  shows "compareString font candidate original CMP_NAME \<noteq> None \<and>
    nameEqualsPrefolded candidate folded = Some (compareString font candidate original CMP_NAME = Some 0)"
proof -
  obtain xs ys where g: "glyphs candidate = Some xs" "glyphs original = Some ys"
    using assms(5,6) by (auto simp: stringGlyphLength_glyphs)
  let ?f = "map charCodeUnSupSubStruck"
  have "folded = ?f ys"
    using fold_loop_glyphs [OF assms(2,4), where pos = 0 and gs = ys and acc = "[]" and n = n] assms(7) g(2) by (auto simp: foldNameToCharCodes_def split: if_splits)
  then have l: "nameEqualsPrefolded candidate folded = Some (?f ys = ?f xs)"
    using prefolded_loop_glyphs [OF assms(1,3), of 0 xs 0 folded] g(1) by (simp add: nameEqualsPrefolded_def)
  have "map (to_int16 \<circ> int) (?f xs) = map (to_int16 \<circ> int) (?f ys) \<longleftrightarrow> ?f xs = ?f ys"
    by (rule map_inject_below [where n = 65536]) (use glyphs_less g unSup_less to_int16_inject in auto)
  moreover have "map (code_rank CMP_NAME) gs = map (to_int16 \<circ> int) (?f gs)" for gs
    by (simp add: code_rank_def)
  ultimately have "sort_key font CMP_NAME xs = sort_key font CMP_NAME ys \<longleftrightarrow> ?f xs = ?f ys"
    by (simp only: sort_key_def) simp
  moreover have "compareString font candidate original CMP_NAME = Some (cmp (sort_key font CMP_NAME xs) (sort_key font CMP_NAME ys))"
    by (rule compareString_key [OF g assms(3,4)]) simp
  ultimately show ?thesis unfolding l by auto
qed

text \<open>A superscript a (bytes 164, 130) and a plain a are the same name.\<close>

lemma nameEqualsPrefolded_correct_witness:
  "nameEqualsPrefolded [164, 130] [97] = Some True \<and> compareString [] [164, 130] [97] CMP_NAME = Some 0"
proof -
  have g: "glyphs [164, 130 :: u8] = Some [0xa482]" "glyphs [97 :: u8] = Some [97]" by simp_all
  have f: "foldNameToCharCodes [97] 4 = Some (Some [97])"
    using fold_loop_glyphs [of "[97]", where pos = 0 and gs = "[97]" and acc = "[]" and n = 4]
    by (simp add: foldNameToCharCodes_def charCodeUnSupSubStruck_def unSupSubRanges_def unSupSubStruckTable_def)
  have "compareString [] [164, 130] [97] CMP_NAME = Some 0"
    using compareString_key [OF g, where t = CMP_NAME and font = "[]"]
    by (simp add: sort_key_def code_rank_def charCodeUnSupSubStruck_def unSupSubRanges_def unSupSubStruckTable_def)
  with nameEqualsPrefolded_correct [OF _ _ _ _ _ _ f, where candidate = "[164, 130]" and font = "[]"] show ?thesis
    using g by (simp add: stringGlyphLength_glyphs)
qed

text \<open>C32. Every comparison mode is a total order of the strings that end at a glyph and have less than 32768
  bytes: the answer is -1, 0 or 1, swapping the strings negates it, a string equals itself and not above is
  transitive.  The binary mode answers 0 only for the same string.  The modes by code need no font.  The modes
  by rank (cleaned, extensive) need a font in the order of its codes, with at most 32768 glyphs, that has every
  glyph of the three strings: the code takes the rank of a missing glyph from index \<open>-1\<close> of the table.
\<close>

theorem compareString_order:
  assumes "stringGlyphLength a \<noteq> None" "stringGlyphLength b \<noteq> None" "stringGlyphLength c \<noteq> None"
    and "length a < 32768" "length b < 32768" "length c < 32768"
    and "t \<notin> {CMP_BINARY, CMP_NAME, CMP_COMMAND} \<Longrightarrow> font_ok font \<and> in_font font a \<and> in_font font b \<and> in_font font c"
  shows "\<exists>ab bc ac. compareString font a b t = Some ab \<and> compareString font b c t = Some bc \<and>
    compareString font a c t = Some ac \<and> ab \<in> {-1, 0, 1} \<and> compareString font b a t = Some (- ab) \<and>
    compareString font a a t = Some 0 \<and> (ab \<le> 0 \<and> bc \<le> 0 \<longrightarrow> ac \<le> 0) \<and> (t = CMP_BINARY \<longrightarrow> (ab = 0 \<longleftrightarrow> a = b))"
proof -
  obtain xs ys zs where g: "glyphs a = Some xs" "glyphs b = Some ys" "glyphs c = Some zs"
    using assms(1-3) by (auto simp: stringGlyphLength_glyphs)
  let ?k = "sort_key font t"
  have "map (to_int16 \<circ> int) xs = map (to_int16 \<circ> int) ys \<longleftrightarrow> xs = ys"
    by (rule map_inject_below [where n = 65536]) (use glyphs_less g to_int16_inject in auto)
  moreover have "xs = ys \<longleftrightarrow> a = b" using g(1,2) glyphs_inject by auto
  moreover have "code_rank CMP_BINARY = to_int16 \<circ> int" by (simp add: fun_eq_iff code_rank_def)
  ultimately have "t = CMP_BINARY \<longrightarrow> (cmp (?k xs) (?k ys) = 0 \<longleftrightarrow> a = b)" by (auto simp: sort_key_def)
  moreover have "cmp (?k xs) (?k ys) \<le> 0 \<and> cmp (?k ys) (?k zs) \<le> 0 \<longrightarrow> cmp (?k xs) (?k zs) \<le> 0"
    by (auto simp: cmp_def split: if_splits)
  moreover have "cmp (?k ys) (?k xs) = - cmp (?k xs) (?k ys)" by (auto simp: cmp_def)
  moreover have "cmp (?k xs) (?k ys) \<in> {-1, 0, 1}" by (simp add: cmp_def)
  moreover have key: "compareString font s s' t = Some (cmp (?k gs) (?k gs'))"
    if "(s, gs) \<in> {(a, xs), (b, ys), (c, zs)}" "(s', gs') \<in> {(a, xs), (b, ys), (c, zs)}" for s s' gs gs'
    by (rule compareString_key) (use that g assms(4-7) in auto)
  ultimately show ?thesis
    by (simp add: key [of a xs b ys] key [of b ys c zs] key [of a xs c zs] key [of b ys a xs] key [of a xs a xs])
qed

text \<open>In a font of the letters a and b, by rank.\<close>

lemma compareString_order_witness:
  "\<exists>ab. compareString [\<lparr>charCode = 97, rank1 = 5, rank2 = 1\<rparr>, \<lparr>charCode = 98, rank1 = 5, rank2 = 2\<rparr>] [97] [98] CMP_EXTENSIVE = Some ab \<and>
     compareString [\<lparr>charCode = 97, rank1 = 5, rank2 = 1\<rparr>, \<lparr>charCode = 98, rank1 = 5, rank2 = 2\<rparr>] [98] [97] CMP_EXTENSIVE = Some (- ab) \<and>
     ab = -1"
proof -
  let ?f = "[\<lparr>charCode = 97, rank1 = 5, rank2 = 1\<rparr>, \<lparr>charCode = 98, rank1 = 5, rank2 = 2\<rparr>]"
  have font: "font_ok ?f \<and> in_font ?f [97] \<and> in_font ?f [98] \<and> in_font ?f [98]"
    by (simp add: font_ok_def in_font_def)
  have "\<exists>ab. compareString ?f [97] [98] CMP_EXTENSIVE = Some ab \<and> compareString ?f [98] [97] CMP_EXTENSIVE = Some (- ab)"
    using compareString_order [where a = "[97]" and b = "[98]" and c = "[98]" and t = CMP_EXTENSIVE and font = ?f] font by (simp add: stringGlyphLength_glyphs) metis
  moreover have "compareString ?f [97] [98] CMP_EXTENSIVE = Some (-1)"
    by (simp add: compareString_def stringGlyphLength_glyphs compare_ranked_def charCode_at_def char_at_def byte_def glyph_rank_def findGlyph_def
        findGlyphExact_def glyph_search.simps glyph_at_def to_int16_def stringNextGlyph_def Let_def)
  ultimately show ?thesis by simp
qed

end
