(* ===== verification/Utf8Props.thy ===== *)
theory Utf8Props
  imports StringProps "HOL-Library.Sublist"
begin

text \<open>
  The conversions to and from UTF-8 are inverse, and the bounded one stays in its buffer and cuts only
  between glyphs.  The bit operations are first turned into division with remainder.
\<close>

section \<open>Bits of a byte\<close>

lemma and_63: "x AND 63 = x mod (64 :: nat)"
  using take_bit_eq_mask [of 6 x] by (simp add: take_bit_eq_mod mask_eq_exp_minus_1)

lemma and_31: "x AND 31 = x mod (32 :: nat)"
  using take_bit_eq_mask [of 5 x] by (simp add: take_bit_eq_mod mask_eq_exp_minus_1)

lemma and_15: "x AND 15 = x mod (16 :: nat)"
  using take_bit_eq_mask [of 4 x] by (simp add: take_bit_eq_mod mask_eq_exp_minus_1)

lemma and_255: "x AND 255 = x mod (256 :: nat)"
  using take_bit_eq_mask [of 8 x] by (simp add: take_bit_eq_mod mask_eq_exp_minus_1)

lemma or_plus: "l < 2 ^ n \<Longrightarrow> push_bit n h OR l = h * 2 ^ n + (l :: nat)"
proof -
  assume l: "l < 2 ^ n"
  have "\<not> bit (push_bit n h) k \<or> \<not> bit l k" for k
  proof (cases "n \<le> k")
    case True
    have "\<not> bit (take_bit n l) k" using True by (simp add: bit_take_bit_iff)
    then show ?thesis using l by (simp add: take_bit_nat_eq_self)
  qed (simp add: bit_push_bit_iff)
  then have "push_bit n h + l = push_bit n h OR l" by (rule disjunctive_add)
  then show ?thesis by (simp add: push_bit_eq_mult)
qed

lemma or_high:
  "x < 32 \<Longrightarrow> 192 OR x = 192 + (x :: nat)" "x < 16 \<Longrightarrow> 224 OR x = 224 + x" "x < 64 \<Longrightarrow> 128 OR x = 128 + x"
  "x < 32768 \<Longrightarrow> x OR 32768 = 32768 + x"
  using or_plus [of x 6 3] or_plus [of x 5 7] or_plus [of x 7 1] or_plus [of x 15 1]
  by (simp_all add: push_bit_eq_mult or.commute)

lemma lead_byte:
  "h < 32 \<Longrightarrow> (192 + h) AND 224 = (192 :: nat)" "h < 16 \<Longrightarrow> (224 + h) AND 224 = (224 :: nat)"
proof -
  have m: "x AND 224 = 32 * (x div 32 mod 8)" for x :: nat
  proof -
    have "x AND push_bit 5 y = push_bit 5 (drop_bit 5 x AND y)" for y
      by (auto simp: bit_eq_iff bit_simps)
    from this [of 7] have "x AND 224 = push_bit 5 (drop_bit 5 x AND 7)" by (simp add: push_bit_eq_mult)
    moreover have "y AND 7 = y mod (8 :: nat)" for y
      using take_bit_eq_mask [of 3 y] by (simp add: take_bit_eq_mod mask_eq_exp_minus_1)
    ultimately show ?thesis by (simp add: push_bit_eq_mult drop_bit_eq_div)
  qed
  show "h < 32 \<Longrightarrow> (192 + h) AND 224 = (192 :: nat)" by (simp add: m)
  show "h < 16 \<Longrightarrow> (224 + h) AND 224 = (224 :: nat)" by (simp add: m)
qed

section \<open>Code points\<close>

lemma codePointToUtf8_bytes:
  assumes "0 < cp" "cp < 32768"
  shows "codePointToUtf8 cp =
    (if cp < 128 then [cp]
     else if cp < 2048 then [192 + cp div 64, 128 + cp mod 64]
     else [224 + cp div 4096, 128 + cp div 64 mod 64, 128 + cp mod 64])"
proof -
  have "cp div 64 < 32" if "cp < 2048" using that by (simp add: less_mult_imp_div_less)
  moreover have "cp div 4096 < 16" using assms(2) by (simp add: less_mult_imp_div_less)
  ultimately show ?thesis
    using assms
    by (simp add: codePointToUtf8_def and_63 drop_bit_eq_div or_high)
qed

lemma mod_offset:
  "h < 32 \<Longrightarrow> (192 + h) mod 32 = (h :: nat)" "h < 16 \<Longrightarrow> (224 + h) mod 16 = (h :: nat)" "l < 64 \<Longrightarrow> (128 + l) mod 64 = (l :: nat)"
  using mod_mult_self1 [of h 6 32] mod_mult_self1 [of h 14 16] mod_mult_self1 [of l 2 64] by (simp_all add: add.commute)

lemma utf8ToCodePoint_2:
  assumes "byte u i = 192 + h" "h < 32" "byte u (i + 1) = 128 + l" "l < 64"
  shows "utf8ToCodePoint u i = (h * 64 + l, 2)"
proof -
  have "(192 + h) AND 128 \<noteq> 0" using high_byte [of "192 + h"] assms(2) by simp
  then show ?thesis using assms or_plus [of l 6 h]
    by (simp add: utf8ToCodePoint_def and_63 and_31 lead_byte mod_offset Let_def)
qed

lemma utf8ToCodePoint_3:
  assumes "byte u i = 224 + h" "h < 16" "byte u (i + 1) = 128 + m" "m < 64" "byte u (i + 2) = 128 + l" "l < 64"
  shows "utf8ToCodePoint u i = (h * 4096 + m * 64 + l, 3)"
proof -
  have "push_bit 12 h OR (push_bit 6 m OR l) = h * 4096 + (m * 64 + l)"
    using or_plus [of l 6 m] or_plus [of "m * 64 + l" 12 h] assms(4,6) by simp
  moreover have "(224 + h) AND 128 \<noteq> 0" using high_byte [of "224 + h"] assms(2) by simp
  ultimately show ?thesis using assms
    by (simp add: utf8ToCodePoint_def and_63 and_15 lead_byte mod_offset or.assoc Let_def)
qed

lemma bytes_at: "drop i u = map of_nat bs @ rest \<Longrightarrow> k < length bs \<Longrightarrow> bs ! k < 256 \<Longrightarrow> byte u (i + k) = bs ! k"
proof -
  assume a: "drop i u = map of_nat bs @ rest" "k < length bs" "bs ! k < 256"
  then have "length u - i = length bs + length rest" by (metis length_append length_drop length_map)
  with a(2) have l: "i + k < length u" by simp
  have "u ! (i + k) = drop i u ! k" using l by (simp add: nth_drop)
  also have "\<dots> = of_nat (bs ! k)" using a(2) by (simp add: a(1) nth_append)
  finally show ?thesis using l a(3) by (simp add: byte_def unsigned_of_nat take_bit_nat_eq_self)
qed

lemma utf8ToCodePoint_inverse:
  assumes "drop i u = map of_nat (codePointToUtf8 cp) @ rest" "0 < cp" "cp < 32768"
  shows "utf8ToCodePoint u i = (cp, length (codePointToUtf8 cp))"
proof -
  note bytes = codePointToUtf8_bytes [OF assms(2,3)]
  consider (one) "cp < 128" | (two) "128 \<le> cp" "cp < 2048" | (three) "2048 \<le> cp" by linarith
  then show ?thesis
  proof cases
    case one
    then have "byte u i = cp" using bytes_at [OF assms(1), of 0] bytes by simp
    moreover have "cp AND 128 = 0" using high_byte [of cp] one by simp
    ultimately show ?thesis using one bytes by (simp add: utf8ToCodePoint_def)
  next
    case two
    have h: "cp div 64 < 32" using two by (simp add: less_mult_imp_div_less)
    then have "byte u i = 192 + cp div 64" "byte u (i + 1) = 128 + cp mod 64"
      using bytes_at [OF assms(1), of 0] bytes_at [OF assms(1), of 1] bytes two by simp_all
    from utf8ToCodePoint_2 [OF this(1) h this(2)] show ?thesis using two bytes by simp
  next
    case three
    have h: "cp div 4096 < 16" using assms(3) by (simp add: less_mult_imp_div_less)
    have m: "cp div 64 mod 64 < 64" "cp mod 64 < 64" by simp_all
    have "byte u i = 224 + cp div 4096" "byte u (i + 1) = 128 + cp div 64 mod 64" "byte u (i + 2) = 128 + cp mod 64"
      using bytes_at [OF assms(1), of 0] bytes_at [OF assms(1), of 1] bytes_at [OF assms(1), of 2] bytes three h m by simp_all
    from utf8ToCodePoint_3 [OF this(1) h this(2) m(1) this(3) m(2)] have
      "utf8ToCodePoint u i = (cp div 4096 * 4096 + cp div 64 mod 64 * 64 + cp mod 64, 3)" .
    moreover have "cp div 4096 * 4096 + cp div 64 mod 64 * 64 + cp mod 64 = cp"
    proof -
      have "cp div 4096 = cp div 64 div 64" using div_mult2_eq [of cp 64 64] by simp
      moreover have "cp div 64 = cp div 64 div 64 * 64 + cp div 64 mod 64" "cp = cp div 64 * 64 + cp mod 64" by simp_all
      ultimately show ?thesis by linarith
    qed
    ultimately show ?thesis using three bytes by simp
  qed
qed

section \<open>Strings\<close>

definition glyph_bytes :: "nat \<Rightarrow> nat list" where
  "glyph_bytes g = (if g < 128 then [g] else [g div 256, g mod 256])"

definition glyph_utf8 :: "nat \<Rightarrow> nat list" where
  "glyph_utf8 g = (if g < 128 then [g] else codePointToUtf8 (g - 32768))"

lemma glyphs_bytes: "glyphs s = Some gs \<Longrightarrow> s = concat (map (map of_nat \<circ> glyph_bytes) gs)"
proof (induction s arbitrary: gs rule: glyphs.induct)
  case (3 c d s)
  have less: "unat c < 256" for c :: u8 using unsigned_less [of c, where 'a = nat] by simp
  show ?case
  proof (cases "128 \<le> unat c")
    case True
    with 3(3) obtain hs where h: "glyphs s = Some hs" "gs = (256 * unat c + unat d) # hs" by auto
    have "(256 * unat c + unat d) div 256 = unat c" "(256 * unat c + unat d) mod 256 = unat d" using less [of d] by simp_all
    with True 3(1) [OF True h(1)] h(2) show ?thesis by (simp add: glyph_bytes_def)
  next
    case False
    with 3(3) obtain hs where h: "glyphs (d # s) = Some hs" "gs = unat c # hs" by auto
    with False 3(2) [OF False h(1)] show ?thesis by (simp add: glyph_bytes_def)
  qed
qed (auto simp: glyph_bytes_def split: if_splits)

text \<open>Glyphs of one byte, and of two bytes that stand for a code point from 128 on.\<close>

definition convertible :: "nat \<Rightarrow> bool" where
  "convertible g \<longleftrightarrow> 0 < g \<and> g < 128 \<or> 32768 + 128 \<le> g \<and> g < 65536 \<and> g mod 256 \<noteq> 0"

lemma utf8_loop_glyphs:
  assumes "glyphs (drop pos s) = Some gs" "pos \<le> length s"
  shows "utf8_loop s (length gs) pos = concat (map glyph_utf8 gs)"
  using assms
proof (induction pos gs rule: glyphs_induct)
  case (steps pos gs)
  have h: "128 \<le> byte s pos \<Longrightarrow> byte s pos AND 127 = byte s pos - 128"
  proof -
    assume "128 \<le> byte s pos"
    moreover have "byte s pos AND 127 = byte s pos mod 128"
      using take_bit_eq_mask [of 7 "byte s pos"] by (simp add: take_bit_eq_mod mask_eq_exp_minus_1)
    ultimately show ?thesis using byte_less [of s pos] by (simp add: le_mod_geq)
  qed
  show ?case
  proof (cases "128 \<le> byte s pos")
    case True
    have "code_at s pos - 32768 = (byte s pos - 128) * 256 + byte s (pos + 1)" "128 \<le> code_at s pos"
      using True by (simp_all add: code_at_def push_bit_eq_mult diff_mult_distrib)
    then show ?thesis using steps True h by (simp add: glyph_utf8_def glyph_width_cases)
  next
    case False
    then show ?thesis using steps by (simp add: glyph_utf8_def glyph_width_cases code_at_def)
  qed
qed simp

lemma loan_identity: "cp mod 256 \<noteq> 0 \<Longrightarrow> loan_code_point cp = cp"
  by (auto simp: loan_code_point_def)

lemma glyph_utf8_pos: "convertible g \<Longrightarrow> 0 < length (glyph_utf8 g)"
proof (cases "g < 128")
  case False
  assume "convertible g"
  with False have "0 < g - 32768" "g - 32768 < 32768" by (auto simp: convertible_def)
  then show ?thesis using False codePointToUtf8_bytes [of "g - 32768"] by (simp add: glyph_utf8_def)
qed (simp add: glyph_utf8_def)

lemma decode_glyph:
  assumes "convertible g" "drop i u = map of_nat (glyph_utf8 g) @ rest"
  shows "utf8ToStringToEnd u limit out i =
    (if (case limit of None \<Rightarrow> True | Some m \<Rightarrow> out + length (glyph_bytes g) \<le> m)
     then map of_nat (glyph_bytes g) @ utf8ToStringToEnd u limit (out + length (glyph_bytes g)) (i + length (glyph_utf8 g))
     else [])"
proof -
  have i: "i < length u"
  proof (rule ccontr)
    assume "\<not> i < length u"
    with assms(2) glyph_utf8_pos [OF assms(1)] show False by simp
  qed
  show ?thesis
  proof (cases "g < 128")
    case True
    then have "drop i u = map of_nat [g] @ rest" using assms(2) by (simp add: glyph_utf8_def)
    then have "byte u i = g" using bytes_at [of i u "[g]" rest 0] True by simp
    moreover have "g AND 128 = 0" using high_byte [of g] True by simp
    moreover have "loan_code_point g = g" using True by (simp add: loan_code_point_def)
    ultimately show ?thesis using True i
      by (subst utf8ToStringToEnd.simps) (cases limit; simp add: utf8ToCodePoint_def glyph_bytes_def glyph_utf8_def)
  next
    case False
    then have g: "32768 + 128 \<le> g" "g < 65536" "g mod 256 \<noteq> 0" using assms(1) by (auto simp: convertible_def)
    let ?cp = "g - 32768"
    have cp: "0 < ?cp" "?cp < 32768" "128 \<le> ?cp" using g by auto
    have m: "?cp mod 256 \<noteq> 0" using g by presburger
    have c: "utf8ToCodePoint u i = (?cp, length (glyph_utf8 g))"
      using utf8ToCodePoint_inverse [of i u ?cp rest] assms(2) cp False by (simp add: glyph_utf8_def)
    have o: "?cp OR 32768 = g" using or_high(4) [OF cp(2)] g by simp
    have "drop_bit 8 (?cp OR 32768) = drop_bit 8 g" by (simp only: o)
    then have d: "drop_bit 8 ?cp OR 128 = g div 256" by (simp add: drop_bit_eq_div [of 8 g])
    have d8: "drop_bit 8 g = g div 256" by (simp add: drop_bit_eq_div)
    show ?thesis
      by (subst utf8ToStringToEnd.simps)
        (use i cp(3) m False in \<open>cases limit; simp add: c loan_identity [OF m] o d d8 and_255 glyph_bytes_def\<close>)
  qed
qed

lemma decode_glyphs:
  assumes "list_all convertible gs" "drop i u = map of_nat (concat (map glyph_utf8 gs))"
    and "case limit of None \<Rightarrow> True | Some m \<Rightarrow> out + length (concat (map glyph_bytes gs)) \<le> m"
  shows "utf8ToStringToEnd u limit out i = map of_nat (concat (map glyph_bytes gs))"
  using assms
proof (induction gs arbitrary: out i)
  case Nil
  then show ?case by (subst utf8ToStringToEnd.simps) simp
next
  case (Cons g gs)
  have g: "convertible g" using Cons.prems(1) by simp
  have d: "drop i u = map of_nat (glyph_utf8 g) @ map of_nat (concat (map glyph_utf8 gs))" using Cons.prems(2) by simp
  have "drop (i + length (glyph_utf8 g)) u = map of_nat (concat (map glyph_utf8 gs))"
    using d by (metis append_eq_conv_conj drop_drop add.commute length_map)
  then have "utf8ToStringToEnd u limit (out + length (glyph_bytes g)) (i + length (glyph_utf8 g)) = map of_nat (concat (map glyph_bytes gs))"
    using Cons by (intro Cons.IH) (auto split: option.splits)
  then show ?case using Cons.prems(3) by (subst decode_glyph [OF g d]) (auto split: option.splits)
qed

section \<open>The bound of the buffer\<close>

lemma utf8ToCodePoint_less: "fst (utf8ToCodePoint u i) < 65536"
proof -
  have two: "push_bit 6 (b AND 31) OR (c AND 63) < 65536" for b c :: nat
    using or_plus [of "c mod 64" 6 "b mod 32"] mod_less_divisor [of 32 b] mod_less_divisor [of 64 c] by (simp add: and_63 and_31)
  have three: "push_bit 12 (b AND 15) OR push_bit 6 (c AND 63) OR (d AND 63) < 65536" for b c d :: nat
  proof -
    have "d mod 64 < 64" "c mod 64 < 64" "b mod 16 < 16" by simp_all
    then show ?thesis
      using or_plus [of "d mod 64" 6 "c mod 64"] or_plus [of "c mod 64 * 64 + d mod 64" 12 "b mod 16"]
      by (simp add: and_63 and_15 or.assoc)
  qed
  have "byte u i < 256" by simp
  then show ?thesis using two three by (simp add: utf8ToCodePoint_def Let_def del: byte_less)
qed

lemma loan_less: "c < 65536 \<Longrightarrow> loan_code_point c < 65536"
  by (simp add: loan_code_point_def)

lemma or_lead:
  assumes "c < 65536"
  shows "128 \<le> drop_bit 8 (c OR 32768)" "drop_bit 8 (c OR 32768) < (256 :: nat)"
proof -
  have "c OR 32768 = 32768 + c mod 32768"
  proof -
    have "c OR 32768 = c mod 32768 OR 32768"
    proof (cases "c < 32768")
      case False
      then have "c mod 32768 = c - 32768" using assms by (simp add: mod_if)
      moreover have "c = (c - 32768) OR 32768" using or_high(4) [of "c - 32768"] assms False by simp
      ultimately show ?thesis by (metis or.assoc or.idem)
    qed simp
    then show ?thesis using or_high(4) [of "c mod 32768"] by simp
  qed
  moreover have "c mod 32768 < 32768" by simp
  ultimately show "128 \<le> drop_bit 8 (c OR 32768)" "drop_bit 8 (c OR 32768) < 256"
    by (simp_all only: drop_bit_eq_div) (simp_all add: less_mult_imp_div_less)
qed

lemma of_nat_eq_0_iff_u8: "b < 256 \<Longrightarrow> (of_nat b :: u8) = 0 \<longleftrightarrow> b = 0"
  by (simp add: word_unat_eq_iff unsigned_of_nat take_bit_nat_eq_self)

text \<open>One step of the conversion: the bytes of one glyph, if they fit.\<close>

definition one_glyph :: "cstring \<Rightarrow> bool" where
  "one_glyph bs \<longleftrightarrow> (\<exists>b. bs = [b] \<and> unat b < 128) \<or> (\<exists>b d. bs = [b, d] \<and> 128 \<le> unat b)"

definition fits :: "nat option \<Rightarrow> nat \<Rightarrow> bool" where
  "fits limit n \<longleftrightarrow> (case limit of None \<Rightarrow> True | Some m \<Rightarrow> n \<le> m)"

lemma one_glyph_glyphs: "one_glyph bs \<Longrightarrow> glyphs s \<noteq> None \<Longrightarrow> glyphs (bs @ s) \<noteq> None"
  by (cases s) (auto simp: one_glyph_def)

lemma toEnd_step:
  assumes "i < length u"
  obtains bs w where "one_glyph bs" "0 < w"
    "\<And>limit out. utf8ToStringToEnd u limit out i =
       (if fits limit (out + length bs) then bs @ utf8ToStringToEnd u limit (out + length bs) (i + w) else [])"
proof -
  obtain cp w where cp: "utf8ToCodePoint u i = (cp, w)" by (cases "utf8ToCodePoint u i") auto
  have w: "0 < w" using utf8ToCodePoint_width [OF assms] cp by simp
  let ?c = "loan_code_point cp"
  have c: "?c < 65536" using utf8ToCodePoint_less [of u i] loan_less cp by simp
  consider "?c < 128" | "\<not> ?c < 128" "?c AND 255 = 0" | "\<not> ?c < 128" "?c AND 255 \<noteq> 0" by blast
  then show ?thesis
  proof cases
    case 1
    then have "one_glyph [of_nat ?c]" by (simp add: one_glyph_def unsigned_of_nat take_bit_nat_eq_self)
    then show ?thesis
      by (rule that [OF _ w]) (subst utf8ToStringToEnd.simps, use 1 assms in \<open>simp add: cp fits_def split: option.split\<close>)
  next
    case 2
    then show ?thesis
      by (intro that [of "[63]", OF _ w], simp add: one_glyph_def)
        (subst utf8ToStringToEnd.simps, use 2 assms in \<open>simp add: cp fits_def split: option.split\<close>)
  next
    case 3
    define h where "h = drop_bit 8 (?c OR 32768)"
    have "128 \<le> unat (of_nat h :: u8)" using or_lead [OF c, folded h_def] by (simp add: unsigned_of_nat take_bit_nat_eq_self)
    then show ?thesis
      by (intro that [of "[of_nat h, of_nat ((?c OR 32768) AND 255)]", OF _ w], simp add: one_glyph_def)
        (subst utf8ToStringToEnd.simps, use 3 assms in \<open>simp add: cp fits_def h_def Let_def split: option.split\<close>)
  qed
qed

lemma toEnd_ends: "\<not> i < length u \<Longrightarrow> utf8ToStringToEnd u limit out i = []"
  by (subst utf8ToStringToEnd.simps) simp

lemma toEnd_bounded:
  assumes "fits limit out"
  shows "fits limit (out + length (utf8ToStringToEnd u limit out i)) \<and>
    prefix (utf8ToStringToEnd u limit out i) (utf8ToStringToEnd u None out' i) \<and> glyphs (utf8ToStringToEnd u limit out i) \<noteq> None"
  using assms
proof (induction "length u - i" arbitrary: i out out' rule: less_induct)
  case less
  show ?case
  proof (cases "i < length u")
    case True
    obtain bs w where s: "one_glyph bs" "0 < w" "\<And>limit out. utf8ToStringToEnd u limit out i =
       (if fits limit (out + length bs) then bs @ utf8ToStringToEnd u limit (out + length bs) (i + w) else [])"
      by (rule toEnd_step [OF True]) blast
    have "length u - (i + w) < length u - i" using True s(2) by simp
    from less.hyps [OF this, of "out + length bs" "out' + length bs"] show ?thesis
      using less.prems one_glyph_glyphs [OF s(1)] by (auto simp: s(3) add.assoc fits_def split: option.splits)
  qed (use less.prems in \<open>simp add: toEnd_ends\<close>)
qed

section \<open>Properties\<close>

lemma convertible_glyphs:
  assumes "0 \<notin> set (map of_nat (concat (map glyph_bytes gs)) :: cstring)" "list_all (\<lambda>g. g < 0x80 \<or> 0x8080 \<le> g) gs"
    and "\<And>g. g \<in> set gs \<Longrightarrow> g < 65536"
  shows "list_all convertible gs"
  unfolding list_all_iff
proof
  fix g assume g: "g \<in> set gs"
  have "b \<noteq> 0" if "b \<in> set (glyph_bytes g)" for b using assms(1) g that by force
  then show "convertible g"
    using assms(2,3) g by (auto simp: convertible_def glyph_bytes_def list_all_iff split: if_splits)
qed

lemma utf8_bytes_nonzero:
  assumes "convertible g" "b \<in> set (glyph_utf8 g)"
  shows "(of_nat b :: u8) \<noteq> 0"
proof -
  have "0 < b \<and> b < 256"
  proof (cases "g < 128")
    case True
    then show ?thesis using assms by (auto simp: glyph_utf8_def convertible_def)
  next
    case False
    let ?cp = "g - 32768"
    have "0 < ?cp" "?cp < 32768" using assms(1) False by (auto simp: convertible_def)
    moreover from this have "?cp div 4096 < 16" by (simp add: less_mult_imp_div_less)
    moreover have "?cp div 64 < 32" if "?cp < 2048" using that by (simp add: less_mult_imp_div_less)
    moreover have "n mod 64 < 128" for n :: nat by (rule less_trans [of _ 64]) simp_all
    ultimately show ?thesis using assms(2) False codePointToUtf8_bytes [of ?cp] by (auto simp: glyph_utf8_def split: if_splits)
  qed
  then show ?thesis by (simp add: of_nat_eq_0_iff_u8)
qed

text \<open>C33. Converting a string to UTF-8 and back gives the string again, also through a buffer that has room for
  it and a terminator.  The string holds no byte zero, ends at a glyph, and has no two-byte glyph for a
  code point below 128, which would come back as one byte.  It has less than 32768 glyphs: their number
  is stored in an \<^verbatim>\<open>int16_t\<close>.
\<close>

theorem utf8_roundtrip:
  assumes "0 \<notin> set s" "glyphs s = Some gs" "list_all (\<lambda>g. g < 0x80 \<or> 0x8080 \<le> g) gs" "length gs < 32768"
  shows "\<exists>u. stringToUtf8 s = Some u \<and> 0 \<notin> set u \<and> utf8ToString u = s \<and>
    (\<forall>maxBytes > length s. utf8ToStringWithLength u maxBytes = Some s)"
proof -
  have bytes: "s = map of_nat (concat (map glyph_bytes gs))" using glyphs_bytes [OF assms(2)] by (simp add: map_concat o_def)
  have conv: "list_all convertible gs"
    using assms(1,3) glyphs_less [OF assms(2)] unfolding bytes by (rule convertible_glyphs)
  define u where "u = map of_nat (concat (map glyph_utf8 gs)) @ ([] :: cstring)"
  have "stringToUtf8 s = Some u"
    using utf8_loop_glyphs [of 0 s gs] assms(2,4) by (simp add: stringToUtf8_def stringGlyphLength_glyphs u_def to_int16_small)
  moreover have "utf8ToStringToEnd u limit 0 0 = s" if "fits limit (length s)" for limit
    using decode_glyphs [OF conv, of 0 u 0 limit] that bytes by (auto simp: fits_def u_def split: option.splits)
  moreover have "0 \<notin> set u" using utf8_bytes_nonzero conv by (auto simp: u_def list_all_iff)
  ultimately show ?thesis by (auto simp: utf8ToString_def utf8ToStringWithLength_def fits_def)
qed

text \<open>The letter a and the glyph for code point 0x121 (bytes 129, 33).\<close>

lemma utf8_roundtrip_witness:
  "\<exists>u. stringToUtf8 [97, 129, 33] = Some u \<and> utf8ToString u = [97, 129, 33] \<and> utf8ToStringWithLength u 4 = Some [97, 129, 33]"
  using utf8_roundtrip [of "[97, 129, 33]" "[97, 0x8121]"] by auto

text \<open>C34. Reading text of a file into a buffer of \<open>maxBytes\<close> bytes, whatever the text: the string and its
  terminator fit, no glyph is cut in two, and the string is the start of the unbounded conversion.
\<close>

theorem utf8ToStringWithLength_bounded:
  assumes "utf8ToStringWithLength u maxBytes = Some s"
  shows "length s + 1 \<le> maxBytes \<and> prefix s (utf8ToString u) \<and> stringGlyphLength s \<noteq> None"
  using assms toEnd_bounded [of "Some (maxBytes - 1)" 0 u 0 0]
  by (auto simp: utf8ToStringWithLength_def utf8ToString_def fits_def stringGlyphLength_glyphs split: if_splits)

text \<open>Two bytes for a glyph of two bytes do not suffice with the terminator: nothing is written.\<close>

lemma utf8ToStringWithLength_bounded_witness:
  "utf8ToStringWithLength [196, 161] 2 = Some [] \<and> stringGlyphLength [] \<noteq> None \<and> prefix [] (utf8ToString [196, 161])"
proof -
  have "utf8ToCodePoint [196, 161] 0 = (0x121, 2)"
    using utf8ToCodePoint_2 [of "[196, 161]" 0 4 33] by (simp add: byte_def)
  then have "utf8ToStringWithLength [196, 161] 2 = Some []"
    by (simp add: utf8ToStringWithLength_def utf8ToStringToEnd.simps [of "[196, 161]"] loan_code_point_def)
  with utf8ToStringWithLength_bounded [OF this] show ?thesis by simp
qed

end
