(* ===== verification/CalcState.thy ===== *)
theory CalcState
  imports Prelude
begin

text \<open>
  The global variables of the calculator that the modelled components share (\<^verbatim>\<open>c47.c\<close>), as one
  record that each operation takes and returns, and the constants of \<^verbatim>\<open>defines.h\<close> they use.
  Components with more state extend the record, so the operations are stated for any extension.
  Message texts, drawing and the printer trace are not part of the state.
\<close>

section \<open>Global variables\<close>

record calc =
  systemFlags0 :: u64
  systemFlags1 :: u64
  systemFlags0Changed :: u64
  systemFlags1Changed :: u64
  systemFlags2Changed :: u64
  globalFlags :: "u16 list"              \<comment> \<open>eight words\<close>
  currentLocalFlags :: "u32 option"      \<comment> \<open>\<^verbatim>\<open>NULL\<close> outside a subroutine with local data\<close>
  temporaryInformation :: nat
  programRunStop :: nat
  lastErrorCode :: nat
  errorMessageRegisterLine :: nat
  screenUpdatingMode :: u8
  doRefreshSoftMenu :: bool
  lastIntegerBase :: nat
  alphaCase :: nat
  scrLock :: nat
  nextChar :: nat
  shortIntegerMode :: nat
  shortIntegerWordSize :: nat
  shortIntegerMask :: u64
  shortIntegerSignBit :: u64

section \<open>System flags\<close>

text \<open>Bit 15 marks a system flag, bit 14 one that the user may not write, the low bits are its index.\<close>

abbreviation (input) FLAG_TDM24 :: nat where "FLAG_TDM24 \<equiv> 0x8000"
abbreviation (input) FLAG_YMD :: nat where "FLAG_YMD \<equiv> 0xc001"
abbreviation (input) FLAG_DMY :: nat where "FLAG_DMY \<equiv> 0xc002"
abbreviation (input) FLAG_MDY :: nat where "FLAG_MDY \<equiv> 0xc003"
abbreviation (input) FLAG_CPXRES :: nat where "FLAG_CPXRES \<equiv> 0x8004"
abbreviation (input) FLAG_CPXj :: nat where "FLAG_CPXj \<equiv> 0x8005"
abbreviation (input) FLAG_POLAR :: nat where "FLAG_POLAR \<equiv> 0x8006"
abbreviation (input) FLAG_FRACT :: nat where "FLAG_FRACT \<equiv> 0x8007"
abbreviation (input) FLAG_PROPFR :: nat where "FLAG_PROPFR \<equiv> 0x8008"
abbreviation (input) FLAG_DENANY :: nat where "FLAG_DENANY \<equiv> 0x8009"
abbreviation (input) FLAG_DENFIX :: nat where "FLAG_DENFIX \<equiv> 0x800a"
abbreviation (input) FLAG_CARRY :: nat where "FLAG_CARRY \<equiv> 0x800b"
abbreviation (input) FLAG_OVERFLOW :: nat where "FLAG_OVERFLOW \<equiv> 0x800c"
abbreviation (input) FLAG_LEAD0 :: nat where "FLAG_LEAD0 \<equiv> 0x800d"
abbreviation (input) FLAG_ALPHA :: nat where "FLAG_ALPHA \<equiv> 0x800e"
abbreviation (input) FLAG_alphaCAP :: nat where "FLAG_alphaCAP \<equiv> 0xc00f"
abbreviation (input) FLAG_RUNTIM :: nat where "FLAG_RUNTIM \<equiv> 0xc010"
abbreviation (input) FLAG_AMORT_HP12C :: nat where "FLAG_AMORT_HP12C \<equiv> 0x8011"
abbreviation (input) FLAG_IMPLOT :: nat where "FLAG_IMPLOT \<equiv> 0x8012"
abbreviation (input) FLAG_TRACE :: nat where "FLAG_TRACE \<equiv> 0x8013"
abbreviation (input) FLAG_USER :: nat where "FLAG_USER \<equiv> 0x8014"
abbreviation (input) FLAG_LOWBAT :: nat where "FLAG_LOWBAT \<equiv> 0xc015"
abbreviation (input) FLAG_SLOW :: nat where "FLAG_SLOW \<equiv> 0x8016"
abbreviation (input) FLAG_SPCRES :: nat where "FLAG_SPCRES \<equiv> 0x8017"
abbreviation (input) FLAG_SSIZE8 :: nat where "FLAG_SSIZE8 \<equiv> 0x8018"
abbreviation (input) FLAG_QUIET :: nat where "FLAG_QUIET \<equiv> 0x8019"
abbreviation (input) FLAG_WRAPEND :: nat where "FLAG_WRAPEND \<equiv> 0xc01a"
abbreviation (input) FLAG_MULTx :: nat where "FLAG_MULTx \<equiv> 0x801b"
abbreviation (input) FLAG_ENGOVR :: nat where "FLAG_ENGOVR \<equiv> 0x801c"
abbreviation (input) FLAG_GROW :: nat where "FLAG_GROW \<equiv> 0x801d"
abbreviation (input) FLAG_AUTOFF :: nat where "FLAG_AUTOFF \<equiv> 0x801e"
abbreviation (input) FLAG_AUTXEQ :: nat where "FLAG_AUTXEQ \<equiv> 0x801f"
abbreviation (input) FLAG_PRTACT :: nat where "FLAG_PRTACT \<equiv> 0xc020"
abbreviation (input) FLAG_NUMIN :: nat where "FLAG_NUMIN \<equiv> 0x8021"
abbreviation (input) FLAG_ALPIN :: nat where "FLAG_ALPIN \<equiv> 0x8022"
abbreviation (input) FLAG_ASLIFT :: nat where "FLAG_ASLIFT \<equiv> 0xc023"
abbreviation (input) FLAG_IGN1ER :: nat where "FLAG_IGN1ER \<equiv> 0x8024"
abbreviation (input) FLAG_INTING :: nat where "FLAG_INTING \<equiv> 0xc025"
abbreviation (input) FLAG_SOLVING :: nat where "FLAG_SOLVING \<equiv> 0xc026"
abbreviation (input) FLAG_VMDISP :: nat where "FLAG_VMDISP \<equiv> 0xc027"
abbreviation (input) FLAG_USB :: nat where "FLAG_USB \<equiv> 0xc028"
abbreviation (input) FLAG_ENDPMT :: nat where "FLAG_ENDPMT \<equiv> 0xc029"
abbreviation (input) FLAG_FRCSRN :: nat where "FLAG_FRCSRN \<equiv> 0x802a"
abbreviation (input) FLAG_HPRP :: nat where "FLAG_HPRP \<equiv> 0x802b"
abbreviation (input) FLAG_SBdate :: nat where "FLAG_SBdate \<equiv> 0x802c"
abbreviation (input) FLAG_SBtime :: nat where "FLAG_SBtime \<equiv> 0x802d"
abbreviation (input) FLAG_SBcr :: nat where "FLAG_SBcr \<equiv> 0x802e"
abbreviation (input) FLAG_SBcpx :: nat where "FLAG_SBcpx \<equiv> 0x802f"
abbreviation (input) FLAG_SBang :: nat where "FLAG_SBang \<equiv> 0x8030"
abbreviation (input) FLAG_SBfrac :: nat where "FLAG_SBfrac \<equiv> 0x8031"
abbreviation (input) FLAG_SBint :: nat where "FLAG_SBint \<equiv> 0x8032"
abbreviation (input) FLAG_SBmx :: nat where "FLAG_SBmx \<equiv> 0x8033"
abbreviation (input) FLAG_SBtvm :: nat where "FLAG_SBtvm \<equiv> 0x8034"
abbreviation (input) FLAG_SBoc :: nat where "FLAG_SBoc \<equiv> 0x8035"
abbreviation (input) FLAG_SBss :: nat where "FLAG_SBss \<equiv> 0x8036"
abbreviation (input) FLAG_SBstpw :: nat where "FLAG_SBstpw \<equiv> 0x8037"
abbreviation (input) FLAG_SBser :: nat where "FLAG_SBser \<equiv> 0x8038"
abbreviation (input) FLAG_SBprn :: nat where "FLAG_SBprn \<equiv> 0x8039"
abbreviation (input) FLAG_SBbatV :: nat where "FLAG_SBbatV \<equiv> 0x803a"
abbreviation (input) FLAG_SBshfR :: nat where "FLAG_SBshfR \<equiv> 0x803b"
abbreviation (input) FLAG_HPBASE :: nat where "FLAG_HPBASE \<equiv> 0x803c"
abbreviation (input) FLAG_2TO10 :: nat where "FLAG_2TO10 \<equiv> 0x803d"
abbreviation (input) FLAG_SH_LONGPRESS :: nat where "FLAG_SH_LONGPRESS \<equiv> 0x803e"
abbreviation (input) FLAG_WRAPEDG :: nat where "FLAG_WRAPEDG \<equiv> 0xc03f"
abbreviation (input) FLAG_MONIT :: nat where "FLAG_MONIT \<equiv> 0x8040"
abbreviation (input) FLAG_FRCYC :: nat where "FLAG_FRCYC \<equiv> 0x8041"
abbreviation (input) FLAG_HPCONV :: nat where "FLAG_HPCONV \<equiv> 0x8042"
abbreviation (input) FLAG_NUMLOCK :: nat where "FLAG_NUMLOCK \<equiv> 0x8043"
abbreviation (input) FLAG_CPXMULT :: nat where "FLAG_CPXMULT \<equiv> 0x8044"
abbreviation (input) FLAG_ERPN :: nat where "FLAG_ERPN \<equiv> 0x8045"
abbreviation (input) FLAG_LARGELI :: nat where "FLAG_LARGELI \<equiv> 0x8046"
abbreviation (input) FLAG_IRFRAC :: nat where "FLAG_IRFRAC \<equiv> 0x8047"
abbreviation (input) FLAG_IRFRQ :: nat where "FLAG_IRFRQ \<equiv> 0xc048"
abbreviation (input) FLAG_PFX_ALL :: nat where "FLAG_PFX_ALL \<equiv> 0x8049"
abbreviation (input) FLAG_DREAL :: nat where "FLAG_DREAL \<equiv> 0x804a"
abbreviation (input) FLAG_CPXPLOT :: nat where "FLAG_CPXPLOT \<equiv> 0x804b"
abbreviation (input) FLAG_SHOWX :: nat where "FLAG_SHOWX \<equiv> 0x804c"
abbreviation (input) FLAG_SHOWY :: nat where "FLAG_SHOWY \<equiv> 0x804d"
abbreviation (input) FLAG_PBOX :: nat where "FLAG_PBOX \<equiv> 0x804e"
abbreviation (input) FLAG_PCROS :: nat where "FLAG_PCROS \<equiv> 0x804f"
abbreviation (input) FLAG_PPLUS :: nat where "FLAG_PPLUS \<equiv> 0x8050"
abbreviation (input) FLAG_PLINE :: nat where "FLAG_PLINE \<equiv> 0x8051"
abbreviation (input) FLAG_SCALE :: nat where "FLAG_SCALE \<equiv> 0x8052"
abbreviation (input) FLAG_VECT :: nat where "FLAG_VECT \<equiv> 0x8053"
abbreviation (input) FLAG_NVECT :: nat where "FLAG_NVECT \<equiv> 0x8054"
abbreviation (input) FLAG_US :: nat where "FLAG_US \<equiv> 0x8055"
abbreviation (input) FLAG_MNUp1 :: nat where "FLAG_MNUp1 \<equiv> 0x8056"
abbreviation (input) FLAG_SBwoy :: nat where "FLAG_SBwoy \<equiv> 0x8057"
abbreviation (input) FLAG_TOPHEX :: nat where "FLAG_TOPHEX \<equiv> 0x8058"
abbreviation (input) FLAG_BCD :: nat where "FLAG_BCD \<equiv> 0x8059"
abbreviation (input) FLAG_PCURVE :: nat where "FLAG_PCURVE \<equiv> 0x805a"
abbreviation (input) FLAG_CLX_DROP :: nat where "FLAG_CLX_DROP \<equiv> 0x805b"
abbreviation (input) FLAG_BASE_MYM :: nat where "FLAG_BASE_MYM \<equiv> 0x805c"
abbreviation (input) FLAG_G_DOUBLETAP :: nat where "FLAG_G_DOUBLETAP \<equiv> 0x805d"
abbreviation (input) FLAG_BASE_HOME :: nat where "FLAG_BASE_HOME \<equiv> 0x805e"
abbreviation (input) FLAG_MYM_TRIPLE :: nat where "FLAG_MYM_TRIPLE \<equiv> 0x805f"
abbreviation (input) FLAG_HOME_TRIPLE :: nat where "FLAG_HOME_TRIPLE \<equiv> 0x8060"
abbreviation (input) FLAG_SHFT_4s :: nat where "FLAG_SHFT_4s \<equiv> 0x8061"
abbreviation (input) FLAG_FGLNLIM :: nat where "FLAG_FGLNLIM \<equiv> 0x8062"
abbreviation (input) FLAG_FGLNFUL :: nat where "FLAG_FGLNFUL \<equiv> 0x8063"
abbreviation (input) FLAG_FGGR :: nat where "FLAG_FGGR \<equiv> 0x8064"
abbreviation (input) FLAG_3DPHYS :: nat where "FLAG_3DPHYS \<equiv> 0x8065"
abbreviation (input) FLAG_3DXYZ :: nat where "FLAG_3DXYZ \<equiv> 0x8066"
abbreviation (input) FLAG_PRTEN :: nat where "FLAG_PRTEN \<equiv> 0x8067"
abbreviation (input) FLAG_NORM :: nat where "FLAG_NORM \<equiv> 0x8068"
abbreviation (input) FLAG_BOLD :: nat where "FLAG_BOLD \<equiv> 0x8069"
abbreviation (input) FLAG_SIGZEROS :: nat where "FLAG_SIGZEROS \<equiv> 0x806a"
abbreviation (input) FLAG_PRMS :: nat where "FLAG_PRMS \<equiv> 0x806b"
abbreviation (input) FLAG_PINTG :: nat where "FLAG_PINTG \<equiv> 0x806c"
abbreviation (input) FLAG_PDIFF :: nat where "FLAG_PDIFF \<equiv> 0x806d"
abbreviation (input) FLAG_PSHADE :: nat where "FLAG_PSHADE \<equiv> 0x806e"
abbreviation (input) FLAG_SBadm :: nat where "FLAG_SBadm \<equiv> 0x806f"
abbreviation (input) FLAG_AUTOVALID :: nat where "FLAG_AUTOVALID \<equiv> 0x8070"
abbreviation (input) FLAG_M_ALL :: nat where "FLAG_M_ALL \<equiv> 0x8072"
abbreviation (input) FLAG_PL_2L :: nat where "FLAG_PL_2L \<equiv> 0x8073"

definition system_flags :: "nat list" where
  "system_flags = [FLAG_TDM24, FLAG_YMD, FLAG_DMY, FLAG_MDY, FLAG_CPXRES, FLAG_CPXj, FLAG_POLAR,
    FLAG_FRACT, FLAG_PROPFR, FLAG_DENANY, FLAG_DENFIX, FLAG_CARRY, FLAG_OVERFLOW,
    FLAG_LEAD0, FLAG_ALPHA, FLAG_alphaCAP, FLAG_RUNTIM, FLAG_AMORT_HP12C, FLAG_IMPLOT,
    FLAG_TRACE, FLAG_USER, FLAG_LOWBAT, FLAG_SLOW, FLAG_SPCRES, FLAG_SSIZE8,
    FLAG_QUIET, FLAG_WRAPEND, FLAG_MULTx, FLAG_ENGOVR, FLAG_GROW, FLAG_AUTOFF,
    FLAG_AUTXEQ, FLAG_PRTACT, FLAG_NUMIN, FLAG_ALPIN, FLAG_ASLIFT, FLAG_IGN1ER,
    FLAG_INTING, FLAG_SOLVING, FLAG_VMDISP, FLAG_USB, FLAG_ENDPMT, FLAG_FRCSRN,
    FLAG_HPRP, FLAG_SBdate, FLAG_SBtime, FLAG_SBcr, FLAG_SBcpx, FLAG_SBang,
    FLAG_SBfrac, FLAG_SBint, FLAG_SBmx, FLAG_SBtvm, FLAG_SBoc, FLAG_SBss, FLAG_SBstpw,
    FLAG_SBser, FLAG_SBprn, FLAG_SBbatV, FLAG_SBshfR, FLAG_HPBASE, FLAG_2TO10,
    FLAG_SH_LONGPRESS, FLAG_WRAPEDG, FLAG_MONIT, FLAG_FRCYC, FLAG_HPCONV, FLAG_NUMLOCK,
    FLAG_CPXMULT, FLAG_ERPN, FLAG_LARGELI, FLAG_IRFRAC, FLAG_IRFRQ, FLAG_PFX_ALL,
    FLAG_DREAL, FLAG_CPXPLOT, FLAG_SHOWX, FLAG_SHOWY, FLAG_PBOX, FLAG_PCROS,
    FLAG_PPLUS, FLAG_PLINE, FLAG_SCALE, FLAG_VECT, FLAG_NVECT, FLAG_US, FLAG_MNUp1,
    FLAG_SBwoy, FLAG_TOPHEX, FLAG_BCD, FLAG_PCURVE, FLAG_CLX_DROP, FLAG_BASE_MYM,
    FLAG_G_DOUBLETAP, FLAG_BASE_HOME, FLAG_MYM_TRIPLE, FLAG_HOME_TRIPLE, FLAG_SHFT_4s,
    FLAG_FGLNLIM, FLAG_FGLNFUL, FLAG_FGGR, FLAG_3DPHYS, FLAG_3DXYZ, FLAG_PRTEN,
    FLAG_NORM, FLAG_BOLD, FLAG_SIGZEROS, FLAG_PRMS, FLAG_PINTG, FLAG_PDIFF,
    FLAG_PSHADE, FLAG_SBadm, FLAG_AUTOVALID, FLAG_M_ALL, FLAG_PL_2L]"

section \<open>User flags\<close>

abbreviation (input) NUMBER_OF_GLOBAL_FLAGS :: nat where "NUMBER_OF_GLOBAL_FLAGS \<equiv> 112"
abbreviation (input) NUMBER_OF_LOCAL_FLAGS :: nat where "NUMBER_OF_LOCAL_FLAGS \<equiv> 32"
abbreviation (input) FLAG_K :: nat where "FLAG_K \<equiv> 111"
abbreviation (input) LAST_LOCAL_FLAG :: nat where "LAST_LOCAL_FLAG \<equiv> 143"
abbreviation (input) FLAG_M :: nat where "FLAG_M \<equiv> 211"
abbreviation (input) FLAG_W :: nat where "FLAG_W \<equiv> 224"

section \<open>Other constants\<close>

abbreviation (input) TI_NO_INFO :: nat where "TI_NO_INFO \<equiv> 0"
abbreviation (input) TI_FALSE :: nat where "TI_FALSE \<equiv> 12"
abbreviation (input) TI_TRUE :: nat where "TI_TRUE \<equiv> 13"
abbreviation (input) TI_CLEAR_ALL_FLAGS :: nat where "TI_CLEAR_ALL_FLAGS \<equiv> 96"
abbreviation (input) PGM_STOPPED :: nat where "PGM_STOPPED \<equiv> 0"
abbreviation (input) PGM_RUNNING :: nat where "PGM_RUNNING \<equiv> 1"
abbreviation (input) PGM_WAITING :: nat where "PGM_WAITING \<equiv> 2"
abbreviation (input) SCRUPD_AUTO :: u8 where "SCRUPD_AUTO \<equiv> 0"
abbreviation (input) SCRUPD_MANUAL_STATUSBAR :: u8 where "SCRUPD_MANUAL_STATUSBAR \<equiv> 1"
abbreviation (input) NOT_CONFIRMED :: nat where "NOT_CONFIRMED \<equiv> 9878"
abbreviation (input) REGISTER_X :: nat where "REGISTER_X \<equiv> 100"
abbreviation (input) REGISTER_Z :: nat where "REGISTER_Z \<equiv> 102"
abbreviation (input) ERR_REGISTER_LINE :: nat where "ERR_REGISTER_LINE \<equiv> REGISTER_Z"

text \<open>Error codes.\<close>

abbreviation (input) ERROR_NONE :: nat where "ERROR_NONE \<equiv> 0"
abbreviation (input) ERROR_ARG_EXCEEDS_FUNCTION_DOMAIN :: nat where "ERROR_ARG_EXCEEDS_FUNCTION_DOMAIN \<equiv> 1"
abbreviation (input) ERROR_OUT_OF_RANGE :: nat where "ERROR_OUT_OF_RANGE \<equiv> 8"
abbreviation (input) ERROR_RAM_FULL :: nat where "ERROR_RAM_FULL \<equiv> 11"
abbreviation (input) ERROR_WORD_SIZE_TOO_SMALL :: nat where "ERROR_WORD_SIZE_TOO_SMALL \<equiv> 14"
abbreviation (input) ERROR_INVALID_DATA_TYPE_FOR_OP :: nat where "ERROR_INVALID_DATA_TYPE_FOR_OP \<equiv> 24"
abbreviation (input) ERROR_WRITE_PROTECTED_SYSTEM_FLAG :: nat where "ERROR_WRITE_PROTECTED_SYSTEM_FLAG \<equiv> 32"

text \<open>\<^verbatim>\<open>displayCalcErrorMessage\<close> of \<^verbatim>\<open>error.c\<close> for the codes and register lines used here.\<close>

definition displayCalcErrorMessage :: "nat \<Rightarrow> nat \<Rightarrow> 'a calc_scheme \<Rightarrow> 'a calc_scheme" where
  "displayCalcErrorMessage errorCode line s =
     s\<lparr>lastErrorCode := errorCode, errorMessageRegisterLine := line, screenUpdatingMode := SCRUPD_AUTO\<rparr>"

definition SET_TI_TRUE_FALSE :: "bool \<Rightarrow> 'a calc_scheme \<Rightarrow> 'a calc_scheme" where
  "SET_TI_TRUE_FALSE condition s = s\<lparr>temporaryInformation := TI_FALSE + (if condition then 1 else 0)\<rparr>"

definition fnRefreshState :: "'a calc_scheme \<Rightarrow> 'a calc_scheme" where
  "fnRefreshState s = s\<lparr>doRefreshSoftMenu := True\<rparr>"

end
