(* ===== verification/Flags.thy ===== *)
theory Flags
  imports CalcState
begin

text \<open>
  The flags of \<^verbatim>\<open>flags.c\<close>: two words of system flags with their change detection, the interlocks
  between them, the 126 global and 32 local user flags, the commands that set, clear, flip and test
  them, and \<^verbatim>\<open>SetSetting\<close>.  What the interface does beyond the flags (entering and leaving the alpha
  modes, closing a parameter entry, the change of base that BCD triggers, the confirmation of CLFALL)
  belongs to other components and is an argument, the record \<open>flag_ui\<close>.  The shift indicator,
  which is recomputed from the flags, and the clock of the hardware are display matters left out.
\<close>

record 's flag_ui =
  ui_changeBase :: "nat \<Rightarrow> 's \<Rightarrow> 's"        \<comment> \<open>\<^verbatim>\<open>fnChangeBaseJM\<close>\<close>
  ui_leaveTamMode :: "'s \<Rightarrow> 's"            \<comment> \<open>\<^verbatim>\<open>leaveTamModeIfEnabled\<close>\<close>
  ui_setAlpha :: "'s \<Rightarrow> 's"                \<comment> \<open>\<^verbatim>\<open>_setAlpha\<close>\<close>
  ui_clearAlpha :: "'s \<Rightarrow> 's"              \<comment> \<open>\<^verbatim>\<open>_clearAlpha\<close>\<close>
  ui_confirm :: "'s \<Rightarrow> 's"                 \<comment> \<open>\<^verbatim>\<open>setConfirmationMode\<close>\<close>
  ui_showAlphaMode :: "'s \<Rightarrow> 's"           \<comment> \<open>\<^verbatim>\<open>showAlphaModeonGui\<close>\<close>

section \<open>System flags\<close>

definition flag_ix :: "nat \<Rightarrow> nat" where
  "flag_ix sf = sf AND 0x3fff"

abbreviation flag_bit :: "nat \<Rightarrow> u64" where
  "flag_bit n \<equiv> push_bit n 1"

definition set_system_bit :: "nat \<Rightarrow> 'a calc_scheme \<Rightarrow> 'a calc_scheme" where
  "set_system_bit sf s =
     (let flag = flag_ix sf in
      if flag < 64 then
        s\<lparr>systemFlags0Changed := systemFlags0Changed s OR (NOT (systemFlags0 s) AND flag_bit flag),
          systemFlags0 := systemFlags0 s OR flag_bit flag\<rparr>
      else
        s\<lparr>systemFlags1Changed := systemFlags1Changed s OR (NOT (systemFlags1 s) AND flag_bit (flag - 64)),
          systemFlags1 := systemFlags1 s OR flag_bit (flag - 64)\<rparr>)"

definition clear_system_bit :: "nat \<Rightarrow> 'a calc_scheme \<Rightarrow> 'a calc_scheme" where
  "clear_system_bit sf s =
     (let flag = flag_ix sf in
      if flag < 64 then
        s\<lparr>systemFlags0Changed := systemFlags0Changed s OR (systemFlags0 s AND flag_bit flag),
          systemFlags0 := systemFlags0 s AND NOT (flag_bit flag)\<rparr>
      else
        s\<lparr>systemFlags1Changed := systemFlags1Changed s OR (systemFlags1 s AND flag_bit (flag - 64)),
          systemFlags1 := systemFlags1 s AND NOT (flag_bit (flag - 64))\<rparr>)"

definition flip_system_bit :: "nat \<Rightarrow> 'a calc_scheme \<Rightarrow> 'a calc_scheme" where
  "flip_system_bit sf s =
     (let flag = flag_ix sf in
      if flag < 64 then
        s\<lparr>systemFlags0Changed := systemFlags0Changed s OR flag_bit flag,
          systemFlags0 := systemFlags0 s XOR flag_bit flag\<rparr>
      else
        s\<lparr>systemFlags1Changed := systemFlags1Changed s OR flag_bit (flag - 64),
          systemFlags1 := systemFlags1 s XOR flag_bit (flag - 64)\<rparr>)"

definition getSystemFlag :: "nat \<Rightarrow> 'a calc_scheme \<Rightarrow> bool" where
  "getSystemFlag sf s =
     (let flag = flag_ix sf in
      if flag < 64 then systemFlags0 s AND flag_bit flag \<noteq> 0
      else systemFlags1 s AND flag_bit (flag - 64) \<noteq> 0)"

definition didSystemFlagChange :: "nat \<Rightarrow> 'a calc_scheme \<Rightarrow> bool \<times> 'a calc_scheme" where
  "didSystemFlagChange sf s =
     (let flag = flag_ix sf in
      if flag < 64 then
        (systemFlags0Changed s AND flag_bit flag \<noteq> 0,
         s\<lparr>systemFlags0Changed := systemFlags0Changed s AND NOT (flag_bit flag)\<rparr>)
      else if flag < 128 then
        (systemFlags1Changed s AND flag_bit (flag - 64) \<noteq> 0,
         s\<lparr>systemFlags1Changed := systemFlags1Changed s AND NOT (flag_bit (flag - 64))\<rparr>)
      else
        (systemFlags2Changed s AND flag_bit (flag - 128) \<noteq> 0,
         s\<lparr>systemFlags2Changed := systemFlags2Changed s AND NOT (flag_bit (flag - 128))\<rparr>))"

definition setSystemFlagChanged :: "nat \<Rightarrow> 'a calc_scheme \<Rightarrow> 'a calc_scheme" where
  "setSystemFlagChanged sf s =
     (let flag = flag_ix sf in
      if flag < 64 then s\<lparr>systemFlags0Changed := systemFlags0Changed s OR flag_bit flag\<rparr>
      else if flag < 128 then s\<lparr>systemFlags1Changed := systemFlags1Changed s OR flag_bit (flag - 64)\<rparr>
      else s\<lparr>systemFlags2Changed := systemFlags2Changed s OR flag_bit (flag - 128)\<rparr>)"

definition setAllSystemFlagChanged :: "'a calc_scheme \<Rightarrow> 'a calc_scheme" where
  "setAllSystemFlagChanged s =
     s\<lparr>systemFlags0Changed := 0xFFFFFFFFFFFFFFFF, systemFlags1Changed := 0xFFFFFFFFFFFFFFFF,
       systemFlags2Changed := 0xFFFFFFFFFFFFFFFF\<rparr>"

section \<open>What a change of a system flag entails\<close>

definition refreshStateFlags :: "nat list" where
  "refreshStateFlags =
     [FLAG_YMD, FLAG_DMY, FLAG_MDY, FLAG_TDM24, FLAG_CPXRES, FLAG_SPCRES,
      FLAG_CPXj, FLAG_POLAR, FLAG_LEAD0, FLAG_DENANY, FLAG_DENFIX, FLAG_SSIZE8,
      FLAG_MULTx, FLAG_ENGOVR, FLAG_ENDPMT, FLAG_HPRP, FLAG_MNUp1, FLAG_HPBASE,
      FLAG_NUMLOCK, FLAG_CPXMULT, FLAG_ERPN, FLAG_CARRY, FLAG_OVERFLOW, FLAG_FRCYC, FLAG_M_ALL,
      FLAG_LARGELI, FLAG_alphaCAP, FLAG_2TO10, FLAG_AMORT_HP12C, FLAG_CPXPLOT, FLAG_IMPLOT, FLAG_SHOWX, FLAG_SHOWY,
      FLAG_PBOX, FLAG_PCURVE, FLAG_PCROS, FLAG_PPLUS, FLAG_PLINE, FLAG_SCALE,
      FLAG_VECT, FLAG_NVECT, FLAG_TOPHEX, FLAG_FGGR, FLAG_BOLD, FLAG_SIGZEROS,
      FLAG_PRMS, FLAG_PINTG, FLAG_PDIFF, FLAG_PSHADE, FLAG_PL_2L, FLAG_AUTOVALID]"

definition clearStatusBarFlags :: "nat list" where
  "clearStatusBarFlags =
     [FLAG_SBdate, FLAG_SBcr, FLAG_SBcpx, FLAG_SBang, FLAG_SBint, FLAG_SBmx,
      FLAG_SBtvm, FLAG_SBoc, FLAG_SBss, FLAG_SBstpw, FLAG_SBser, FLAG_SBprn,
      FLAG_SBbatV, FLAG_SBshfR, FLAG_SBfrac, FLAG_SBwoy, FLAG_SBtime, FLAG_FRACT,
      FLAG_IRFRAC, FLAG_IRFRQ, FLAG_SBadm]"

datatype flagAction = FLAG_CLEAR | FLAG_SET | FLAG_FLIP

definition refresh_action :: "('a calc_scheme) flag_ui \<Rightarrow> nat \<Rightarrow> flagAction \<Rightarrow> 'a calc_scheme \<Rightarrow> 'a calc_scheme" where
  "refresh_action ui sf action s =
     (if sf \<in> set refreshStateFlags then fnRefreshState s
      else if sf \<in> set clearStatusBarFlags then
        (fnRefreshState s)\<lparr>screenUpdatingMode := screenUpdatingMode s AND NOT SCRUPD_MANUAL_STATUSBAR\<rparr>
      else if sf = FLAG_BCD then
        (if getSystemFlag sf s \<and> action \<noteq> FLAG_CLEAR \<and> lastIntegerBase s = 0 then ui_changeBase ui 10 s else s)
      else s)"

text \<open>The statement \<open>if(b) f\<close>, and the conditions the interlocks repeat.\<close>

definition do_if :: "bool \<Rightarrow> ('s \<Rightarrow> 's) \<Rightarrow> 's \<Rightarrow> 's" where
  "do_if b f s = (if b then f s else s)"

definition no_plot_marker :: "'a calc_scheme \<Rightarrow> bool" where
  "no_plot_marker s \<longleftrightarrow> \<not> getSystemFlag FLAG_PCROS s \<and> \<not> getSystemFlag FLAG_PBOX s \<and> \<not> getSystemFlag FLAG_PPLUS s"

fun clear_system_bits :: "nat list \<Rightarrow> 'a calc_scheme \<Rightarrow> 'a calc_scheme" where
  "clear_system_bits [] s = s"
| "clear_system_bits (f # fs) s = clear_system_bits fs (clear_system_bit f s)"

definition interaction_flags :: "nat \<Rightarrow> 'a calc_scheme \<Rightarrow> 'a calc_scheme" where
  "interaction_flags sf s =
     (if sf = FLAG_SBfrac then s\<lparr>lastIntegerBase := 0\<rparr>
      else if sf = FLAG_SBadm \<or> sf = FLAG_SBang then
        (if sf = FLAG_SBadm \<and> \<not> getSystemFlag FLAG_SBadm s then clear_system_bit FLAG_SBang s
         else if sf = FLAG_SBang \<and> getSystemFlag FLAG_SBang s then set_system_bit FLAG_SBadm s
         else s)
      else if sf = FLAG_SBdate then
        do_if (getSystemFlag FLAG_SBdate s \<and> getSystemFlag FLAG_SBtime s \<and> getSystemFlag FLAG_SBwoy s)
          (clear_system_bit FLAG_SBtime) s
      else if sf = FLAG_SBwoy \<or> sf = FLAG_SBtime then
        (if sf = FLAG_SBtime \<and> getSystemFlag FLAG_SBtime s \<and> getSystemFlag FLAG_SBdate s
         then clear_system_bit FLAG_SBwoy s
         else if sf = FLAG_SBwoy \<and> getSystemFlag FLAG_SBwoy s \<and> getSystemFlag FLAG_SBdate s
         then clear_system_bit FLAG_SBtime s
         else s)
      else if sf = FLAG_FRACT then
        do_if (getSystemFlag FLAG_FRACT s) (clear_system_bits [FLAG_IRFRAC, FLAG_IRFRQ]) s
      else if sf = FLAG_IRFRAC then
        do_if (getSystemFlag FLAG_IRFRAC s) (\<lambda>s. set_system_bit FLAG_IRFRQ (clear_system_bit FLAG_FRACT s)) s
      else if sf = FLAG_IRFRQ then
        do_if (getSystemFlag FLAG_FRACT s) (\<lambda>s. set_system_bit FLAG_IRFRAC (clear_system_bit FLAG_FRACT s)) s
      else if sf = FLAG_PLINE then
        (let s1 = do_if (\<not> getSystemFlag FLAG_PLINE s \<and> no_plot_marker s) (set_system_bit FLAG_PBOX) s
         in do_if (\<not> getSystemFlag FLAG_PLINE s1) (clear_system_bit FLAG_PCURVE) s1)
      else if sf = FLAG_PBOX then
        (let s1 = do_if (getSystemFlag FLAG_PBOX s) (clear_system_bits [FLAG_PCROS, FLAG_PPLUS]) s
         in do_if (no_plot_marker s1) (set_system_bit FLAG_PLINE) s1)
      else if sf = FLAG_PCROS then
        (let s1 = do_if (getSystemFlag FLAG_PCROS s) (clear_system_bits [FLAG_PBOX, FLAG_PPLUS]) s
         in do_if (no_plot_marker s1) (set_system_bit FLAG_PLINE) s1)
      else if sf = FLAG_PPLUS then
        (let s1 = do_if (getSystemFlag FLAG_PPLUS s) (clear_system_bits [FLAG_PBOX, FLAG_PCROS]) s
         in do_if (no_plot_marker s1) (set_system_bit FLAG_PLINE) s1)
      else if sf = FLAG_PCURVE then
        do_if (getSystemFlag FLAG_PCURVE s) (set_system_bit FLAG_PLINE) s
      else if sf = FLAG_PINTG then
        (if getSystemFlag FLAG_PINTG s then clear_system_bits [FLAG_VECT, FLAG_NVECT] s
         else clear_system_bit FLAG_PSHADE s)
      else if sf = FLAG_PDIFF \<or> sf = FLAG_PRMS then
        do_if (getSystemFlag sf s) (clear_system_bits [FLAG_VECT, FLAG_NVECT]) s
      else if sf = FLAG_PSHADE then
        do_if (getSystemFlag FLAG_PSHADE s)
          (\<lambda>s. clear_system_bits [FLAG_VECT, FLAG_NVECT] (set_system_bit FLAG_PINTG s)) s
      else if sf = FLAG_VECT then
        do_if (getSystemFlag FLAG_VECT s)
          (clear_system_bits [FLAG_NVECT, FLAG_PINTG, FLAG_PDIFF, FLAG_PRMS, FLAG_PSHADE]) s
      else if sf = FLAG_NVECT then
        do_if (getSystemFlag FLAG_NVECT s)
          (clear_system_bits [FLAG_VECT, FLAG_PINTG, FLAG_PDIFF, FLAG_PRMS, FLAG_PSHADE]) s
      else if sf = FLAG_CPXPLOT then
        do_if (getSystemFlag FLAG_CPXPLOT s) (clear_system_bit FLAG_IMPLOT) s
      else if sf = FLAG_IMPLOT then
        do_if (getSystemFlag FLAG_IMPLOT s) (clear_system_bit FLAG_CPXPLOT) s
      else s)"

definition systemFlagAction :: "('a calc_scheme) flag_ui \<Rightarrow> nat \<Rightarrow> flagAction \<Rightarrow> 'a calc_scheme \<Rightarrow> 'a calc_scheme" where
  "systemFlagAction ui sf action s = interaction_flags sf (refresh_action ui sf action s)"

definition setSystemFlag :: "('a calc_scheme) flag_ui \<Rightarrow> nat \<Rightarrow> 'a calc_scheme \<Rightarrow> 'a calc_scheme" where
  "setSystemFlag ui sf s = systemFlagAction ui sf FLAG_SET (set_system_bit sf s)"

definition clearSystemFlag :: "('a calc_scheme) flag_ui \<Rightarrow> nat \<Rightarrow> 'a calc_scheme \<Rightarrow> 'a calc_scheme" where
  "clearSystemFlag ui sf s = systemFlagAction ui sf FLAG_CLEAR (clear_system_bit sf s)"

definition flipSystemFlag :: "('a calc_scheme) flag_ui \<Rightarrow> nat \<Rightarrow> 'a calc_scheme \<Rightarrow> 'a calc_scheme" where
  "flipSystemFlag ui sf s = systemFlagAction ui sf FLAG_FLIP (flip_system_bit sf s)"

definition forceSystemFlag :: "('a calc_scheme) flag_ui \<Rightarrow> nat \<Rightarrow> bool \<Rightarrow> 'a calc_scheme \<Rightarrow> 'a calc_scheme" where
  "forceSystemFlag ui sf on s = (if on then setSystemFlag ui sf s else clearSystemFlag ui sf s)"

section \<open>User flags\<close>

abbreviation global_bit :: "nat \<Rightarrow> u16" where
  "global_bit flag \<equiv> push_bit (flag mod 16) 1"

definition isSystemFlag :: "nat \<Rightarrow> bool" where
  "isSystemFlag flag \<longleftrightarrow> flag AND 0x8000 \<noteq> 0"

definition isSystemFlagWriteProtected :: "nat \<Rightarrow> bool" where
  "isSystemFlagWriteProtected sf \<longleftrightarrow> sf AND 0x4000 \<noteq> 0"

definition getFlag :: "nat \<Rightarrow> 'a calc_scheme \<Rightarrow> bool" where
  "getFlag flag s =
     (if isSystemFlag flag then getSystemFlag flag s
      else if flag \<le> FLAG_K then globalFlags s ! (flag div 16) AND global_bit flag \<noteq> 0
      else if flag \<le> LAST_LOCAL_FLAG then
        (case currentLocalFlags s of
           None \<Rightarrow> False
         | Some w \<Rightarrow>
             (let flag = flag - NUMBER_OF_GLOBAL_FLAGS in
              if flag < NUMBER_OF_LOCAL_FLAGS then w AND push_bit flag 1 \<noteq> 0 else False))
      else if FLAG_M \<le> flag \<and> flag \<le> FLAG_W then
        (let flag = flag - 99 in globalFlags s ! (flag div 16) AND global_bit flag \<noteq> 0)
      else False)"

definition write_protected_error :: "'a calc_scheme \<Rightarrow> 'a calc_scheme" where
  "write_protected_error s =
     displayCalcErrorMessage ERROR_WRITE_PROTECTED_SYSTEM_FLAG ERR_REGISTER_LINE
       (s\<lparr>temporaryInformation := TI_NO_INFO,
          programRunStop := (if programRunStop s = PGM_WAITING then PGM_STOPPED else programRunStop s)\<rparr>)"

text \<open>The part the three commands share: the update of a global or local word.\<close>

definition update_user_flag ::
    "(u16 \<Rightarrow> u16 \<Rightarrow> u16) \<Rightarrow> (u32 \<Rightarrow> u32 \<Rightarrow> u32) \<Rightarrow> nat \<Rightarrow> 'a calc_scheme \<Rightarrow> 'a calc_scheme" where
  "update_user_flag op16 op32 flag s =
     (let global = (\<lambda>flag. s\<lparr>globalFlags := (globalFlags s)[flag div 16 := op16 (globalFlags s ! (flag div 16)) (global_bit flag)]\<rparr>) in
      if flag \<le> FLAG_K then global flag
      else if flag \<le> LAST_LOCAL_FLAG then
        (case currentLocalFlags s of
           None \<Rightarrow> s
         | Some w \<Rightarrow>
             (let flag = flag - NUMBER_OF_GLOBAL_FLAGS in
              if flag < NUMBER_OF_LOCAL_FLAGS then s\<lparr>currentLocalFlags := Some (op32 w (push_bit flag 1))\<rparr> else s))
      else if FLAG_M \<le> flag \<and> flag \<le> FLAG_W then global (flag - 99)
      else s)"

definition fnSetFlag :: "('a calc_scheme) flag_ui \<Rightarrow> nat \<Rightarrow> 'a calc_scheme \<Rightarrow> 'a calc_scheme" where
  "fnSetFlag ui flag s =
     (if isSystemFlag flag then
        (if isSystemFlagWriteProtected flag then write_protected_error s
         else if flag = FLAG_ALPHA then ui_setAlpha ui (ui_leaveTamMode ui s)
         else setSystemFlag ui flag s)
      else update_user_flag (OR) (OR) flag s)"

definition fnClearFlag :: "('a calc_scheme) flag_ui \<Rightarrow> nat \<Rightarrow> 'a calc_scheme \<Rightarrow> 'a calc_scheme" where
  "fnClearFlag ui flag s =
     (if isSystemFlag flag then
        (if isSystemFlagWriteProtected flag then write_protected_error s
         else if flag = FLAG_ALPHA then ui_clearAlpha ui (ui_leaveTamMode ui s)
         else clearSystemFlag ui flag s)
      else update_user_flag (\<lambda>w b. w AND NOT b) (\<lambda>w b. w AND NOT b) flag s)"

definition fnFlipFlag :: "('a calc_scheme) flag_ui \<Rightarrow> nat \<Rightarrow> 'a calc_scheme \<Rightarrow> 'a calc_scheme" where
  "fnFlipFlag ui flag s =
     (if isSystemFlag flag then
        (if isSystemFlagWriteProtected flag then write_protected_error s
         else if flag = FLAG_ALPHA then
           (let s1 = ui_leaveTamMode ui s in
            if getSystemFlag FLAG_ALPHA s1 then ui_clearAlpha ui s1 else ui_setAlpha ui s1)
         else flipSystemFlag ui flag s)
      else update_user_flag (XOR) (XOR) flag s)"

definition fnGetSystemFlag :: "nat \<Rightarrow> 'a calc_scheme \<Rightarrow> 'a calc_scheme" where
  "fnGetSystemFlag systemFlag s =
     s\<lparr>temporaryInformation := (if getSystemFlag systemFlag s then TI_TRUE else TI_FALSE)\<rparr>"

definition fnClFAll :: "('a calc_scheme) flag_ui \<Rightarrow> nat \<Rightarrow> 'a calc_scheme \<Rightarrow> 'a calc_scheme" where
  "fnClFAll ui confirmation s =
     (if confirmation = NOT_CONFIRMED \<and> programRunStop s \<noteq> PGM_RUNNING then ui_confirm ui s
      else s\<lparr>globalFlags := replicate 8 0,
             currentLocalFlags := map_option (\<lambda>_. 0) (currentLocalFlags s),
             temporaryInformation := (if programRunStop s \<noteq> PGM_RUNNING then TI_CLEAR_ALL_FLAGS else TI_NO_INFO),
             screenUpdatingMode := SCRUPD_AUTO\<rparr>)"

definition fnIsFlagClear :: "nat \<Rightarrow> 'a calc_scheme \<Rightarrow> 'a calc_scheme" where
  "fnIsFlagClear flag s = SET_TI_TRUE_FALSE (\<not> getFlag flag s) s"

definition fnIsFlagClearClear :: "('a calc_scheme) flag_ui \<Rightarrow> nat \<Rightarrow> 'a calc_scheme \<Rightarrow> 'a calc_scheme" where
  "fnIsFlagClearClear ui flag s = fnClearFlag ui flag (SET_TI_TRUE_FALSE (\<not> getFlag flag s) s)"

definition fnIsFlagClearSet :: "('a calc_scheme) flag_ui \<Rightarrow> nat \<Rightarrow> 'a calc_scheme \<Rightarrow> 'a calc_scheme" where
  "fnIsFlagClearSet ui flag s = fnSetFlag ui flag (SET_TI_TRUE_FALSE (\<not> getFlag flag s) s)"

definition fnIsFlagClearFlip :: "('a calc_scheme) flag_ui \<Rightarrow> nat \<Rightarrow> 'a calc_scheme \<Rightarrow> 'a calc_scheme" where
  "fnIsFlagClearFlip ui flag s = fnFlipFlag ui flag (SET_TI_TRUE_FALSE (\<not> getFlag flag s) s)"

definition fnIsFlagSet :: "nat \<Rightarrow> 'a calc_scheme \<Rightarrow> 'a calc_scheme" where
  "fnIsFlagSet flag s = SET_TI_TRUE_FALSE (getFlag flag s) s"

definition fnIsFlagSetClear :: "('a calc_scheme) flag_ui \<Rightarrow> nat \<Rightarrow> 'a calc_scheme \<Rightarrow> 'a calc_scheme" where
  "fnIsFlagSetClear ui flag s = fnClearFlag ui flag (SET_TI_TRUE_FALSE (getFlag flag s) s)"

definition fnIsFlagSetSet :: "('a calc_scheme) flag_ui \<Rightarrow> nat \<Rightarrow> 'a calc_scheme \<Rightarrow> 'a calc_scheme" where
  "fnIsFlagSetSet ui flag s = fnSetFlag ui flag (SET_TI_TRUE_FALSE (getFlag flag s) s)"

definition fnIsFlagSetFlip :: "('a calc_scheme) flag_ui \<Rightarrow> nat \<Rightarrow> 'a calc_scheme \<Rightarrow> 'a calc_scheme" where
  "fnIsFlagSetFlip ui flag s = fnFlipFlag ui flag (SET_TI_TRUE_FALSE (getFlag flag s) s)"

section \<open>Settings\<close>

definition clearSetPairs :: "(nat \<times> nat \<times> nat) list" where
  "clearSetPairs =
     [(231, 230, FLAG_TDM24),      \<comment> \<open>\<^verbatim>\<open>TF_H12\<close>, \<^verbatim>\<open>TF_H24\<close>\<close>
      (232, 233, FLAG_CPXj),       \<comment> \<open>\<^verbatim>\<open>CU_I\<close>, \<^verbatim>\<open>CU_J\<close>\<close>
      (234, 235, FLAG_MULTx),      \<comment> \<open>\<^verbatim>\<open>PS_DOT\<close>, \<^verbatim>\<open>PS_CROSS\<close>\<close>
      (236, 237, FLAG_SSIZE8),     \<comment> \<open>\<^verbatim>\<open>SS_4\<close>, \<^verbatim>\<open>SS_8\<close>\<close>
      (238, 239, FLAG_POLAR),      \<comment> \<open>\<^verbatim>\<open>CM_RECTANGULAR\<close>, \<^verbatim>\<open>CM_POLAR\<close>\<close>
      (240, 241, FLAG_ENGOVR)]     \<comment> \<open>\<^verbatim>\<open>DO_SCI\<close>, \<^verbatim>\<open>DO_ENG\<close>\<close>"

definition flipFlags :: "nat list" where
  "flipFlags =
     [FLAG_HPRP, FLAG_MNUp1, FLAG_HPBASE, FLAG_2TO10, FLAG_AMORT_HP12C, FLAG_BOLD, FLAG_SIGZEROS,
      FLAG_PROPFR, FLAG_PRTACT, FLAG_LEAD0, FLAG_CPXRES, FLAG_SPCRES, FLAG_ERPN, FLAG_M_ALL,
      FLAG_CARRY, FLAG_OVERFLOW, FLAG_FRCYC, FLAG_CPXMULT, FLAG_CPXPLOT, FLAG_IMPLOT, FLAG_SHOWX,
      FLAG_SHOWY, FLAG_PBOX, FLAG_PCURVE, FLAG_PCROS, FLAG_PPLUS, FLAG_PLINE, FLAG_SCALE,
      FLAG_VECT, FLAG_NVECT, FLAG_PRMS, FLAG_PINTG, FLAG_PDIFF, FLAG_PSHADE, FLAG_PL_2L,
      FLAG_TOPHEX, FLAG_BCD, FLAG_LARGELI, FLAG_FRACT, FLAG_IRFRAC, FLAG_G_DOUBLETAP,
      FLAG_SHFT_4s, FLAG_FGGR, FLAG_TRACE, FLAG_NORM, FLAG_AUTOVALID]"

fun set_by_pair :: "('a calc_scheme) flag_ui \<Rightarrow> nat \<Rightarrow> (nat \<times> nat \<times> nat) list \<Rightarrow> 'a calc_scheme \<Rightarrow> 'a calc_scheme option" where
  "set_by_pair ui jmConfig [] s = None"
| "set_by_pair ui jmConfig ((clearConfig, setConfig, flag) # ps) s =
     (if jmConfig = clearConfig then Some (fnRefreshState (fnClearFlag ui flag s))
      else if jmConfig = setConfig then Some (fnRefreshState (fnSetFlag ui flag s))
      else set_by_pair ui jmConfig ps s)"

definition flip_exclusive :: "('a calc_scheme) flag_ui \<Rightarrow> nat \<Rightarrow> nat \<Rightarrow> 'a calc_scheme \<Rightarrow> 'a calc_scheme" where
  "flip_exclusive ui flag other s =
     (let s1 = fnFlipFlag ui flag s in do_if (getSystemFlag flag s1) (clearSystemFlag ui other) s1)"

definition SetSetting :: "('a calc_scheme) flag_ui \<Rightarrow> nat \<Rightarrow> 'a calc_scheme \<Rightarrow> 'a calc_scheme" where
  "SetSetting ui jmConfig s =
     (case set_by_pair ui jmConfig clearSetPairs s of
        Some s' \<Rightarrow> s'
      | None \<Rightarrow>
          if jmConfig \<in> set flipFlags then fnRefreshState (fnFlipFlag ui jmConfig s)
          else fnRefreshState
            (if jmConfig = 197 then ui_showAlphaMode ui (fnFlipFlag ui FLAG_NUMLOCK s)
             else if jmConfig = FLAG_DENANY then clearSystemFlag ui FLAG_DENFIX (fnFlipFlag ui jmConfig s)
             else if jmConfig = FLAG_DENFIX then clearSystemFlag ui FLAG_DENANY (fnFlipFlag ui jmConfig s)
             else if jmConfig = FLAG_HOME_TRIPLE then flip_exclusive ui FLAG_HOME_TRIPLE FLAG_MYM_TRIPLE s
             else if jmConfig = FLAG_MYM_TRIPLE then flip_exclusive ui FLAG_MYM_TRIPLE FLAG_HOME_TRIPLE s
             else if jmConfig = FLAG_BASE_MYM then flip_exclusive ui FLAG_BASE_MYM FLAG_BASE_HOME s
             else if jmConfig = FLAG_BASE_HOME then flip_exclusive ui FLAG_BASE_HOME FLAG_BASE_MYM s
             else if jmConfig = FLAG_FGLNFUL then flip_exclusive ui FLAG_FGLNFUL FLAG_FGLNLIM s
             else if jmConfig = FLAG_FGLNLIM then flip_exclusive ui FLAG_FGLNLIM FLAG_FGLNFUL s
             else if jmConfig = 1899 then fnFlipFlag ui FLAG_DREAL s
             else if jmConfig = 198 then s\<lparr>alphaCase := (if alphaCase s = 1 then 0 else 1)\<rparr>
             else if jmConfig = 214 then
               (let lock = (if scrLock s = 0 then 1 else if scrLock s = 1 then 2 else 0) in
                ui_showAlphaMode ui (s\<lparr>scrLock := lock, nextChar := lock\<rparr>))
             else s))"

end
