(* ===== verification/ShortInt.thy ===== *)
theory ShortInt
  imports Flags
begin

text \<open>
  Short integers, \<^verbatim>\<open>integers.c\<close>: words of 1 to 64 bits under four sign modes, kept in 64-bit unsigned
  integers of which only the low bits of the current word size count.  The functions are the ones
  of the source, on 64-bit words with their wrap-around; each returns its result and the state with
  the OVERFLOW and CARRY flags, error code and information it sets.  A C sign is a \<open>bool\<close>.  The
  diagnostics are left out.
\<close>

section \<open>Modes and masks\<close>

abbreviation (input) SIM_UNSIGN :: nat where "SIM_UNSIGN \<equiv> 0"
abbreviation (input) SIM_1COMPL :: nat where "SIM_1COMPL \<equiv> 1"
abbreviation (input) SIM_2COMPL :: nat where "SIM_2COMPL \<equiv> 2"
abbreviation (input) SIM_SIGNMT :: nat where "SIM_SIGNMT \<equiv> 3"

abbreviation (input) MAX_SHORT_INTEGER_WORD_SIZE :: nat where "MAX_SHORT_INTEGER_WORD_SIZE \<equiv> 64"
abbreviation (input) ERROR_BAD_TIME_OR_DATE_INPUT :: nat where "ERROR_BAD_TIME_OR_DATE_INPUT \<equiv> 2"
abbreviation (input) TI_DATA_NEG_OVRFL :: nat where "TI_DATA_NEG_OVRFL \<equiv> 111"

definition boundShortIntegerWordSize :: "nat \<Rightarrow> nat" where
  "boundShortIntegerWordSize wordSize =
     (if wordSize < 1 \<or> wordSize > MAX_SHORT_INTEGER_WORD_SIZE then MAX_SHORT_INTEGER_WORD_SIZE else wordSize)"

definition updateShortIntegerMasks :: "'a calc_scheme \<Rightarrow> 'a calc_scheme" where
  "updateShortIntegerMasks s =
     s\<lparr>shortIntegerMask := (if shortIntegerWordSize s = 64 then - 1 else push_bit (shortIntegerWordSize s) 1 - 1),
       shortIntegerSignBit := push_bit (shortIntegerWordSize s - 1) 1\<rparr>"

section \<open>Helpers\<close>

definition calc_overflow :: "('a calc_scheme) flag_ui \<Rightarrow> u64 \<Rightarrow> u64 \<Rightarrow> bool \<Rightarrow> 'a calc_scheme \<Rightarrow> bool \<times> 'a calc_scheme" where
  "calc_overflow ui xv yv neg s =
     (let mode = shortIntegerMode s; sb = shortIntegerSignBit s;
          overflow =
            (if mode = SIM_UNSIGN then
               (let u = (yv AND (sb - 1)) + (xv AND (sb - 1));
                    i = (if u AND sb \<noteq> 0 then 1 else 0) + (if xv AND sb \<noteq> 0 then 1 else 0) +
                        (if yv AND sb \<noteq> 0 then 1 else 0 :: nat)
                in i > 1)
             else if mode = SIM_2COMPL then
               (let u = xv + yv in
                if neg \<and> u = sb then False
                else if sb AND u \<noteq> 0 then True
                else if xv = sb \<and> yv \<noteq> 0 \<or> yv = sb \<and> xv \<noteq> 0 then True
                else False)
             else if mode = SIM_SIGNMT \<or> mode = SIM_1COMPL then sb AND (xv + yv) \<noteq> 0
             else False)
      in if overflow then (True, setSystemFlag ui FLAG_OVERFLOW s) else (False, s))"

definition extract_value :: "u64 \<Rightarrow> 'a calc_scheme \<Rightarrow> u64 \<times> bool" where
  "extract_value val s =
     (let value = val AND shortIntegerMask s in
      if shortIntegerMode s = SIM_UNSIGN then (value, False)
      else if value AND shortIntegerSignBit s \<noteq> 0 then
        ((if shortIntegerMode s = SIM_2COMPL then - value
          else if shortIntegerMode s = SIM_1COMPL then NOT value
          else value XOR shortIntegerSignBit s) AND shortIntegerMask s, True)
      else (value AND shortIntegerMask s, False))"

definition build_value :: "u64 \<Rightarrow> bool \<Rightarrow> 'a calc_scheme \<Rightarrow> u64" where
  "build_value x sign s =
     (let value = x AND shortIntegerMask s in
      if \<not> sign \<or> shortIntegerMode s = SIM_UNSIGN then value
      else if shortIntegerMode s = SIM_2COMPL then (- value) AND shortIntegerMask s
      else if shortIntegerMode s = SIM_1COMPL then (NOT value) AND shortIntegerMask s
      else value OR shortIntegerSignBit s)"

definition multiply_with_overflow :: "u64 \<Rightarrow> u64 \<Rightarrow> bool \<Rightarrow> 'a calc_scheme \<Rightarrow> u64 \<times> bool" where
  "multiply_with_overflow multiplier multiplicand overflow s =
     (let product = (multiplier * multiplicand) AND shortIntegerMask s in
      (product,
       if \<not> overflow \<and> multiplicand \<noteq> 0 then
         (let tbm = (if shortIntegerMode s = SIM_UNSIGN then 0 else shortIntegerSignBit s) in
          product AND tbm \<noteq> 0 \<or> product div multiplicand \<noteq> multiplier)
       else overflow))"

definition set_overflow_to :: "('a calc_scheme) flag_ui \<Rightarrow> bool \<Rightarrow> 'a calc_scheme \<Rightarrow> 'a calc_scheme" where
  "set_overflow_to ui b s = (if b then setSystemFlag ui FLAG_OVERFLOW s else clearSystemFlag ui FLAG_OVERFLOW s)"

definition set_carry_to :: "('a calc_scheme) flag_ui \<Rightarrow> bool \<Rightarrow> 'a calc_scheme \<Rightarrow> 'a calc_scheme" where
  "set_carry_to ui b s = (if b then setSystemFlag ui FLAG_CARRY s else clearSystemFlag ui FLAG_CARRY s)"

section \<open>Arithmetic\<close>

definition intAdd :: "('a calc_scheme) flag_ui \<Rightarrow> u64 \<Rightarrow> u64 \<Rightarrow> 'a calc_scheme \<Rightarrow> u64 \<times> 'a calc_scheme" where
  "intAdd ui y x s =
     (let (termX, termXSign) = extract_value x s;
          (termY, termYSign) = extract_value y s;
          s1 = clearSystemFlag ui FLAG_OVERFLOW s;
          (overflow, s2) = (if termXSign = termYSign then calc_overflow ui termX termY termXSign s1 else (False, s1));
          sb = shortIntegerSignBit s
      in if shortIntegerMode s = SIM_SIGNMT then
           (let x2 = (if x AND sb \<noteq> 0 then - (x XOR sb) else x);
                y2 = (if y AND sb \<noteq> 0 then - (y XOR sb) else y);
                s3 = set_carry_to ui overflow s2;
                sum1 = y2 + x2;
                sum2 = (if sum1 AND sb \<noteq> 0 then (- sum1) OR sb else sum1)
            in (sum2 AND shortIntegerMask s, s3))
         else
           (let maskedSum = (y + x) AND shortIntegerMask s;
                carry = maskedSum < (y AND shortIntegerMask s);
                sum1 = (if carry \<and> shortIntegerMode s = SIM_1COMPL then y + x + 1 else y + x)
            in (sum1 AND shortIntegerMask s, set_carry_to ui carry s2)))"

definition intSubtract :: "('a calc_scheme) flag_ui \<Rightarrow> u64 \<Rightarrow> u64 \<Rightarrow> 'a calc_scheme \<Rightarrow> u64 \<times> 'a calc_scheme" where
  "intSubtract ui y x s =
     (let (termX, termXSign) = extract_value x s;
          (termY, termYSign) = extract_value y s;
          s1 = clearSystemFlag ui FLAG_OVERFLOW s;
          s2 = (if termXSign \<noteq> termYSign then snd (calc_overflow ui termX termY termYSign s1) else s1);
          sb = shortIntegerSignBit s
      in if shortIntegerMode s = SIM_SIGNMT then
           (let s3 = set_carry_to ui (\<not> termXSign \<and> \<not> termYSign \<and> termX > termY \<or> termXSign \<and> termYSign \<and> termX < termY) s2;
                x2 = (if x AND sb \<noteq> 0 then - (x XOR sb) else x);
                y2 = (if y AND sb \<noteq> 0 then - (y XOR sb) else y);
                diff1 = y2 - x2;
                diff2 = (if diff1 AND sb \<noteq> 0 then (- diff1) OR sb else diff1)
            in (diff2 AND shortIntegerMask s, s3))
         else if y < x then
           (let s3 = setSystemFlag ui FLAG_CARRY s2;
                s4 = (if shortIntegerMode s = SIM_UNSIGN then setSystemFlag ui FLAG_OVERFLOW s3 else s3);
                diff = (if shortIntegerMode s = SIM_1COMPL then y - x - 1 else y - x)
            in (diff AND shortIntegerMask s, s4))
         else ((y - x) AND shortIntegerMask s, clearSystemFlag ui FLAG_CARRY s2))"

definition intMultiply :: "('a calc_scheme) flag_ui \<Rightarrow> u64 \<Rightarrow> u64 \<Rightarrow> 'a calc_scheme \<Rightarrow> u64 \<times> 'a calc_scheme" where
  "intMultiply ui y x s =
     (let (multiplicand, multiplicandSign) = extract_value x s;
          (multiplier, multiplierSign) = extract_value y s;
          (product, overflow) = multiply_with_overflow multiplier multiplicand False s;
          s1 = set_overflow_to ui overflow s
      in if shortIntegerMode s = SIM_UNSIGN then (product, s1)
         else (build_value (product AND NOT (shortIntegerSignBit s)) (multiplicandSign \<noteq> multiplierSign) s, s1))"

definition intDivide :: "('a calc_scheme) flag_ui \<Rightarrow> u64 \<Rightarrow> u64 \<Rightarrow> 'a calc_scheme \<Rightarrow> u64 \<times> 'a calc_scheme" where
  "intDivide ui y x s =
     (let (divisor, divisorSign) = extract_value x s;
          (dividend, dividendSign) = extract_value y s
      in if divisor = 0 then (0, displayCalcErrorMessage ERROR_BAD_TIME_OR_DATE_INPUT ERR_REGISTER_LINE s)
         else
           (let s1 = clearSystemFlag ui FLAG_OVERFLOW s;
                quotient = (dividend div divisor) AND shortIntegerMask s;
                s2 = set_carry_to ui (quotient * divisor \<noteq> dividend) s1;
                s3 = (if shortIntegerMode s \<noteq> SIM_UNSIGN \<and> quotient AND shortIntegerSignBit s \<noteq> 0
                      then setSystemFlag ui FLAG_CARRY s2 else s2);
                s4 = (if shortIntegerMode s = SIM_2COMPL \<and> divisorSign \<and> divisor = 1 \<and> y = shortIntegerSignBit s
                      then setSystemFlag ui FLAG_OVERFLOW s3 else s3)
            in (build_value quotient (divisorSign \<noteq> dividendSign) s, s4)))"

function int_gcd :: "u64 \<Rightarrow> u64 \<Rightarrow> u64" where
  "int_gcd a b = (if b = 0 then a else int_gcd b (a mod b))"
  by auto
termination
  by (relation "measure (\<lambda>(a, b). unat b)") (auto simp: unat_mod word_neq_0_conv unat_gt_0)

declare int_gcd.simps [simp del]

definition intGCD :: "u64 \<Rightarrow> u64 \<Rightarrow> 'a calc_scheme \<Rightarrow> u64" where
  "intGCD y x s =
     (let xv = fst (extract_value x s); yv = fst (extract_value y s);
          g = (if xv = 0 then yv else if yv = 0 then xv else int_gcd xv yv)
      in build_value g False s)"

definition intLCM :: "('a calc_scheme) flag_ui \<Rightarrow> u64 \<Rightarrow> u64 \<Rightarrow> 'a calc_scheme \<Rightarrow> u64 \<times> 'a calc_scheme" where
  "intLCM ui y x s =
     (let xv = fst (extract_value x s); yv = fst (extract_value y s) in
      if xv = 0 \<or> yv = 0 then (0, s)
      else intMultiply ui ((xv div int_gcd xv yv) AND shortIntegerMask s) (build_value yv False s) s)"

definition intChs :: "('a calc_scheme) flag_ui \<Rightarrow> u64 \<Rightarrow> 'a calc_scheme \<Rightarrow> u64 \<times> 'a calc_scheme" where
  "intChs ui x s =
     (let (value, signValue) = extract_value x s in
      if shortIntegerMode s = SIM_UNSIGN \<or> shortIntegerMode s = SIM_2COMPL \<and> x = shortIntegerSignBit s then
        ((- value) AND shortIntegerMask s, setSystemFlag ui FLAG_OVERFLOW (s\<lparr>temporaryInformation := TI_DATA_NEG_OVRFL\<rparr>))
      else (build_value value (\<not> signValue) s, clearSystemFlag ui FLAG_OVERFLOW s))"

text \<open>The Newton iteration of the integer square root.\<close>

function sqrt_loop :: "u64 \<Rightarrow> u64 \<Rightarrow> u64 \<Rightarrow> u64" where
  "sqrt_loop value nn0 nn1 =
     (if nn1 < nn0 then sqrt_loop value nn1 ((nn1 + value div nn1) div 2) else nn1)"
  by auto
termination
  by (relation "measure (\<lambda>(value, nn0, nn1). unat nn0)") (auto simp: word_less_nat_alt)

declare sqrt_loop.simps [simp del]

definition intSqrt :: "('a calc_scheme) flag_ui \<Rightarrow> u64 \<Rightarrow> 'a calc_scheme \<Rightarrow> u64 \<times> 'a calc_scheme" where
  "intSqrt ui x s =
     (let (value, signValue) = extract_value x s in
      if signValue then (0, displayCalcErrorMessage ERROR_ARG_EXCEEDS_FUNCTION_DOMAIN ERR_REGISTER_LINE s)
      else if value = 0 then (build_value 0 signValue s, s)
      else
        (let nn0 = value div 2 + 1;
             nn1 = sqrt_loop value nn0 (value div nn0 + nn0 div 2);
             square = nn1 * nn1;
             root = (if square > value then nn1 - 1 else nn1)
         in (build_value root signValue s, set_carry_to ui (square \<noteq> value) s)))"

definition intAbs :: "('a calc_scheme) flag_ui \<Rightarrow> u64 \<Rightarrow> 'a calc_scheme \<Rightarrow> u64 \<times> 'a calc_scheme" where
  "intAbs ui x s =
     (let (value, signValue) = extract_value x s;
          s1 = clearSystemFlag ui FLAG_OVERFLOW s
      in if shortIntegerMode s = SIM_2COMPL \<and> x = shortIntegerSignBit s then (x, setSystemFlag ui FLAG_OVERFLOW s1)
         else (build_value value False s, s1))"

definition intSign :: "u64 \<Rightarrow> 'a calc_scheme \<Rightarrow> u64" where
  "intSign x s =
     (let (value, signValue) = extract_value x s in
      if value = 0 then build_value value False s else build_value 1 signValue s)"

text \<open>The loop of the power helper runs at most \<open>shortIntegerWordSize\<close> times.\<close>

fun power_loop :: "nat \<Rightarrow> u64 \<Rightarrow> u64 \<Rightarrow> u64 \<Rightarrow> bool \<Rightarrow> bool \<Rightarrow> 'a calc_scheme \<Rightarrow> u64 \<times> bool" where
  "power_loop 0 pw base exponent overflow overflow_next s = (pw, overflow)"
| "power_loop (Suc n) pw base exponent overflow overflow_next s =
     (if exponent = 0 then (pw, overflow)
      else
        (let (pw1, overflow1) =
               (if exponent AND 1 \<noteq> 0
                then multiply_with_overflow pw base (overflow_next \<or> overflow) s
                else (pw, overflow));
             exponent1 = drop_bit 1 exponent;
             (base1, overflow_next1) =
               (if exponent1 \<noteq> 0 then multiply_with_overflow base base overflow_next s else (base, overflow_next))
         in power_loop n pw1 base1 exponent1 overflow1 overflow_next1 s))"

definition int_power_helper :: "('a calc_scheme) flag_ui \<Rightarrow> u64 \<Rightarrow> u64 \<Rightarrow> bool \<Rightarrow> 'a calc_scheme \<Rightarrow> u64 \<times> 'a calc_scheme" where
  "int_power_helper ui base exponent overflow s =
     (let (pw, overflow1) = power_loop (shortIntegerWordSize s) 1 base exponent overflow False s
      in (pw, set_overflow_to ui overflow1 s))"

definition intPower :: "('a calc_scheme) flag_ui \<Rightarrow> u64 \<Rightarrow> u64 \<Rightarrow> 'a calc_scheme \<Rightarrow> u64 \<times> 'a calc_scheme" where
  "intPower ui b e s =
     (let (exponent, exponentSign) = extract_value e s;
          (base, baseSign) = extract_value b s
      in if exponent = 0 \<and> base = 0 then
           (0, setSystemFlag ui FLAG_OVERFLOW (displayCalcErrorMessage ERROR_ARG_EXCEEDS_FUNCTION_DOMAIN ERR_REGISTER_LINE s))
         else
           (let s1 = clearSystemFlag ui FLAG_OVERFLOW (clearSystemFlag ui FLAG_CARRY s) in
            if exponent = 0 then (1, s1)
            else if base = 0 then (0, s1)
            else
              (let powerSign = (baseSign \<and> exponent AND 1 \<noteq> 0);
                   (p, s2) = int_power_helper ui base exponent False s1
               in (build_value p powerSign s, s2))))"

definition int2pow :: "('a calc_scheme) flag_ui \<Rightarrow> u64 \<Rightarrow> 'a calc_scheme \<Rightarrow> u64 \<times> 'a calc_scheme" where
  "int2pow ui x s =
     (let (exponent, signExponent) = extract_value x s;
          s1 = set_carry_to ui (signExponent \<and> exponent = 1) (clearSystemFlag ui FLAG_OVERFLOW s)
      in if signExponent \<and> exponent \<noteq> 0 then (0, s1)
         else
           (let wordSize = (if shortIntegerMode s \<noteq> SIM_UNSIGN then shortIntegerWordSize s - 1 else shortIntegerWordSize s) in
            if unat exponent \<ge> wordSize then
              (0, setSystemFlag ui FLAG_OVERFLOW (set_carry_to ui (unat exponent = wordSize) s1))
            else (push_bit (unat (exponent AND 0xff)) 1, s1)))"

definition int10pow :: "('a calc_scheme) flag_ui \<Rightarrow> u64 \<Rightarrow> 'a calc_scheme \<Rightarrow> u64 \<times> 'a calc_scheme" where
  "int10pow ui x s =
     (let (exponent, sx) = extract_value x s;
          s1 = clearSystemFlag ui FLAG_CARRY s
      in if exponent = 0 then (1, clearSystemFlag ui FLAG_OVERFLOW s1)
         else if sx then (0, setSystemFlag ui FLAG_CARRY s1)
         else
           (let overflow = (shortIntegerWordSize s \<le> 3 \<or> shortIntegerMode s \<noteq> SIM_UNSIGN \<and> shortIntegerWordSize s = 4);
                (p, s2) = int_power_helper ui 10 x overflow s1
            in (build_value p False s, s2)))"

function log2_loop :: "u64 \<Rightarrow> u32 \<Rightarrow> u32" where
  "log2_loop value log2 =
     (let value1 = drop_bit 1 value in if value1 \<noteq> 0 then log2_loop value1 (log2 + 1) else log2)"
  by auto
termination
  by (relation "measure (\<lambda>(value, log2). unat value)")
    (auto simp: drop_bit_eq_div unat_div unat_gt_0 intro!: div_less_dividend)

declare log2_loop.simps [simp del]

definition intLog2 :: "('a calc_scheme) flag_ui \<Rightarrow> u64 \<Rightarrow> 'a calc_scheme \<Rightarrow> u64 \<times> 'a calc_scheme" where
  "intLog2 ui x s =
     (let (value, signValue) = extract_value x s in
      if value = 0 \<or> signValue then (0, displayCalcErrorMessage ERROR_ARG_EXCEEDS_FUNCTION_DOMAIN ERR_REGISTER_LINE s)
      else (build_value (ucast (log2_loop value 0)) signValue s, set_carry_to ui (value AND (value - 1) \<noteq> 0) s))"

function log10_loop :: "u64 \<Rightarrow> u32 \<Rightarrow> bool \<Rightarrow> u64 \<times> u32 \<times> bool" where
  "log10_loop value r c =
     (if value \<ge> 10 then log10_loop (value div 10) (r + 1) (c \<or> value mod 10 \<noteq> 0) else (value, r, c))"
  by auto
termination
  by (relation "measure (\<lambda>(value, r, c). unat value)") (auto simp: unat_div word_le_nat_alt)

declare log10_loop.simps [simp del]

definition intLog10 :: "('a calc_scheme) flag_ui \<Rightarrow> u64 \<Rightarrow> 'a calc_scheme \<Rightarrow> u64 \<times> 'a calc_scheme" where
  "intLog10 ui x s =
     (let (value, signValue) = extract_value x s in
      if value = 0 \<or> signValue then (0, displayCalcErrorMessage ERROR_ARG_EXCEEDS_FUNCTION_DOMAIN ERR_REGISTER_LINE s)
      else
        (let (value1, r, c) = log10_loop value 0 False in
         (build_value (ucast r) signValue s, set_carry_to ui (c \<or> value1 \<noteq> 1) s)))"

section \<open>Modular arithmetic\<close>

text \<open>With 128-bit integers, and the loop of the compilers without them.\<close>

definition mulmod :: "u64 \<Rightarrow> u64 \<Rightarrow> u64 \<Rightarrow> u64" where
  "mulmod a b c = ucast (((ucast a :: 128 word) * ucast b) mod ucast c)"

function mulmod_loop :: "u64 \<Rightarrow> u64 \<Rightarrow> u64 \<Rightarrow> u64 \<Rightarrow> u64" where
  "mulmod_loop x y b c =
     (if b > 0 then mulmod_loop (if b AND 1 \<noteq> 0 then (x + y) mod c else x) ((y + y) mod c) (b div 2) c
      else x)"
  by auto
termination
  by (relation "measure (\<lambda>(x, y, b, c). unat b)") (auto simp: unat_div unat_gt_0 word_neq_0_conv)

declare mulmod_loop.simps [simp del]

definition mulmod_narrow :: "u64 \<Rightarrow> u64 \<Rightarrow> u64 \<Rightarrow> u64" where
  "mulmod_narrow a b c = mulmod_loop 0 (a mod c) b c mod c"

function expmod_loop :: "u64 \<Rightarrow> u64 \<Rightarrow> u64 \<Rightarrow> u64 \<Rightarrow> u64" where
  "expmod_loop x y b c =
     (if b > 0 then expmod_loop (if b AND 1 \<noteq> 0 then mulmod x y c else x) (mulmod y y c) (b div 2) c
      else x)"
  by auto
termination
  by (relation "measure (\<lambda>(x, y, b, c). unat b)") (auto simp: unat_div unat_gt_0 word_neq_0_conv)

declare expmod_loop.simps [simp del]

definition expmod :: "u64 \<Rightarrow> u64 \<Rightarrow> u64 \<Rightarrow> u64" where
  "expmod a b c = expmod_loop 1 a b c mod c"

end
