(* ===== verification/Registers.thy ===== *)
theory Registers
  imports Memory ShortInt
begin

text \<open>
  The register file, \<^verbatim>\<open>registers.c\<close>.  A register number selects a 32-bit header: in the global
  block, among the named variables, among the local registers of the current subroutine level, or in
  the constant table of reserved variables.  The header holds the data type, a tag, and the number of
  the first of the RAM blocks that hold the value; how many there are follows from the type and, for
  strings, long integers and matrices, from a length word at the start of the value.

  The state extends the global variables by the memory of \<^verbatim>\<open>memory.c\<close> and the three header tables
  (their own RAM blocks are not modelled: nothing here writes them but through the setters).  A program
  exit and a write through a null pointer are error values.  The bug screen and the diagnostics for
  register numbers that denote no register are left out; such numbers, the gap between the global
  block and the named variables included, read the defaults and are not written.
\<close>

section \<open>State\<close>

text \<open>The bit fields of \<^verbatim>\<open>registerHeader_t\<close>: 16, 4 and 5 bits.\<close>

record registerHeader =
  pointerToRegisterData :: nat
  dataType :: nat
  tag :: nat

record machine = calc +
  memory :: memory
  globalRegister :: "registerHeader list"
  namedVariables :: "registerHeader list"
  currentLocalRegisters :: "registerHeader list option"
  currentAngularMode :: nat
  currentInputVariable :: nat
  displayStack :: nat
  thereIsSomethingToUndo :: bool

datatype crash =
    Exit mem_error
  | NullAccess      \<comment> \<open>a write or copy through a null pointer\<close>
  | WildAccess      \<comment> \<open>an access outside a header table\<close>

definition andThen :: "crash + 'a \<Rightarrow> ('a \<Rightarrow> crash + 'b) \<Rightarrow> crash + 'b" where
  "andThen r f = (case r of Inl e \<Rightarrow> Inl e | Inr x \<Rightarrow> f x)"

section \<open>Constants\<close>

abbreviation (input) dtLongInteger :: nat where "dtLongInteger \<equiv> 0"
abbreviation (input) dtReal34 :: nat where "dtReal34 \<equiv> 1"
abbreviation (input) dtComplex34 :: nat where "dtComplex34 \<equiv> 2"
abbreviation (input) dtTime :: nat where "dtTime \<equiv> 3"
abbreviation (input) dtDate :: nat where "dtDate \<equiv> 4"
abbreviation (input) dtString :: nat where "dtString \<equiv> 5"
abbreviation (input) dtReal34Matrix :: nat where "dtReal34Matrix \<equiv> 6"
abbreviation (input) dtComplex34Matrix :: nat where "dtComplex34Matrix \<equiv> 7"
abbreviation (input) dtShortInteger :: nat where "dtShortInteger \<equiv> 8"
abbreviation (input) dtConfig :: nat where "dtConfig \<equiv> 9"
abbreviation (input) amNone :: nat where "amNone \<equiv> 5"
abbreviation (input) amPolar :: nat where "amPolar \<equiv> 16"

text \<open>Sizes in blocks; the configuration record has 840 bytes (\<^verbatim>\<open>typeDefinitions.h\<close>).\<close>

abbreviation (input) REAL34_SIZE_IN_BLOCKS :: nat where "REAL34_SIZE_IN_BLOCKS \<equiv> 4"
abbreviation (input) COMPLEX34_SIZE_IN_BLOCKS :: nat where "COMPLEX34_SIZE_IN_BLOCKS \<equiv> 8"
abbreviation (input) SHORT_INTEGER_SIZE_IN_BLOCKS :: nat where "SHORT_INTEGER_SIZE_IN_BLOCKS \<equiv> 2"
abbreviation (input) CONFIG_SIZE_IN_BLOCKS :: nat where "CONFIG_SIZE_IN_BLOCKS \<equiv> 210"

abbreviation (input) REGISTER_X :: nat where "REGISTER_X \<equiv> 100"
abbreviation (input) REGISTER_Y :: nat where "REGISTER_Y \<equiv> 101"
abbreviation (input) REGISTER_Z :: nat where "REGISTER_Z \<equiv> 102"
abbreviation (input) REGISTER_T :: nat where "REGISTER_T \<equiv> 103"
abbreviation (input) REGISTER_D :: nat where "REGISTER_D \<equiv> 107"
abbreviation (input) REGISTER_L :: nat where "REGISTER_L \<equiv> 108"
abbreviation (input) SAVED_REGISTER_X :: nat where "SAVED_REGISTER_X \<equiv> 126"
abbreviation (input) LAST_GLOBAL_REGISTER :: nat where "LAST_GLOBAL_REGISTER \<equiv> 136"
abbreviation (input) FIRST_NAMED_VARIABLE :: nat where "FIRST_NAMED_VARIABLE \<equiv> 256"
abbreviation (input) LAST_NAMED_VARIABLE :: nat where "LAST_NAMED_VARIABLE \<equiv> 1999"
abbreviation (input) FIRST_RESERVED_VARIABLE :: nat where "FIRST_RESERVED_VARIABLE \<equiv> 2000"
abbreviation (input) FIRST_NAMED_RESERVED_VARIABLE :: nat where "FIRST_NAMED_RESERVED_VARIABLE \<equiv> 2031"
abbreviation (input) LAST_RESERVED_VARIABLE :: nat where "LAST_RESERVED_VARIABLE \<equiv> 2047"
abbreviation (input) INVALID_VARIABLE :: nat where "INVALID_VARIABLE \<equiv> 2199"
abbreviation (input) FIRST_LOCAL_REGISTER :: nat where "FIRST_LOCAL_REGISTER \<equiv> 7000"
abbreviation (input) LAST_LOCAL_REGISTER :: nat where "LAST_LOCAL_REGISTER \<equiv> 7098"
abbreviation (input) NUMBER_OF_LETTERED_VARIABLES :: nat where "NUMBER_OF_LETTERED_VARIABLES \<equiv> 31"

abbreviation (input) SETTING_SINT_WS :: nat where "SETTING_SINT_WS \<equiv> 0x82"

text \<open>The constant table: 31 lettered and spare entries without data, then reals in the first 68 blocks.\<close>

definition allReservedVariables :: "nat \<Rightarrow> registerHeader" where
  "allReservedVariables i =
     (if i < NUMBER_OF_LETTERED_VARIABLES then \<lparr>pointerToRegisterData = C47_NULL, dataType = 0, tag = 0\<rparr>
      else \<lparr>pointerToRegisterData = 4 * (i - NUMBER_OF_LETTERED_VARIABLES), dataType = dtReal34, tag = amNone\<rparr>)"

section \<open>Selecting a header\<close>

datatype cell = GlobalCell nat | NamedCell nat | ReservedCell nat | LocalCell nat | NoCell

definition register_cell :: "nat \<Rightarrow> machine \<Rightarrow> cell" where
  "register_cell regist m =
     (if regist \<le> LAST_GLOBAL_REGISTER then GlobalCell regist
      else if FIRST_NAMED_VARIABLE \<le> regist \<and> regist \<le> LAST_NAMED_VARIABLE then
        (if regist - FIRST_NAMED_VARIABLE < length (namedVariables m) then NamedCell (regist - FIRST_NAMED_VARIABLE) else NoCell)
      else if FIRST_RESERVED_VARIABLE \<le> regist \<and> regist \<le> LAST_RESERVED_VARIABLE then
        ReservedCell (regist - FIRST_RESERVED_VARIABLE)
      else if FIRST_LOCAL_REGISTER \<le> regist \<and> regist \<le> LAST_LOCAL_REGISTER then
        (case currentLocalRegisters m of
           None \<Rightarrow> NoCell
         | Some ls \<Rightarrow> if regist - FIRST_LOCAL_REGISTER < length ls then LocalCell (regist - FIRST_LOCAL_REGISTER) else NoCell)
      else NoCell)"

text \<open>The header of a register that can be written, and its update.\<close>

definition stored_header :: "nat \<Rightarrow> machine \<Rightarrow> registerHeader option" where
  "stored_header regist m =
     (case register_cell regist m of
        GlobalCell i \<Rightarrow> Some (globalRegister m ! i)
      | NamedCell i \<Rightarrow> Some (namedVariables m ! i)
      | LocalCell i \<Rightarrow> Some (the (currentLocalRegisters m) ! i)
      | _ \<Rightarrow> None)"

definition update_header :: "nat \<Rightarrow> (registerHeader \<Rightarrow> registerHeader) \<Rightarrow> machine \<Rightarrow> machine" where
  "update_header regist f m =
     (case register_cell regist m of
        GlobalCell i \<Rightarrow> m\<lparr>globalRegister := (globalRegister m)[i := f (globalRegister m ! i)]\<rparr>
      | NamedCell i \<Rightarrow> m\<lparr>namedVariables := (namedVariables m)[i := f (namedVariables m ! i)]\<rparr>
      | LocalCell i \<Rightarrow> m\<lparr>currentLocalRegisters := map_option (\<lambda>ls. ls[i := f (ls ! i)]) (currentLocalRegisters m)\<rparr>
      | _ \<Rightarrow> m)"

section \<open>Getters and setters\<close>

definition getRegisterDataType :: "nat \<Rightarrow> machine \<Rightarrow> nat" where
  "getRegisterDataType regist m =
     (case register_cell regist m of
        ReservedCell i \<Rightarrow>
          (if i < NUMBER_OF_LETTERED_VARIABLES then dataType (globalRegister m ! (i + REGISTER_X))
           else dataType (allReservedVariables i))
      | NoCell \<Rightarrow> 31
      | _ \<Rightarrow> dataType (the (stored_header regist m)))"

definition getRegisterDataPointer :: "nat \<Rightarrow> machine \<Rightarrow> ptr" where
  "getRegisterDataPointer regist m =
     (case register_cell regist m of
        ReservedCell i \<Rightarrow> TO_PCMEMPTR (pointerToRegisterData (allReservedVariables i))
      | NoCell \<Rightarrow> None
      | _ \<Rightarrow> TO_PCMEMPTR (pointerToRegisterData (the (stored_header regist m))))"

definition getRegisterTag :: "nat \<Rightarrow> machine \<Rightarrow> nat" where
  "getRegisterTag regist m =
     (case register_cell regist m of
        ReservedCell i \<Rightarrow> tag (allReservedVariables i)
      | NoCell \<Rightarrow> 0
      | _ \<Rightarrow> tag (the (stored_header regist m)))"

definition setRegisterDataType :: "nat \<Rightarrow> nat \<Rightarrow> nat \<Rightarrow> machine \<Rightarrow> machine" where
  "setRegisterDataType regist dt t = update_header regist (\<lambda>h. h\<lparr>dataType := dt mod 16, tag := t mod 32\<rparr>)"

definition setRegisterDataPointer :: "nat \<Rightarrow> ptr \<Rightarrow> machine \<Rightarrow> machine" where
  "setRegisterDataPointer regist memPtr = update_header regist (\<lambda>h. h\<lparr>pointerToRegisterData := TO_C47MEMPTR memPtr\<rparr>)"

definition setRegisterTag :: "nat \<Rightarrow> nat \<Rightarrow> machine \<Rightarrow> machine" where
  "setRegisterTag regist t = update_header regist (\<lambda>h. h\<lparr>tag := t mod 32\<rparr>)"

section \<open>Values in RAM\<close>

text \<open>A read through a null pointer reads the block of that number.\<close>

definition ram_block :: "nat \<Rightarrow> machine \<Rightarrow> u32" where
  "ram_block a m = ram (pool (memory m)) a"

definition update_ram :: "((nat \<Rightarrow> u32) \<Rightarrow> nat \<Rightarrow> u32) \<Rightarrow> machine \<Rightarrow> machine" where
  "update_ram f m = m\<lparr>memory := (memory m)\<lparr>pool := (pool (memory m))\<lparr>ram := f (ram (pool (memory m)))\<rparr>\<rparr>\<rparr>"

definition write_at :: "ptr \<Rightarrow> (nat \<Rightarrow> (nat \<Rightarrow> u32) \<Rightarrow> nat \<Rightarrow> u32) \<Rightarrow> machine \<Rightarrow> crash + machine" where
  "write_at p f m = (case p of None \<Rightarrow> Inl NullAccess | Some a \<Rightarrow> Inr (update_ram (f a) m))"

text \<open>The length word: 16 bits of a \<^verbatim>\<open>strLgIntHeader_t\<close>, twice 12 bits of a \<^verbatim>\<open>matrixHeader_t\<close>.\<close>

definition dataMaxLengthInBlocks :: "u32 \<Rightarrow> nat" where
  "dataMaxLengthInBlocks w = unat (w AND 0xffff)"

definition set_dataMaxLengthInBlocks :: "nat \<Rightarrow> u32 \<Rightarrow> u32" where
  "set_dataMaxLengthInBlocks n w = (w AND 0xffff0000) OR of_nat (trunc16 n)"

definition matrixRows :: "u32 \<Rightarrow> nat" where
  "matrixRows w = unat (w AND 0xfff)"

definition matrixColumns :: "u32 \<Rightarrow> nat" where
  "matrixColumns w = unat (drop_bit 12 w AND 0xfff)"

definition set_matrix_1x1 :: "u32 \<Rightarrow> u32" where
  "set_matrix_1x1 w = (w AND 0xff000000) OR 0x1001"

definition data_word :: "nat \<Rightarrow> machine \<Rightarrow> u32" where
  "data_word regist m = ram_block (case getRegisterDataPointer regist m of None \<Rightarrow> C47_NULL | Some a \<Rightarrow> a) m"

definition read_short_integer :: "nat \<Rightarrow> machine \<Rightarrow> u64" where
  "read_short_integer regist m =
     (let a = (case getRegisterDataPointer regist m of None \<Rightarrow> C47_NULL | Some a \<Rightarrow> a) in
      ucast (ram_block a m) OR push_bit 32 (ucast (ram_block (a + 1) m)))"

definition write_short_integer :: "nat \<Rightarrow> u64 \<Rightarrow> machine \<Rightarrow> crash + machine" where
  "write_short_integer regist v m =
     write_at (getRegisterDataPointer regist m) (\<lambda>a r. r(a := ucast v, a + 1 := ucast (drop_bit 32 v))) m"

definition setRegisterMaxDataLengthInBlocks :: "nat \<Rightarrow> nat \<Rightarrow> machine \<Rightarrow> crash + machine" where
  "setRegisterMaxDataLengthInBlocks regist maxDataLen m =
     (let set_length = (\<lambda>r. write_at (getRegisterDataPointer r m) (\<lambda>a f. f(a := set_dataMaxLengthInBlocks maxDataLen (f a))) m) in
      case register_cell regist m of
        ReservedCell i \<Rightarrow> set_length i
      | NoCell \<Rightarrow> Inr m
      | _ \<Rightarrow> set_length regist)"

definition getRegisterMaxDataLengthInBlocks :: "nat \<Rightarrow> machine \<Rightarrow> nat" where
  "getRegisterMaxDataLengthInBlocks regist m =
     (case getRegisterDataPointer regist m of
        None \<Rightarrow> 0
      | Some db \<Rightarrow>
          (let w = ram_block db m; dt = getRegisterDataType regist m in
           if dt = dtReal34Matrix then trunc16 (matrixRows w * matrixColumns w * REAL34_SIZE_IN_BLOCKS)
           else if dt = dtComplex34Matrix then trunc16 (matrixRows w * matrixColumns w * COMPLEX34_SIZE_IN_BLOCKS)
           else dataMaxLengthInBlocks w))"

text \<open>The size by type; the length word is looked at where the type needs it.\<close>

definition full_size :: "nat \<Rightarrow> u32 \<Rightarrow> nat" where
  "full_size dt w =
     (if dt = dtLongInteger \<or> dt = dtString then dataMaxLengthInBlocks w + 1
      else if dt = dtTime \<or> dt = dtDate \<or> dt = dtReal34 then REAL34_SIZE_IN_BLOCKS
      else if dt = dtReal34Matrix then matrixRows w * matrixColumns w * REAL34_SIZE_IN_BLOCKS + 1
      else if dt = dtComplex34Matrix then matrixRows w * matrixColumns w * COMPLEX34_SIZE_IN_BLOCKS + 1
      else if dt = dtShortInteger then SHORT_INTEGER_SIZE_IN_BLOCKS
      else if dt = dtComplex34 then COMPLEX34_SIZE_IN_BLOCKS
      else if dt = dtConfig then CONFIG_SIZE_IN_BLOCKS
      else 0)"

definition getRegisterFullSizeInBlocks :: "nat \<Rightarrow> machine \<Rightarrow> nat" where
  "getRegisterFullSizeInBlocks regist m = trunc16 (full_size (getRegisterDataType regist m) (data_word regist m))"

definition freeRegisterData :: "nat \<Rightarrow> machine \<Rightarrow> crash + machine" where
  "freeRegisterData regist m =
     (case freeC47Blocks (getRegisterDataPointer regist m) (getRegisterFullSizeInBlocks regist m) (memory m) of
        Inl e \<Rightarrow> Inl (Exit e)
      | Inr mem \<Rightarrow> Inr (m\<lparr>memory := mem\<rparr>))"

definition alloc_blocks :: "nat \<Rightarrow> machine \<Rightarrow> ptr \<times> machine" where
  "alloc_blocks n m = (let (p, mem) = allocC47Blocks n (memory m) in (p, m\<lparr>memory := mem\<rparr>))"

section \<open>Reallocation\<close>

text \<open>The data size without the length word: fixed by the type, or the argument (whole limbs for long integers).\<close>

definition data_size :: "nat \<Rightarrow> nat \<Rightarrow> nat" where
  "data_size dt n =
     (if dt = dtComplex34 then COMPLEX34_SIZE_IN_BLOCKS
      else if dt = dtReal34 \<or> dt = dtTime \<or> dt = dtDate then REAL34_SIZE_IN_BLOCKS
      else if dt = dtShortInteger then SHORT_INTEGER_SIZE_IN_BLOCKS
      else if dt = dtConfig then CONFIG_SIZE_IN_BLOCKS
      else if dt = dtLongInteger \<and> n mod 2 \<noteq> 0 then trunc16 ((trunc16 n div 2 + 1) * 2)
      else trunc16 n)"

definition size_with_length :: "nat \<Rightarrow> nat \<Rightarrow> nat" where
  "size_with_length dt n =
     (if dt = dtString \<or> dt = dtReal34Matrix \<or> dt = dtComplex34Matrix \<or> dt = dtLongInteger
      then trunc16 (data_size dt n + 1) else data_size dt n)"

text \<open>
  \<^verbatim>\<open>isMemoryBlockAvailable (n, 2, 0.1f)\<close>: for 16-bit sizes the single precision product
  \<^verbatim>\<open>n * 0.1f\<close> rounds down to \<open>n div 10\<close>.
\<close>

definition reallocateRegister :: "nat \<Rightarrow> nat \<Rightarrow> nat \<Rightarrow> nat \<Rightarrow> machine \<Rightarrow> crash + machine" where
  "reallocateRegister regist dt n t m =
     (let dataSize = data_size dt n; fullSize = size_with_length dt n; old = getRegisterDataType regist m;
          retag = (\<lambda>m1. setRegisterTag regist
                     (if dt = dtComplex34 \<and> getSystemFlag FLAG_POLAR m1 then currentAngularMode m1 OR amPolar else t) m1)
      in if old \<noteq> dt \<or>
            (old = dtString \<or> old = dtLongInteger \<or> old = dtReal34Matrix \<or> old = dtComplex34Matrix) \<and>
              getRegisterMaxDataLengthInBlocks regist m \<noteq> dataSize
         then
           (if FIRST_RESERVED_VARIABLE \<le> regist \<and> regist \<le> LAST_RESERVED_VARIABLE then
              Inr (displayCalcErrorMessage ERROR_INVALID_DATA_TYPE_FOR_OP ERR_REGISTER_LINE m)
            else if \<not> isMemoryBlockAvailable fullSize 2 (fullSize div 10) (memory m) then
              Inr (displayCalcErrorMessage ERROR_RAM_FULL ERR_REGISTER_LINE m)
            else
              andThen (freeRegisterData regist m) (\<lambda>m1.
                (let (p, m2) = alloc_blocks fullSize m1;
                     m3 = setRegisterDataType regist dt t (setRegisterDataPointer regist p m2)
                 in andThen
                      (if dt = dtReal34Matrix \<or> dt = dtComplex34Matrix
                       then write_at (getRegisterDataPointer regist m3) (\<lambda>a f. f(a := set_matrix_1x1 (f a))) m3
                       else setRegisterMaxDataLengthInBlocks regist dataSize m3)
                      (\<lambda>m4. Inr (retag m4)))))
         else Inr (retag m))"

section \<open>Copying\<close>

definition lettered :: "nat \<Rightarrow> nat" where
  "lettered regist =
     (if FIRST_RESERVED_VARIABLE \<le> regist \<and> regist < FIRST_NAMED_RESERVED_VARIABLE
      then regist - FIRST_RESERVED_VARIABLE + REGISTER_X else regist)"

text \<open>The size argument of the reallocation, the length word excluded.\<close>

definition copy_size :: "nat \<Rightarrow> u32 \<Rightarrow> nat" where
  "copy_size dt w =
     (if dt = dtLongInteger \<or> dt = dtString then dataMaxLengthInBlocks w
      else if dt = dtReal34Matrix then matrixRows w * matrixColumns w * REAL34_SIZE_IN_BLOCKS
      else if dt = dtComplex34Matrix then matrixRows w * matrixColumns w * COMPLEX34_SIZE_IN_BLOCKS
      else 0)"

definition copy_blocks :: "nat \<Rightarrow> nat \<Rightarrow> nat \<Rightarrow> machine \<Rightarrow> crash + machine" where
  "copy_blocks destRegister sourceRegister n m =
     (case (getRegisterDataPointer destRegister m, getRegisterDataPointer sourceRegister m) of
        (Some d, Some s) \<Rightarrow> Inr (update_ram (xcopy d s n) m)
      | _ \<Rightarrow> if n = 0 then Inr m else Inl NullAccess)"

text \<open>
  \<open>tvm_sync\<close> is \<^verbatim>\<open>tvmSyncIp\<close>, called after a write to one of four reserved variables of the
  financial solver.  A matrix is copied whole, its size not truncated to 16 bits.
\<close>

definition copy_contents :: "(nat \<Rightarrow> machine \<Rightarrow> machine) \<Rightarrow> nat \<Rightarrow> nat \<Rightarrow> nat \<Rightarrow> machine \<Rightarrow> crash + machine" where
  "copy_contents tvm_sync sourceRegister destRegister destRegister0 m =
     andThen
       (copy_blocks destRegister sourceRegister
         (let st = getRegisterDataType sourceRegister m in
          if st = dtReal34Matrix \<or> st = dtComplex34Matrix then full_size st (data_word sourceRegister m)
          else getRegisterFullSizeInBlocks sourceRegister m) m)
       (\<lambda>m1. let m2 = setRegisterTag destRegister (getRegisterTag sourceRegister m1) m1 in
          Inr (if destRegister0 = 2035 \<or> destRegister0 = 2040 then tvm_sync destRegister0 m2
               else if destRegister0 = 2037 \<or> destRegister0 = 2043 then tvm_sync 2035 m2
               else m2))"

definition copySourceRegisterToDestRegister ::
    "(nat \<Rightarrow> machine \<Rightarrow> machine) \<Rightarrow> nat \<Rightarrow> nat \<Rightarrow> machine \<Rightarrow> crash + machine" where
  "copySourceRegisterToDestRegister tvm_sync sourceRegister0 destRegister0 m =
     (let destRegister = lettered destRegister0; sourceRegister = lettered sourceRegister0;
          sourceType = getRegisterDataType sourceRegister m;
          finish = copy_contents tvm_sync sourceRegister destRegister destRegister0
      in if getRegisterDataType destRegister m \<noteq> sourceType \<or>
            getRegisterFullSizeInBlocks destRegister m \<noteq> getRegisterFullSizeInBlocks sourceRegister m
         then
           (let saved = lastErrorCode m in
            andThen (reallocateRegister destRegister sourceType (copy_size sourceType (data_word sourceRegister m)) amNone
                       (m\<lparr>lastErrorCode := ERROR_NONE\<rparr>))
              (\<lambda>m1. if lastErrorCode m1 = ERROR_RAM_FULL then Inr m1
                     else finish (if lastErrorCode m1 = ERROR_NONE then m1\<lparr>lastErrorCode := saved\<rparr> else m1)))
         else finish m)"

definition saveLastX :: "(nat \<Rightarrow> machine \<Rightarrow> machine) \<Rightarrow> machine \<Rightarrow> crash + (bool \<times> machine)" where
  "saveLastX tvm_sync m =
     andThen (copySourceRegisterToDestRegister tvm_sync REGISTER_X REGISTER_L m)
       (\<lambda>m1. Inr (lastErrorCode m1 = ERROR_NONE, m1))"

section \<open>Long integers in registers\<close>

text \<open>
  The limbs of a GMP integer, 64 bits each, least significant first, and the tag of its sign; the
  copy runs over whole limbs, after the length word.
\<close>

abbreviation (input) LI_ZERO :: nat where "LI_ZERO \<equiv> 0"
abbreviation (input) LI_POSITIVE :: nat where "LI_POSITIVE \<equiv> 2"

fun write_limbs :: "nat \<Rightarrow> u64 list \<Rightarrow> (nat \<Rightarrow> u32) \<Rightarrow> nat \<Rightarrow> u32" where
  "write_limbs a [] f = f"
| "write_limbs a (l # ls) f = write_limbs (a + 2) ls (f(a := ucast l, a + 1 := ucast (drop_bit 32 l)))"

definition convertLongIntegerToLongIntegerRegister :: "u64 list \<Rightarrow> nat \<Rightarrow> nat \<Rightarrow> machine \<Rightarrow> crash + machine" where
  "convertLongIntegerToLongIntegerRegister limbs signTag regist m =
     (let sizeInBytes = trunc16 (8 * length limbs) in
      andThen (reallocateRegister regist dtLongInteger ((sizeInBytes + 3) div 4) signTag m)
        (\<lambda>m1. if sizeInBytes = 0 then Inr m1
               else write_at (getRegisterDataPointer regist m1)
                      (\<lambda>a. write_limbs (a + 1) (take (sizeInBytes div 8) limbs)) m1))"

section \<open>Short integers in registers\<close>

definition convertUInt64ToShortIntegerRegister :: "bool \<Rightarrow> u64 \<Rightarrow> nat \<Rightarrow> nat \<Rightarrow> machine \<Rightarrow> crash + machine" where
  "convertUInt64ToShortIntegerRegister sign v base regist m =
     (let w = (if sign then
                 (if shortIntegerMode m = SIM_2COMPL \<or> shortIntegerMode m = SIM_UNSIGN then NOT v + 1
                  else if shortIntegerMode m = SIM_1COMPL then NOT v
                  else if shortIntegerMode m = SIM_SIGNMT then v + shortIntegerSignBit m
                  else 0)
               else v)
      in andThen (reallocateRegister regist dtShortInteger SHORT_INTEGER_SIZE_IN_BLOCKS base m)
           (\<lambda>m1. write_short_integer regist (w AND shortIntegerMask m1) m1))"

fun clamp_registers :: "nat list \<Rightarrow> machine \<Rightarrow> crash + machine" where
  "clamp_registers [] m = Inr m"
| "clamp_registers (regist # rs) m =
     andThen (if getRegisterDataType regist m = dtShortInteger
              then write_short_integer regist (read_short_integer regist m AND shortIntegerMask m) m else Inr m)
       (clamp_registers rs)"

definition clampShortIntegerRegistersToWordSize :: "machine \<Rightarrow> crash + machine" where
  "clampShortIntegerRegistersToWordSize m =
     clamp_registers ([0 ..< Suc LAST_GLOBAL_REGISTER] @
       map ((+) FIRST_NAMED_VARIABLE) [0 ..< length (namedVariables m)] @
       map ((+) FIRST_LOCAL_REGISTER) [0 ..< (case currentLocalRegisters m of None \<Rightarrow> 0 | Some ls \<Rightarrow> length ls)]) m"

definition getStackTop :: "machine \<Rightarrow> nat" where
  "getStackTop m = (if getSystemFlag FLAG_SSIZE8 m then REGISTER_D else REGISTER_T)"

definition fnSetWordSize :: "nat \<Rightarrow> machine \<Rightarrow> crash + machine" where
  "fnSetWordSize WS0 m =
     (let m1 = (if shortIntegerWordSize m \<noteq> WS0
                then (setSystemFlagChanged SETTING_SINT_WS m)\<lparr>screenUpdatingMode := screenUpdatingMode m AND NOT SCRUPD_MANUAL_STATUSBAR\<rparr> else m);
          WS = (if WS0 = 0 then 64 else WS0);
          reduceWordSize = WS < shortIntegerWordSize m1;
          m2 = updateShortIntegerMasks (m1\<lparr>shortIntegerWordSize := WS mod 256\<rparr>)
      in andThen (if reduceWordSize then clamp_registers ([REGISTER_X ..< Suc (getStackTop m2)] @ [REGISTER_L]) m2 else Inr m2)
           (\<lambda>m3. Inr (fnRefreshState m3)))"

end
