(* ===== verification/RegisterLaws.thy ===== *)
theory RegisterLaws
  imports Registers
begin

text \<open>
  Laws of the register file.  The headers of the writable registers form one list; a register number
  selects a slot of it, and the getters and setters read and update that slot.  The invariant
  \<open>regs_inv\<close> ties the headers to the block allocator: the data of the registers are pieces of the pool
  that do not meet each other, other owned pieces or free memory.  The abstraction \<open>reg_values\<close> is the
  list of the values: type, tag and data blocks.  Lemmas on what the setters and the reallocation do
  to both.
\<close>

section \<open>Headers as one list\<close>

definition local_headers :: "machine \<Rightarrow> registerHeader list" where
  "local_headers m = (case currentLocalRegisters m of None \<Rightarrow> [] | Some ls \<Rightarrow> ls)"

definition all_headers :: "machine \<Rightarrow> registerHeader list" where
  "all_headers m = globalRegister m @ namedVariables m @ local_headers m"

definition slot :: "nat \<Rightarrow> machine \<Rightarrow> nat option" where
  "slot regist m =
     (case register_cell regist m of
        GlobalCell i \<Rightarrow> Some i
      | NamedCell i \<Rightarrow> Some (Suc LAST_GLOBAL_REGISTER + i)
      | LocalCell i \<Rightarrow> Some (Suc LAST_GLOBAL_REGISTER + length (namedVariables m) + i)
      | _ \<Rightarrow> None)"

definition globals_ok :: "machine \<Rightarrow> bool" where
  "globals_ok m \<longleftrightarrow> length (globalRegister m) = Suc LAST_GLOBAL_REGISTER \<and>
     length (namedVariables m) \<le> LAST_NAMED_VARIABLE - FIRST_NAMED_VARIABLE + 1"

lemma slot_global [simp]: "regist \<le> LAST_GLOBAL_REGISTER \<Longrightarrow> slot regist m = Some regist"
  by (simp add: slot_def register_cell_def)

lemma slot_cases:
  assumes "globals_ok m" "slot regist m = Some k"
  obtains (global) "register_cell regist m = GlobalCell k" "k < length (globalRegister m)" "regist = k"
  | (named) i where "register_cell regist m = NamedCell i" "i < length (namedVariables m)" "k = length (globalRegister m) + i"
      "regist = FIRST_NAMED_VARIABLE + i"
  | (local) i ls where "register_cell regist m = LocalCell i" "currentLocalRegisters m = Some ls" "i < length ls"
      "k = length (globalRegister m) + length (namedVariables m) + i" "regist = FIRST_LOCAL_REGISTER + i"
  using assms that unfolding slot_def register_cell_def globals_ok_def
  by (auto split: if_splits option.splits)

lemma slot_less: "globals_ok m \<Longrightarrow> slot regist m = Some k \<Longrightarrow> k < length (all_headers m)"
  by (erule (1) slot_cases) (auto simp: all_headers_def local_headers_def)

lemma stored_header_slot: "globals_ok m \<Longrightarrow> slot regist m = Some k \<Longrightarrow> stored_header regist m = Some (all_headers m ! k)"
  by (erule (1) slot_cases) (auto simp: stored_header_def all_headers_def local_headers_def nth_append)

lemma slot_getters:
  assumes "globals_ok m" "slot regist m = Some k"
  shows "getRegisterDataType regist m = dataType (all_headers m ! k)"
    and "getRegisterDataPointer regist m = TO_PCMEMPTR (pointerToRegisterData (all_headers m ! k))"
    and "getRegisterTag regist m = tag (all_headers m ! k)"
  using stored_header_slot [OF assms] assms(2)
  by (auto simp: getRegisterDataType_def getRegisterDataPointer_def getRegisterTag_def slot_def split: cell.splits)

lemma update_header_fields [simp]:
  "memory (update_header r f m) = memory m" "calc.truncate (update_header r f m) = calc.truncate m"
  "length (globalRegister (update_header r f m)) = length (globalRegister m)"
  "length (namedVariables (update_header r f m)) = length (namedVariables m)"
  "currentAngularMode (update_header r f m) = currentAngularMode m"
  "map_option length (currentLocalRegisters (update_header r f m)) = map_option length (currentLocalRegisters m)"
  by (auto simp: update_header_def calc.defs option.map_comp o_def split: cell.splits)

lemma update_header_cell [simp]: "register_cell r' (update_header r f m) = register_cell r' m"
proof -
  have "map_option length (currentLocalRegisters (update_header r f m)) = map_option length (currentLocalRegisters m)" by simp
  then show ?thesis
    unfolding register_cell_def by (cases "currentLocalRegisters m"; cases "currentLocalRegisters (update_header r f m)") auto
qed

lemma update_header_slot [simp]: "slot r' (update_header r f m) = slot r' m"
  by (simp add: slot_def split: cell.split)

lemma update_header_globals_ok [simp]: "globals_ok (update_header r f m) = globals_ok m"
  by (simp add: globals_ok_def)

lemma all_headers_update:
  assumes "globals_ok m" "slot r m = Some k"
  shows "all_headers (update_header r f m) = (all_headers m)[k := f (all_headers m ! k)]"
  using assms
proof (cases rule: slot_cases)
  case global
  then show ?thesis by (simp add: update_header_def all_headers_def local_headers_def list_update_append nth_append)
next
  case (named i)
  then show ?thesis by (simp add: update_header_def all_headers_def local_headers_def list_update_append nth_append)
next
  case (local i ls)
  then show ?thesis
    by (simp add: update_header_def all_headers_def local_headers_def list_update_append nth_append)
qed

section \<open>Pieces and values\<close>

definition hsize :: "machine \<Rightarrow> registerHeader \<Rightarrow> nat" where
  "hsize m h = full_size (dataType h) (ram_block (pointerToRegisterData h) m)"

definition hpiece :: "machine \<Rightarrow> registerHeader \<Rightarrow> piece" where
  "hpiece m h = (pointerToRegisterData h, hsize m h)"

type_synonym reg_value = "nat \<times> nat \<times> u32 list"

definition hvalue :: "machine \<Rightarrow> registerHeader \<Rightarrow> reg_value" where
  "hvalue m h =
     (dataType h, tag h, map (\<lambda>a. ram_block a m) [pointerToRegisterData h ..< pointerToRegisterData h + hsize m h])"

definition reg_values :: "machine \<Rightarrow> reg_value list" where
  "reg_values m = map (hvalue m) (all_headers m)"

definition pieces :: "machine \<Rightarrow> piece multiset" where
  "pieces m = mset (map (hpiece m) (all_headers m))"

text \<open>The bit fields of a header; long integers come in whole 64-bit limbs.\<close>

definition header_ok :: "machine \<Rightarrow> registerHeader \<Rightarrow> bool" where
  "header_ok m h \<longleftrightarrow> dataType h < 16 \<and> tag h < 32 \<and>
     (dataType h = dtLongInteger \<longrightarrow> even (dataMaxLengthInBlocks (ram_block (pointerToRegisterData h) m)))"

definition regs_inv :: "nat \<Rightarrow> piece multiset \<Rightarrow> machine \<Rightarrow> bool" where
  "regs_inv lim R m \<longleftrightarrow> globals_ok m \<and> pool_ok lim (pool (memory m)) (pieces m + R) \<and> list_all (header_ok m) (all_headers m)"

lemma regs_inv_globals [simp]: "regs_inv lim R m \<Longrightarrow> globals_ok m"
  by (simp add: regs_inv_def)

lemma nth_mset_diff: "i < length xs \<Longrightarrow> j < length xs \<Longrightarrow> i \<noteq> j \<Longrightarrow> xs ! j \<in># mset xs - {#xs ! i#}"
proof -
  assume i: "i < length xs" and j: "j < length xs" and ne: "i \<noteq> j"
  have "mset xs = add_mset (xs ! i) (mset (take i xs @ drop (Suc i) xs))"
    using id_take_nth_drop [OF i] by (metis mset.simps(2) mset_append union_mset_add_mset_right)
  moreover have "xs ! j \<in> set (take i xs @ drop (Suc i) xs)"
  proof (cases "j < i")
    case True
    with i have "xs ! j = take i xs ! j" "j < length (take i xs)" by auto
    then have "xs ! j \<in> set (take i xs)" by (metis nth_mem)
    then show ?thesis by simp
  next
    case False
    with ne j have "xs ! j = drop (Suc i) xs ! (j - Suc i)" "j - Suc i < length (drop (Suc i) xs)" by auto
    then have "xs ! j \<in> set (drop (Suc i) xs)" by (metis nth_mem)
    then show ?thesis by simp
  qed
  ultimately show ?thesis by simp
qed

lemma piece_member: "k < length (all_headers m) \<Longrightarrow> hpiece m (all_headers m ! k) \<in># pieces m"
  by (simp add: pieces_def)

lemma regs_piece:
  assumes "regs_inv lim R m" "k < length (all_headers m)"
  defines "h \<equiv> all_headers m ! k"
  shows "0 < hsize m h" "pointerToRegisterData h + hsize m h \<le> lim"
    "{pointerToRegisterData h ..< pointerToRegisterData h + hsize m h} \<inter> free_blocks (pool (memory m)) = {}"
    "lim < C47_NULL"
proof -
  have ok: "pool_ok lim (pool (memory m)) (pieces m + R)" using assms(1) by (simp add: regs_inv_def)
  have "(pointerToRegisterData h, hsize m h) \<in># pieces m + R"
    using piece_member [OF assms(2)] by (simp add: h_def hpiece_def)
  from pool_member [OF ok this] show "0 < hsize m h" "pointerToRegisterData h + hsize m h \<le> lim"
    "{pointerToRegisterData h ..< pointerToRegisterData h + hsize m h} \<inter> free_blocks (pool (memory m)) = {}" by auto
  show "lim < C47_NULL" using ok by (simp add: pool_ok_def fl_inv_def)
qed

lemma regs_pieces_disjoint:
  assumes "regs_inv lim R m" "i < length (all_headers m)" "j < length (all_headers m)" "i \<noteq> j"
  shows "piece_set (hpiece m (all_headers m ! i)) \<inter> piece_set (hpiece m (all_headers m ! j)) = {}"
proof -
  have ok: "pieces_ok lim (free_blocks (pool (memory m))) (pieces m + R)"
    using assms(1) by (simp add: regs_inv_def pool_ok_def)
  have "map (hpiece m) (all_headers m) ! j \<in># mset (map (hpiece m) (all_headers m)) - {#map (hpiece m) (all_headers m) ! i#}"
    using assms by (intro nth_mset_diff) simp_all
  then have "hpiece m (all_headers m ! j) \<in># pieces m - {#hpiece m (all_headers m ! i)#}"
    using assms by (simp add: pieces_def)
  then have "hpiece m (all_headers m ! j) \<in># pieces m + R - {#hpiece m (all_headers m ! i)#}"
    by (simp add: in_diff_count)
  moreover have "hpiece m (all_headers m ! i) \<in># pieces m + R" using piece_member [OF assms(2)] by simp
  ultimately show ?thesis using pieces_ok_pairD [OF ok] by blast
qed

lemma regs_pointer:
  assumes inv: "regs_inv lim R m" and s: "slot r m = Some k"
  shows "getRegisterDataPointer r m = Some (pointerToRegisterData (all_headers m ! k))"
    and "getRegisterFullSizeInBlocks r m = hsize m (all_headers m ! k)"
    and "data_word r m = ram_block (pointerToRegisterData (all_headers m ! k)) m"
proof -
  have g: "globals_ok m" using inv by simp
  have k: "k < length (all_headers m)" by (rule slot_less [OF g s])
  note p = regs_piece [OF inv k]
  show ptr: "getRegisterDataPointer r m = Some (pointerToRegisterData (all_headers m ! k))"
    using p slot_getters(2) [OF g s] by (simp add: TO_PCMEMPTR_def)
  then show w: "data_word r m = ram_block (pointerToRegisterData (all_headers m ! k)) m"
    by (simp add: data_word_def)
  show "getRegisterFullSizeInBlocks r m = hsize m (all_headers m ! k)"
    using p slot_getters(1) [OF g s] w by (simp add: getRegisterFullSizeInBlocks_def hsize_def)
qed

text \<open>Replacing the header and the data of one register.\<close>

lemma regs_replace:
  assumes inv: "regs_inv lim R m" and k: "k < length (all_headers m)" and g: "globals_ok m'"
    and hs: "all_headers m' = (all_headers m)[k := h]"
    and ok: "pool_ok lim (pool (memory m')) (add_mset (hpiece m' h) (pieces m - {#hpiece m (all_headers m ! k)#} + R))"
    and same: "\<And>a j. j < length (all_headers m) \<Longrightarrow> j \<noteq> k \<Longrightarrow> a \<in> piece_set (hpiece m (all_headers m ! j)) \<Longrightarrow>
                 ram_block a m' = ram_block a m"
    and limbs: "header_ok m' h"
  shows "regs_inv lim R m'" and "reg_values m' = (reg_values m)[k := hvalue m' h]"
proof -
  let ?hs = "all_headers m"
  have len: "length (all_headers m') = length ?hs" by (simp add: hs)
  have eq: "hpiece m' (?hs ! j) = hpiece m (?hs ! j) \<and> hvalue m' (?hs ! j) = hvalue m (?hs ! j) \<and>
            header_ok m' (?hs ! j) = header_ok m (?hs ! j)"
    if j: "j < length ?hs" "j \<noteq> k" for j
  proof -
    let ?p = "pointerToRegisterData (?hs ! j)"
    have s: "ram_block a m' = ram_block a m" if "a \<in> {?p ..< ?p + hsize m (?hs ! j)}" for a
      using same [OF j, of a] that by (simp add: hpiece_def)
    have "0 < hsize m (?hs ! j)" by (rule regs_piece(1) [OF inv j(1)])
    then have w: "ram_block ?p m' = ram_block ?p m" by (intro s) simp
    then have "hsize m' (?hs ! j) = hsize m (?hs ! j)" by (simp add: hsize_def)
    with s w show ?thesis by (simp add: hpiece_def hvalue_def header_ok_def)
  qed
  have "map (hpiece m') (all_headers m') = (map (hpiece m) ?hs)[k := hpiece m' h]"
    by (rule nth_equalityI) (use k in \<open>auto simp: hs nth_list_update eq\<close>)
  then have "pieces m' = add_mset (hpiece m' h) (pieces m - {#hpiece m (?hs ! k)#})"
    using k by (simp add: pieces_def mset_update)
  moreover have "list_all (header_ok m') (all_headers m')"
    using inv limbs eq k by (auto simp: hs list_all_length nth_list_update regs_inv_def)
  ultimately show "regs_inv lim R m'" using g ok by (simp add: regs_inv_def)
  show "reg_values m' = (reg_values m)[k := hvalue m' h]"
    unfolding reg_values_def by (rule nth_equalityI) (use k in \<open>auto simp: hs nth_list_update eq\<close>)
qed

section \<open>Releasing and allocating\<close>

text \<open>Free blocks in a row lie in one region, as the regions are coalesced.\<close>

lemma interval_in_region:
  "regions_wf lim rs \<Longrightarrow> 0 < n \<Longrightarrow> {a ..< a + n} \<subseteq> blocks_of rs \<Longrightarrow> \<exists>r \<in> set rs. {a ..< a + n} \<subseteq> r_blocks r"
proof (induction rs)
  case (Cons r rs)
  have beyond: "r_end r < b" if "b \<in> blocks_of rs" for b
    using Cons.prems(1) that by (auto intro: blocks_of_ge)
  show ?case
  proof (cases "a \<in> r_blocks r")
    case True
    have "r_end r \<notin> {a ..< a + n}"
      using Cons.prems(3) beyond [of "r_end r"] by (auto simp: r_blocks_def)
    with True have "{a ..< a + n} \<subseteq> r_blocks r" by (auto simp: r_blocks_def)
    then show ?thesis by simp
  next
    case False
    have "a \<in> r_blocks r \<union> blocks_of rs" using subsetD [OF Cons.prems(3), of a] Cons.prems(2) by simp
    with False have "a \<in> blocks_of rs" by simp
    then have "r_end r < a" by (rule beyond)
    then have "{a ..< a + n} \<inter> r_blocks r = {}" by (auto simp: r_blocks_def)
    with Cons.prems(3) have "{a ..< a + n} \<subseteq> blocks_of rs" by auto
    with Cons show ?thesis by auto
  qed
qed simp

lemma alloc_possible:
  assumes "fl_inv lim h" "0 < n" "{a ..< a + n} \<subseteq> free_blocks h"
  shows "\<exists>q h'. freeListAlloc n h = (Some q, h')"
proof (cases "freeListAlloc n h")
  case (Pair q h')
  show ?thesis
  proof (cases q)
    case None
    from assms interval_in_region [of lim "freeMemoryRegions h" n a]
    obtain r where r: "r \<in> set (freeMemoryRegions h)" "{a ..< a + n} \<subseteq> r_blocks r"
      by (auto simp: fl_inv_def free_blocks_def)
    then have "card {a ..< a + n} \<le> card (r_blocks r)" by (intro card_mono) (auto simp: r_blocks_def)
    then have "n \<le> sizeInBlocks r" by (simp add: r_blocks_def r_end_def)
    with freeListAlloc_None [OF assms(1), of n h'] Pair None r(1) assms(2) show ?thesis by fastforce
  qed (use Pair in simp)
qed

lemma available_room:
  assumes "fl_inv lim h" "0 < n" "block_available n 2 x (freeMemoryRegions h) 0 False"
  shows "\<exists>a. {a ..< a + n} \<subseteq> free_blocks h"
proof -
  have "2 \<le> capacity n (freeMemoryRegions h)"
    using block_available_capacity [OF assms(2,3)] by simp
  then obtain q h' where a: "freeListAlloc n h = (Some q, h')"
    using capacity_enough [OF assms(1,2)] by auto
  show ?thesis using freeListAlloc_Some [OF assms(1) a refl] assms(2) by auto
qed

lemma free_alloc_outcome:
  assumes ok: "pool_ok lim h (add_mset (p, n) N)" and k: "0 < k" and f: "freeListFree (Some p) n h = Inr h1"
  obtains (none) "freeListAlloc k h1 = (None, h1)" "ram h1 = ram h" "\<nexists>a. {a ..< a + k} \<subseteq> free_blocks h"
  | (some) q h2 where "freeListAlloc k h1 = (Some q, h2)" "pool_ok lim h2 (add_mset (q, k) N)" "ram h2 = ram h" "q < C47_NULL"
proof -
  note fr = pool_free [OF ok _ f]
  have ok1: "pool_ok lim h1 N" and fb: "free_blocks h1 = free_blocks h \<union> {p ..< p + n}" and r1: "ram h1 = ram h"
    using fr by auto
  have fl1: "fl_inv lim h1" using ok1 by (simp add: pool_ok_def)
  show thesis
  proof (cases "freeListAlloc k h1")
    case (Pair q h2)
    show thesis
    proof (cases q)
      case None
      then have "h2 = h1" using freeListAlloc_None [OF fl1, of k h2] Pair by simp
      moreover have "\<nexists>a. {a ..< a + k} \<subseteq> free_blocks h"
        using alloc_possible [OF fl1 k] Pair None fb by auto
      ultimately show thesis using none Pair None r1 by simp
    next
      case (Some q')
      note al = pool_alloc [OF ok1 Pair [unfolded Some]]
      have "q' < C47_NULL" using al(5) k fl1 by (simp add: fl_inv_def)
      moreover have "pool_ok lim h2 (add_mset (q', k) N)" using al(1) k by simp
      ultimately show thesis using some [of q' h2] Pair Some al(4) r1 by simp
    qed
  qed
qed

lemma free_then_alloc:
  assumes ok: "pool_ok lim h (add_mset (p, n) N)" and k: "0 < k"
    and av: "block_available k 2 x (freeMemoryRegions h) 0 False"
    and f: "freeListFree (Some p) n h = Inr h1"
  obtains q h2 where "freeListAlloc k h1 = (Some q, h2)" "pool_ok lim h2 (add_mset (q, k) N)" "ram h2 = ram h" "q < C47_NULL"
proof (cases rule: free_alloc_outcome [OF ok k f])
  case 1
  have "fl_inv lim h" using ok by (simp add: pool_ok_def)
  with available_room [OF _ k av] 1 show thesis by blast
qed (rule that)

section \<open>Frames\<close>

text \<open>Everything but the memory and the headers; the sizes of the tables.\<close>

definition core :: "machine \<Rightarrow> machine" where
  "core m = m\<lparr>memory := small_memory, globalRegister := [], namedVariables := [], currentLocalRegisters := None\<rparr>"

definition shape :: "machine \<Rightarrow> nat \<times> nat \<times> nat option" where
  "shape m = (length (globalRegister m), length (namedVariables m), map_option length (currentLocalRegisters m))"

definition same_rest :: "machine \<Rightarrow> machine \<Rightarrow> bool" where
  "same_rest m m' \<longleftrightarrow> core m' = core m \<and> shape m' = shape m"

lemma same_rest_refl [simp]: "same_rest m m"
  by (simp add: same_rest_def)

lemma same_rest_trans: "same_rest m m1 \<Longrightarrow> same_rest m1 m2 \<Longrightarrow> same_rest m m2"
  by (simp add: same_rest_def)

lemma core_update_header [simp]: "core (update_header r f m) = core m"
  by (simp add: core_def update_header_def split: cell.split)

lemma same_rest_update_header [simp]: "same_rest m (update_header r f m)"
  by (simp add: same_rest_def shape_def)

lemma same_rest_update_ram [simp]: "same_rest m (update_ram f m)"
  by (simp add: same_rest_def shape_def core_def update_ram_def)

lemma same_rest_memory [simp]: "same_rest m (m\<lparr>memory := x\<rparr>)"
  by (simp add: same_rest_def shape_def core_def)

lemma shape_cell:
  assumes "shape m' = shape m"
  shows "register_cell r m' = register_cell r m"
proof -
  have "length (namedVariables m') = length (namedVariables m)"
    and l: "map_option length (currentLocalRegisters m') = map_option length (currentLocalRegisters m)"
    using assms by (simp_all add: shape_def)
  moreover have "(case currentLocalRegisters x of None \<Rightarrow> NoCell | Some ls \<Rightarrow> if i < length ls then LocalCell i else NoCell) =
    (case map_option length (currentLocalRegisters x) of None \<Rightarrow> NoCell | Some n \<Rightarrow> if i < n then LocalCell i else NoCell)"
    for x :: machine and i by (cases "currentLocalRegisters x") simp_all
  ultimately show ?thesis unfolding register_cell_def by (simp only: l)
qed

lemma shape_slot:
  assumes "shape m' = shape m"
  shows "slot r m' = slot r m"
proof -
  have n: "length (namedVariables m') = length (namedVariables m)" using assms by (simp add: shape_def)
  show ?thesis unfolding slot_def shape_cell [OF assms] n ..
qed

lemma same_rest_slot: "same_rest m m' \<Longrightarrow> slot r m' = slot r m"
  by (rule shape_slot) (simp add: same_rest_def)

lemma same_rest_globals_ok: "same_rest m m' \<Longrightarrow> globals_ok m' = globals_ok m"
  by (simp add: same_rest_def shape_def globals_ok_def)

lemma core_fields:
  "lastErrorCode (core m) = lastErrorCode m" "getSystemFlag f (core m) = getSystemFlag f m"
  "currentAngularMode (core m) = currentAngularMode m" "shortIntegerMask (core m) = shortIntegerMask m"
  "shortIntegerWordSize (core m) = shortIntegerWordSize m" "shortIntegerSignBit (core m) = shortIntegerSignBit m"
  "shortIntegerMode (core m) = shortIntegerMode m"
  by (simp_all add: core_def getSystemFlag_def)

lemma same_rest_fields:
  assumes "same_rest m m'"
  shows "lastErrorCode m' = lastErrorCode m" "getSystemFlag f m' = getSystemFlag f m"
    "currentAngularMode m' = currentAngularMode m" "shortIntegerMask m' = shortIntegerMask m"
    "shortIntegerWordSize m' = shortIntegerWordSize m" "shortIntegerSignBit m' = shortIntegerSignBit m"
    "shortIntegerMode m' = shortIntegerMode m"
  using assms core_fields [where m = m] core_fields [where m = m'] by (simp_all add: same_rest_def)

lemma all_headers_simps [simp]:
  "all_headers (update_ram f m) = all_headers m" "all_headers (m\<lparr>memory := x\<rparr>) = all_headers m"
  "globals_ok (update_ram f m) = globals_ok m" "globals_ok (m\<lparr>memory := x\<rparr>) = globals_ok m"
  by (simp_all add: all_headers_def local_headers_def update_ram_def globals_ok_def)

lemma ram_block_simps [simp]:
  "ram_block a (update_header r f m) = ram_block a m"
  "ram_block a (update_ram g m) = g (\<lambda>b. ram_block b m) a"
  by (simp_all add: ram_block_def update_ram_def)

lemma memory_update_ram: "pool (memory (update_ram g m)) = (pool (memory m))\<lparr>ram := g (ram (pool (memory m)))\<rparr>"
  by (simp add: update_ram_def)

lemma pool_ok_ram [simp]: "pool_ok lim (h\<lparr>ram := f\<rparr>) M = pool_ok lim h M"
  by (simp add: pool_ok_def fl_inv_def free_blocks_def)

text \<open>Changes that touch neither the headers nor the memory.\<close>

lemma regs_inv_cong:
  assumes "all_headers m' = all_headers m" "globals_ok m' = globals_ok m" "pool (memory m') = pool (memory m)"
  shows "regs_inv lim R m' = regs_inv lim R m" and "reg_values m' = reg_values m"
proof -
  have ram: "ram_block a m' = ram_block a m" for a using assms(3) by (simp add: ram_block_def)
  then have "hsize m' = hsize m" "header_ok m' = header_ok m"
    by (intro ext; simp add: hsize_def header_ok_def)+
  moreover from this ram have "hpiece m' = hpiece m" "hvalue m' = hvalue m"
    by (intro ext; simp add: hpiece_def hvalue_def)+
  ultimately show "regs_inv lim R m' = regs_inv lim R m" "reg_values m' = reg_values m"
    using assms by (simp_all add: regs_inv_def pieces_def reg_values_def)
qed

end
