(* ===== verification/FlagLaws.thy ===== *)
theory FlagLaws
  imports Flags
begin

text \<open>
  Laws of the system flags.  \<open>sysbit n s\<close> reads the flag of index \<open>n\<close> from the two words; each
  primitive changes one index and records a change exactly when the value changes.  The interlocks
  are five groups of flags; a flag outside a group never changes the group.
\<close>

section \<open>Reading and writing one flag\<close>

definition sysbit :: "nat \<Rightarrow> 'a calc_scheme \<Rightarrow> bool" where
  "sysbit n s = (if n < 64 then bit (systemFlags0 s) n else bit (systemFlags1 s) (n - 64))"

definition changedbit :: "nat \<Rightarrow> 'a calc_scheme \<Rightarrow> bool" where
  "changedbit n s =
     (if n < 64 then bit (systemFlags0Changed s) n
      else if n < 128 then bit (systemFlags1Changed s) (n - 64)
      else bit (systemFlags2Changed s) (n - 128))"

lemma flag_ix_mod: "flag_ix sf = sf mod 16384"
  using take_bit_eq_mask [of 14 sf] by (simp add: flag_ix_def take_bit_eq_mod mask_eq_exp_minus_1)

lemma getSystemFlag_sysbit: "getSystemFlag sf s = sysbit (flag_ix sf) s"
  by (simp add: getSystemFlag_def sysbit_def Let_def and_exp_eq_0_iff_not_bit)

lemma sysbit_set [flag_simps]:
  "n < 128 \<Longrightarrow> sysbit n (set_system_bit sf s) = (n = flag_ix sf \<or> sysbit n s)"
  by (auto simp: sysbit_def set_system_bit_def Let_def bit_simps)

lemma sysbit_clear [flag_simps]:
  "n < 128 \<Longrightarrow> sysbit n (clear_system_bit sf s) = (n \<noteq> flag_ix sf \<and> sysbit n s)"
  by (auto simp: sysbit_def clear_system_bit_def Let_def bit_simps dest: bit_u64_imp_less)

lemma sysbit_flip [flag_simps]:
  "n < 128 \<Longrightarrow> sysbit n (flip_system_bit sf s) = (sysbit n s \<noteq> (n = flag_ix sf))"
  by (auto simp: sysbit_def flip_system_bit_def Let_def bit_simps)

lemma sysbit_clear_bits [flag_simps]:
  "n < 128 \<Longrightarrow> sysbit n (clear_system_bits fs s) = (n \<notin> flag_ix ` set fs \<and> sysbit n s)"
  by (induction fs arbitrary: s) (auto simp: sysbit_clear)

lemma sysbit_do_if [flag_simps]:
  "sysbit n (do_if b f s) = (if b then sysbit n (f s) else sysbit n s)"
  by (simp add: do_if_def)

lemma sysbit_cong:
  "systemFlags0 s' = systemFlags0 s \<Longrightarrow> systemFlags1 s' = systemFlags1 s \<Longrightarrow> sysbit n s' = sysbit n s"
  by (simp add: sysbit_def)

lemma sysbit_updates [simp]:
  "sysbit n (s\<lparr>lastIntegerBase := b\<rparr>) = sysbit n s"
  "sysbit n (s\<lparr>screenUpdatingMode := u\<rparr>) = sysbit n s"
  "sysbit n (s\<lparr>temporaryInformation := t\<rparr>) = sysbit n s"
  "sysbit n (s\<lparr>globalFlags := g\<rparr>) = sysbit n s"
  "sysbit n (s\<lparr>currentLocalFlags := l\<rparr>) = sysbit n s"
  "sysbit n (fnRefreshState s) = sysbit n s"
  "sysbit n (write_protected_error s) = sysbit n s"
  "sysbit n (SET_TI_TRUE_FALSE c s) = sysbit n s"
  by (simp_all add: sysbit_def fnRefreshState_def write_protected_error_def displayCalcErrorMessage_def SET_TI_TRUE_FALSE_def)

section \<open>Change detection\<close>

lemma changedbit_updates [simp]:
  "changedbit n (s\<lparr>lastIntegerBase := b\<rparr>) = changedbit n s"
  "changedbit n (s\<lparr>screenUpdatingMode := u\<rparr>) = changedbit n s"
  "changedbit n (fnRefreshState s) = changedbit n s"
  by (simp_all add: changedbit_def fnRefreshState_def)

lemma changedbit_set:
  "n < 128 \<Longrightarrow> changedbit n (set_system_bit sf s) = (changedbit n s \<or> sysbit n (set_system_bit sf s) \<noteq> sysbit n s)"
  by (auto simp: changedbit_def sysbit_def set_system_bit_def Let_def bit_simps)

lemma changedbit_clear:
  "n < 128 \<Longrightarrow> changedbit n (clear_system_bit sf s) = (changedbit n s \<or> sysbit n (clear_system_bit sf s) \<noteq> sysbit n s)"
  by (auto simp: changedbit_def sysbit_def clear_system_bit_def Let_def bit_simps dest: bit_u64_imp_less)

lemma changedbit_flip:
  "n < 128 \<Longrightarrow> changedbit n (flip_system_bit sf s) = (changedbit n s \<or> sysbit n (flip_system_bit sf s) \<noteq> sysbit n s)"
  by (auto simp: changedbit_def sysbit_def flip_system_bit_def Let_def bit_simps)

lemma didSystemFlagChange_changedbit:
  "flag_ix sf < 192 \<Longrightarrow> fst (didSystemFlagChange sf s) = changedbit (flag_ix sf) s"
  by (simp add: didSystemFlagChange_def changedbit_def Let_def and_exp_eq_0_iff_not_bit)

lemma changedbit_didSystemFlagChange:
  "n < 192 \<Longrightarrow> changedbit n (snd (didSystemFlagChange sf s)) = (changedbit n s \<and> n \<noteq> flag_ix sf)"
  by (auto simp: didSystemFlagChange_def changedbit_def Let_def bit_simps dest: bit_u64_imp_less)

lemma sysbit_didSystemFlagChange [simp]: "sysbit n (snd (didSystemFlagChange sf s)) = sysbit n s"
  by (simp add: didSystemFlagChange_def sysbit_def Let_def)

text \<open>
  \<open>base\<close> holds the value of each flag when it was last asked about; a flag that differs from it is
  marked as changed.
\<close>

definition changes_marked :: "(nat \<Rightarrow> bool) \<Rightarrow> 'a calc_scheme \<Rightarrow> bool" where
  "changes_marked base s \<longleftrightarrow> (\<forall>n < 128. sysbit n s \<noteq> base n \<longrightarrow> changedbit n s)"

lemma changes_marked_prims:
  "changes_marked base s \<Longrightarrow> changes_marked base (set_system_bit f s)"
  "changes_marked base s \<Longrightarrow> changes_marked base (clear_system_bit f s)"
  "changes_marked base s \<Longrightarrow> changes_marked base (flip_system_bit f s)"
  "changes_marked base s \<Longrightarrow> changes_marked base (s\<lparr>lastIntegerBase := b\<rparr>)"
  by (auto simp: changes_marked_def changedbit_set changedbit_clear changedbit_flip)

section \<open>Invariants of the interactions\<close>

lemma clear_system_bits_inv:
  "(\<And>f s. P s \<Longrightarrow> P (clear_system_bit f s)) \<Longrightarrow> P s \<Longrightarrow> P (clear_system_bits fs s)"
  by (induction fs arbitrary: s) auto

lemma if_inv: "(b \<Longrightarrow> P x) \<Longrightarrow> (\<not> b \<Longrightarrow> P y) \<Longrightarrow> P (if b then x else y)"
  by simp

text \<open>The interactions only set and clear single flags, besides the reset of the integer base.\<close>

lemma interaction_flags_inv:
  assumes "\<And>f s. P s \<Longrightarrow> P (set_system_bit f s)" "\<And>f s. P s \<Longrightarrow> P (clear_system_bit f s)"
    and "\<And>b s. P s \<Longrightarrow> P (s\<lparr>lastIntegerBase := b\<rparr>)" and "P s"
  shows "P (interaction_flags sf s)"
  unfolding interaction_flags_def do_if_def Let_def
  by (intro if_inv [of _ P] clear_system_bits_inv [of P] assms)

lemma refresh_action_inv:
  assumes "\<And>s. P s \<Longrightarrow> P (fnRefreshState s)" "\<And>u s. P s \<Longrightarrow> P (s\<lparr>screenUpdatingMode := u\<rparr>)"
    and "\<And>b s. P s \<Longrightarrow> P (ui_changeBase ui b s)" and "P s"
  shows "P (refresh_action ui sf action s)"
  using assms by (simp add: refresh_action_def)

section \<open>The interlocks\<close>

definition plot_markers_ok :: "'a calc_scheme \<Rightarrow> bool" where
  "plot_markers_ok s \<longleftrightarrow>
     (getSystemFlag FLAG_PLINE s \<or> getSystemFlag FLAG_PBOX s \<or> getSystemFlag FLAG_PCROS s \<or> getSystemFlag FLAG_PPLUS s) \<and>
     \<not> (getSystemFlag FLAG_PBOX s \<and> getSystemFlag FLAG_PCROS s) \<and>
     \<not> (getSystemFlag FLAG_PBOX s \<and> getSystemFlag FLAG_PPLUS s) \<and>
     \<not> (getSystemFlag FLAG_PCROS s \<and> getSystemFlag FLAG_PPLUS s) \<and>
     (getSystemFlag FLAG_PCURVE s \<longrightarrow> getSystemFlag FLAG_PLINE s)"

definition plot_overlays_ok :: "'a calc_scheme \<Rightarrow> bool" where
  "plot_overlays_ok s \<longleftrightarrow>
     \<not> (getSystemFlag FLAG_VECT s \<and> getSystemFlag FLAG_NVECT s) \<and>
     (getSystemFlag FLAG_VECT s \<or> getSystemFlag FLAG_NVECT s \<longrightarrow>
        \<not> getSystemFlag FLAG_PINTG s \<and> \<not> getSystemFlag FLAG_PDIFF s \<and> \<not> getSystemFlag FLAG_PRMS s \<and>
        \<not> getSystemFlag FLAG_PSHADE s) \<and>
     (getSystemFlag FLAG_PSHADE s \<longrightarrow> getSystemFlag FLAG_PINTG s)"

definition complex_plot_ok :: "'a calc_scheme \<Rightarrow> bool" where
  "complex_plot_ok s \<longleftrightarrow> \<not> (getSystemFlag FLAG_CPXPLOT s \<and> getSystemFlag FLAG_IMPLOT s)"

definition fractions_ok :: "'a calc_scheme \<Rightarrow> bool" where
  "fractions_ok s \<longleftrightarrow>
     \<not> (getSystemFlag FLAG_FRACT s \<and> (getSystemFlag FLAG_IRFRAC s \<or> getSystemFlag FLAG_IRFRQ s))"

definition status_bar_ok :: "'a calc_scheme \<Rightarrow> bool" where
  "status_bar_ok s \<longleftrightarrow>
     (getSystemFlag FLAG_SBang s \<longrightarrow> getSystemFlag FLAG_SBadm s) \<and>
     \<not> (getSystemFlag FLAG_SBdate s \<and> getSystemFlag FLAG_SBtime s \<and> getSystemFlag FLAG_SBwoy s)"

definition interlocks :: "'a calc_scheme \<Rightarrow> bool" where
  "interlocks s \<longleftrightarrow> plot_markers_ok s \<and> plot_overlays_ok s \<and> complex_plot_ok s \<and> fractions_ok s \<and> status_bar_ok s"

text \<open>A flag constant is proper when it is one of \<^verbatim>\<open>defines.h\<close>; its index determines it.\<close>

definition proper_flag :: "nat \<Rightarrow> bool" where
  "proper_flag sf \<longleftrightarrow> sf \<in> set system_flags"

definition interlocked_flags :: "nat list" where
  "interlocked_flags =
     [FLAG_PLINE, FLAG_PBOX, FLAG_PCROS, FLAG_PPLUS, FLAG_PCURVE, FLAG_VECT, FLAG_NVECT, FLAG_PINTG, FLAG_PDIFF,
      FLAG_PRMS, FLAG_PSHADE, FLAG_CPXPLOT, FLAG_IMPLOT, FLAG_FRACT, FLAG_IRFRAC, FLAG_IRFRQ, FLAG_SBang,
      FLAG_SBadm, FLAG_SBdate, FLAG_SBtime, FLAG_SBwoy]"

lemma interlocked_indices:
  "flag_ix ` set interlocked_flags =
     {81, 78, 79, 80, 90, 83, 84, 108, 109, 107, 110, 75, 18, 7, 71, 72, 48, 111, 44, 45, 87}"
  by (simp add: interlocked_flags_def flag_ix_mod)

lemma proper_flag_cases:
  assumes "proper_flag sf"
  shows "sf \<in> set interlocked_flags \<or> flag_ix sf \<notin> flag_ix ` set interlocked_flags"
proof -
  have "list_all (\<lambda>sf. sf \<in> set interlocked_flags \<or> sf mod 16384 \<notin>
     {81, 78, 79, 80, 90, 83, 84, 108, 109, 107, 110, 75, 18, 7, 71, 72, 48, 111, 44, 45, 87}) system_flags"
    unfolding system_flags_def interlocked_flags_def by simp
  with assms show ?thesis unfolding proper_flag_def list_all_iff interlocked_indices flag_ix_mod by blast
qed

text \<open>A flag that is not interlocked leaves the others alone.\<close>

lemma interaction_flags_other:
  "sf \<notin> set interlocked_flags \<Longrightarrow> sysbit n (interaction_flags sf s) = sysbit n s"
  by (simp add: interaction_flags_def interlocked_flags_def)

definition touch :: "flagAction \<Rightarrow> nat \<Rightarrow> 'a calc_scheme \<Rightarrow> 'a calc_scheme" where
  "touch action sf s =
     (case action of FLAG_SET \<Rightarrow> set_system_bit sf s | FLAG_CLEAR \<Rightarrow> clear_system_bit sf s
      | FLAG_FLIP \<Rightarrow> flip_system_bit sf s)"

lemma sysbit_touch_other: "n < 128 \<Longrightarrow> n \<noteq> flag_ix sf \<Longrightarrow> sysbit n (touch action sf s) = sysbit n s"
  by (simp add: touch_def flag_simps split: flagAction.split)

text \<open>The groups: what an interaction of a member may change.\<close>

abbreviation marker_flags :: "nat list" where
  "marker_flags \<equiv> [FLAG_PLINE, FLAG_PBOX, FLAG_PCROS, FLAG_PPLUS, FLAG_PCURVE]"
abbreviation overlay_flags :: "nat list" where
  "overlay_flags \<equiv> [FLAG_VECT, FLAG_NVECT, FLAG_PINTG, FLAG_PDIFF, FLAG_PRMS, FLAG_PSHADE]"
abbreviation complex_flags :: "nat list" where
  "complex_flags \<equiv> [FLAG_CPXPLOT, FLAG_IMPLOT]"
abbreviation fraction_flags :: "nat list" where
  "fraction_flags \<equiv> [FLAG_FRACT, FLAG_IRFRAC, FLAG_IRFRQ]"
abbreviation status_flags :: "nat list" where
  "status_flags \<equiv> [FLAG_SBang, FLAG_SBadm, FLAG_SBdate, FLAG_SBtime, FLAG_SBwoy]"

lemma sysbit_refresh_action:
  "sf \<noteq> FLAG_BCD \<Longrightarrow> sysbit n (refresh_action ui sf action s) = sysbit n s"
  by (simp add: refresh_action_def)

lemmas frame_simps = systemFlagAction_def sysbit_refresh_action interaction_flags_def sysbit_set sysbit_clear sysbit_clear_bits sysbit_do_if Let_def

lemma markers_frame:
  "sf \<in> set marker_flags \<Longrightarrow> n < 128 \<Longrightarrow> n \<notin> flag_ix ` set marker_flags \<Longrightarrow>
   sysbit n (systemFlagAction ui sf action s) = sysbit n s"
  unfolding set_simps by (elim insertE emptyE; simp add: frame_simps)

lemma overlays_frame:
  "sf \<in> set overlay_flags \<Longrightarrow> n < 128 \<Longrightarrow> n \<notin> flag_ix ` set overlay_flags \<Longrightarrow>
   sysbit n (systemFlagAction ui sf action s) = sysbit n s"
  unfolding set_simps by (elim insertE emptyE; simp add: frame_simps)

lemma complex_frame:
  "sf \<in> set complex_flags \<Longrightarrow> n < 128 \<Longrightarrow> n \<notin> flag_ix ` set complex_flags \<Longrightarrow>
   sysbit n (systemFlagAction ui sf action s) = sysbit n s"
  unfolding set_simps by (elim insertE emptyE; simp add: frame_simps)

lemma fractions_frame:
  "sf \<in> set fraction_flags \<Longrightarrow> n < 128 \<Longrightarrow> n \<notin> flag_ix ` set fraction_flags \<Longrightarrow>
   sysbit n (systemFlagAction ui sf action s) = sysbit n s"
  unfolding set_simps by (elim insertE emptyE; simp add: frame_simps)

lemma status_frame:
  "sf \<in> set status_flags \<Longrightarrow> n < 128 \<Longrightarrow> n \<notin> flag_ix ` set status_flags \<Longrightarrow>
   sysbit n (systemFlagAction ui sf action s) = sysbit n s"
  unfolding set_simps by (elim insertE emptyE; simp add: frame_simps)

text \<open>What an interaction of a member does to its own group.\<close>

lemmas kept_simps = touch_def getSystemFlag_sysbit no_plot_marker_def flag_simps flag_ix_mod frame_simps

lemma markers_kept:
  "sf \<in> set marker_flags \<Longrightarrow> plot_markers_ok s \<Longrightarrow> plot_markers_ok (systemFlagAction ui sf action (touch action sf s))"
  unfolding set_simps
  by (elim insertE emptyE; cases action; simp add: plot_markers_ok_def kept_simps; blast?)

lemma overlays_kept:
  "sf \<in> set overlay_flags \<Longrightarrow> plot_overlays_ok s \<Longrightarrow> plot_overlays_ok (systemFlagAction ui sf action (touch action sf s))"
  unfolding set_simps
  by (elim insertE emptyE; cases action; simp add: plot_overlays_ok_def kept_simps; blast?)

lemma complex_kept:
  "sf \<in> set complex_flags \<Longrightarrow> complex_plot_ok s \<Longrightarrow> complex_plot_ok (systemFlagAction ui sf action (touch action sf s))"
  unfolding set_simps
  by (elim insertE emptyE; cases action; simp add: complex_plot_ok_def kept_simps; blast?)

lemma fractions_kept:
  "sf \<in> set fraction_flags \<Longrightarrow> fractions_ok s \<Longrightarrow> fractions_ok (systemFlagAction ui sf action (touch action sf s))"
  unfolding set_simps
  by (elim insertE emptyE; cases action; simp add: fractions_ok_def kept_simps; blast?)

lemma status_kept:
  "sf \<in> set status_flags \<Longrightarrow> status_bar_ok s \<Longrightarrow> status_bar_ok (systemFlagAction ui sf action (touch action sf s))"
  unfolding set_simps
  by (elim insertE emptyE; cases action; simp add: status_bar_ok_def kept_simps; blast?)

section \<open>The interlocks hold after every change of a flag\<close>

lemmas groups_defs = plot_markers_ok_def plot_overlays_ok_def complex_plot_ok_def fractions_ok_def
  status_bar_ok_def getSystemFlag_sysbit

lemma markers_cong:
  "\<forall>n \<in> flag_ix ` set marker_flags. sysbit n t = sysbit n s \<Longrightarrow> plot_markers_ok t = plot_markers_ok s"
  by (simp add: groups_defs)

lemma overlays_cong:
  "\<forall>n \<in> flag_ix ` set overlay_flags. sysbit n t = sysbit n s \<Longrightarrow> plot_overlays_ok t = plot_overlays_ok s"
  by (simp add: groups_defs)

lemma complex_cong:
  "\<forall>n \<in> flag_ix ` set complex_flags. sysbit n t = sysbit n s \<Longrightarrow> complex_plot_ok t = complex_plot_ok s"
  by (simp add: groups_defs)

lemma fractions_cong:
  "\<forall>n \<in> flag_ix ` set fraction_flags. sysbit n t = sysbit n s \<Longrightarrow> fractions_ok t = fractions_ok s"
  by (simp add: groups_defs)

lemma status_cong:
  "\<forall>n \<in> flag_ix ` set status_flags. sysbit n t = sysbit n s \<Longrightarrow> status_bar_ok t = status_bar_ok s"
  by (simp add: groups_defs)

text \<open>A group is kept, or none of its flags has changed.\<close>

lemma interlocks_by_groups:
  assumes "interlocks s"
    and "plot_markers_ok s \<Longrightarrow> plot_markers_ok t \<or> (\<forall>n \<in> flag_ix ` set marker_flags. sysbit n t = sysbit n s)"
    and "plot_overlays_ok s \<Longrightarrow> plot_overlays_ok t \<or> (\<forall>n \<in> flag_ix ` set overlay_flags. sysbit n t = sysbit n s)"
    and "complex_plot_ok s \<Longrightarrow> complex_plot_ok t \<or> (\<forall>n \<in> flag_ix ` set complex_flags. sysbit n t = sysbit n s)"
    and "fractions_ok s \<Longrightarrow> fractions_ok t \<or> (\<forall>n \<in> flag_ix ` set fraction_flags. sysbit n t = sysbit n s)"
    and "status_bar_ok s \<Longrightarrow> status_bar_ok t \<or> (\<forall>n \<in> flag_ix ` set status_flags. sysbit n t = sysbit n s)"
  shows "interlocks t"
proof -
  have ok: "plot_markers_ok s" "plot_overlays_ok s" "complex_plot_ok s" "fractions_ok s" "status_bar_ok s"
    using assms(1) by (auto simp: interlocks_def)
  have "plot_markers_ok t" using assms(2) [OF ok(1)] ok(1) markers_cong [of t s] by (elim disjE) simp_all
  moreover have "plot_overlays_ok t" using assms(3) [OF ok(2)] ok(2) overlays_cong [of t s] by (elim disjE) simp_all
  moreover have "complex_plot_ok t" using assms(4) [OF ok(3)] ok(3) complex_cong [of t s] by (elim disjE) simp_all
  moreover have "fractions_ok t" using assms(5) [OF ok(4)] ok(4) fractions_cong [of t s] by (elim disjE) simp_all
  moreover have "status_bar_ok t" using assms(6) [OF ok(5)] ok(5) status_cong [of t s] by (elim disjE) simp_all
  ultimately show ?thesis by (simp add: interlocks_def)
qed

lemma outside_group:
  assumes "\<And>n s. n < 128 \<Longrightarrow> n \<notin> flag_ix ` set G \<Longrightarrow> sysbit n (systemFlagAction ui sf action s) = sysbit n s"
    and "sf \<in> set G" and "A \<inter> flag_ix ` set G = {}" and "A \<subseteq> {..<128}"
  shows "\<forall>n \<in> A. sysbit n (systemFlagAction ui sf action (touch action sf s)) = sysbit n s"
proof
  fix n assume "n \<in> A"
  with assms(3,4) have n: "n < 128" "n \<notin> flag_ix ` set G" by auto
  moreover from n(2) assms(2) have "n \<noteq> flag_ix sf" by blast
  ultimately show "sysbit n (systemFlagAction ui sf action (touch action sf s)) = sysbit n s"
    using assms(1) by (simp add: sysbit_touch_other)
qed

lemma interlocks_member:
  assumes "sf \<in> set interlocked_flags" and s: "interlocks s"
  shows "interlocks (systemFlagAction ui sf action (touch action sf s))"
proof -
  consider (markers) "sf \<in> set marker_flags" | (overlays) "sf \<in> set overlay_flags" | (complex) "sf \<in> set complex_flags"
    | (fractions) "sf \<in> set fraction_flags" | (status) "sf \<in> set status_flags"
    using assms(1) by (fastforce simp: interlocked_flags_def)
  then show ?thesis
  proof cases
    case markers
    note out = outside_group [OF markers_frame [OF markers] markers]
    show ?thesis
      by (rule interlocks_by_groups [OF s]; (rule disjI1, erule markers_kept [OF markers])?; (rule disjI2, rule out; simp add: flag_ix_mod)?)
  next
    case overlays
    note out = outside_group [OF overlays_frame [OF overlays] overlays]
    show ?thesis
      by (rule interlocks_by_groups [OF s]; (rule disjI1, erule overlays_kept [OF overlays])?; (rule disjI2, rule out; simp add: flag_ix_mod)?)
  next
    case complex
    note out = outside_group [OF complex_frame [OF complex] complex]
    show ?thesis
      by (rule interlocks_by_groups [OF s]; (rule disjI1, erule complex_kept [OF complex])?; (rule disjI2, rule out; simp add: flag_ix_mod)?)
  next
    case fractions
    note out = outside_group [OF fractions_frame [OF fractions] fractions]
    show ?thesis
      by (rule interlocks_by_groups [OF s]; (rule disjI1, erule fractions_kept [OF fractions])?; (rule disjI2, rule out; simp add: flag_ix_mod)?)
  next
    case status
    note out = outside_group [OF status_frame [OF status] status]
    show ?thesis
      by (rule interlocks_by_groups [OF s]; (rule disjI1, erule status_kept [OF status])?; (rule disjI2, rule out; simp add: flag_ix_mod)?)
  qed
qed

lemma interlocks_cong_all: "(\<And>n. n \<in> flag_ix ` set interlocked_flags \<Longrightarrow> sysbit n t = sysbit n s) \<Longrightarrow> interlocks t = interlocks s"
  by (simp add: interlocks_def groups_defs interlocked_flags_def)

lemma interlocks_touch:
  assumes sf: "proper_flag sf" and s: "interlocks s"
    and base: "\<And>b s. interlocks s \<Longrightarrow> interlocks (ui_changeBase ui b s)"
  shows "interlocks (systemFlagAction ui sf action (touch action sf s))"
proof (cases "sf \<in> set interlocked_flags")
  case True
  then show ?thesis using s by (rule interlocks_member)
next
  case False
  with proper_flag_cases [OF sf] have ix: "flag_ix sf \<notin> flag_ix ` set interlocked_flags" by simp
  have "interlocks (touch action sf s) = interlocks s"
  proof (rule interlocks_cong_all)
    fix n assume n: "n \<in> flag_ix ` set interlocked_flags"
    with ix have "n \<noteq> flag_ix sf" by blast
    moreover have "n < 128" using n unfolding interlocked_indices by auto
    ultimately show "sysbit n (touch action sf s) = sysbit n s" by (simp add: sysbit_touch_other)
  qed
  with s have t: "interlocks (touch action sf s)" by simp
  have upd: "interlocks (fnRefreshState s) = interlocks s" "interlocks (s\<lparr>screenUpdatingMode := u\<rparr>) = interlocks s"
    for u :: u8 and s :: "'a calc_scheme" by (rule interlocks_cong_all, simp)+
  have "interlocks (refresh_action ui sf action (touch action sf s))"
    by (rule refresh_action_inv [of interlocks]) (simp_all add: upd t base)
  moreover have "interlocks (interaction_flags sf (refresh_action ui sf action (touch action sf s))) =
      interlocks (refresh_action ui sf action (touch action sf s))"
    by (rule interlocks_cong_all) (rule interaction_flags_other [OF False])
  ultimately show ?thesis by (simp add: systemFlagAction_def)
qed

end
