(* ===== verification/FlagProps.thy ===== *)
theory FlagProps
  imports FlagLaws
begin

text \<open>
  Properties of the flags: the request reaches its flag and the interlocks hold after every command,
  no change goes unnoticed, the user flags are independent cells, protected flags are refused, and the
  settings that exclude each other.  \<open>flag_command\<close> collects the commands; what the interface does
  (the \<open>flag_ui\<close>) is assumed to respect the property at hand.
\<close>

section \<open>Commands\<close>

definition flag_arg_ok :: "nat \<Rightarrow> bool" where
  "flag_arg_ok f \<longleftrightarrow> (isSystemFlag f \<longrightarrow> proper_flag f)"

inductive flag_command :: "('a calc_scheme) flag_ui \<Rightarrow> 'a calc_scheme \<Rightarrow> 'a calc_scheme \<Rightarrow> bool" for ui where
  cmd_set_system: "proper_flag f \<Longrightarrow> flag_command ui s (setSystemFlag ui f s)"
| cmd_clear_system: "proper_flag f \<Longrightarrow> flag_command ui s (clearSystemFlag ui f s)"
| cmd_flip_system: "proper_flag f \<Longrightarrow> flag_command ui s (flipSystemFlag ui f s)"
| cmd_force: "proper_flag f \<Longrightarrow> flag_command ui s (forceSystemFlag ui f on s)"
| cmd_set: "flag_arg_ok f \<Longrightarrow> flag_command ui s (fnSetFlag ui f s)"
| cmd_clear: "flag_arg_ok f \<Longrightarrow> flag_command ui s (fnClearFlag ui f s)"
| cmd_flip: "flag_arg_ok f \<Longrightarrow> flag_command ui s (fnFlipFlag ui f s)"
| cmd_is_clear: "flag_command ui s (fnIsFlagClear f s)"
| cmd_is_clear_clear: "flag_arg_ok f \<Longrightarrow> flag_command ui s (fnIsFlagClearClear ui f s)"
| cmd_is_clear_set: "flag_arg_ok f \<Longrightarrow> flag_command ui s (fnIsFlagClearSet ui f s)"
| cmd_is_clear_flip: "flag_arg_ok f \<Longrightarrow> flag_command ui s (fnIsFlagClearFlip ui f s)"
| cmd_is_set: "flag_command ui s (fnIsFlagSet f s)"
| cmd_is_set_clear: "flag_arg_ok f \<Longrightarrow> flag_command ui s (fnIsFlagSetClear ui f s)"
| cmd_is_set_set: "flag_arg_ok f \<Longrightarrow> flag_command ui s (fnIsFlagSetSet ui f s)"
| cmd_is_set_flip: "flag_arg_ok f \<Longrightarrow> flag_command ui s (fnIsFlagSetFlip ui f s)"
| cmd_clear_all: "flag_command ui s (fnClFAll ui c s)"
| cmd_setting: "flag_command ui s (SetSetting ui jm s)"

definition ui_respects :: "('a calc_scheme \<Rightarrow> bool) \<Rightarrow> ('a calc_scheme) flag_ui \<Rightarrow> bool" where
  "ui_respects P ui \<longleftrightarrow>
     (\<forall>s. P s \<longrightarrow> (\<forall>b. P (ui_changeBase ui b s)) \<and> P (ui_leaveTamMode ui s) \<and> P (ui_setAlpha ui s) \<and>
        P (ui_clearAlpha ui s) \<and> P (ui_confirm ui s) \<and> P (ui_showAlphaMode ui s))"

lemma ui_respectsD:
  assumes "ui_respects P ui" "P s"
  shows "P (ui_changeBase ui b s)" "P (ui_leaveTamMode ui s)" "P (ui_setAlpha ui s)"
    "P (ui_clearAlpha ui s)" "P (ui_confirm ui s)" "P (ui_showAlphaMode ui s)"
  using assms by (auto simp: ui_respects_def)

text \<open>
  A property that every change of a system flag keeps and that does not look at the rest of the
  state is kept by every command.
\<close>

locale flag_invariant =
  fixes P :: "'a calc_scheme \<Rightarrow> bool"
  assumes P_action: "ui_respects P ui \<Longrightarrow> proper_flag sf \<Longrightarrow> P s \<Longrightarrow> P (systemFlagAction ui sf action (touch action sf s))"
    and P_frame: "systemFlags0 t = systemFlags0 s \<Longrightarrow> systemFlags1 t = systemFlags1 s \<Longrightarrow>
       systemFlags0Changed t = systemFlags0Changed s \<Longrightarrow> systemFlags1Changed t = systemFlags1Changed s \<Longrightarrow>
       P s \<Longrightarrow> P t"
begin

lemma P_system:
  assumes "ui_respects P ui" "proper_flag f" "P s"
  shows "P (setSystemFlag ui f s)" "P (clearSystemFlag ui f s)" "P (flipSystemFlag ui f s)"
  using P_action [OF assms, of FLAG_SET] P_action [OF assms, of FLAG_CLEAR] P_action [OF assms, of FLAG_FLIP]
  by (simp_all add: touch_def setSystemFlag_def clearSystemFlag_def flipSystemFlag_def)

lemma P_updates:
  "P s \<Longrightarrow> P (fnRefreshState s)" "P s \<Longrightarrow> P (write_protected_error s)" "P s \<Longrightarrow> P (SET_TI_TRUE_FALSE c s)"
  "P s \<Longrightarrow> P (update_user_flag o16 o32 f s)"
  by (erule P_frame [rotated 4]; simp add: fnRefreshState_def write_protected_error_def
      displayCalcErrorMessage_def SET_TI_TRUE_FALSE_def update_user_flag_def Let_def split: option.split)+

lemma P_user:
  assumes P_ui: "ui_respects P ui" and arg: "flag_arg_ok f" and s: "P s"
  shows "P (fnSetFlag ui f s)" "P (fnClearFlag ui f s)" "P (fnFlipFlag ui f s)"
proof -
  note ui = ui_respectsD [OF P_ui]
  have sys: "isSystemFlag f \<Longrightarrow> proper_flag f" using arg by (simp add: flag_arg_ok_def)
  show "P (fnSetFlag ui f s)" "P (fnClearFlag ui f s)" "P (fnFlipFlag ui f s)"
    using s sys
    by (auto simp: fnSetFlag_def fnClearFlag_def fnFlipFlag_def Let_def intro: P_updates P_system [OF P_ui] ui)
qed

lemma P_setting:
  assumes P_ui: "ui_respects P ui" and s: "P s"
  shows "P (SetSetting ui jm s)"
proof -
  note ui = ui_respectsD [OF P_ui]
  have frame: "P s \<Longrightarrow> P (s\<lparr>alphaCase := a\<rparr>)" "P s \<Longrightarrow> P (s\<lparr>scrLock := a, nextChar := b\<rparr>)" for a b s
    by (erule P_frame [rotated 4]; simp)+
  have proper: "proper_flag f" if "f \<in> set flipFlags \<or> f \<in> {FLAG_NUMLOCK, FLAG_DENANY, FLAG_DENFIX, FLAG_HOME_TRIPLE,
       FLAG_MYM_TRIPLE, FLAG_BASE_MYM, FLAG_BASE_HOME, FLAG_FGLNFUL, FLAG_FGLNLIM, FLAG_DREAL} \<or>
       f \<in> (snd \<circ> snd) ` set clearSetPairs" for f
    using that by (elim disjE) (auto simp: flipFlags_def clearSetPairs_def proper_flag_def system_flags_def)
  have arg: "proper_flag f \<Longrightarrow> flag_arg_ok f" for f by (simp add: flag_arg_ok_def)
  have pairs: "set_by_pair ui jm ps s = Some t \<Longrightarrow> \<forall>f \<in> (snd \<circ> snd) ` set ps. flag_arg_ok f \<Longrightarrow> P t" for ps t
    using s by (induction ps) (auto split: if_splits simp: P_updates P_user [OF P_ui])
  have excl: "proper_flag f \<Longrightarrow> proper_flag g \<Longrightarrow> P (flip_exclusive ui f g s)" for f g
    using s by (simp add: flip_exclusive_def Let_def do_if_def P_user [OF P_ui] P_system [OF P_ui] arg)
  show ?thesis
  proof (cases "set_by_pair ui jm clearSetPairs s")
    case (Some t)
    with pairs [OF Some] proper arg show ?thesis by (simp add: SetSetting_def)
  next
    case None
    then show ?thesis
      using s unfolding SetSetting_def Let_def
      by (auto intro!: P_updates P_user [OF P_ui] P_system [OF P_ui] ui arg excl frame simp: proper)
  qed
qed

lemma P_command:
  assumes "flag_command ui s t" and P_ui: "ui_respects P ui" and "P s"
  shows "P t"
  using assms(1,3)
proof (induction rule: flag_command.induct)
  case (cmd_clear_all s c)
  moreover have "P (s\<lparr>globalFlags := g, currentLocalFlags := l, temporaryInformation := i, screenUpdatingMode := u\<rparr>)" for g l i u
    using cmd_clear_all by (rule P_frame [rotated 4]) simp_all
  ultimately show ?case using ui_respectsD(5) [OF P_ui] by (simp add: fnClFAll_def)
next
  case (cmd_setting s jm)
  with P_ui show ?case by (rule P_setting)
qed (simp_all add: P_system [OF P_ui] P_user [OF P_ui] P_updates forceSystemFlag_def fnIsFlagClear_def fnIsFlagClearClear_def
    fnIsFlagClearSet_def fnIsFlagClearFlip_def fnIsFlagSet_def fnIsFlagSetClear_def fnIsFlagSetSet_def fnIsFlagSetFlip_def)

lemma P_commands:
  assumes "(flag_command ui)\<^sup>*\<^sup>* s t" and "ui_respects P ui" and "P s"
  shows "P t"
  using assms(1,3) by (induction rule: rtranclp_induct) (auto intro: P_command assms(2))

end

section \<open>The invariants\<close>

lemma interlocks_frame:
  "systemFlags0 t = systemFlags0 s \<Longrightarrow> systemFlags1 t = systemFlags1 s \<Longrightarrow> interlocks s \<Longrightarrow> interlocks t"
  using interlocks_cong_all [of t s] by (simp add: sysbit_def)

interpretation interlock: flag_invariant interlocks
proof
  fix ui :: "('a calc_scheme) flag_ui" and sf action and s :: "'a calc_scheme"
  assume "ui_respects interlocks ui" "proper_flag sf" "interlocks s"
  then show "interlocks (systemFlagAction ui sf action (touch action sf s))"
    by (intro interlocks_touch) (auto dest: ui_respectsD(1))
qed (rule interlocks_frame)

lemma changes_marked_updates:
  "changes_marked base s \<Longrightarrow> changes_marked base (fnRefreshState s)"
  "changes_marked base s \<Longrightarrow> changes_marked base (s\<lparr>screenUpdatingMode := u\<rparr>)"
  by (simp_all add: changes_marked_def)

interpretation marked: flag_invariant "changes_marked base" for base
proof
  fix ui :: "('a calc_scheme) flag_ui" and sf action and s :: "'a calc_scheme"
  assume ui: "ui_respects (changes_marked base) ui" and s: "changes_marked base s"
  have "changes_marked base (touch action sf s)"
    using s by (simp add: touch_def changes_marked_prims split: flagAction.split)
  then have "changes_marked base (refresh_action ui sf action (touch action sf s))"
    by (rule refresh_action_inv [rotated 3]) (auto intro: changes_marked_updates ui_respectsD(1) [OF ui])
  then show "changes_marked base (systemFlagAction ui sf action (touch action sf s))"
    unfolding systemFlagAction_def
    by (rule interaction_flags_inv [rotated 3]) (rule changes_marked_prims; assumption)+
next
  fix t s :: "'a calc_scheme"
  assume "systemFlags0 t = systemFlags0 s" "systemFlags1 t = systemFlags1 s"
    "systemFlags0Changed t = systemFlags0Changed s" "systemFlags1Changed t = systemFlags1Changed s"
    and s: "changes_marked base s"
  then have "sysbit n t = sysbit n s" "n < 128 \<Longrightarrow> changedbit n t = changedbit n s" for n
    by (simp_all add: sysbit_def changedbit_def)
  with s show "changes_marked base t" by (simp add: changes_marked_def)
qed

text \<open>C9. The interlocks between system flags hold after every sequence of flag commands: the plot
  markers exclude each other and one of them or the line stays on, a curve implies the line, vectors
  and overlays exclude each other, shading implies the integral, complex and imaginary plots exclude
  each other, fractions exclude irrational fractions, the angle annunciator implies the angular mode,
  and date, time and week of year are never all three in the status bar.\<close>

theorem flag_commands_interlocks:
  assumes "(flag_command ui)\<^sup>*\<^sup>* s t" and "ui_respects interlocks ui" and "interlocks s"
  shows "interlocks t"
  using assms by (rule interlock.P_commands)

definition silent_ui :: "('a calc_scheme) flag_ui" where
  "silent_ui = \<lparr>ui_changeBase = (\<lambda>_ s. s), ui_leaveTamMode = (\<lambda>s. s), ui_setAlpha = (\<lambda>s. s),
     ui_clearAlpha = (\<lambda>s. s), ui_confirm = (\<lambda>s. s), ui_showAlphaMode = (\<lambda>s. s)\<rparr>"

lemma silent_ui_respects: "ui_respects P silent_ui"
  by (simp add: ui_respects_def silent_ui_def)

definition plain_calc :: calc where
  "plain_calc = \<lparr>systemFlags0 = 0, systemFlags1 = push_bit 17 1, systemFlags0Changed = 0, systemFlags1Changed = 0,
     systemFlags2Changed = 0, globalFlags = replicate 8 0, currentLocalFlags = Some 0, temporaryInformation = 0,
     programRunStop = 0, lastErrorCode = 0, errorMessageRegisterLine = 102, screenUpdatingMode = 0,
     doRefreshSoftMenu = False, lastIntegerBase = 0, alphaCase = 0, scrLock = 0, nextChar = 0,
     shortIntegerMode = 2, shortIntegerWordSize = 64, shortIntegerMask = 0xFFFFFFFFFFFFFFFF,
     shortIntegerSignBit = 0x8000000000000000\<rparr>"

lemma bit_131072: "bit (131072 :: int) m = (m = 17)"
  using bit_exp_iff [where ?'a = int, of 17 m] by auto

lemma sysbit_plain: "n < 128 \<Longrightarrow> sysbit n plain_calc = (n = 81)"
  by (auto simp: sysbit_def plain_calc_def bit_131072)

lemma interlocks_plain: "interlocks plain_calc"
  by (simp add: interlocks_def groups_defs flag_ix_mod sysbit_plain)

lemma flag_commands_interlocks_witness:
  "interlocks (fnSetFlag silent_ui FLAG_PCROS (fnClearFlag silent_ui FLAG_PLINE plain_calc))"
proof (rule flag_commands_interlocks [OF _ silent_ui_respects interlocks_plain])
  have "flag_arg_ok FLAG_PCROS" "flag_arg_ok FLAG_PLINE" by (simp_all add: flag_arg_ok_def proper_flag_def system_flags_def)
  then show "(flag_command silent_ui)\<^sup>*\<^sup>* plain_calc (fnSetFlag silent_ui FLAG_PCROS (fnClearFlag silent_ui FLAG_PLINE plain_calc))"
    by (meson cmd_clear cmd_set rtranclp.rtrancl_into_rtrancl rtranclp.rtrancl_refl)
qed

text \<open>C10. No change of a system flag goes unnoticed: after any sequence of flag commands, when the
  question whether a flag changed is answered no, the flag still has the value it had when it was
  last asked about (\<open>base\<close>), and the question resets only the mark of that flag.\<close>

theorem didSystemFlagChange_misses_nothing:
  assumes "(flag_command ui)\<^sup>*\<^sup>* s t" and "ui_respects (changes_marked base) ui" and "changes_marked base s"
    and "flag_ix f < 128"
  shows "(\<not> fst (didSystemFlagChange f t) \<longrightarrow> getSystemFlag f t = base (flag_ix f)) \<and>
    changes_marked (base(flag_ix f := getSystemFlag f t)) (snd (didSystemFlagChange f t))"
proof -
  have t: "changes_marked base t" using assms(1-3) by (rule marked.P_commands)
  show ?thesis
    using t assms(4)
    by (auto simp: changes_marked_def getSystemFlag_sysbit didSystemFlagChange_changedbit changedbit_didSystemFlagChange)
qed

lemma didSystemFlagChange_misses_nothing_witness:
  "changes_marked (\<lambda>n. n = 81) (fnSetFlag silent_ui FLAG_TRACE plain_calc) \<and>
   fst (didSystemFlagChange FLAG_TRACE (fnSetFlag silent_ui FLAG_TRACE plain_calc))"
proof -
  have base: "changes_marked (\<lambda>n. n = 81) plain_calc" by (simp add: changes_marked_def sysbit_plain)
  have arg: "flag_arg_ok FLAG_TRACE" by (simp add: flag_arg_ok_def proper_flag_def system_flags_def)
  then have step: "(flag_command silent_ui)\<^sup>*\<^sup>* plain_calc (fnSetFlag silent_ui FLAG_TRACE plain_calc)"
    by (intro r_into_rtranclp cmd_set)
  have ix: "flag_ix FLAG_TRACE < 128" by (simp add: flag_ix_mod)
  have set: "getSystemFlag FLAG_TRACE (fnSetFlag silent_ui FLAG_TRACE plain_calc)"
    by (simp add: fnSetFlag_def isSystemFlag_def isSystemFlagWriteProtected_def setSystemFlag_def systemFlagAction_def
        interaction_flags_def refresh_action_def refreshStateFlags_def clearStatusBarFlags_def getSystemFlag_sysbit
        sysbit_set flag_ix_mod)
  show ?thesis
    using didSystemFlagChange_misses_nothing [OF step silent_ui_respects base ix] set
      marked.P_commands [OF step silent_ui_respects base] by (auto simp: flag_ix_mod)
qed

section \<open>A request reaches its flag\<close>

lemma proper_flag_ix: "proper_flag sf \<Longrightarrow> flag_ix sf < 128"
proof -
  have "list_all (\<lambda>sf. sf mod 16384 < 128) system_flags" by (simp add: system_flags_def)
  then show "proper_flag sf \<Longrightarrow> flag_ix sf < 128" by (simp add: proper_flag_def list_all_iff flag_ix_mod)
qed

lemma interaction_target: "sysbit (flag_ix sf) (interaction_flags sf s) = sysbit (flag_ix sf) s"
proof (cases "sf \<in> set interlocked_flags")
  case True
  then show ?thesis
    unfolding interlocked_flags_def set_simps
    by (elim insertE emptyE; simp add: frame_simps flag_ix_mod)
qed (rule interaction_flags_other)

lemma action_target:
  assumes "proper_flag sf" and "\<And>b s. sysbit (flag_ix sf) (ui_changeBase ui b s) = sysbit (flag_ix sf) s"
  shows "sysbit (flag_ix sf) (systemFlagAction ui sf action s) = sysbit (flag_ix sf) s"
  unfolding systemFlagAction_def interaction_target refresh_action_def
  by (cases "sf = FLAG_BCD") (use assms(2) in simp_all)

text \<open>C11. The interlocks never undo the request itself: setting a system flag leaves it set,
  clearing it leaves it clear, flipping it inverts it, whatever else the interlocks change.\<close>

theorem system_flag_request:
  assumes "proper_flag sf" and "\<And>b s. sysbit (flag_ix sf) (ui_changeBase ui b s) = sysbit (flag_ix sf) s"
  shows "getSystemFlag sf (setSystemFlag ui sf s) \<and> \<not> getSystemFlag sf (clearSystemFlag ui sf s) \<and>
    getSystemFlag sf (flipSystemFlag ui sf s) = (\<not> getSystemFlag sf s) \<and>
    getSystemFlag sf (forceSystemFlag ui sf on s) = on"
  using proper_flag_ix [OF assms(1)]
  by (simp add: getSystemFlag_sysbit setSystemFlag_def clearSystemFlag_def flipSystemFlag_def forceSystemFlag_def
      action_target [OF assms] sysbit_set sysbit_clear sysbit_flip)

lemma system_flag_request_witness:
  "getSystemFlag FLAG_PBOX (setSystemFlag silent_ui FLAG_PBOX plain_calc)"
proof -
  have "proper_flag FLAG_PBOX" by (simp add: proper_flag_def system_flags_def)
  then show ?thesis
    using system_flag_request [of FLAG_PBOX "silent_ui :: calc flag_ui" plain_calc] by (simp add: silent_ui_def)
qed

section \<open>User flags\<close>

definition user_flag :: "nat \<Rightarrow> 'a calc_scheme \<Rightarrow> bool" where
  "user_flag f s \<longleftrightarrow> f \<le> FLAG_K \<or> FLAG_M \<le> f \<and> f \<le> FLAG_W \<or> f \<le> LAST_LOCAL_FLAG \<and> currentLocalFlags s \<noteq> None"

text \<open>The word and the bit a global user flag lives in.\<close>

definition global_ix :: "nat \<Rightarrow> nat" where
  "global_ix f = (if f \<le> FLAG_K then f else f - 99)"

lemma not_system: "f < 0x8000 \<Longrightarrow> \<not> isSystemFlag f"
proof -
  assume f: "f < 0x8000"
  have "\<not> bit f 15" using f by (simp add: bit_iff_odd)
  then show ?thesis using and_exp_eq_0_iff_not_bit [of f 15] by (simp add: isSystemFlag_def)
qed

lemma user_flag_small: "user_flag f s \<Longrightarrow> f < 0x8000"
  by (auto simp: user_flag_def)

lemma getFlag_global:
  "f \<le> FLAG_K \<or> FLAG_M \<le> f \<and> f \<le> FLAG_W \<Longrightarrow>
   getFlag f s = bit (globalFlags s ! (global_ix f div 16)) (global_ix f mod 16)"
  using not_system [of f] by (auto simp: getFlag_def global_ix_def Let_def and_exp_eq_0_iff_not_bit)

lemma getFlag_local:
  "FLAG_K < f \<Longrightarrow> f \<le> LAST_LOCAL_FLAG \<Longrightarrow> currentLocalFlags s = Some w \<Longrightarrow> getFlag f s = bit w (f - 112)"
  using not_system [of f] by (auto simp: getFlag_def Let_def and_exp_eq_0_iff_not_bit)

lemma update_user_flag_get:
  assumes len: "length (globalFlags s) = 8" and f: "user_flag f s" and g: "user_flag g s"
    and op16: "\<And>w n m. n < 16 \<Longrightarrow> m < 16 \<Longrightarrow> bit (o16 w (push_bit n 1)) m = (if m = n then b (bit w n) else bit w m)"
    and op32: "\<And>w n m. n < 32 \<Longrightarrow> m < 32 \<Longrightarrow> bit (o32 w (push_bit n 1)) m = (if m = n then b (bit w n) else bit w m)"
  shows "getFlag g (update_user_flag o16 o32 f s) = (if g = f then b (getFlag f s) else getFlag g s)"
proof -
  consider (glob) "f \<le> FLAG_K \<or> FLAG_M \<le> f \<and> f \<le> FLAG_W" | (loc) w where "FLAG_K < f" "f \<le> LAST_LOCAL_FLAG" "currentLocalFlags s = Some w"
    using f by (fastforce simp: user_flag_def)
  then show ?thesis
  proof cases
    case glob
    let ?i = "global_ix f"
    have i: "?i < 128" using glob by (auto simp: global_ix_def)
    have upd: "update_user_flag o16 o32 f s = s\<lparr>globalFlags := (globalFlags s)[?i div 16 := o16 (globalFlags s ! (?i div 16)) (push_bit (?i mod 16) 1)]\<rparr>"
      using glob by (auto simp: update_user_flag_def global_ix_def Let_def)
    consider (gglob) "g \<le> FLAG_K \<or> FLAG_M \<le> g \<and> g \<le> FLAG_W" | (gloc) w where "FLAG_K < g" "g \<le> LAST_LOCAL_FLAG" "currentLocalFlags s = Some w"
      using g by (fastforce simp: user_flag_def)
    then show ?thesis
    proof cases
      case gglob
      have j: "global_ix g < 128" using gglob by (auto simp: global_ix_def)
      have inj: "global_ix g = ?i \<longleftrightarrow> g = f" using gglob glob by (auto simp: global_ix_def)
      have split: "global_ix g = ?i \<longleftrightarrow> global_ix g div 16 = ?i div 16 \<and> global_ix g mod 16 = ?i mod 16"
        by (metis div_mult_mod_eq)
      have len': "?i div 16 < length (globalFlags s)" using i len by simp
      have op: "bit (o16 (globalFlags s ! (?i div 16)) (push_bit (?i mod 16) 1)) (global_ix g mod 16) =
          (if global_ix g mod 16 = ?i mod 16 then b (bit (globalFlags s ! (?i div 16)) (?i mod 16))
           else bit (globalFlags s ! (?i div 16)) (global_ix g mod 16))"
        by (rule op16) simp_all
      show ?thesis
      proof (cases "global_ix g div 16 = ?i div 16")
        case True
        then show ?thesis
          using op inj split len' unfolding upd getFlag_global [OF gglob] getFlag_global [OF glob] by simp
      next
        case False
        then show ?thesis
          using inj len' unfolding upd getFlag_global [OF gglob] getFlag_global [OF glob] by auto
      qed
    next
      case gloc
      with glob show ?thesis unfolding upd by (auto simp: getFlag_local [OF gloc(1,2)])
    qed
  next
    case loc
    have upd: "update_user_flag o16 o32 f s = s\<lparr>currentLocalFlags := Some (o32 w (push_bit (f - 112) 1))\<rparr>"
      using loc by (simp add: update_user_flag_def Let_def)
    consider (gglob) "g \<le> FLAG_K \<or> FLAG_M \<le> g \<and> g \<le> FLAG_W" | (gloc) "FLAG_K < g" "g \<le> LAST_LOCAL_FLAG"
      using g by (fastforce simp: user_flag_def)
    then show ?thesis
    proof cases
      case gglob
      with loc show ?thesis unfolding upd getFlag_global [OF gglob] by auto
    next
      case gloc
      have "bit (o32 w (push_bit (f - 112) 1)) (g - 112) = (if g - 112 = f - 112 then b (bit w (f - 112)) else bit w (g - 112))"
        using gloc loc by (intro op32) auto
      moreover have "g - 112 = f - 112 \<longleftrightarrow> g = f" using gloc loc by auto
      ultimately show ?thesis
        unfolding upd using loc(3) by (simp add: getFlag_local [OF gloc] getFlag_local [OF loc(1,2)])
    qed
  qed
qed

text \<open>The user flags are independent cells: setting, clearing or flipping one gives it the
  requested value and leaves every other user flag as it was, across the global flags 00 to 111, the
  extra ones 211 to 224 kept in the eighth word, and the 32 local flags when there are any.\<close>

theorem user_flags_independent:
  assumes "length (globalFlags s) = 8" and "user_flag f s" and "user_flag g s"
  shows "getFlag g (fnSetFlag ui f s) = (g = f \<or> getFlag g s) \<and>
    getFlag g (fnClearFlag ui f s) = (g \<noteq> f \<and> getFlag g s) \<and>
    getFlag g (fnFlipFlag ui f s) = (getFlag g s \<noteq> (g = f))"
proof -
  have ns: "\<not> isSystemFlag f" using not_system user_flag_small [OF assms(2)] by blast
  have "getFlag g (update_user_flag (OR) (OR) f s) = (if g = f then True else getFlag g s)"
    by (rule update_user_flag_get [OF assms]) (auto simp: bit_simps)
  moreover have "getFlag g (update_user_flag (\<lambda>w b. w AND NOT b) (\<lambda>w b. w AND NOT b) f s) = (if g = f then False else getFlag g s)"
    by (rule update_user_flag_get [OF assms]) (auto simp: bit_simps)
  moreover have "getFlag g (update_user_flag (XOR) (XOR) f s) = (if g = f then \<not> getFlag f s else getFlag g s)"
    by (rule update_user_flag_get [OF assms]) (auto simp: bit_simps)
  ultimately show ?thesis
    using ns by (auto simp: fnSetFlag_def fnClearFlag_def fnFlipFlag_def)
qed

lemma user_flags_independent_witness:
  "getFlag 211 (fnSetFlag silent_ui 112 plain_calc) = getFlag 211 plain_calc \<and>
   getFlag 112 (fnSetFlag silent_ui 112 plain_calc)"
  using user_flags_independent [of plain_calc 112 211 silent_ui] user_flags_independent [of plain_calc 112 112 silent_ui]
  by (simp add: plain_calc_def user_flag_def)

section \<open>Protected flags and settings\<close>

lemma getSystemFlag_write_protected [simp]: "getSystemFlag g (write_protected_error s) = getSystemFlag g s"
  by (simp add: getSystemFlag_sysbit)

text \<open>C12. A system flag with the protection bit is never written by the user: set, clear and flip
  report error 32, stop a waiting program and leave every system flag and every user flag as it was.\<close>

theorem protected_flag_refused:
  assumes "isSystemFlag f" and "isSystemFlagWriteProtected f"
    and "t \<in> {fnSetFlag ui f s, fnClearFlag ui f s, fnFlipFlag ui f s}"
  shows "lastErrorCode t = ERROR_WRITE_PROTECTED_SYSTEM_FLAG \<and> temporaryInformation t = TI_NO_INFO \<and>
    programRunStop t \<noteq> PGM_WAITING \<and> (\<forall>g. getSystemFlag g t = getSystemFlag g s) \<and> (\<forall>g. getFlag g t = getFlag g s)"
proof -
  have t: "t = write_protected_error s"
    using assms by (auto simp: fnSetFlag_def fnClearFlag_def fnFlipFlag_def)
  have "getFlag g (write_protected_error s) = getFlag g s" for g
    by (simp add: getFlag_def) (simp add: write_protected_error_def displayCalcErrorMessage_def)
  then show ?thesis
    unfolding t by (simp add: write_protected_error_def [of s] displayCalcErrorMessage_def getSystemFlag_sysbit sysbit_def)
qed

lemma protected_flag_refused_witness:
  "lastErrorCode (fnSetFlag silent_ui FLAG_YMD plain_calc) = 32"
proof -
  have "isSystemFlag FLAG_YMD" "isSystemFlagWriteProtected FLAG_YMD"
    by (simp_all add: isSystemFlag_def isSystemFlagWriteProtected_def)
  from protected_flag_refused [OF this, of _ silent_ui plain_calc] show ?thesis by blast
qed

text \<open>
  The list \<^verbatim>\<open>flipFlags\<close> of \<^verbatim>\<open>SetSetting\<close> holds the protected flag \<^verbatim>\<open>FLAG_PRTACT\<close>, so the menu
  item PRNTR never switches the printer: it reports the protection error.
\<close>

lemma SetSetting_PRTACT_refused:
  "lastErrorCode (SetSetting ui FLAG_PRTACT s) = ERROR_WRITE_PROTECTED_SYSTEM_FLAG \<and>
   getSystemFlag FLAG_PRTACT (SetSetting ui FLAG_PRTACT s) = getSystemFlag FLAG_PRTACT s"
proof -
  have "fnFlipFlag ui FLAG_PRTACT s = write_protected_error s"
    by (simp add: fnFlipFlag_def isSystemFlag_def isSystemFlagWriteProtected_def)
  then have "SetSetting ui FLAG_PRTACT s = fnRefreshState (write_protected_error s)"
    by (simp add: SetSetting_def clearSetPairs_def flipFlags_def)
  moreover have "lastErrorCode (fnRefreshState (write_protected_error s)) = ERROR_WRITE_PROTECTED_SYSTEM_FLAG"
    by (simp add: fnRefreshState_def write_protected_error_def displayCalcErrorMessage_def)
  ultimately show ?thesis by (simp add: getSystemFlag_sysbit)
qed

section \<open>Settings that exclude each other\<close>

definition exclusive_flags :: "nat list" where
  "exclusive_flags =
     [FLAG_DENANY, FLAG_DENFIX, FLAG_HOME_TRIPLE, FLAG_MYM_TRIPLE, FLAG_BASE_MYM, FLAG_BASE_HOME, FLAG_FGLNFUL, FLAG_FGLNLIM]"

definition exclusive_settings :: "'a calc_scheme \<Rightarrow> bool" where
  "exclusive_settings s \<longleftrightarrow>
     \<not> (getSystemFlag FLAG_DENANY s \<and> getSystemFlag FLAG_DENFIX s) \<and>
     \<not> (getSystemFlag FLAG_HOME_TRIPLE s \<and> getSystemFlag FLAG_MYM_TRIPLE s) \<and>
     \<not> (getSystemFlag FLAG_BASE_MYM s \<and> getSystemFlag FLAG_BASE_HOME s) \<and>
     \<not> (getSystemFlag FLAG_FGLNFUL s \<and> getSystemFlag FLAG_FGLNLIM s)"

lemma exclusive_settings_cong:
  "\<forall>n \<in> flag_ix ` set exclusive_flags. sysbit n t = sysbit n s \<Longrightarrow> exclusive_settings t = exclusive_settings s"
  by (simp add: exclusive_settings_def exclusive_flags_def getSystemFlag_sysbit)

text \<open>Outside the interlocked flags an action changes nothing but its flag.\<close>

lemma interaction_frame:
  assumes "n < 128" "n \<notin> flag_ix ` set interlocked_flags"
  shows "sysbit n (interaction_flags sf s) = sysbit n s"
proof (cases "sf \<in> set interlocked_flags")
  case True
  with assms show ?thesis
    unfolding interlocked_flags_def set_simps
    by (elim insertE emptyE; simp add: frame_simps)
qed (rule interaction_flags_other)

lemma action_frame:
  assumes "n < 128" "n \<notin> flag_ix ` set interlocked_flags"
    and "\<And>b s. sysbit n (ui_changeBase ui b s) = sysbit n s"
  shows "sysbit n (systemFlagAction ui sf action s) = sysbit n s"
  using assms(3) by (simp add: systemFlagAction_def interaction_frame [OF assms(1,2)] refresh_action_def)

definition ui_keeps_bit :: "nat \<Rightarrow> ('a calc_scheme) flag_ui \<Rightarrow> bool" where
  "ui_keeps_bit n ui \<longleftrightarrow>
     (\<forall>s. (\<forall>b. sysbit n (ui_changeBase ui b s) = sysbit n s) \<and> sysbit n (ui_leaveTamMode ui s) = sysbit n s \<and>
        sysbit n (ui_setAlpha ui s) = sysbit n s \<and> sysbit n (ui_clearAlpha ui s) = sysbit n s \<and>
        sysbit n (ui_confirm ui s) = sysbit n s \<and> sysbit n (ui_showAlphaMode ui s) = sysbit n s)"

text \<open>What the commands do to a flag outside the interlocks.\<close>

lemma system_ops_bit:
  assumes n: "n < 128" "n \<notin> flag_ix ` set interlocked_flags" and ui: "ui_keeps_bit n ui"
  shows "sysbit n (setSystemFlag ui sf s) = (n = flag_ix sf \<or> sysbit n s)"
    and "sysbit n (clearSystemFlag ui sf s) = (n \<noteq> flag_ix sf \<and> sysbit n s)"
    and "sysbit n (flipSystemFlag ui sf s) = (sysbit n s \<noteq> (n = flag_ix sf))"
proof -
  have base: "\<And>b s. sysbit n (ui_changeBase ui b s) = sysbit n s" using ui by (simp add: ui_keeps_bit_def)
  show "sysbit n (setSystemFlag ui sf s) = (n = flag_ix sf \<or> sysbit n s)"
    "sysbit n (clearSystemFlag ui sf s) = (n \<noteq> flag_ix sf \<and> sysbit n s)"
    "sysbit n (flipSystemFlag ui sf s) = (sysbit n s \<noteq> (n = flag_ix sf))"
    unfolding setSystemFlag_def clearSystemFlag_def flipSystemFlag_def action_frame [OF n base]
    using n(1) by (simp_all add: sysbit_set sysbit_clear sysbit_flip)
qed

lemma fnSetClear_bit_other:
  assumes n: "n < 128" "n \<notin> flag_ix ` set interlocked_flags" and ui: "ui_keeps_bit n ui"
    and f: "isSystemFlag f" "n \<noteq> flag_ix f"
  shows "sysbit n (fnSetFlag ui f s) = sysbit n s" and "sysbit n (fnClearFlag ui f s) = sysbit n s"
    and "sysbit n (fnFlipFlag ui f s) = sysbit n s"
  using ui f(2) by (simp_all add: fnSetFlag_def fnClearFlag_def fnFlipFlag_def f(1) Let_def
      system_ops_bit [OF n ui] ui_keeps_bit_def)

lemma fnFlip_bit_system:
  assumes n: "n < 128" "n \<notin> flag_ix ` set interlocked_flags" and ui: "ui_keeps_bit n ui"
    and f: "isSystemFlag f" "\<not> isSystemFlagWriteProtected f" "f \<noteq> FLAG_ALPHA"
  shows "sysbit n (fnFlipFlag ui f s) = (sysbit n s \<noteq> (n = flag_ix f))"
  using f by (simp add: fnFlipFlag_def system_ops_bit [OF n ui])

lemma exclusive_indices: "flag_ix ` set exclusive_flags = {9, 10, 96, 95, 92, 94, 99, 98}"
  by (simp add: exclusive_flags_def flag_ix_mod)

lemma exclusive_not_interlocked:
  "n \<in> {9, 10, 96, 95, 92, 94, 99, 98} \<Longrightarrow> n < 128 \<and> n \<notin> flag_ix ` set interlocked_flags"
  unfolding interlocked_indices by auto

lemma set_by_pair_bit:
  assumes "n < 128" "n \<notin> flag_ix ` set interlocked_flags" "ui_keeps_bit n ui"
  shows "set_by_pair ui jm ps s = Some t \<Longrightarrow> \<forall>f \<in> (snd \<circ> snd) ` set ps. isSystemFlag f \<and> n \<noteq> flag_ix f \<Longrightarrow>
    sysbit n t = sysbit n s"
  by (induction ps) (auto split: if_splits simp: fnSetClear_bit_other [OF assms])

lemma settings_outside:
  assumes "n \<in> {9, 10, 96, 95, 92, 94, 99, 98}"
  shows "\<forall>f \<in> (snd \<circ> snd) ` set clearSetPairs. isSystemFlag f \<and> n \<noteq> flag_ix f"
    and "f \<in> set flipFlags \<union> {FLAG_NUMLOCK, FLAG_DREAL} \<Longrightarrow> isSystemFlag f \<and> n \<noteq> flag_ix f"
proof -
  show "\<forall>f \<in> (snd \<circ> snd) ` set clearSetPairs. isSystemFlag f \<and> n \<noteq> flag_ix f"
    using assms by (auto simp: clearSetPairs_def isSystemFlag_def flag_ix_mod)
  have "list_all (\<lambda>f. f AND 0x8000 \<noteq> 0 \<and> f mod 16384 \<notin> {9, 10, 96, 95, 92, 94, 99, 98}) (FLAG_NUMLOCK # FLAG_DREAL # flipFlags)"
    unfolding flipFlags_def by simp
  with assms show "f \<in> set flipFlags \<union> {FLAG_NUMLOCK, FLAG_DREAL} \<Longrightarrow> isSystemFlag f \<and> n \<noteq> flag_ix f"
    unfolding list_all_iff isSystemFlag_def flag_ix_mod by (metis Un_iff insert_iff empty_iff list.set_intros(1) list.set_intros(2))
qed

text \<open>A setting either leaves all these flags alone, or flips one of them and clears its rival.\<close>

definition rivals :: "(nat \<times> nat) list" where
  "rivals = [(FLAG_DENANY, FLAG_DENFIX), (FLAG_DENFIX, FLAG_DENANY), (FLAG_HOME_TRIPLE, FLAG_MYM_TRIPLE),
     (FLAG_MYM_TRIPLE, FLAG_HOME_TRIPLE), (FLAG_BASE_MYM, FLAG_BASE_HOME), (FLAG_BASE_HOME, FLAG_BASE_MYM),
     (FLAG_FGLNFUL, FLAG_FGLNLIM), (FLAG_FGLNLIM, FLAG_FGLNFUL)]"

lemma SetSetting_cases:
  assumes "\<not> (\<exists>g. (jm, g) \<in> set rivals)" and "n \<in> {9, 10, 96, 95, 92, 94, 99, 98}" and ui: "ui_keeps_bit n ui"
  shows "sysbit n (SetSetting ui jm s) = sysbit n s"
proof -
  have n: "n < 128" "n \<notin> flag_ix ` set interlocked_flags" using exclusive_not_interlocked [OF assms(2)] by auto
  note out = settings_outside [OF assms(2)]
  show ?thesis
  proof (cases "set_by_pair ui jm clearSetPairs s")
    case (Some t)
    with set_by_pair_bit [OF n ui Some out(1)] show ?thesis by (simp add: SetSetting_def)
  next
    case None
    have ne: "jm \<notin> {FLAG_DENANY, FLAG_DENFIX, FLAG_HOME_TRIPLE, FLAG_MYM_TRIPLE, FLAG_BASE_MYM, FLAG_BASE_HOME, FLAG_FGLNFUL, FLAG_FGLNLIM}"
      using assms(1) by (auto simp: rivals_def)
    have flips: "sysbit n (fnFlipFlag ui f s) = sysbit n s" if "f \<in> set flipFlags \<union> {FLAG_NUMLOCK, FLAG_DREAL}" for f
      using fnSetClear_bit_other(3) [OF n ui] out(2) [OF that] by blast
    have upd: "sysbit n (s\<lparr>alphaCase := a\<rparr>) = sysbit n s" "sysbit n (s\<lparr>scrLock := a, nextChar := b\<rparr>) = sysbit n s" for a b
      by (simp_all add: sysbit_def)
    have show_: "sysbit n (ui_showAlphaMode ui s') = sysbit n s'" for s' using ui by (simp add: ui_keeps_bit_def)
    show ?thesis using None ne flips [of jm] flips [of FLAG_NUMLOCK] flips [of FLAG_DREAL] upd show_ by (simp add: SetSetting_def Let_def)
  qed
qed

lemma exclusive_bits:
  "exclusive_settings s \<longleftrightarrow> \<not> (sysbit 9 s \<and> sysbit 10 s) \<and> \<not> (sysbit 96 s \<and> sysbit 95 s) \<and>
     \<not> (sysbit 92 s \<and> sysbit 94 s) \<and> \<not> (sysbit 99 s \<and> sysbit 98 s)"
  by (simp add: exclusive_settings_def getSystemFlag_sysbit flag_ix_mod)

lemma SetSetting_rivals:
  assumes "(jm, g) \<in> set rivals"
  shows "SetSetting ui jm s =
    fnRefreshState (let s1 = fnFlipFlag ui jm s in
      if jm = FLAG_DENANY \<or> jm = FLAG_DENFIX \<or> getSystemFlag jm s1 then clearSystemFlag ui g s1 else s1)"
  using assms unfolding rivals_def list.set insert_iff empty_iff
  by (elim disjE; simp add: SetSetting_def clearSetPairs_def flipFlags_def flip_exclusive_def do_if_def Let_def)

text \<open>The settings that exclude each other never become both set: any denominator and fixed
  denominator, the two triple-shift menus, the two base menus and the two softkey line styles, whatever
  setting command is given.\<close>

theorem SetSetting_exclusive:
  assumes ui: "\<And>n. ui_keeps_bit n ui" and s: "exclusive_settings s"
  shows "exclusive_settings (SetSetting ui jm s)"
proof (cases "\<exists>g. (jm, g) \<in> set rivals")
  case False
  from SetSetting_cases [OF this _ ui] s show ?thesis unfolding exclusive_bits by simp
next
  case True
  then obtain g where g: "(jm, g) \<in> set rivals" by blast
  have jm: "isSystemFlag jm" "\<not> isSystemFlagWriteProtected jm" "jm \<noteq> FLAG_ALPHA"
    using g by (auto simp: rivals_def isSystemFlag_def isSystemFlagWriteProtected_def)
  have ix: "flag_ix jm \<in> {9, 10, 96, 95, 92, 94, 99, 98}"
    using g by (auto simp: rivals_def flag_ix_mod)
  have flip: "sysbit n (fnFlipFlag ui jm s) = (sysbit n s \<noteq> (n = flag_ix jm))" if "n \<in> {9, 10, 96, 95, 92, 94, 99, 98}" for n
    using fnFlip_bit_system [OF _ _ ui jm] exclusive_not_interlocked [OF that] by blast
  have bits: "sysbit n (SetSetting ui jm s) = ((sysbit n s \<noteq> (n = flag_ix jm)) \<and>
      \<not> ((jm = FLAG_DENANY \<or> jm = FLAG_DENFIX \<or> \<not> sysbit (flag_ix jm) s) \<and> n = flag_ix g))"
    if "n \<in> {9, 10, 96, 95, 92, 94, 99, 98}" for n
    using system_ops_bit(2) [OF _ _ ui, of n] exclusive_not_interlocked [OF that] flip [OF that] flip [OF ix]
    unfolding SetSetting_rivals [OF g] by (auto simp: Let_def getSystemFlag_sysbit)
  show ?thesis
    using g s bits [of 9] bits [of 10] bits [of 96] bits [of 95] bits [of 92] bits [of 94] bits [of 99] bits [of 98]
    unfolding exclusive_bits rivals_def list.set insert_iff empty_iff prod.inject
    by (elim disjE conjE; simp add: flag_ix_mod)
qed

lemma SetSetting_exclusive_witness:
  "exclusive_settings (SetSetting silent_ui FLAG_BASE_MYM plain_calc)"
  by (rule SetSetting_exclusive) (simp_all add: ui_keeps_bit_def silent_ui_def exclusive_bits sysbit_plain)

end
