(* ===== verification/RegisterProps.thy ===== *)
theory RegisterProps
  imports RegisterLaws FlagProps
begin

text \<open>
  What the operations on the register file do to the register values: reallocation, copying and the
  writing of short integers.
\<close>

lemma andThen_simps [simp]: "andThen (Inl e) f = Inl e" "andThen (Inr x) f = f x"
  by (simp_all add: andThen_def)

section \<open>Reallocation\<close>

lemma freeRegisterData_slot:
  assumes "regs_inv lim R m" "slot r m = Some k"
  defines "h \<equiv> all_headers m ! k"
  shows "freeRegisterData r m =
    (case freeListFree (Some (pointerToRegisterData h)) (hsize m h) (pool (memory m)) of
       Inl e \<Rightarrow> Inl (Exit e)
     | Inr p \<Rightarrow> Inr (m\<lparr>memory := (memory m)\<lparr>pool := p, c47MemInBlocks := c47MemInBlocks (memory m) - of_nat (hsize m h)\<rparr>\<rparr>))"
  using regs_pointer [OF assms(1,2)]
  by (simp add: freeRegisterData_def freeC47Blocks_def h_def split: sum.split)

lemma setRegisterMaxDataLengthInBlocks_slot:
  assumes "slot r m = Some k" "getRegisterDataPointer r m = Some q"
  shows "setRegisterMaxDataLengthInBlocks r n m = Inr (update_ram (\<lambda>f. f(q := set_dataMaxLengthInBlocks n (f q))) m)"
  using assms by (auto simp: setRegisterMaxDataLengthInBlocks_def write_at_def slot_def Let_def split: cell.splits)

lemma set_dataMaxLength [simp]: "dataMaxLengthInBlocks (set_dataMaxLengthInBlocks n w) = trunc16 n"
proof -
  have m: "(0xffff :: u32) = mask 16" "(0xffff0000 :: u32) = push_bit 16 (mask 16)"
    by (simp_all add: mask_eq_exp_minus_1 push_bit_eq_mult)
  have low: "i < 16" if b: "bit (of_nat (trunc16 n) :: u32) i" for i
  proof (rule ccontr)
    assume "\<not> i < 16"
    moreover have "trunc16 n = take_bit 16 n" by (simp add: trunc16_def take_bit_eq_mod)
    ultimately show False using b by (simp add: bit_of_nat_iff bit_take_bit_iff)
  qed
  have e: "(set_dataMaxLengthInBlocks n w AND 0xffff :: u32) = of_nat (trunc16 n)"
    unfolding set_dataMaxLengthInBlocks_def m
    by (rule bit_word_eqI) (use low in \<open>auto simp only: bit_and_iff bit_or_iff bit_mask_iff bit_push_bit_iff possible_bit_word\<close>)
  have "unat (of_nat (trunc16 n) :: u32) = trunc16 n"
    using trunc16_less [of n] by (simp add: unat_of_nat)
  with e show ?thesis by (simp add: dataMaxLengthInBlocks_def)
qed

definition retagged :: "nat \<Rightarrow> nat \<Rightarrow> machine \<Rightarrow> nat" where
  "retagged dt t m = (if dt = dtComplex34 \<and> getSystemFlag FLAG_POLAR m then currentAngularMode m OR amPolar else t) mod 32"

lemma header_update_all [simp]:
  "(h :: registerHeader)\<lparr>pointerToRegisterData := p, dataType := d, tag := t\<rparr> =
     \<lparr>pointerToRegisterData = p, dataType = d, tag = t\<rparr>"
  by (cases h) simp

lemma header_update_tag:
  "(h :: registerHeader)\<lparr>tag := t\<rparr> = \<lparr>pointerToRegisterData = pointerToRegisterData h, dataType = dataType h, tag = t\<rparr>"
  by (cases h) simp

text \<open>When the type or the size changes.\<close>

definition must_reallocate :: "nat \<Rightarrow> nat \<Rightarrow> nat \<Rightarrow> machine \<Rightarrow> bool" where
  "must_reallocate regist dt n m \<longleftrightarrow>
     (let old = getRegisterDataType regist m in
      old \<noteq> dt \<or> (old = dtString \<or> old = dtLongInteger \<or> old = dtReal34Matrix \<or> old = dtComplex34Matrix) \<and>
                 getRegisterMaxDataLengthInBlocks regist m \<noteq> data_size dt n)"

lemma slot_not_reserved: "slot r m = Some k \<Longrightarrow> \<not> (FIRST_RESERVED_VARIABLE \<le> r \<and> r \<le> LAST_RESERVED_VARIABLE)"
  by (auto simp: slot_def register_cell_def split: if_splits)

lemma reallocate_changes:
  assumes inv: "regs_inv lim R m" and s: "slot r m = Some k" and dt: "dt < 16"
    and pos: "0 < size_with_length dt n" and must: "must_reallocate r dt n m"
  obtains (full) "reallocateRegister r dt n t m = Inr (displayCalcErrorMessage ERROR_RAM_FULL ERR_REGISTER_LINE m)"
  | (exit) "reallocateRegister r dt n t m = Inl (Exit TooManyFreeRegions)"
      "length (freeMemoryRegions (pool (memory m))) = MAX_FREE_REGIONS"
  | (ok) q m' where "reallocateRegister r dt n t m = Inr m'" "same_rest m m'" "q < C47_NULL"
      "all_headers m' = (all_headers m)[k := \<lparr>pointerToRegisterData = q, dataType = dt, tag = retagged dt t m\<rparr>]"
      "pool_ok lim (pool (memory m')) (add_mset (q, size_with_length dt n) (pieces m - {#hpiece m (all_headers m ! k)#} + R))"
      "\<And>a. a \<notin> {q ..< q + size_with_length dt n} \<Longrightarrow> ram_block a m' = ram_block a m"
      "dt \<noteq> dtReal34Matrix \<Longrightarrow> dt \<noteq> dtComplex34Matrix \<Longrightarrow>
         dataMaxLengthInBlocks (ram_block q m') = trunc16 (data_size dt n)"
proof -
  let ?n = "size_with_length dt n"
  let ?h = "all_headers m ! k"
  have g: "globals_ok m" using inv by simp
  have kl: "k < length (all_headers m)" by (rule slot_less [OF g s])
  note ptr = regs_pointer [OF inv s]
  have real: "reallocateRegister r dt n t m =
     (if \<not> isMemoryBlockAvailable ?n 2 (?n div 10) (memory m) then Inr (displayCalcErrorMessage ERROR_RAM_FULL ERR_REGISTER_LINE m)
      else andThen (freeRegisterData r m) (\<lambda>m1.
        (let (p, m2) = alloc_blocks ?n m1;
             m3 = setRegisterDataType r dt t (setRegisterDataPointer r p m2)
         in andThen
              (if dt = dtReal34Matrix \<or> dt = dtComplex34Matrix
               then write_at (getRegisterDataPointer r m3) (\<lambda>a f. f(a := set_matrix_1x1 (f a))) m3
               else setRegisterMaxDataLengthInBlocks r (data_size dt n) m3)
              (\<lambda>m4. Inr (setRegisterTag r
                 (if dt = dtComplex34 \<and> getSystemFlag FLAG_POLAR m4 then currentAngularMode m4 OR amPolar else t) m4)))))"
    using must slot_not_reserved [OF s] unfolding must_reallocate_def reallocateRegister_def Let_def by (simp only: if_True if_False simp_thms)
  show thesis
  proof (cases "isMemoryBlockAvailable ?n 2 (?n div 10) (memory m)")
    case False
    then show thesis using real full by simp
  next
    case True
    have owned: "pool_ok lim (pool (memory m)) (add_mset (hpiece m ?h) (pieces m - {#hpiece m ?h#} + R))"
      using inv piece_member [OF kl] by (simp add: regs_inv_def)
    show thesis
    proof (cases "freeListFree (Some (pointerToRegisterData ?h)) (hsize m ?h) (pool (memory m))")
      case (Inl e)
      with pool_free_error [OF owned [unfolded hpiece_def] _ Inl] show thesis
        using exit real True by (simp add: freeRegisterData_slot [OF inv s])
    next
      case (Inr h1)
      define m1 where "m1 = m\<lparr>memory := (memory m)\<lparr>pool := h1, c47MemInBlocks := c47MemInBlocks (memory m) - of_nat (hsize m ?h)\<rparr>\<rparr>"
      from free_then_alloc [OF owned [unfolded hpiece_def] pos True [unfolded isMemoryBlockAvailable_def] Inr]
      obtain q h2 where al: "freeListAlloc ?n h1 = (Some q, h2)" and
        ok2: "pool_ok lim h2 (add_mset (q, ?n) (pieces m - {#hpiece m ?h#} + R))" and ram2: "ram h2 = ram (pool (memory m))" and
        q: "q < C47_NULL" unfolding hpiece_def .
      define m2 where "m2 = m1\<lparr>memory := (memory m1)\<lparr>pool := h2, c47MemInBlocks := c47MemInBlocks (memory m1) + of_nat ?n\<rparr>\<rparr>"
      have am: "alloc_blocks ?n m1 = (Some q, m2)"
        using al by (simp add: alloc_blocks_def allocC47Blocks_def m1_def m2_def)
      define m3 where "m3 = setRegisterDataType r dt t (setRegisterDataPointer r (Some q) m2)"
      have rest2: "same_rest m m2" by (simp add: m2_def m1_def same_rest_def core_def shape_def)
      have g2: "globals_ok m2" and s2: "slot r m2 = Some k" and h2': "all_headers m2 = all_headers m"
        using g s same_rest_globals_ok [OF rest2] same_rest_slot [OF rest2]
        by (simp_all add: m2_def m1_def)
      have rest3: "same_rest m m3"
        unfolding m3_def setRegisterDataType_def setRegisterDataPointer_def
        by (rule same_rest_trans [OF rest2], rule same_rest_trans [OF same_rest_update_header], rule same_rest_update_header)
      have s3: "slot r m3 = Some k" and g3: "globals_ok m3"
        using s g same_rest_slot [OF rest3] same_rest_globals_ok [OF rest3] by simp_all
      have h3: "all_headers m3 = (all_headers m)[k := \<lparr>pointerToRegisterData = q, dataType = dt, tag = t mod 32\<rparr>]"
        using kl q dt g2 s2
        by (simp add: m3_def setRegisterDataType_def setRegisterDataPointer_def all_headers_update h2' TO_C47MEMPTR_def)
      have p3: "getRegisterDataPointer r m3 = Some q"
        using slot_getters(2) [OF g3 s3] kl q by (simp add: h3 TO_PCMEMPTR_def)
      have ram3: "ram_block a m3 = ram_block a m" for a
        unfolding m3_def setRegisterDataType_def setRegisterDataPointer_def
        by (simp add: m2_def m1_def) (simp add: ram_block_def ram2)
      define f where "f = (if dt = dtReal34Matrix \<or> dt = dtComplex34Matrix then set_matrix_1x1 else set_dataMaxLengthInBlocks (data_size dt n))"
      define m4 where "m4 = update_ram (\<lambda>g. g(q := f (g q))) m3"
      define m5 where "m5 = setRegisterTag r
                 (if dt = dtComplex34 \<and> getSystemFlag FLAG_POLAR m4 then currentAngularMode m4 OR amPolar else t) m4"
      have rest4: "same_rest m m4" unfolding m4_def by (rule same_rest_trans [OF rest3]) simp
      have step4: "(if dt = dtReal34Matrix \<or> dt = dtComplex34Matrix
               then write_at (getRegisterDataPointer r m3) (\<lambda>a f. f(a := set_matrix_1x1 (f a))) m3
               else setRegisterMaxDataLengthInBlocks r (data_size dt n) m3) = Inr m4"
        using p3 setRegisterMaxDataLengthInBlocks_slot [OF s3 p3] by (simp add: write_at_def m4_def f_def)
      have res: "reallocateRegister r dt n t m = Inr m5"
        unfolding real freeRegisterData_slot [OF inv s] Inr
        using True am step4 by (simp add: m1_def [symmetric] m3_def [symmetric] m5_def)
      have rest5: "same_rest m m5" unfolding m5_def setRegisterTag_def by (rule same_rest_trans [OF rest4]) simp
      have s4: "slot r m4 = Some k" and g4: "globals_ok m4"
        using s g same_rest_slot [OF rest4] same_rest_globals_ok [OF rest4] by simp_all
      have h4: "all_headers m4 = all_headers m3" by (simp add: m4_def)
      have h5: "all_headers m5 = (all_headers m)[k := \<lparr>pointerToRegisterData = q, dataType = dt, tag = retagged dt t m\<rparr>]"
        using kl g4 s4 same_rest_fields [OF rest4]
        by (simp add: m5_def setRegisterTag_def all_headers_update h4 h3 retagged_def)
      have pool5: "pool (memory m5) = h2\<lparr>ram := ram (pool (memory m5))\<rparr>"
        unfolding m5_def setRegisterTag_def m4_def m3_def setRegisterDataType_def setRegisterDataPointer_def
        by (simp add: memory_update_ram) (simp add: m2_def)
      have ok5: "pool_ok lim (pool (memory m5)) (add_mset (q, ?n) (pieces m - {#hpiece m ?h#} + R))"
        by (subst pool5) (simp add: ok2)
      have ram5: "ram_block a m5 = (if a = q then f (ram_block q m) else ram_block a m)" for a
        unfolding m5_def setRegisterTag_def by (simp add: m4_def ram3)
      show thesis
        by (rule ok [OF res rest5 q h5 ok5]) (use pos in \<open>auto simp: ram5 f_def\<close>)
    qed
  qed
qed

section \<open>Copying\<close>

lemma trunc16_below [simp]: "n < 65535 \<Longrightarrow> trunc16 n = n" "n < 65535 \<Longrightarrow> trunc16 (Suc n) = Suc n"
  by simp_all

lemma regs_header:
  "regs_inv lim R m \<Longrightarrow> k < length (all_headers m) \<Longrightarrow> header_ok m (all_headers m ! k)"
  by (simp add: regs_inv_def list_all_length)

lemma regs_size_small: "regs_inv lim R m \<Longrightarrow> k < length (all_headers m) \<Longrightarrow> hsize m (all_headers m ! k) < 65536"
  using regs_piece(2,4) [of lim R m k] by simp

lemma copy_size_exact:
  assumes "header_ok m h" "0 < hsize m h" "hsize m h < 65536"
  shows "size_with_length (dataType h) (copy_size (dataType h) (ram_block (pointerToRegisterData h) m)) = hsize m h"
  using assms unfolding header_ok_def hsize_def full_size_def size_with_length_def data_size_def copy_size_def
  by (auto split: if_splits)

text \<open>Where type or size differ, the reallocation does not take the short way.\<close>

lemma copy_must_reallocate:
  assumes inv: "regs_inv lim R m" and i: "slot s m = Some i" and j: "slot d m = Some j"
    and differ: "dataType (all_headers m ! j) \<noteq> dataType (all_headers m ! i) \<or> hsize m (all_headers m ! j) \<noteq> hsize m (all_headers m ! i)"
  shows "must_reallocate d (dataType (all_headers m ! i)) (copy_size (dataType (all_headers m ! i)) (data_word s m)) m"
proof -
  let ?hi = "all_headers m ! i" and ?hj = "all_headers m ! j"
  have g: "globals_ok m" using inv by simp
  have il: "i < length (all_headers m)" and jl: "j < length (all_headers m)" using slot_less [OF g] i j by auto
  have dj: "getRegisterDataType d m = dataType ?hj" by (rule slot_getters(1) [OF g j])
  show ?thesis
  proof (cases "dataType ?hj = dataType ?hi")
    case True
    with differ have ne: "hsize m ?hj \<noteq> hsize m ?hi" by simp
    have mx: "getRegisterMaxDataLengthInBlocks d m =
        (let w = ram_block (pointerToRegisterData ?hj) m in
         if dataType ?hj = dtReal34Matrix then trunc16 (matrixRows w * matrixColumns w * REAL34_SIZE_IN_BLOCKS)
         else if dataType ?hj = dtComplex34Matrix then trunc16 (matrixRows w * matrixColumns w * COMPLEX34_SIZE_IN_BLOCKS)
         else dataMaxLengthInBlocks w)"
      by (simp add: getRegisterMaxDataLengthInBlocks_def regs_pointer(1) [OF inv j] dj Let_def)
    have small: "hsize m ?hj < 65536" "hsize m ?hi < 65536" using regs_size_small [OF inv] il jl by auto
    have ok: "header_ok m ?hi" by (rule regs_header [OF inv il])
    show ?thesis
      using ne True small ok
      unfolding must_reallocate_def Let_def dj mx regs_pointer(3) [OF inv i]
      by (auto simp: hsize_def full_size_def data_size_def copy_size_def header_ok_def split: if_splits)
  qed (simp add: must_reallocate_def dj)
qed

text \<open>The copy of the blocks and of the tag.\<close>

lemma lettered_slot_not_tvm:
  assumes "slot (lettered d0) m = Some j"
  shows "d0 \<notin> {2035, 2037, 2040, 2043}"
  using slot_not_reserved [OF assms] by (auto simp: lettered_def)

lemma copied_blocks:
  assumes s: "slot s m = Some i" and d: "slot d m = Some j" and g: "globals_ok m"
    and si: "pointerToRegisterData (all_headers m ! i) < C47_NULL"
    and dj: "pointerToRegisterData (all_headers m ! j) < C47_NULL"
  shows "copy_blocks d s n m =
    Inr (update_ram (xcopy (pointerToRegisterData (all_headers m ! j)) (pointerToRegisterData (all_headers m ! i)) n) m)"
  using slot_getters(2) [OF g s] slot_getters(2) [OF g d] si dj by (simp add: copy_blocks_def TO_PCMEMPTR_def)

lemma copy_effect:
  assumes inv: "regs_inv lim R m" and i: "i < length (all_headers m)" and j: "j < length (all_headers m)"
    and g: "globals_ok m'"
    and hs: "all_headers m' = (all_headers m)[j := \<lparr>pointerToRegisterData = q, dataType = dataType (all_headers m ! i), tag = tag (all_headers m ! i)\<rparr>]"
    and ok: "pool_ok lim (pool (memory m')) (add_mset (q, hsize m (all_headers m ! i)) (pieces m - {#hpiece m (all_headers m ! j)#} + R))"
    and copied: "\<And>a. a < hsize m (all_headers m ! i) \<Longrightarrow>
       ram_block (q + a) m' = ram_block (pointerToRegisterData (all_headers m ! i) + a) m"
    and same: "\<And>a. a \<notin> {q ..< q + hsize m (all_headers m ! i)} \<Longrightarrow> ram_block a m' = ram_block a m"
  shows "regs_inv lim R m' \<and> reg_values m' = (reg_values m)[j := reg_values m ! i]"
proof -
  let ?hi = "all_headers m ! i"
  let ?h = "\<lparr>pointerToRegisterData = q, dataType = dataType ?hi, tag = tag ?hi\<rparr>"
  have n: "0 < hsize m ?hi" by (rule regs_piece(1) [OF inv i])
  have w: "ram_block q m' = ram_block (pointerToRegisterData ?hi) m" using copied [OF n] copied [of 0] n by simp
  then have size: "hsize m' ?h = hsize m ?hi" by (simp add: hsize_def)
  have val: "hvalue m' ?h = hvalue m ?hi"
    unfolding hvalue_def size by (auto intro!: nth_equalityI simp: copied)
  have hok: "header_ok m' ?h" using regs_header [OF inv i] w by (simp add: header_ok_def)
  have dis: "a \<notin> {q ..< q + hsize m ?hi}" if k: "k < length (all_headers m)" "k \<noteq> j" "a \<in> piece_set (hpiece m (all_headers m ! k))" for a k
  proof -
    have "hpiece m (all_headers m ! k) \<in># pieces m - {#hpiece m (all_headers m ! j)#}"
      using nth_mset_diff [of j "map (hpiece m) (all_headers m)" k] j k by (simp add: pieces_def)
    then have "a \<in> owned_set (pieces m - {#hpiece m (all_headers m ! j)#} + R)"
      using k(3) by (auto simp: owned_set_def)
    moreover have "{q ..< q + hsize m ?hi} \<inter> owned_set (pieces m - {#hpiece m (all_headers m ! j)#} + R) = {}"
      using ok by (simp add: pool_ok_def)
    ultimately show ?thesis by blast
  qed
  have "regs_inv lim R m'" "reg_values m' = (reg_values m)[j := hvalue m' ?h]"
    using regs_replace [OF inv j g hs _ _ hok] ok dis same size by (simp_all add: hpiece_def)
  then show ?thesis using val i by (simp add: reg_values_def)
qed

lemma copy_contents_slots:
  assumes s: "slot s m = Some i" and d: "slot d m = Some j" and g: "globals_ok m" and d0: "d0 \<notin> {2035, 2037, 2040, 2043}"
    and si: "pointerToRegisterData (all_headers m ! i) < C47_NULL" and dj: "pointerToRegisterData (all_headers m ! j) < C47_NULL"
    and small: "hsize m (all_headers m ! i) < 65536"
  shows "copy_contents sync s d d0 m =
    Inr (setRegisterTag d (tag (all_headers m ! i))
      (update_ram (xcopy (pointerToRegisterData (all_headers m ! j)) (pointerToRegisterData (all_headers m ! i)) (hsize m (all_headers m ! i))) m))"
proof -
  let ?hi = "all_headers m ! i"
  have w: "data_word s m = ram_block (pointerToRegisterData ?hi) m"
    using slot_getters(2) [OF g s] si by (simp add: data_word_def TO_PCMEMPTR_def)
  have n: "(let st = getRegisterDataType s m in if st = dtReal34Matrix \<or> st = dtComplex34Matrix then full_size st (data_word s m)
      else getRegisterFullSizeInBlocks s m) = hsize m ?hi"
    using small by (simp add: getRegisterFullSizeInBlocks_def slot_getters(1) [OF g s] w hsize_def Let_def)
  have tag: "getRegisterTag s (update_ram f m) = tag ?hi" for f
    using slot_getters(3) [of "update_ram f m" s i] s g same_rest_slot [OF same_rest_update_ram, of s f m] by simp
  show ?thesis
    using d0 unfolding copy_contents_def n unfolding copied_blocks [OF s d g si dj] andThen_simps Let_def tag by simp
qed

lemma hsize_update_ram_other: "pointerToRegisterData h \<notin> A \<Longrightarrow> (\<And>a. a \<notin> A \<Longrightarrow> ram_block a m' = ram_block a m) \<Longrightarrow> hsize m' h = hsize m h"
  by (simp add: hsize_def)

text \<open>The two ways to the copy: into the old blocks of the destination, or into new ones.\<close>

lemma copy_same_size:
  assumes inv: "regs_inv lim R m" and i: "slot s m = Some i" and j: "slot d m = Some j" and d0: "d0 \<notin> {2035, 2037, 2040, 2043}"
    and type: "dataType (all_headers m ! j) = dataType (all_headers m ! i)"
    and size: "hsize m (all_headers m ! j) = hsize m (all_headers m ! i)"
  shows "\<exists>m'. copy_contents sync s d d0 m = Inr m' \<and> same_rest m m' \<and>
     regs_inv lim R m' \<and> reg_values m' = (reg_values m)[j := reg_values m ! i]"
proof -
  let ?hi = "all_headers m ! i" and ?hj = "all_headers m ! j"
  have g: "globals_ok m" using inv by simp
  have il: "i < length (all_headers m)" and jl: "j < length (all_headers m)" using slot_less [OF g] i j by auto
  have ptr: "pointerToRegisterData ?hi < C47_NULL" "pointerToRegisterData ?hj < C47_NULL"
    using regs_piece [OF inv il] regs_piece [OF inv jl] by simp_all
  define m1 where "m1 = update_ram (xcopy (pointerToRegisterData ?hj) (pointerToRegisterData ?hi) (hsize m ?hi)) m"
  define m2 where "m2 = setRegisterTag d (tag ?hi) m1"
  have res: "copy_contents sync s d d0 m = Inr m2"
    using copy_contents_slots [OF i j g d0 ptr regs_size_small [OF inv il]] by (simp add: m1_def m2_def)
  have rest1: "same_rest m m1" by (simp add: m1_def)
  have rest2: "same_rest m m2" unfolding m2_def setRegisterTag_def by (rule same_rest_trans [OF rest1]) simp
  have j1: "slot d m1 = Some j" and g1: "globals_ok m1" using same_rest_slot [OF rest1] j g by (simp_all add: m1_def)
  have t: "tag ?hi < 32" using regs_header [OF inv il] by (simp add: header_ok_def)
  have hs: "all_headers m2 = (all_headers m)[j := \<lparr>pointerToRegisterData = pointerToRegisterData ?hj, dataType = dataType ?hi, tag = tag ?hi\<rparr>]"
    using all_headers_update [OF g1 j1] t type jl by (simp add: m2_def setRegisterTag_def header_update_tag) (simp add: m1_def)
  have ram2: "ram_block a m2 = xcopy (pointerToRegisterData ?hj) (pointerToRegisterData ?hi) (hsize m ?hi) (\<lambda>b. ram_block b m) a" for a
    by (simp add: m2_def setRegisterTag_def m1_def)
  have "pool (memory m2) = (pool (memory m))\<lparr>ram := ram (pool (memory m2))\<rparr>"
    by (simp add: m2_def setRegisterTag_def m1_def memory_update_ram)
  moreover have g2: "globals_ok m2" using g1 by (simp add: m2_def setRegisterTag_def)
  ultimately have ok: "pool_ok lim (pool (memory m2)) (add_mset (pointerToRegisterData ?hj, hsize m ?hi) (pieces m - {#hpiece m ?hj#} + R))"
    using inv piece_member [OF jl] size by (metis pool_ok_ram regs_inv_def hpiece_def insert_DiffM union_mset_add_mset_left)
  have "regs_inv lim R m2 \<and> reg_values m2 = (reg_values m)[j := reg_values m ! i]"
    by (rule copy_effect [OF inv il jl g2 hs ok]) (auto simp: ram2 xcopy_apply)
  with res rest2 show ?thesis by blast
qed

lemma copy_new_blocks:
  assumes inv: "regs_inv lim R m" and i: "slot s m = Some i" and j: "slot d m = Some j" and d0: "d0 \<notin> {2035, 2037, 2040, 2043}"
    and ij: "i \<noteq> j" and m1: "same_rest m m1" and q: "q < C47_NULL"
    and h1: "all_headers m1 = (all_headers m)[j := \<lparr>pointerToRegisterData = q, dataType = dataType (all_headers m ! i), tag = t\<rparr>]"
    and ok1: "pool_ok lim (pool (memory m1)) (add_mset (q, hsize m (all_headers m ! i)) (pieces m - {#hpiece m (all_headers m ! j)#} + R))"
    and ram1: "\<And>a. a \<notin> {q ..< q + hsize m (all_headers m ! i)} \<Longrightarrow> ram_block a m1 = ram_block a m"
  shows "\<exists>m'. copy_contents sync s d d0 m1 = Inr m' \<and> same_rest m m' \<and>
     regs_inv lim R m' \<and> reg_values m' = (reg_values m)[j := reg_values m ! i]"
proof -
  let ?hi = "all_headers m ! i" and ?hj = "all_headers m ! j"
  let ?p = "pointerToRegisterData ?hi"
  have g: "globals_ok m" using inv by simp
  have il: "i < length (all_headers m)" and jl: "j < length (all_headers m)" using slot_less [OF g] i j by auto
  have g1: "globals_ok m1" and i1: "slot s m1 = Some i" and j1: "slot d m1 = Some j"
    using same_rest_slot [OF m1] same_rest_globals_ok [OF m1] g i j by simp_all
  have hi1: "all_headers m1 ! i = ?hi" and hj1: "all_headers m1 ! j = \<lparr>pointerToRegisterData = q, dataType = dataType ?hi, tag = t\<rparr>"
    using ij jl by (simp_all add: h1)
  have p: "?p < C47_NULL" "0 < hsize m ?hi" using regs_piece [OF inv il] by simp_all
  have "hpiece m ?hi \<in># pieces m - {#hpiece m ?hj#}"
    using nth_mset_diff [of j "map (hpiece m) (all_headers m)" i] il jl ij by (simp add: pieces_def)
  then have "hpiece m ?hi \<in># pieces m - {#hpiece m ?hj#} + R" by simp
  then have "piece_set (hpiece m ?hi) \<subseteq> owned_set (pieces m - {#hpiece m ?hj#} + R)" by (rule piece_subset_owned)
  moreover have "{q ..< q + hsize m ?hi} \<inter> owned_set (pieces m - {#hpiece m ?hj#} + R) = {}"
    using ok1 by (simp add: pool_ok_def)
  ultimately have dis: "{q ..< q + hsize m ?hi} \<inter> {?p ..< ?p + hsize m ?hi} = {}"
    unfolding hpiece_def piece_set_pair by blast
  have src: "ram_block (?p + a) m1 = ram_block (?p + a) m" if "a < hsize m ?hi" for a
  proof -
    have "?p + a \<in> {?p ..< ?p + hsize m ?hi}" using that by simp
    with dis show ?thesis by (intro ram1) blast
  qed
  have size1: "hsize m1 ?hi = hsize m ?hi" using src [OF p(2)] src [of 0] p(2) by (simp add: hsize_def)
  define m2 where "m2 = update_ram (xcopy q ?p (hsize m ?hi)) m1"
  define m3 where "m3 = setRegisterTag d (tag ?hi) m2"
  have res: "copy_contents sync s d d0 m1 = Inr m3"
    using copy_contents_slots [OF i1 j1 g1 d0] p(1) q regs_size_small [OF inv il]
    by (simp add: hi1 hj1 size1 m2_def m3_def)
  have rest2: "same_rest m m2" unfolding m2_def by (rule same_rest_trans [OF m1]) simp
  have rest3: "same_rest m m3" unfolding m3_def setRegisterTag_def by (rule same_rest_trans [OF rest2]) simp
  have j2: "slot d m2 = Some j" and g2: "globals_ok m2" using same_rest_slot [OF rest2] j g1 by (simp_all add: m2_def)
  have g3: "globals_ok m3" using g2 by (simp add: m3_def setRegisterTag_def)
  have t: "tag ?hi < 32" using regs_header [OF inv il] by (simp add: header_ok_def)
  have h2: "all_headers m2 = all_headers m1" by (simp add: m2_def)
  have hs: "all_headers m3 = (all_headers m)[j := \<lparr>pointerToRegisterData = q, dataType = dataType ?hi, tag = tag ?hi\<rparr>]"
    using all_headers_update [OF g2 j2] t jl by (simp add: m3_def setRegisterTag_def header_update_tag h2 hj1) (simp add: h1)
  have ram3: "ram_block a m3 = xcopy q ?p (hsize m ?hi) (\<lambda>b. ram_block b m1) a" for a
    by (simp add: m3_def setRegisterTag_def m2_def)
  have "pool (memory m3) = (pool (memory m1))\<lparr>ram := ram (pool (memory m3))\<rparr>"
    by (simp add: m3_def setRegisterTag_def m2_def memory_update_ram)
  then have ok: "pool_ok lim (pool (memory m3)) (add_mset (q, hsize m ?hi) (pieces m - {#hpiece m ?hj#} + R))"
    using ok1 by (metis pool_ok_ram)
  have "regs_inv lim R m3 \<and> reg_values m3 = (reg_values m)[j := reg_values m ! i]"
    by (rule copy_effect [OF inv il jl g3 hs ok]) (auto simp: ram3 xcopy_apply src ram1)
  with res rest3 show ?thesis by blast
qed

lemma all_headers_error [simp]:
  "all_headers (displayCalcErrorMessage e l m) = all_headers m" "globals_ok (displayCalcErrorMessage e l m) = globals_ok m"
  "memory (displayCalcErrorMessage e l m) = memory m" "lastErrorCode (displayCalcErrorMessage e l m) = e"
  "all_headers (m\<lparr>lastErrorCode := e\<rparr>) = all_headers m" "globals_ok (m\<lparr>lastErrorCode := e\<rparr>) = globals_ok m"
  by (simp_all add: displayCalcErrorMessage_def all_headers_def local_headers_def globals_ok_def)

lemma core_lastErrorCode: "core (m\<lparr>lastErrorCode := e\<rparr>) = (core m)\<lparr>lastErrorCode := e\<rparr>"
  by (simp add: core_def)

lemma pieces_cong: "all_headers m' = all_headers m \<Longrightarrow> pool (memory m') = pool (memory m) \<Longrightarrow> pieces m' = pieces m \<and> hpiece m' = hpiece m \<and> hsize m' = hsize m"
proof -
  assume a: "all_headers m' = all_headers m" "pool (memory m') = pool (memory m)"
  then have "hsize m' = hsize m" by (intro ext) (simp add: hsize_def ram_block_def)
  moreover from this have "hpiece m' = hpiece m" by (intro ext) (simp add: hpiece_def)
  ultimately show ?thesis using a by (simp add: pieces_def)
qed

lemma slot_lastErrorCode [simp]: "slot r (m\<lparr>lastErrorCode := e\<rparr>) = slot r m"
  by (rule shape_slot) (simp add: shape_def)

lemma copy_register:
  assumes inv: "regs_inv lim R m" and i: "slot (lettered s0) m = Some i" and j: "slot (lettered d0) m = Some j"
  obtains (exit) "copySourceRegisterToDestRegister sync s0 d0 m = Inl (Exit TooManyFreeRegions)"
      "length (freeMemoryRegions (pool (memory m))) = MAX_FREE_REGIONS"
  | (full) "copySourceRegisterToDestRegister sync s0 d0 m = Inr (displayCalcErrorMessage ERROR_RAM_FULL ERR_REGISTER_LINE (m\<lparr>lastErrorCode := ERROR_NONE\<rparr>))"
  | (ok) m' where "copySourceRegisterToDestRegister sync s0 d0 m = Inr m'" "same_rest m m'" "regs_inv lim R m'"
      "reg_values m' = (reg_values m)[j := reg_values m ! i]"
proof -
  let ?s = "lettered s0" and ?d = "lettered d0" and ?hi = "all_headers m ! i" and ?hj = "all_headers m ! j"
  let ?m0 = "m\<lparr>lastErrorCode := ERROR_NONE\<rparr>"
  have g: "globals_ok m" using inv by simp
  have il: "i < length (all_headers m)" and jl: "j < length (all_headers m)" using slot_less [OF g] i j by auto
  note d0 = lettered_slot_not_tvm [OF j]
  have dt: "getRegisterDataType ?s m = dataType ?hi" "getRegisterDataType ?d m = dataType ?hj"
    using slot_getters(1) [OF g] i j by auto
  have sz: "getRegisterFullSizeInBlocks ?s m = hsize m ?hi" "getRegisterFullSizeInBlocks ?d m = hsize m ?hj"
    using regs_pointer(2) [OF inv] i j by auto
  show thesis
  proof (cases "dataType ?hj = dataType ?hi \<and> hsize m ?hj = hsize m ?hi")
    case True
    with copy_same_size [OF inv i j d0, where sync = sync] ok show thesis
      by (auto simp: copySourceRegisterToDestRegister_def dt sz Let_def)
  next
    case False
    then have ij: "i \<noteq> j" by auto
    let ?n = "copy_size (dataType ?hi) (data_word ?s m)"
    have unf: "copySourceRegisterToDestRegister sync s0 d0 m =
      andThen (reallocateRegister ?d (dataType ?hi) ?n amNone ?m0)
        (\<lambda>m1. if lastErrorCode m1 = ERROR_RAM_FULL then Inr m1
               else copy_contents sync ?s ?d d0 (if lastErrorCode m1 = ERROR_NONE then m1\<lparr>lastErrorCode := lastErrorCode m\<rparr> else m1))"
      using False by (auto simp: copySourceRegisterToDestRegister_def dt sz Let_def)
    have same0: "all_headers ?m0 = all_headers m" "pool (memory ?m0) = pool (memory m)" by simp_all
    have inv0: "regs_inv lim R ?m0" using regs_inv_cong(1) [of ?m0 m lim R] inv by simp
    have i0: "slot ?s ?m0 = Some i" and j0: "slot ?d ?m0 = Some j" using i j by simp_all
    have p0: "pieces ?m0 = pieces m" "hpiece ?m0 = hpiece m" "hsize ?m0 = hsize m" using pieces_cong [OF same0] by auto
    have w0: "data_word ?s ?m0 = data_word ?s m"
      using regs_pointer(3) [OF inv0 i0] regs_pointer(3) [OF inv i] by (simp add: ram_block_def)
    have must: "must_reallocate ?d (dataType ?hi) ?n ?m0"
      using copy_must_reallocate [OF inv0 i0 j0] False by (simp add: p0 w0)
    have ok_i: "header_ok m ?hi" by (rule regs_header [OF inv il])
    have size: "size_with_length (dataType ?hi) ?n = hsize m ?hi"
      using copy_size_exact [OF ok_i regs_piece(1) [OF inv il] regs_size_small [OF inv il]] regs_pointer(3) [OF inv i] by simp
    have dt16: "dataType ?hi < 16" using ok_i by (simp add: header_ok_def)
    have pos: "0 < size_with_length (dataType ?hi) ?n" using size regs_piece(1) [OF inv il] by simp
    show thesis
    proof (cases rule: reallocate_changes [OF inv0 j0 dt16 pos must, where t = amNone])
      case 1
      then show thesis using unf full by simp
    next
      case 2
      then show thesis using unf exit by simp
    next
      case ok: (3 q m1)
      let ?m2 = "m1\<lparr>lastErrorCode := lastErrorCode m\<rparr>"
      have e: "lastErrorCode m1 = ERROR_NONE" using same_rest_fields(1) [OF ok(2)] by simp
      have same2: "all_headers ?m2 = all_headers m1" "pool (memory ?m2) = pool (memory m1)" by simp_all
      have rest2: "same_rest m ?m2"
        using ok(2) core_fields(1) [of m] by (simp add: same_rest_def shape_def core_lastErrorCode)
      have r0: "ram_block a ?m0 = ram_block a m" for a by (simp add: ram_block_def)
      have r: "ram_block a ?m2 = ram_block a m1" for a by (simp add: ram_block_def)
      have "\<exists>m'. copy_contents sync ?s ?d d0 ?m2 = Inr m' \<and> same_rest m m' \<and>
          regs_inv lim R m' \<and> reg_values m' = (reg_values m)[j := reg_values m ! i]"
        by (rule copy_new_blocks [OF inv i j d0 ij rest2 ok(3)])
          (use ok(4-6) in \<open>simp_all add: p0 size r r0\<close>)
      then show thesis using unf ok(1) e that(3) by auto
    qed
  qed
qed

section \<open>A small machine\<close>

text \<open>All registers hold a real number but X, which holds a short integer in base 10.\<close>

definition plain_header :: "nat \<Rightarrow> registerHeader" where
  "plain_header i = (if i = REGISTER_X then \<lparr>pointerToRegisterData = 68 + 4 * i, dataType = dtShortInteger, tag = 10\<rparr>
     else \<lparr>pointerToRegisterData = 68 + 4 * i, dataType = dtReal34, tag = amNone\<rparr>)"

definition plain_memory :: memory where
  "plain_memory =
     \<lparr>pool = \<lparr>freeMemoryRegions = [\<lparr>blockAddress = 616, sizeInBlocks = 64917\<rparr>], allocatedMemoryRegions = [], ram = (\<lambda>a. of_nat a)\<rparr>,
      c47MemInBlocks = 546, beginOfProgramMemory = 65533, firstFreeProgramByte = 262134\<rparr>"

definition plain_machine :: machine where
  "plain_machine = calc.extend plain_calc
     (machine.fields plain_memory (map plain_header [0 ..< 137]) [] None 0 INVALID_VARIABLE 4 False)"

lemma plain_machine_simps [simp]:
  "memory plain_machine = plain_memory" "globalRegister plain_machine = map plain_header [0 ..< 137]"
  "all_headers plain_machine = map plain_header [0 ..< 137]" "namedVariables plain_machine = []" "globals_ok plain_machine"
  by (simp_all add: plain_machine_def calc.defs machine.defs all_headers_def local_headers_def globals_ok_def)

lemma pieces_ok_rows:
  assumes "\<And>i. i < n \<Longrightarrow> 0 < f i \<and> f i \<le> 4" "a + 4 * n \<le> lim" "\<And>b. b \<in> F \<Longrightarrow> a + 4 * n \<le> b"
  shows "pieces_ok lim F (mset (map (\<lambda>i. (a + 4 * i, f i)) [0 ..< n])) \<and>
    owned_set (mset (map (\<lambda>i. (a + 4 * i, f i)) [0 ..< n])) \<subseteq> {a ..< a + 4 * n}"
  using assms
proof (induction n)
  case (Suc n)
  let ?M = "mset (map (\<lambda>i. (a + 4 * i, f i)) [0 ..< n])"
  have IH: "pieces_ok lim F ?M \<and> owned_set ?M \<subseteq> {a ..< a + 4 * n}" by (rule Suc.IH) (use Suc.prems in fastforce)+
  have f: "0 < f n" "f n \<le> 4" using Suc.prems(1) by auto
  have "{a + 4 * n ..< a + 4 * n + f n} \<inter> F = {}" using Suc.prems(3) f by fastforce
  moreover have "{a + 4 * n ..< a + 4 * n + f n} \<inter> owned_set ?M = {}" using IH by fastforce
  moreover have "owned_set ?M \<subseteq> {a ..< a + 4 * Suc n}" using IH by fastforce
  ultimately show ?case using IH f Suc.prems(2) by auto
qed simp

lemma plain_machine_inv: "regs_inv 65533 {#} plain_machine"
proof -
  let ?f = "\<lambda>i. if i = REGISTER_X then 2 else 4 :: nat"
  have hs: "hpiece plain_machine (plain_header i) = (68 + 4 * i, ?f i)" for i
    by (simp add: hpiece_def hsize_def plain_header_def full_size_def)
  have "pieces_ok 65533 {616 ..< 65533} (mset (map (\<lambda>i. (68 + 4 * i, ?f i)) [0 ..< 137]))"
    using pieces_ok_rows [of 137 ?f 68 65533 "{616 ..< 65533}"] by simp
  then have "pool_ok 65533 (pool plain_memory) (pieces plain_machine)"
    by (simp add: pool_ok_def fl_inv_def free_blocks_def plain_memory_def r_blocks_def r_end_def pieces_def o_def hs)
  moreover have "list_all (header_ok plain_machine) (all_headers plain_machine)"
    by (auto simp: list_all_iff header_ok_def plain_header_def)
  ultimately show ?thesis by (simp add: regs_inv_def)
qed

text \<open>C21. Copying a register refines an assignment in the store of register values: the destination gets the type, the
  tag and all data blocks of the source, every other register keeps its value, and the data of all
  registers stay disjoint pieces of the pool.  It fails only for lack of memory, with error 11 and no
  register changed, or by the program exit on a full region table.\<close>

theorem copySourceRegisterToDestRegister_refines:
  assumes inv: "regs_inv lim R m" and "slot (lettered s) m = Some i" and "slot (lettered d) m = Some j"
  shows "case copySourceRegisterToDestRegister sync s d m of
           Inl e \<Rightarrow> e = Exit TooManyFreeRegions \<and> length (freeMemoryRegions (pool (memory m))) = MAX_FREE_REGIONS
         | Inr m' \<Rightarrow> regs_inv lim R m' \<and>
             (lastErrorCode m' = lastErrorCode m \<and> reg_values m' = (reg_values m)[j := reg_values m ! i] \<or>
              lastErrorCode m' = ERROR_RAM_FULL \<and> reg_values m' = reg_values m)"
proof (cases rule: copy_register [OF assms, where sync = sync])
  case 2
  with regs_inv_cong [of "displayCalcErrorMessage ERROR_RAM_FULL ERR_REGISTER_LINE (m\<lparr>lastErrorCode := ERROR_NONE\<rparr>)" m] inv
  show ?thesis by simp
next
  case (3 m')
  then show ?thesis using same_rest_fields(1) [of m m'] by simp
qed simp

lemma copySourceRegisterToDestRegister_refines_witness:
  "case copySourceRegisterToDestRegister (\<lambda>_ m. m) REGISTER_X 5 plain_machine of
     Inl e \<Rightarrow> e = Exit TooManyFreeRegions \<and> length (freeMemoryRegions (pool (memory plain_machine))) = MAX_FREE_REGIONS
   | Inr m' \<Rightarrow> regs_inv 65533 {#} m' \<and>
       (lastErrorCode m' = lastErrorCode plain_machine \<and> reg_values m' = (reg_values plain_machine)[5 := reg_values plain_machine ! REGISTER_X] \<or>
        lastErrorCode m' = ERROR_RAM_FULL \<and> reg_values m' = reg_values plain_machine)"
  by (rule copySourceRegisterToDestRegister_refines [OF plain_machine_inv]) (simp_all add: lettered_def)

end
