(* ===== verification/Stack.thy ===== *)
theory Stack
  imports Registers
begin

text \<open>
  The register stack, \<^verbatim>\<open>stack.c\<close>: lifting, dropping, rolling, swapping, shuffling and filling.  The
  stack is the registers from X to the stack top, T or D by the setting of a flag; the operations
  move 32-bit headers and allocate or release the blocks they refer to.
\<close>

section \<open>Moving headers\<close>

definition set_global :: "nat \<Rightarrow> registerHeader \<Rightarrow> machine \<Rightarrow> machine" where
  "set_global i h m = m\<lparr>globalRegister := (globalRegister m)[i := h]\<rparr>"

definition move_headers :: "(nat \<times> nat) list \<Rightarrow> machine \<Rightarrow> machine" where
  "move_headers moves m = fold (\<lambda>(dest, src) m1. set_global dest (globalRegister m1 ! src) m1) moves m"

definition shift_up :: "nat \<Rightarrow> (nat \<times> nat) list" where
  "shift_up stackTop = map (\<lambda>i. (i, i - 1)) (rev [Suc REGISTER_X ..< Suc stackTop])"

definition shift_down :: "nat \<Rightarrow> nat \<Rightarrow> (nat \<times> nat) list" where
  "shift_down first stackTop = map (\<lambda>i. (i, i + 1)) [first ..< stackTop]"

section \<open>Lifting and dropping\<close>

definition liftStack :: "machine \<Rightarrow> crash + machine" where
  "liftStack m =
     andThen
       (if getSystemFlag FLAG_ASLIFT m then
          (let m1 = (if currentInputVariable m \<noteq> INVALID_VARIABLE
                     then m\<lparr>currentInputVariable := currentInputVariable m OR 0x8000\<rparr> else m)
           in andThen (freeRegisterData (getStackTop m1) m1) (\<lambda>m2. Inr (move_headers (shift_up (getStackTop m2)) m2)))
        else freeRegisterData REGISTER_X m)
       (\<lambda>m3. let (p, m4) = alloc_blocks REAL34_SIZE_IN_BLOCKS m3 in
          Inr (setRegisterDataType REGISTER_X dtReal34 amNone (setRegisterDataPointer REGISTER_X p m4)))"

definition drop_register :: "nat \<Rightarrow> machine \<Rightarrow> crash + machine" where
  "drop_register reg m =
     (if reg = getStackTop m then Inr m
      else andThen (freeRegisterData reg m)
        (\<lambda>m1. let m2 = move_headers (shift_down reg (getStackTop m1)) m1; stackTop = getStackTop m2;
                  n = getRegisterFullSizeInBlocks stackTop m2; (p, m3) = alloc_blocks n m2
              in case p of
                   None \<Rightarrow> Inr (m3\<lparr>lastErrorCode := ERROR_RAM_FULL\<rparr>)
                 | Some _ \<Rightarrow>
                     (let m4 = setRegisterDataPointer (stackTop - 1) p m3 in copy_blocks (stackTop - 1) stackTop n m4)))"

definition fnDrop :: "machine \<Rightarrow> crash + machine" where "fnDrop = drop_register REGISTER_X"
definition fnDropY :: "machine \<Rightarrow> crash + machine" where "fnDropY = drop_register REGISTER_Y"
definition fnDropZ :: "machine \<Rightarrow> crash + machine" where "fnDropZ = drop_register REGISTER_Z"
definition fnDropT :: "machine \<Rightarrow> crash + machine" where "fnDropT = drop_register REGISTER_T"

fun drop_times :: "nat \<Rightarrow> machine \<Rightarrow> crash + machine" where
  "drop_times 0 m = Inr m"
| "drop_times (Suc n) m = andThen (drop_register REGISTER_X m) (drop_times n)"

definition fnDropN :: "nat \<Rightarrow> machine \<Rightarrow> crash + machine" where
  "fnDropN number = drop_times (min 8 number)"

section \<open>Rolling and swapping\<close>

definition fnRollUp :: "machine \<Rightarrow> machine" where
  "fnRollUp m =
     (let saved = globalRegister m ! getStackTop m
      in set_global REGISTER_X saved (move_headers (shift_up (getStackTop m)) m))"

definition fnRollDown :: "machine \<Rightarrow> machine" where
  "fnRollDown m =
     (let saved = globalRegister m ! REGISTER_X
      in set_global (getStackTop m) saved (move_headers (shift_down REGISTER_X (getStackTop m)) m))"

definition fnDisplayStack :: "nat \<Rightarrow> machine \<Rightarrow> machine" where
  "fnDisplayStack numberOfStackLines m = m\<lparr>displayStack := numberOfStackLines mod 256\<rparr>"

text \<open>
  Only the upper bounds of the tables are tested: a number below a table selects an entry before it.
\<close>

definition swapRegs :: "nat \<Rightarrow> nat \<Rightarrow> machine \<Rightarrow> crash + machine" where
  "swapRegs srcReg regist m =
     (let saved = globalRegister m ! srcReg;
          locals = (case currentLocalRegisters m of None \<Rightarrow> [] | Some ls \<Rightarrow> ls)
      in if regist \<le> LAST_GLOBAL_REGISTER then
           Inr (set_global regist saved (set_global srcReg (globalRegister m ! regist) m))
         else if regist < FIRST_NAMED_VARIABLE + length (namedVariables m) then
           (if regist < FIRST_NAMED_VARIABLE then Inl WildAccess
            else Inr ((set_global srcReg (namedVariables m ! (regist - FIRST_NAMED_VARIABLE)) m)
                        \<lparr>namedVariables := (namedVariables m)[regist - FIRST_NAMED_VARIABLE := saved]\<rparr>))
         else if regist < FIRST_LOCAL_REGISTER + length locals then
           (if regist < FIRST_LOCAL_REGISTER then Inl WildAccess
            else Inr ((set_global srcReg (locals ! (regist - FIRST_LOCAL_REGISTER)) m)
                        \<lparr>currentLocalRegisters := Some (locals[regist - FIRST_LOCAL_REGISTER := saved])\<rparr>))
         else Inr (displayCalcErrorMessage ERROR_OUT_OF_RANGE ERR_REGISTER_LINE m))"

definition fnSwapX :: "nat \<Rightarrow> machine \<Rightarrow> crash + machine" where "fnSwapX = swapRegs REGISTER_X"
definition fnSwapY :: "nat \<Rightarrow> machine \<Rightarrow> crash + machine" where "fnSwapY = swapRegs REGISTER_Y"
definition fnSwapZ :: "nat \<Rightarrow> machine \<Rightarrow> crash + machine" where "fnSwapZ = swapRegs REGISTER_Z"
definition fnSwapT :: "nat \<Rightarrow> machine \<Rightarrow> crash + machine" where "fnSwapT = swapRegs REGISTER_T"

fun swap_block :: "nat \<Rightarrow> nat list \<Rightarrow> machine \<Rightarrow> crash + machine" where
  "swap_block number [] m = Inr m"
| "swap_block number (n # ns) m =
     andThen (swapRegs (REGISTER_X + n) (REGISTER_X + number + n) m) (swap_block number ns)"

definition fnSwapN :: "nat \<Rightarrow> machine \<Rightarrow> crash + machine" where
  "fnSwapN number = swap_block number [0 ..< min 4 number]"

definition fnSwapXY :: "machine \<Rightarrow> machine" where
  "fnSwapXY m =
     (let saved = globalRegister m ! REGISTER_X
      in set_global REGISTER_Y saved (set_global REGISTER_X (globalRegister m ! REGISTER_Y) m))"

section \<open>Shuffling and filling\<close>

definition exchange_saved :: "machine \<Rightarrow> machine" where
  "exchange_saved m =
     fold (\<lambda>i m1. let saved = globalRegister m1 ! (REGISTER_X + i) in
             set_global (i + SAVED_REGISTER_X) saved (set_global (REGISTER_X + i) (globalRegister m1 ! (i + SAVED_REGISTER_X)) m1))
       [0 ..< 4] m"

fun shuffle_copy :: "(nat \<Rightarrow> machine \<Rightarrow> machine) \<Rightarrow> nat \<Rightarrow> nat list \<Rightarrow> machine \<Rightarrow> crash + machine" where
  "shuffle_copy tvm_sync regist_order [] m = Inr m"
| "shuffle_copy tvm_sync regist_order (i # ns) m =
     andThen (copySourceRegisterToDestRegister tvm_sync
                (SAVED_REGISTER_X + (drop_bit (i * 2) regist_order AND 3)) (REGISTER_X + i) m)
       (shuffle_copy tvm_sync regist_order ns)"

definition fnShuffle :: "(nat \<Rightarrow> machine \<Rightarrow> machine) \<Rightarrow> nat \<Rightarrow> machine \<Rightarrow> crash + machine" where
  "fnShuffle tvm_sync regist_order m = shuffle_copy tvm_sync regist_order [0 ..< 4] (exchange_saved m)"

fun fill_registers :: "nat \<Rightarrow> nat \<Rightarrow> nat \<Rightarrow> nat list \<Rightarrow> machine \<Rightarrow> crash + machine" where
  "fill_registers dataTypeX dataSizeX tagX [] m = Inr m"
| "fill_registers dataTypeX dataSizeX tagX (i # rs) m =
     andThen (freeRegisterData i m)
       (\<lambda>m1. let m2 = setRegisterDataType i dataTypeX tagX m1; (p, m3) = alloc_blocks dataSizeX m2 in
          case p of
            None \<Rightarrow> Inr (m3\<lparr>lastErrorCode := ERROR_RAM_FULL\<rparr>)
          | Some _ \<Rightarrow>
              (let m4 = setRegisterDataPointer i p m3 in
               andThen (copy_blocks i REGISTER_X dataSizeX m4) (fill_registers dataTypeX dataSizeX tagX rs)))"

definition fnFillStack :: "machine \<Rightarrow> crash + machine" where
  "fnFillStack m =
     fill_registers (getRegisterDataType REGISTER_X m) (getRegisterFullSizeInBlocks REGISTER_X m) (getRegisterTag REGISTER_X m)
       [REGISTER_Y ..< Suc (getStackTop m)] m"

end
