(* ===== verification/BitOps.thy ===== *)
theory BitOps
  imports Stack
begin

text \<open>
  The bit commands on short integers, \<^verbatim>\<open>logicalOps/\<close>: shifts and rotations with and without the
  CARRY flag, justification, mirror, byte order, zip and unzip, masks, single bits, bit count and the
  logical operations.  A command reads register X as a short integer, saves it in L and writes its
  result to X; the loops are those of the source.

  What they rely on in other components is the argument record \<open>env\<close>: the interface effects of flag
  changes, \<^verbatim>\<open>tvmSyncIp\<close>, the conversion \<^verbatim>\<open>getRegisterAsShortInt\<close> of a register of another type (sign,
  magnitude, overflow, fraction; or an error shown), and the rounding and range checks of real results.
\<close>

section \<open>Input and result\<close>

record env =
  env_ui :: "machine flag_ui"
  env_tvm_sync :: "nat \<Rightarrow> machine \<Rightarrow> machine"
  env_as_short_int :: "nat \<Rightarrow> machine \<Rightarrow> (bool \<times> u64 \<times> bool \<times> bool) option \<times> machine"
  env_adjust_real :: "nat \<Rightarrow> machine \<Rightarrow> machine"

definition badDomainError :: "machine \<Rightarrow> machine" where
  "badDomainError m = displayCalcErrorMessage ERROR_ARG_EXCEEDS_FUNCTION_DOMAIN ERR_REGISTER_LINE m"

definition getRegisterAsRawShortInt :: "env \<Rightarrow> nat \<Rightarrow> machine \<Rightarrow> (u64 \<times> nat) option \<times> machine" where
  "getRegisterAsRawShortInt e reg m =
     (if getRegisterDataType reg m = dtShortInteger then (Some (read_short_integer reg m, getRegisterTag reg m), m)
      else case env_as_short_int e reg m of
             (None, m1) \<Rightarrow> (None, m1)
           | (Some (sign, v, overflow, fractional), m1) \<Rightarrow>
               (if overflow \<or> fractional then (None, badDomainError m1)
                else (Some (build_value v sign m1, if lastIntegerBase m1 \<noteq> 0 then lastIntegerBase m1 else 10), m1)))"

definition getShiftInput :: "env \<Rightarrow> machine \<Rightarrow> crash + ((u64 \<times> nat) option \<times> machine)" where
  "getShiftInput e m =
     (case getRegisterAsRawShortInt e REGISTER_X m of
        (None, m1) \<Rightarrow> Inr (None, displayCalcErrorMessage ERROR_INVALID_DATA_TYPE_FOR_OP ERR_REGISTER_LINE m1)
      | (Some wb, m1) \<Rightarrow>
          andThen (saveLastX (env_tvm_sync e) m1) (\<lambda>(ok, m2). Inr (if ok then Some wb else None, m2)))"

definition with_input ::
    "(crash + ((u64 \<times> nat) option \<times> machine)) \<Rightarrow> (u64 \<Rightarrow> nat \<Rightarrow> machine \<Rightarrow> crash + machine) \<Rightarrow> crash + machine" where
  "with_input r f =
     andThen r (\<lambda>(wb, m). case wb of None \<Rightarrow> Inr m | Some (w, base) \<Rightarrow> f w base m)"

definition store_short_integer :: "nat \<Rightarrow> (machine \<Rightarrow> u64) \<Rightarrow> nat \<Rightarrow> machine \<Rightarrow> crash + machine" where
  "store_short_integer regist w base m =
     andThen (reallocateRegister regist dtShortInteger SHORT_INTEGER_SIZE_IN_BLOCKS base m)
       (\<lambda>m1. write_short_integer regist (w m1) m1)"

definition setShiftResult :: "u64 \<Rightarrow> nat \<Rightarrow> machine \<Rightarrow> crash + machine" where
  "setShiftResult w = store_short_integer REGISTER_X (\<lambda>m. w AND shortIntegerMask m)"

section \<open>Shifts and rotations\<close>

text \<open>The common loop: the bit that falls out last goes to CARRY; without any step CARRY is kept.\<close>

fun shift_loop :: "machine flag_ui \<Rightarrow> (u64 \<Rightarrow> bool) \<Rightarrow> (u64 \<Rightarrow> u64) \<Rightarrow> nat \<Rightarrow> u64 \<Rightarrow> machine \<Rightarrow> u64 \<times> machine" where
  "shift_loop ui out step 0 w m = (w, m)"
| "shift_loop ui out step (Suc n) w m =
     shift_loop ui out step n (step w) (if n = 0 then forceSystemFlag ui FLAG_CARRY (out w) m else m)"

definition low_out :: "u64 \<Rightarrow> bool" where "low_out w \<longleftrightarrow> w AND 1 \<noteq> 0"
definition high_out :: "u64 \<Rightarrow> u64 \<Rightarrow> bool" where "high_out signBit w \<longleftrightarrow> w AND signBit \<noteq> 0"

definition asr_step :: "u64 \<Rightarrow> u64 \<Rightarrow> u64" where "asr_step sign w = drop_bit 1 w OR sign"
definition sl_step :: "u64 \<Rightarrow> u64" where "sl_step w = push_bit 1 w"
definition sr_step :: "u64 \<Rightarrow> u64" where "sr_step w = drop_bit 1 w"
definition rl_step :: "u64 \<Rightarrow> u64 \<Rightarrow> u64" where "rl_step signBit w = push_bit 1 w OR of_bool (high_out signBit w)"
definition rr_step :: "nat \<Rightarrow> u64 \<Rightarrow> u64" where "rr_step wordSize w = drop_bit 1 w OR push_bit (wordSize - 1) (w AND 1)"

definition shift_command ::
    "env \<Rightarrow> (u64 \<Rightarrow> machine \<Rightarrow> u64 \<Rightarrow> bool) \<Rightarrow> (u64 \<Rightarrow> machine \<Rightarrow> u64 \<Rightarrow> u64) \<Rightarrow> nat \<Rightarrow> machine \<Rightarrow> crash + machine" where
  "shift_command e out step numberOfShifts m =
     with_input (getShiftInput e m)
       (\<lambda>w base m1. let (w1, m2) = shift_loop (env_ui e) (out w m1) (step w m1) numberOfShifts w m1 in setShiftResult w1 base m2)"

definition fnAsr :: "env \<Rightarrow> nat \<Rightarrow> machine \<Rightarrow> crash + machine" where
  "fnAsr e = shift_command e (\<lambda>_ _. low_out) (\<lambda>w m. asr_step (w AND shortIntegerSignBit m))"

definition fnSl :: "env \<Rightarrow> nat \<Rightarrow> machine \<Rightarrow> crash + machine" where
  "fnSl e = shift_command e (\<lambda>_ m. high_out (shortIntegerSignBit m)) (\<lambda>_ _. sl_step)"

definition fnSr :: "env \<Rightarrow> nat \<Rightarrow> machine \<Rightarrow> crash + machine" where
  "fnSr e = shift_command e (\<lambda>_ _. low_out) (\<lambda>_ _. sr_step)"

definition fnRl :: "env \<Rightarrow> nat \<Rightarrow> machine \<Rightarrow> crash + machine" where
  "fnRl e = shift_command e (\<lambda>_ m. high_out (shortIntegerSignBit m)) (\<lambda>_ m. rl_step (shortIntegerSignBit m))"

definition fnRr :: "env \<Rightarrow> nat \<Rightarrow> machine \<Rightarrow> crash + machine" where
  "fnRr e = shift_command e (\<lambda>_ _. low_out) (\<lambda>_ m. rr_step (shortIntegerWordSize m))"

fun rlc_loop :: "u64 \<Rightarrow> nat \<Rightarrow> u64 \<Rightarrow> bool \<Rightarrow> u64 \<times> bool" where
  "rlc_loop signBit 0 w carry = (w, carry)"
| "rlc_loop signBit (Suc n) w carry = rlc_loop signBit n (push_bit 1 w OR of_bool carry) (high_out signBit w)"

fun rrc_loop :: "nat \<Rightarrow> nat \<Rightarrow> u64 \<Rightarrow> bool \<Rightarrow> u64 \<times> bool" where
  "rrc_loop wordSize 0 w carry = (w, carry)"
| "rrc_loop wordSize (Suc n) w carry =
     rrc_loop wordSize n (drop_bit 1 w OR push_bit (wordSize - 1) (of_bool carry)) (low_out w)"

definition carry_command ::
    "env \<Rightarrow> (machine \<Rightarrow> u64 \<Rightarrow> bool \<Rightarrow> u64 \<times> bool) \<Rightarrow> machine \<Rightarrow> crash + machine" where
  "carry_command e rotation m =
     with_input (getShiftInput e m)
       (\<lambda>w base m1. let (w1, carry) = rotation m1 w (getSystemFlag FLAG_CARRY m1)
                     in setShiftResult w1 base (forceSystemFlag (env_ui e) FLAG_CARRY carry m1))"

definition fnRlc :: "env \<Rightarrow> nat \<Rightarrow> machine \<Rightarrow> crash + machine" where
  "fnRlc e numberOfShifts = carry_command e (\<lambda>m. rlc_loop (shortIntegerSignBit m) numberOfShifts)"

definition fnRrc :: "env \<Rightarrow> nat \<Rightarrow> machine \<Rightarrow> crash + machine" where
  "fnRrc e numberOfShifts = carry_command e (\<lambda>m. rrc_loop (shortIntegerWordSize m) numberOfShifts)"

section \<open>Justification\<close>

text \<open>The builtins of the compiler: leading and trailing zeros (of a word other than 0), ones.\<close>

definition builtin_clzll :: "u64 \<Rightarrow> nat" where
  "builtin_clzll w = length (takeWhile Not (map (bit w) (rev [0 ..< 64])))"

definition builtin_ctzll :: "u64 \<Rightarrow> nat" where
  "builtin_ctzll w = length (takeWhile Not (map (bit w) [0 ..< 64]))"

definition builtin_popcountll :: "u64 \<Rightarrow> nat" where
  "builtin_popcountll w = length (filter (bit w) [0 ..< 64])"

definition lj_result :: "nat \<Rightarrow> u64 \<Rightarrow> u64 \<Rightarrow> nat \<times> u64" where
  "lj_result wordSize wmask w0 =
     (let w = w0 AND wmask in
      if w = 0 then (wordSize, w)
      else (let n = builtin_clzll w - (64 - wordSize) in (n, push_bit n w)))"

definition rj_result :: "nat \<Rightarrow> u64 \<Rightarrow> u64 \<Rightarrow> nat \<times> u64" where
  "rj_result wordSize wmask w =
     (if w = 0 then (wordSize, w) else (let n = builtin_ctzll (w OR NOT wmask) in (n, drop_bit n w)))"

definition justifyResultToRegisters :: "env \<Rightarrow> nat \<Rightarrow> nat \<Rightarrow> u64 \<Rightarrow> machine \<Rightarrow> crash + machine" where
  "justifyResultToRegisters e n base val m =
     andThen (setShiftResult val base m)
       (\<lambda>m1. andThen (liftStack (setSystemFlag (env_ui e) FLAG_ASLIFT m1))
         (convertLongIntegerToLongIntegerRegister (if n = 0 then [] else [of_nat n]) (if n = 0 then LI_ZERO else LI_POSITIVE) REGISTER_X))"

definition fnLj :: "env \<Rightarrow> machine \<Rightarrow> crash + machine" where
  "fnLj e m =
     with_input (getShiftInput e m)
       (\<lambda>w base m1. let (n, w1) = lj_result (shortIntegerWordSize m1) (shortIntegerMask m1) w in justifyResultToRegisters e n base w1 m1)"

definition fnRj :: "env \<Rightarrow> machine \<Rightarrow> crash + machine" where
  "fnRj e m =
     with_input (getShiftInput e m)
       (\<lambda>w base m1. let (n, w1) = rj_result (shortIntegerWordSize m1) (shortIntegerMask m1) w in justifyResultToRegisters e n base w1 m1)"

section \<open>Mirror, byte order, zip\<close>

definition mirror_bits :: "nat \<Rightarrow> u64 \<Rightarrow> u64" where
  "mirror_bits wordSize x =
     fold (\<lambda>i r. if x AND push_bit i 1 \<noteq> 0 then r OR push_bit (wordSize - i - 1) 1 else r) [0 ..< wordSize] 0"

definition fnMirror :: "env \<Rightarrow> machine \<Rightarrow> crash + machine" where
  "fnMirror e m =
     with_input (getShiftInput e m) (\<lambda>x base m1. setShiftResult (mirror_bits (shortIntegerWordSize m1) x) base m1)"

definition byte_of :: "u64 \<Rightarrow> nat \<Rightarrow> u64" where
  "byte_of x k = drop_bit (8 * k) (x AND push_bit (8 * k) 0xFF)"

text \<open>\<open>(b0 << 16) | (b1 << 8) | b2\<close> and so on: the first byte is the most significant one.\<close>

definition join_bytes :: "u64 list \<Rightarrow> u64" where
  "join_bytes bs = foldl (\<lambda>r b. push_bit 8 r OR b) 0 bs"

definition swap_bytes :: "nat \<Rightarrow> nat \<Rightarrow> u64 \<Rightarrow> u64" where
  "swap_bytes bitWidth wordSize x =
     (if bitWidth = 8 then
        (if wordSize \<in> set [16, 24, 32, 40, 48, 56, 64] then join_bytes (map (byte_of x) [0 ..< wordSize div 8]) else x)
      else if bitWidth = 16 then
        (if wordSize = 32 then join_bytes (map (byte_of x) [1, 0, 3, 2])
         else if wordSize = 48 then join_bytes (map (byte_of x) [1, 0, 3, 2, 5, 4])
         else if wordSize = 64 then join_bytes (map (byte_of x) [1, 0, 3, 2, 5, 4, 7, 6])
         else x)
      else x)"

definition adjust_word_size :: "nat \<Rightarrow> machine \<Rightarrow> crash + machine" where
  "adjust_word_size bitWidth m =
     (let ws = shortIntegerWordSize m in
      if bitWidth = 8 \<or> bitWidth = 16 then
        (if ws < 2 * bitWidth then fnSetWordSize (2 * bitWidth) m
         else if ws AND (bitWidth - 1) \<noteq> 0 then fnSetWordSize ((ws OR (bitWidth - 1)) + 1) m
         else Inr m)
      else Inr m)"

definition fnSwapEndian :: "env \<Rightarrow> nat \<Rightarrow> machine \<Rightarrow> crash + machine" where
  "fnSwapEndian e bitWidth m =
     with_input (getShiftInput e m)
       (\<lambda>x base m1. andThen (adjust_word_size bitWidth m1)
          (\<lambda>m2. setShiftResult (swap_bytes bitWidth (shortIntegerWordSize m2) x) base m2))"

text \<open>
  \<^verbatim>\<open>adjustResult\<close>; the operands are those given, the rounding and range checks of a result that is a
  real, complex, time, date or matrix are in \<open>env\<close>.
\<close>

definition adjustResult :: "env \<Rightarrow> nat \<Rightarrow> bool \<Rightarrow> bool \<Rightarrow> nat list \<Rightarrow> machine \<Rightarrow> crash + machine" where
  "adjustResult e res dropY setCpxRes operands m =
     (let oneArgumentIsComplex = list_ex (\<lambda>r. getRegisterDataType r m = dtComplex34 \<or> getRegisterDataType r m = dtComplex34Matrix) operands;
          resultDataType = getRegisterDataType res m;
          m1 = (if lastErrorCode m = ERROR_NONE \<and>
                   resultDataType \<in> set [dtReal34, dtComplex34, dtTime, dtDate, dtReal34Matrix, dtComplex34Matrix]
                then env_adjust_real e res m else m)
      in if lastErrorCode m1 \<noteq> ERROR_NONE then Inr m1
         else
           (let m2 = (if setCpxRes \<and> oneArgumentIsComplex \<and> resultDataType \<noteq> dtString \<and> \<not> getSystemFlag FLAG_CPXRES m1
                      then fnSetFlag (env_ui e) FLAG_CPXRES m1 else m1)
            in if dropY then fnDropY m2 else Inr m2))"

fun zip_loop :: "nat \<Rightarrow> nat \<Rightarrow> u64 \<Rightarrow> u64 \<Rightarrow> u64 \<Rightarrow> u64 \<Rightarrow> u64" where
  "zip_loop 0 j wmask x y r = r"
| "zip_loop (Suc n) j wmask x y r =
     zip_loop n (j + 1) (wmask + wmask) x y (r OR push_bit j (x AND wmask) OR push_bit (j + 1) (y AND wmask))"

fun unzip_loop :: "nat \<Rightarrow> nat \<Rightarrow> u64 \<Rightarrow> u64 \<Rightarrow> u64 \<Rightarrow> u64 \<Rightarrow> u64 \<times> u64" where
  "unzip_loop 0 j wmask a x y = (x, y)"
| "unzip_loop (Suc n) j wmask a x y =
     (let mask2 = wmask + wmask in
      unzip_loop n (j + 1) (mask2 + mask2) a (x OR drop_bit j (a AND wmask)) (y OR drop_bit (j + 1) (a AND mask2)))"

definition fnZip :: "env \<Rightarrow> machine \<Rightarrow> crash + machine" where
  "fnZip e m =
     (case getRegisterAsRawShortInt e REGISTER_Y m of
        (None, m1) \<Rightarrow> Inr (displayCalcErrorMessage ERROR_INVALID_DATA_TYPE_FOR_OP ERR_REGISTER_LINE m1)
      | (Some (y, _), m1) \<Rightarrow>
          with_input (getShiftInput e m1)
            (\<lambda>x base m2. andThen (setShiftResult (zip_loop (shortIntegerWordSize m2 div 2) 0 1 x y 0) base m2)
               (adjustResult e REGISTER_X True True [REGISTER_X, REGISTER_Y])))"

definition fnUnzip :: "env \<Rightarrow> machine \<Rightarrow> crash + machine" where
  "fnUnzip e m =
     with_input (getShiftInput e m)
       (\<lambda>a base m1. andThen (liftStack (setSystemFlag (env_ui e) FLAG_ASLIFT m1))
          (\<lambda>m2. let (x, y) = unzip_loop (shortIntegerWordSize m2 div 2) 0 1 a 0 0 in
             andThen (store_short_integer REGISTER_Y (\<lambda>m3. y AND shortIntegerMask m3) base m2) (setShiftResult x base)))"

section \<open>Masks\<close>

definition left_mask :: "nat \<Rightarrow> nat \<Rightarrow> u64 \<Rightarrow> u64" where
  "left_mask numberOfBits wordSize wmask =
     (if numberOfBits = 0 then 0 else if numberOfBits \<ge> wordSize then wmask
      else push_bit (wordSize - numberOfBits) ((push_bit numberOfBits 1 - 1) AND wmask))"

definition right_mask :: "nat \<Rightarrow> nat \<Rightarrow> u64 \<Rightarrow> u64" where
  "right_mask numberOfBits wordSize wmask =
     (if numberOfBits = 0 then 0 else if numberOfBits \<ge> wordSize then wmask else push_bit numberOfBits 1 - 1)"

definition word_size_error :: "machine \<Rightarrow> machine" where
  "word_size_error m = displayCalcErrorMessage ERROR_WORD_SIZE_TOO_SMALL ERR_REGISTER_LINE m"

definition mask_command :: "(nat \<Rightarrow> nat \<Rightarrow> u64 \<Rightarrow> u64) \<Rightarrow> nat \<Rightarrow> machine \<Rightarrow> crash + machine" where
  "mask_command f numberOfBits m =
     (if numberOfBits > shortIntegerWordSize m then Inr (word_size_error m)
      else andThen (liftStack m)
        (\<lambda>m1. store_short_integer REGISTER_X (\<lambda>_. f numberOfBits (shortIntegerWordSize m1) (shortIntegerMask m1)) 2 m1))"

definition fnMaskl :: "nat \<Rightarrow> machine \<Rightarrow> crash + machine" where "fnMaskl = mask_command left_mask"
definition fnMaskr :: "nat \<Rightarrow> machine \<Rightarrow> crash + machine" where "fnMaskr = mask_command right_mask"

section \<open>Single bits\<close>

definition raw_input_saved :: "env \<Rightarrow> machine \<Rightarrow> crash + ((u64 \<times> nat) option \<times> machine)" where
  "raw_input_saved e m =
     (case getRegisterAsRawShortInt e REGISTER_X m of
        (None, m1) \<Rightarrow> Inr (None, m1)
      | (Some wb, m1) \<Rightarrow>
          andThen (saveLastX (env_tvm_sync e) m1) (\<lambda>(ok, m2). Inr (if ok then Some wb else None, m2)))"

definition bit_command :: "env \<Rightarrow> (u64 \<Rightarrow> u64 \<Rightarrow> u64) \<Rightarrow> nat \<Rightarrow> machine \<Rightarrow> crash + machine" where
  "bit_command e f b m =
     (if b \<ge> shortIntegerWordSize m then Inr (word_size_error m)
      else with_input (raw_input_saved e m) (\<lambda>w base m1. setShiftResult (f w (push_bit b 1)) base m1))"

definition fnCb :: "env \<Rightarrow> nat \<Rightarrow> machine \<Rightarrow> crash + machine" where "fnCb e = bit_command e (\<lambda>w b. w AND NOT b)"
definition fnSb :: "env \<Rightarrow> nat \<Rightarrow> machine \<Rightarrow> crash + machine" where "fnSb e = bit_command e (\<lambda>w b. w OR b)"
definition fnFb :: "env \<Rightarrow> nat \<Rightarrow> machine \<Rightarrow> crash + machine" where "fnFb e = bit_command e (\<lambda>w b. w XOR b)"

definition bit_test :: "env \<Rightarrow> bool \<Rightarrow> nat \<Rightarrow> machine \<Rightarrow> machine" where
  "bit_test e expected b m =
     (if b \<ge> shortIntegerWordSize m then word_size_error m
      else case getRegisterAsRawShortInt e REGISTER_X m of
             (None, m1) \<Rightarrow> m1
           | (Some (w, _), m1) \<Rightarrow>
               SET_TI_TRUE_FALSE ((w AND push_bit b 1 \<noteq> 0) = expected) (m1\<lparr>thereIsSomethingToUndo := False\<rparr>))"

definition fnBc :: "env \<Rightarrow> nat \<Rightarrow> machine \<Rightarrow> machine" where "fnBc e = bit_test e False"
definition fnBs :: "env \<Rightarrow> nat \<Rightarrow> machine \<Rightarrow> machine" where "fnBs e = bit_test e True"

definition fnCountBits :: "env \<Rightarrow> machine \<Rightarrow> crash + machine" where
  "fnCountBits e m =
     with_input (raw_input_saved e m)
       (\<lambda>w base m1. convertUInt64ToShortIntegerRegister False (of_nat (builtin_popcountll w)) base REGISTER_X m1)"

section \<open>Logical operations\<close>

definition dyadic_ShoI :: "(u64 \<Rightarrow> u64 \<Rightarrow> u64) \<Rightarrow> machine \<Rightarrow> crash + machine" where
  "dyadic_ShoI f m =
     andThen (write_short_integer REGISTER_X (f (read_short_integer REGISTER_X m) (read_short_integer REGISTER_Y m)) m)
       (\<lambda>m1. Inr (setRegisterTag REGISTER_X (getRegisterTag REGISTER_Y m1) m1))"

definition andShoI :: "machine \<Rightarrow> crash + machine" where "andShoI = dyadic_ShoI (AND)"
definition orShoI :: "machine \<Rightarrow> crash + machine" where "orShoI = dyadic_ShoI (OR)"
definition xorShoI :: "machine \<Rightarrow> crash + machine" where "xorShoI = dyadic_ShoI (XOR)"
definition nandShoI :: "machine \<Rightarrow> crash + machine" where
  "nandShoI m = dyadic_ShoI (\<lambda>x y. NOT (x AND y) AND shortIntegerMask m) m"
definition norShoI :: "machine \<Rightarrow> crash + machine" where
  "norShoI m = dyadic_ShoI (\<lambda>x y. NOT (x OR y) AND shortIntegerMask m) m"
definition xnorShoI :: "machine \<Rightarrow> crash + machine" where
  "xnorShoI m = dyadic_ShoI (\<lambda>x y. NOT (x XOR y) AND shortIntegerMask m) m"
definition notShoI :: "machine \<Rightarrow> crash + machine" where
  "notShoI m = write_short_integer REGISTER_X (NOT (read_short_integer REGISTER_X m) AND shortIntegerMask m) m"

end
