(* ===== verification/ShortIntLaws.thy ===== *)
theory ShortIntLaws
  imports ShortInt FlagProps
begin

text \<open>
  The value of a short integer.  Under a consistent state a word of the current size stands for an
  integer, \<open>si_val\<close>, in the range of the mode; masking is reduction modulo \<open>2 ^ wordSize\<close>, so the
  64-bit computations of the code become integer arithmetic.  \<open>extract_value\<close> and \<open>build_value\<close> are
  the two directions between words and sign with magnitude.
\<close>

section \<open>Integer arithmetic modulo\<close>

lemma mod_once_above: "(m::int) \<le> a \<Longrightarrow> a < 2 * m \<Longrightarrow> a mod m = a - m"
proof -
  assume a: "m \<le> a" "a < 2 * m"
  have "a mod m = (a - m) mod m" by simp
  also have "\<dots> = a - m" using a by (intro mod_pos_pos_trivial) auto
  finally show ?thesis .
qed

lemma mod_once_below: "- (m::int) \<le> a \<Longrightarrow> a < 0 \<Longrightarrow> a mod m = a + m"
proof -
  assume a: "- m \<le> a" "a < 0"
  have "a mod m = (a + m) mod m" by simp
  also have "\<dots> = a + m" using a by (intro mod_pos_pos_trivial) auto
  finally show ?thesis .
qed

lemma dvd_64: "n \<le> 64 \<Longrightarrow> (2::int) ^ n dvd 18446744073709551616"
  using le_imp_power_dvd [of n 64 "2::int"] by simp

lemma uint_less_64 [simp]: "uint (w::u64) < 18446744073709551616"
  using uint_bounded [of w] by simp

text \<open>The wrap-around of the 64-bit operations is invisible below 64 bits.\<close>

lemma uint_arith_mod:
  fixes a b :: u64
  assumes "n \<le> 64"
  shows "uint (a + b) mod 2 ^ n = (uint a + uint b) mod 2 ^ n"
    and "uint (a - b) mod 2 ^ n = (uint a - uint b) mod 2 ^ n"
    and "uint (a * b) mod 2 ^ n = (uint a * uint b) mod 2 ^ n"
    and "uint (- a) mod 2 ^ n = (- uint a) mod 2 ^ n"
    and "uint (NOT a) mod 2 ^ n = (- uint a - 1) mod 2 ^ n"
proof -
  have sub: "uint (a - b) mod 2 ^ n = (uint a - uint b) mod 2 ^ n" for a b :: u64
    by (simp add: uint_word_ariths mod_mod_cancel [OF dvd_64 [OF assms]])
  have neg: "uint (- a) mod 2 ^ n = (- uint a) mod 2 ^ n" for a :: u64
    by (simp add: uint_word_ariths mod_mod_cancel [OF dvd_64 [OF assms]])
  show "uint (a + b) mod 2 ^ n = (uint a + uint b) mod 2 ^ n"
    "uint (a * b) mod 2 ^ n = (uint a * uint b) mod 2 ^ n"
    by (simp_all add: uint_word_ariths mod_mod_cancel [OF dvd_64 [OF assms]])
  show "uint (a - b) mod 2 ^ n = (uint a - uint b) mod 2 ^ n" by (rule sub)
  show "uint (- a) mod 2 ^ n = (- uint a) mod 2 ^ n" by (rule neg)
  have "NOT a = - a - 1" by (simp add: not_eq_complement)
  then have "uint (NOT a) mod 2 ^ n = (uint (- a) - 1) mod 2 ^ n"
    using sub [of "- a" 1] by simp
  also have "\<dots> = (uint (- a) mod 2 ^ n - 1) mod 2 ^ n" by (simp add: mod_diff_left_eq)
  also have "\<dots> = (- uint a - 1) mod 2 ^ n" by (simp add: neg mod_diff_left_eq)
  finally show "uint (NOT a) mod 2 ^ n = (- uint a - 1) mod 2 ^ n" .
qed

section \<open>Consistent states\<close>

definition si_ok :: "'a calc_scheme \<Rightarrow> bool" where
  "si_ok s \<longleftrightarrow> 1 \<le> shortIntegerWordSize s \<and> shortIntegerWordSize s \<le> 64 \<and> shortIntegerMode s \<le> 3 \<and>
     shortIntegerMask s = mask (shortIntegerWordSize s) \<and>
     shortIntegerSignBit s = push_bit (shortIntegerWordSize s - 1) 1"

lemma updateShortIntegerMasks_ok:
  assumes "1 \<le> shortIntegerWordSize s" "shortIntegerWordSize s \<le> 64" "shortIntegerMode s \<le> 3"
  shows "si_ok (updateShortIntegerMasks s)"
proof -
  have "(mask 64 :: u64) = - 1" using mask_full [where ?'a = 64] by simp
  with assms show ?thesis by (auto simp: si_ok_def updateShortIntegerMasks_def mask_eq_exp_minus_1)
qed

text \<open>Half the range and the range of words.\<close>

definition si_half :: "'a calc_scheme \<Rightarrow> int" where
  "si_half s = 2 ^ (shortIntegerWordSize s - 1)"

definition si_wf :: "'a calc_scheme \<Rightarrow> u64 \<Rightarrow> bool" where
  "si_wf s x \<longleftrightarrow> uint x < 2 * si_half s"

lemma si_half_pos [simp]: "0 < si_half s"
  by (simp add: si_half_def)

lemma two_half: "si_ok s \<Longrightarrow> 2 ^ shortIntegerWordSize s = 2 * si_half s"
  by (cases "shortIntegerWordSize s") (auto simp: si_ok_def si_half_def)

lemma half_le: "si_ok s \<Longrightarrow> si_half s \<le> 9223372036854775808"
proof -
  assume "si_ok s"
  then have "(2::int) ^ (shortIntegerWordSize s - 1) \<le> 2 ^ 63" by (intro power_increasing) (auto simp: si_ok_def)
  then show ?thesis by (simp add: si_half_def)
qed

lemma uint_mask: "si_ok s \<Longrightarrow> uint (w AND shortIntegerMask s) = uint w mod (2 * si_half s)"
proof -
  assume ok: "si_ok s"
  then have "w AND shortIntegerMask s = take_bit (shortIntegerWordSize s) w"
    by (simp add: si_ok_def take_bit_eq_mask)
  then have "uint (w AND shortIntegerMask s) = take_bit (shortIntegerWordSize s) (uint w)"
    using ok by (simp add: unsigned_take_bit_eq si_ok_def)
  then show ?thesis using two_half [OF ok] by (simp add: take_bit_eq_mod)
qed

lemma mask_wf [simp]: "si_ok s \<Longrightarrow> si_wf s (w AND shortIntegerMask s)"
  by (simp add: si_wf_def uint_mask)

lemma uint_mask_wf: "si_ok s \<Longrightarrow> si_wf s x \<Longrightarrow> uint (x AND shortIntegerMask s) = uint x"
  by (simp add: uint_mask si_wf_def mod_pos_pos_trivial)

lemma mask_id: "si_ok s \<Longrightarrow> si_wf s x \<Longrightarrow> x AND shortIntegerMask s = x"
  by (simp add: word_uint_eq_iff uint_mask_wf)

lemma uint_arith_half:
  fixes a b :: u64
  assumes "si_ok s"
  shows "uint (a + b) mod (2 * si_half s) = (uint a + uint b) mod (2 * si_half s)"
    and "uint (a - b) mod (2 * si_half s) = (uint a - uint b) mod (2 * si_half s)"
    and "uint (a * b) mod (2 * si_half s) = (uint a * uint b) mod (2 * si_half s)"
    and "uint (- a) mod (2 * si_half s) = (- uint a) mod (2 * si_half s)"
    and "uint (NOT a) mod (2 * si_half s) = (- uint a - 1) mod (2 * si_half s)"
  using uint_arith_mod [of "shortIntegerWordSize s" a] assms
  by (simp_all add: two_half [OF assms, symmetric] si_ok_def)

lemma uint_signbit: "si_ok s \<Longrightarrow> uint (shortIntegerSignBit s) = si_half s"
proof -
  assume ok: "si_ok s"
  then have lt: "shortIntegerWordSize s - 1 < 64" by (auto simp: si_ok_def)
  have "uint ((2::u64) ^ (shortIntegerWordSize s - 1)) = 2 ^ (shortIntegerWordSize s - 1)"
  proof -
    have "(2::int) ^ (shortIntegerWordSize s - 1) < 2 ^ 64" using lt by (intro power_strict_increasing) auto
    then have "take_bit 64 ((2::int) ^ (shortIntegerWordSize s - 1)) = 2 ^ (shortIntegerWordSize s - 1)"
      by (intro take_bit_int_eq_self) auto
    moreover have "uint (push_bit (shortIntegerWordSize s - 1) (1::u64)) =
        take_bit LENGTH(64) (push_bit (shortIntegerWordSize s - 1) (uint (1::u64)))"
      by (rule unsigned_push_bit_eq)
    ultimately show ?thesis by simp
  qed
  with ok show ?thesis by (simp add: si_ok_def si_half_def)
qed

lemma signbit_test:
  assumes ok: "si_ok s" and x: "si_wf s x"
  shows "(x AND shortIntegerSignBit s \<noteq> 0) = (si_half s \<le> uint x)"
proof -
  let ?n = "shortIntegerWordSize s - 1"
  have "(x AND shortIntegerSignBit s \<noteq> 0) = bit (uint x) ?n"
    using ok by (auto simp: si_ok_def and_exp_eq_0_iff_not_bit bit_uint_iff dest: bit_u64_imp_less)
  also have "\<dots> = odd (uint x div si_half s)" by (simp add: bit_iff_odd si_half_def)
  also have "\<dots> = (si_half s \<le> uint x)"
  proof (cases "si_half s \<le> uint x")
    case True
    then have "uint x div si_half s = 1" using x by (intro int_div_pos_eq [of _ _ _ "uint x - si_half s"]) (auto simp: si_wf_def)
    with True show ?thesis by simp
  next
    case False
    then have "uint x div si_half s = 0" by (intro div_pos_pos_trivial) auto
    with False show ?thesis by simp
  qed
  finally show ?thesis .
qed

section \<open>Values\<close>

definition si_val :: "'a calc_scheme \<Rightarrow> u64 \<Rightarrow> int" where
  "si_val s x =
     (let n = uint x; h = si_half s in
      if shortIntegerMode s = SIM_UNSIGN \<or> n < h then n
      else if shortIntegerMode s = SIM_2COMPL then n - 2 * h
      else if shortIntegerMode s = SIM_1COMPL then n - (2 * h - 1)
      else h - n)"

definition si_min :: "'a calc_scheme \<Rightarrow> int" where
  "si_min s =
     (if shortIntegerMode s = SIM_UNSIGN then 0
      else if shortIntegerMode s = SIM_2COMPL then - si_half s else - (si_half s - 1))"

definition si_max :: "'a calc_scheme \<Rightarrow> int" where
  "si_max s = (if shortIntegerMode s = SIM_UNSIGN then 2 * si_half s - 1 else si_half s - 1)"

definition si_neg :: "'a calc_scheme \<Rightarrow> u64 \<Rightarrow> bool" where
  "si_neg s x \<longleftrightarrow> shortIntegerMode s \<noteq> SIM_UNSIGN \<and> si_half s \<le> uint x"

definition si_fits :: "'a calc_scheme \<Rightarrow> int \<Rightarrow> bool" where
  "si_fits s v \<longleftrightarrow> si_min s \<le> v \<and> v \<le> si_max s"

lemma si_val_range: "si_wf s x \<Longrightarrow> si_fits s (si_val s x)"
proof -
  assume "si_wf s x"
  then obtain n h where "uint x = n" "si_half s = h" "0 \<le> n" "n < 2 * h" "0 < h" by (simp add: si_wf_def)
  then show ?thesis by (auto simp: si_fits_def si_min_def si_max_def si_val_def Let_def)
qed

definition si_mag :: "'a calc_scheme \<Rightarrow> int" where
  "si_mag s = max (si_max s) (- si_min s)"

lemma si_val_mag: "si_wf s x \<Longrightarrow> \<bar>si_val s x\<bar> \<le> si_mag s"
  using si_val_range [of s x] by (auto simp: si_fits_def si_mag_def)

lemma si_mode_cases:
  assumes "si_ok s"
  obtains (unsigned) "shortIntegerMode s = SIM_UNSIGN" | (ones) "shortIntegerMode s = SIM_1COMPL"
    | (twos) "shortIntegerMode s = SIM_2COMPL" | (signmag) "shortIntegerMode s = SIM_SIGNMT"
proof -
  have "shortIntegerMode s \<le> 3" using assms by (simp add: si_ok_def)
  then consider "shortIntegerMode s = 0" | "shortIntegerMode s = 1" | "shortIntegerMode s = 2" | "shortIntegerMode s = 3"
    by linarith
  then show thesis using that by cases auto
qed

lemma uint_xor_signbit:
  assumes ok: "si_ok s" and x: "si_wf s x" "si_half s \<le> uint x"
  shows "uint (x XOR shortIntegerSignBit s) = uint x - si_half s"
proof -
  let ?n = "shortIntegerWordSize s - 1"
  have b: "bit x ?n" using signbit_test [OF ok x(1)] x(2) ok by (simp add: si_ok_def and_exp_eq_0_iff_not_bit)
  have n64: "?n < 64" using ok by (auto simp: si_ok_def)
  have "x XOR shortIntegerSignBit s = x AND NOT (shortIntegerSignBit s)"
    by (rule bit_word_eqI) (use b ok in \<open>auto simp: si_ok_def bit_simps\<close>)
  moreover have "x = (x AND NOT (shortIntegerSignBit s)) + shortIntegerSignBit s"
  proof -
    have "(x AND NOT (shortIntegerSignBit s)) + shortIntegerSignBit s = (x AND NOT (shortIntegerSignBit s)) OR shortIntegerSignBit s"
      by (rule disjunctive_add) (auto simp: bit_simps)
    also have "\<dots> = x"
      by (rule bit_word_eqI) (use b ok in \<open>auto simp: si_ok_def bit_simps\<close>)
    finally show ?thesis by simp
  qed
  ultimately have "x XOR shortIntegerSignBit s = x - shortIntegerSignBit s" by (metis add_diff_cancel_right')
  moreover have "shortIntegerSignBit s \<le> x" using x(2) uint_signbit [OF ok] by (simp add: word_le_def)
  ultimately show ?thesis using uint_signbit [OF ok] by (simp add: uint_minus_simple_alt)
qed

lemma extract_value_val:
  assumes ok: "si_ok s" and x: "si_wf s x"
  shows "snd (extract_value x s) = si_neg s x" and "uint (fst (extract_value x s)) = \<bar>si_val s x\<bar>"
proof -
  let ?h = "si_half s"
  have xm: "x AND shortIntegerMask s = x" using ok x by (rule mask_id)
  have b: "0 \<le> uint x" "uint x < 2 * ?h" using x by (auto simp: si_wf_def)
  note sb = signbit_test [OF ok x]
  show "snd (extract_value x s) = si_neg s x"
    using sb by (simp add: extract_value_def Let_def xm si_neg_def)
  show "uint (fst (extract_value x s)) = \<bar>si_val s x\<bar>"
  proof (cases "si_half s \<le> uint x \<and> shortIntegerMode s \<noteq> SIM_UNSIGN")
    case False
    then show ?thesis using sb b xm by (auto simp: extract_value_def si_val_def Let_def)
  next
    case True
    have neg: "(- uint x) mod (2 * ?h) = 2 * ?h - uint x" using True b by (subst mod_once_below) auto
    have nt: "(- uint x - 1) mod (2 * ?h) = 2 * ?h - 1 - uint x" using True b by (subst mod_once_below) auto
    have xo: "(uint x - ?h) mod (2 * ?h) = uint x - ?h" using True b by (intro mod_pos_pos_trivial) auto
    show ?thesis using ok
    proof (cases rule: si_mode_cases)
      case ones
      then show ?thesis using True sb xm nt b ok
        by (simp add: extract_value_def si_val_def Let_def uint_mask uint_arith_half)
    next
      case twos
      then show ?thesis using True sb xm neg b ok
        by (simp add: extract_value_def si_val_def Let_def uint_mask uint_arith_half)
    next
      case signmag
      then show ?thesis using True sb xm xo b ok uint_xor_signbit [OF ok x]
        by (simp add: extract_value_def si_val_def Let_def uint_mask)
    qed (use True in simp)
  qed
qed

lemma extract_value_cases:
  assumes "si_ok s" "si_wf s x"
  obtains m where "extract_value x s = (m, si_neg s x)" "uint m = \<bar>si_val s x\<bar>"
  using extract_value_val [OF assms] by (cases "extract_value x s") auto

text \<open>The sign test agrees with the value, except for the negative zero of two modes.\<close>

lemma si_neg_val:
  assumes "si_wf s x"
  shows "si_neg s x \<Longrightarrow> si_val s x \<le> 0" and "\<not> si_neg s x \<Longrightarrow> 0 \<le> si_val s x"
proof -
  obtain n h where "uint x = n" "si_half s = h" "0 \<le> n" "n < 2 * h" "0 < h" using assms by (simp add: si_wf_def)
  then show "si_neg s x \<Longrightarrow> si_val s x \<le> 0" "\<not> si_neg s x \<Longrightarrow> 0 \<le> si_val s x"
    by (auto simp: si_neg_def si_val_def Let_def)
qed

lemma si_neg_twos: "si_wf s x \<Longrightarrow> shortIntegerMode s = SIM_2COMPL \<Longrightarrow> si_neg s x = (si_val s x < 0)"
  by (auto simp: si_neg_def si_val_def si_wf_def Let_def)

lemma si_val_sign: "si_wf s x \<Longrightarrow> si_val s x = (if si_neg s x then - \<bar>si_val s x\<bar> else \<bar>si_val s x\<bar>)"
  using si_neg_val [of s x] by auto

text \<open>Building a word from a magnitude and a sign the range can hold.\<close>

lemma uint_or_signbit:
  assumes ok: "si_ok s" and m: "uint m < si_half s"
  shows "uint (m OR shortIntegerSignBit s) = uint m + si_half s"
proof -
  have wf: "si_wf s m" using order.strict_trans [OF m, of "2 * si_half s"] by (simp add: si_wf_def)
  have z: "m AND shortIntegerSignBit s = 0" using signbit_test [OF ok wf] m by simp
  have "\<not> bit m k \<or> \<not> bit (shortIntegerSignBit s) k" for k
    using bit_and_iff [of m "shortIntegerSignBit s" k] z by simp
  then have "m + shortIntegerSignBit s = m OR shortIntegerSignBit s" by (rule disjunctive_add)
  moreover have "uint (m + shortIntegerSignBit s) = uint m + si_half s"
  proof -
    have "(uint m + si_half s) mod 18446744073709551616 = uint m + si_half s"
      using m half_le [OF ok] si_half_pos [of s] uint_nonnegative [of m] by (intro mod_pos_pos_trivial) linarith+
    then show ?thesis by (simp add: uint_word_ariths uint_signbit [OF ok])
  qed
  ultimately show ?thesis by simp
qed

lemma uint_build_value:
  assumes ok: "si_ok s" and m: "uint m < 2 * si_half s"
    and sm: "g \<Longrightarrow> shortIntegerMode s = SIM_SIGNMT \<Longrightarrow> uint m < si_half s"
  shows "uint (build_value m g s) =
    (if \<not> g \<or> shortIntegerMode s = SIM_UNSIGN then uint m
     else if shortIntegerMode s = SIM_2COMPL then (- uint m) mod (2 * si_half s)
     else if shortIntegerMode s = SIM_1COMPL then 2 * si_half s - 1 - uint m
     else uint m + si_half s)"
proof -
  have mm: "m AND shortIntegerMask s = m" using ok m by (intro mask_id) (simp_all add: si_wf_def)
  have nt: "(- uint m - 1) mod (2 * si_half s) = 2 * si_half s - 1 - uint m"
    using m uint_nonnegative [of m] by (subst mod_once_below) linarith+
  show ?thesis using ok
  proof (cases rule: si_mode_cases)
    case signmag
    then show ?thesis using sm uint_or_signbit [OF ok, of m] by (auto simp: build_value_def Let_def mm)
  qed (use ok nt in \<open>auto simp: build_value_def Let_def mm uint_mask uint_arith_half\<close>)
qed

lemma build_value_val:
  assumes ok: "si_ok s" and fit: "si_fits s (if g then - uint m else uint m)"
    and small: "shortIntegerMode s \<noteq> SIM_UNSIGN \<or> \<not> g"
  shows "si_val s (build_value m g s) = (if g then - uint m else uint m)" and "si_wf s (build_value m g s)"
proof -
  obtain n h where nh: "uint m = n" "si_half s = h" "0 \<le> n" "0 < h" by simp
  have n: "n < h \<or> n = h \<and> shortIntegerMode s = SIM_2COMPL \<and> g \<or> shortIntegerMode s = SIM_UNSIGN \<and> \<not> g \<and> n < 2 * h"
    using fit nh small by (auto simp: si_fits_def si_min_def si_max_def split: if_splits)
  have n2: "n < 2 * h" using n nh(3,4) by auto
  have neg: "(- n) mod (2 * h) = (if n = 0 then 0 else 2 * h - n)" using n nh(3,4) by (auto simp: mod_once_below)
  have u: "uint (build_value m g s) =
    (if \<not> g \<or> shortIntegerMode s = SIM_UNSIGN then n
     else if shortIntegerMode s = SIM_2COMPL then (if n = 0 then 0 else 2 * h - n)
     else if shortIntegerMode s = SIM_1COMPL then 2 * h - 1 - n
     else n + h)"
    using uint_build_value [OF ok, of m g] n n2 neg unfolding nh by auto
  show "si_val s (build_value m g s) = (if g then - uint m else uint m)"
    using n small nh(3,4) unfolding si_val_def Let_def u nh by (auto split: if_splits)
  show "si_wf s (build_value m g s)"
    using n small nh(3,4) unfolding si_wf_def u nh by (auto split: if_splits)
qed

end
