(* ===== verification/BitLaws.thy ===== *)
theory BitLaws
  imports BitOps ShortIntLaws
begin

text \<open>
  The word functions of the bit commands, bit by bit: the loops of shifts and rotations, mirror, zip
  and unzip, the byte orders.  A result is given as the word with prescribed low bits.
\<close>

section \<open>Words by their bits\<close>

definition word_of :: "nat \<Rightarrow> (nat \<Rightarrow> bool) \<Rightarrow> u64" where
  "word_of n f = horner_sum of_bool 2 (map f [0 ..< n])"

lemma bit_word_of [simp]: "n \<le> 64 \<Longrightarrow> bit (word_of n f) i \<longleftrightarrow> i < n \<and> f i"
  by (auto simp: word_of_def bit_horner_sum_bit_word_iff)

lemma word_of_mask: "n \<le> 64 \<Longrightarrow> (\<And>i. i < n \<Longrightarrow> bit w i = f i) \<Longrightarrow> w AND mask n = word_of n f"
  by (rule bit_word_eqI) (auto simp: bit_and_iff bit_mask_iff)

lemma si_wf_bit: "si_ok s \<Longrightarrow> si_wf s w \<Longrightarrow> bit w i \<Longrightarrow> i < shortIntegerWordSize s"
proof -
  assume "si_ok s" "si_wf s w" "bit w i"
  then have "bit (w AND shortIntegerMask s) i" "shortIntegerMask s = mask (shortIntegerWordSize s)"
    by (simp add: mask_id, simp add: si_ok_def)
  then show ?thesis by (simp add: bit_and_iff bit_mask_iff)
qed

lemma si_ok_size: "si_ok s \<Longrightarrow> 1 \<le> shortIntegerWordSize s" "si_ok s \<Longrightarrow> shortIntegerWordSize s \<le> 64"
  by (simp_all add: si_ok_def)

lemma si_wf_word_of: "si_ok s \<Longrightarrow> si_wf s w \<Longrightarrow> w = word_of (shortIntegerWordSize s) (bit w)"
  by (rule bit_word_eqI) (use si_wf_bit in \<open>auto simp: si_ok_size\<close>)

lemmas word_bits = bit_and_iff bit_or_iff bit_push_bit_iff bit_drop_bit_eq bit_exp_iff bit_1_iff bit_mask_iff

lemma bit_of_bool_word [simp]: "bit (of_bool b :: u64) i \<longleftrightarrow> b \<and> i = 0"
  by (cases b) (auto simp: bit_1_iff)

lemma high_out_bit: "n - 1 < 64 \<Longrightarrow> high_out (push_bit (n - 1) 1) w \<longleftrightarrow> bit w (n - 1)"
  by (simp add: high_out_def and_exp_eq_0_iff_not_bit)

lemmas high_out_bit' = high_out_bit [simplified]

lemma low_out_bit: "low_out w \<longleftrightarrow> bit w 0"
  by (simp add: low_out_def and_one_eq bit_0 mod_2_eq_odd)

section \<open>Shifts and rotations\<close>

lemma shift_loop_iter:
  "shift_loop ui out step k w m =
     ((step ^^ k) w, if k = 0 then m else forceSystemFlag ui FLAG_CARRY (out ((step ^^ (k - 1)) w)) m)"
proof (induction k arbitrary: w m)
  case (Suc k)
  have k: "(step ^^ Suc j) x = (step ^^ j) (step x)" for j x by (simp only: funpow_Suc_right o_apply)
  show ?case
  proof (cases k)
    case (Suc j)
    have "shift_loop ui out step (Suc k) w m = shift_loop ui out step k (step w) m"
      unfolding Suc by (subst shift_loop.simps(2)) simp
    with Suc.IH [of "step w" m] Suc show ?thesis by (simp only: k diff_Suc_1 nat.distinct if_False simp_thms)
  qed simp
qed simp

lemma bit_shift_left [simp]: "bit (push_bit 1 w OR of_bool c :: u64) i \<longleftrightarrow> (if i = 0 then c else i < 64 \<and> bit w (i - 1))"
  by (simp only: word_bits bit_of_bool_word) auto

lemma bit_sl_iter: "bit ((sl_step ^^ k) w) i \<longleftrightarrow> k \<le> i \<and> i < 64 \<and> bit w (i - k)"
proof (induction k arbitrary: i)
  case 0
  show ?case by (auto dest: bit_u64_imp_less)
next
  case (Suc k)
  have "bit (sl_step x) i \<longleftrightarrow> 0 < i \<and> i < 64 \<and> bit x (i - 1)" for x
    unfolding sl_step_def bit_push_bit_iff by auto
  with Suc show ?case by auto
qed

lemma bit_sr_iter: "bit ((sr_step ^^ k) w) i \<longleftrightarrow> bit w (i + k)"
  by (induction k arbitrary: i) (auto simp: sr_step_def bit_drop_bit_eq ac_simps)

lemma bit_asr_iter:
  assumes n: "1 \<le> n" "n \<le> 64" and w: "\<And>i. bit w i \<Longrightarrow> i < n"
  shows "bit ((asr_step (w AND push_bit (n - 1) 1) ^^ k) w) i \<longleftrightarrow> i < n \<and> bit w (min (i + k) (n - 1))"
proof (induction k arbitrary: i)
  case 0
  show ?case using w [of i] n by (cases "i < n") (auto simp: min_def)
next
  case (Suc k)
  have sign: "bit (w AND push_bit (n - 1) 1) i \<longleftrightarrow> i = n - 1 \<and> bit w (n - 1)"
    using n by (auto simp: word_bits)
  have "min (Suc i + k) (n - 1) = n - 1" if "i = n - 1" using that by simp
  moreover have "min (n + k) (n - 1) = n - 1" by simp
  ultimately show ?case
    using Suc [of "Suc i"] sign n by (cases "i = n - 1") (auto simp: asr_step_def bit_or_iff bit_drop_bit_eq min_def)
qed

lemma bit_rl_step:
  assumes "1 \<le> n" "n \<le> 64" "i < n"
  shows "bit (rl_step (push_bit (n - 1) 1) w) i \<longleftrightarrow> bit w ((i + (n - 1)) mod n)"
proof -
  have "bit (rl_step (push_bit (n - 1) 1) w) i \<longleftrightarrow> (if i = 0 then bit w (n - 1) else i < 64 \<and> bit w (i - 1))"
    using assms unfolding rl_step_def bit_shift_left by (subst high_out_bit) auto
  moreover have "(i + (n - 1)) mod n = (if i = 0 then n - 1 else i - 1)" using assms by (auto simp: mod_if)
  ultimately show ?thesis using assms by simp
qed

lemma bit_rl_iter:
  assumes "1 \<le> n" "n \<le> 64" "i < n"
  shows "bit ((rl_step (push_bit (n - 1) 1) ^^ k) w) i \<longleftrightarrow> bit w ((i + k * (n - 1)) mod n)"
  using assms(3)
proof (induction k arbitrary: i)
  case (Suc k)
  have "((i + (n - 1)) mod n + k * (n - 1)) mod n = (i + Suc k * (n - 1)) mod n"
    by (simp only: mod_add_left_eq mult_Suc add.assoc)
  then show ?case using Suc.IH [of "(i + (n - 1)) mod n"] bit_rl_step [OF assms(1,2) Suc.prems] assms by simp
qed simp

lemma bit_rr_step:
  assumes "1 \<le> n" "n \<le> 64" and w: "\<And>i. bit w i \<Longrightarrow> i < n"
  shows "bit (rr_step n w) i \<longleftrightarrow> i < n \<and> bit w ((i + 1) mod n)"
proof -
  have b: "bit (push_bit (n - 1) (w AND 1)) i \<longleftrightarrow> i = n - 1 \<and> bit w 0"
    using assms by (auto simp: word_bits)
  have "bit (rr_step n w) i \<longleftrightarrow> bit w (Suc i) \<or> i = n - 1 \<and> bit w 0"
    unfolding rr_step_def bit_or_iff b by (simp add: bit_drop_bit_eq)
  moreover have "(i + 1) mod n = (if i = n - 1 then 0 else i + 1)" if "i < n" using that by auto
  moreover have "bit w (Suc i) \<Longrightarrow> i < n - 1" using w [of "Suc i"] by simp
  ultimately show ?thesis using assms(1) by (cases "i = n - 1") auto
qed

lemma bit_rr_iter:
  assumes "1 \<le> n" "n \<le> 64" and w: "\<And>i. bit w i \<Longrightarrow> i < n"
  shows "bit ((rr_step n ^^ k) w) i \<longleftrightarrow> i < n \<and> bit w ((i + k) mod n)"
proof (induction k arbitrary: i)
  case 0
  show ?case using w [of i] by (cases "i < n") auto
next
  case (Suc k)
  have "bit ((rr_step n ^^ Suc k) w) i \<longleftrightarrow> i < n \<and> bit ((rr_step n ^^ k) w) ((i + 1) mod n)"
    using bit_rr_step [OF assms(1,2), of "(rr_step n ^^ k) w" i] Suc.IH by simp
  moreover have "((i + 1) mod n + k) mod n = (i + Suc k) mod n" by (simp add: mod_add_left_eq)
  ultimately show ?case using Suc.IH [of "(i + 1) mod n"] assms(1) by simp
qed

section \<open>Rotations through CARRY\<close>

text \<open>CARRY is bit number \<open>n\<close> of the pair.\<close>

definition carry_bit :: "nat \<Rightarrow> u64 \<times> bool \<Rightarrow> nat \<Rightarrow> bool" where
  "carry_bit n p i = (if i = n then snd p else bit (fst p) i)"

lemma carry_bit_rlc:
  assumes "1 \<le> n" "n \<le> 64" "i \<le> n"
  shows "carry_bit n (rlc_loop (push_bit (n - 1) 1) k w c) i \<longleftrightarrow> carry_bit n (w, c) ((i + k * n) mod Suc n)"
proof (induction k arbitrary: w c)
  case 0
  show ?case using assms by simp
next
  case (Suc k)
  let ?j = "(i + k * n) mod Suc n"
  have e: "(?j + n) mod Suc n = (i + Suc k * n) mod Suc n" by (simp only: mod_add_left_eq) (simp add: ac_simps)
  have "?j \<le> n" by (simp add: less_Suc_eq_le [symmetric])
  moreover have "carry_bit n (push_bit 1 w OR of_bool c, high_out (push_bit (n - 1) 1) w) j = carry_bit n (w, c) ((j + n) mod Suc n)"
    if "j \<le> n" for j
  proof (cases j)
    case 0
    then show ?thesis using assms by (simp only: carry_bit_def fst_conv bit_shift_left) simp
  next
    case (Suc j')
    then have "(j + n) mod Suc n = j'" using that by (simp add: mod_if)
    then show ?thesis using Suc that assms unfolding carry_bit_def fst_conv bit_shift_left by (subst snd_conv, subst high_out_bit) auto
  qed
  ultimately show ?case using Suc.IH e by simp
qed

lemma rrc_step_bits:
  assumes "1 \<le> n" "n \<le> 64"
  shows "bit (drop_bit 1 w OR push_bit (n - 1) (of_bool c) :: u64) l \<longleftrightarrow> l = n - 1 \<and> c \<or> bit w (Suc l)"
  using assms by (cases c) (auto simp: word_bits)

lemma rrc_loop_below:
  assumes "1 \<le> n" "n \<le> 64"
  shows "(\<And>i. bit w i \<Longrightarrow> i < n) \<Longrightarrow> bit (fst (rrc_loop n k w c)) j \<Longrightarrow> j < n"
proof (induction k arbitrary: w c)
  case (Suc k)
  have "l < n" if "bit (drop_bit 1 w OR push_bit (n - 1) (of_bool c) :: u64) l" for l
    using that Suc.prems(1) [of "Suc l"] rrc_step_bits [OF assms, of w c l] assms by auto
  then show ?case using Suc.IH [of "drop_bit 1 w OR push_bit (n - 1) (of_bool c)"] Suc.prems(2) by simp
qed simp

lemma carry_bit_rrc:
  assumes n: "1 \<le> n" "n \<le> 64" and i: "i \<le> n"
  shows "(\<And>i. bit w i \<Longrightarrow> i < n) \<Longrightarrow> carry_bit n (rrc_loop n k w c) i \<longleftrightarrow> carry_bit n (w, c) ((i + k) mod Suc n)"
proof (induction k arbitrary: w c)
  case 0
  show ?case using i by simp
next
  case (Suc k)
  let ?w = "drop_bit 1 w OR push_bit (n - 1) (of_bool c) :: u64"
  have w': "bit ?w l \<Longrightarrow> l < n" for l
    using Suc.prems [of "Suc l"] rrc_step_bits [OF n, of w c l] n by auto
  have "carry_bit n (?w, low_out w) l = carry_bit n (w, c) (Suc l mod Suc n)" if "l \<le> n" for l
    using that n Suc.prems [of "Suc l"] rrc_step_bits [OF n, of w c l] by (auto simp: carry_bit_def low_out_bit)
  moreover have "(i + k) mod Suc n \<le> n" by (simp add: less_Suc_eq_le [symmetric])
  moreover have "Suc ((i + k) mod Suc n) mod Suc n = (i + Suc k) mod Suc n" by (simp add: mod_Suc_eq)
  ultimately show ?case using Suc.IH [OF w'] by simp
qed

section \<open>Mirror, zip, byte order\<close>

lemma bit_mirror_fold:
  "m \<le> n \<Longrightarrow> n \<le> 64 \<Longrightarrow>
   bit (fold (\<lambda>i r. if x AND push_bit i 1 \<noteq> 0 then r OR push_bit (n - i - 1) 1 else r) [0 ..< m] 0 :: u64) i \<longleftrightarrow>
     n - m \<le> i \<and> i < n \<and> bit x (n - 1 - i)"
proof (induction m)
  case (Suc m)
  have "bit (push_bit (n - m - 1) 1 :: u64) i \<longleftrightarrow> i = n - m - 1"
    using Suc.prems by (auto simp: word_bits)
  moreover have "x AND push_bit m 1 \<noteq> 0 \<longleftrightarrow> bit x m"
    using Suc.prems by (simp add: and_exp_eq_0_iff_not_bit)
  moreover have "n - 1 - (n - m - 1) = m" using Suc.prems by simp
  ultimately show ?case using Suc by (cases "i = n - m - 1") (auto simp: bit_or_iff)
qed simp

lemma bit_mirror: "n \<le> 64 \<Longrightarrow> bit (mirror_bits n x) i \<longleftrightarrow> i < n \<and> bit x (n - 1 - i)"
  using bit_mirror_fold [of n n x i] by (simp add: mirror_bits_def)

lemma bit_one_of: "bit (x AND 2 ^ j :: u64) i \<longleftrightarrow> i = j \<and> bit x j"
  by (auto simp: word_bits dest: bit_u64_imp_less)

lemma double_exp: "(2 :: u64) ^ j + 2 ^ j = 2 ^ Suc j"
  by simp

lemma bit_zip_loop:
  "j + m \<le> 32 \<Longrightarrow> bit (zip_loop m j (2 ^ j) x y r) i \<longleftrightarrow>
     bit r i \<or> j \<le> i div 2 \<and> i div 2 < j + m \<and> bit (if even i then x else y) (i div 2)"
proof (induction m arbitrary: j r)
  case (Suc m)
  have "bit (push_bit j (x AND 2 ^ j)) i \<longleftrightarrow> i = 2 * j \<and> bit x j"
    and "bit (push_bit (j + 1) (y AND 2 ^ j)) i \<longleftrightarrow> i = 2 * j + 1 \<and> bit y j"
    using Suc.prems unfolding bit_push_bit_iff bit_one_of by auto
  moreover have "i = 2 * j \<longleftrightarrow> i div 2 = j \<and> even i" "i = 2 * j + 1 \<longleftrightarrow> i div 2 = j \<and> odd i" by presburger+
  moreover have "zip_loop (Suc m) j (2 ^ j) x y r =
      zip_loop m (Suc j) (2 ^ Suc j) x y (r OR push_bit j (x AND 2 ^ j) OR push_bit (j + 1) (y AND 2 ^ j))"
    by simp
  ultimately show ?case
    using Suc.IH [of "Suc j" "r OR push_bit j (x AND 2 ^ j) OR push_bit (j + 1) (y AND 2 ^ j)"] Suc.prems
    by (cases "i div 2 = j") (auto simp: bit_or_iff)
qed auto

lemma bit_zip: "m \<le> 32 \<Longrightarrow> bit (zip_loop m 0 1 x y 0) i \<longleftrightarrow> i div 2 < m \<and> bit (if even i then x else y) (i div 2)"
  using bit_zip_loop [of 0 m x y 0 i] by simp

lemma bit_unzip_loop:
  "j + m \<le> 32 \<Longrightarrow>
     (bit (fst (unzip_loop m j (2 ^ (2 * j)) a x y)) i \<longleftrightarrow> bit x i \<or> j \<le> i \<and> i < j + m \<and> bit a (2 * i)) \<and>
     (bit (snd (unzip_loop m j (2 ^ (2 * j)) a x y)) i \<longleftrightarrow> bit y i \<or> j \<le> i \<and> i < j + m \<and> bit a (2 * i + 1))"
proof (induction m arbitrary: j x y)
  case (Suc m)
  let ?x = "x OR drop_bit j (a AND 2 ^ (2 * j))" and ?y = "y OR drop_bit (j + 1) (a AND 2 ^ Suc (2 * j))"
  have "bit (drop_bit j (a AND 2 ^ (2 * j))) i \<longleftrightarrow> i = j \<and> bit a (2 * j)"
    unfolding bit_drop_bit_eq o_apply bit_one_of by auto
  moreover have "bit (drop_bit (j + 1) (a AND 2 ^ Suc (2 * j))) i \<longleftrightarrow> i = j \<and> bit a (Suc (2 * j))"
    unfolding bit_drop_bit_eq o_apply bit_one_of by auto
  moreover have "unzip_loop (Suc m) j (2 ^ (2 * j)) a x y = unzip_loop m (Suc j) (2 ^ (2 * Suc j)) a ?x ?y"
    by (simp add: Let_def)
  ultimately show ?case using Suc.IH [of "Suc j" ?x ?y] Suc.prems
    by (cases "i = j") (auto simp: bit_or_iff)
qed auto

lemma bit_unzip:
  assumes "m \<le> 32"
  shows "bit (fst (unzip_loop m 0 1 a 0 0)) i \<longleftrightarrow> i < m \<and> bit a (2 * i)"
    and "bit (snd (unzip_loop m 0 1 a 0 0)) i \<longleftrightarrow> i < m \<and> bit a (2 * i + 1)"
  using bit_unzip_loop [of 0 m a 0 0 i] assms by simp_all

lemma bit_byte_of: "k < 8 \<Longrightarrow> bit (byte_of x k) j \<longleftrightarrow> j < 8 \<and> bit x (8 * k + j)"
proof -
  assume k: "k < 8"
  have "(0xFF :: u64) = mask 8" by (simp add: mask_eq_exp_minus_1)
  then show ?thesis
    using k unfolding byte_of_def by (auto simp only: bit_drop_bit_eq bit_and_iff bit_push_bit_iff bit_mask_iff o_apply possible_bit_word)
      (auto dest: bit_u64_imp_less)
qed

lemma bit_join_bytes:
  "length bs \<le> 8 \<Longrightarrow> (\<And>b j. b \<in> set bs \<Longrightarrow> bit b j \<Longrightarrow> j < 8) \<Longrightarrow>
   bit (join_bytes bs) i \<longleftrightarrow> i < 8 * length bs \<and> bit (bs ! (length bs - 1 - i div 8)) (i mod 8)"
proof (induction bs arbitrary: i rule: rev_induct)
  case (snoc b bs)
  have j: "join_bytes (bs @ [b]) = push_bit 8 (join_bytes bs) OR b" by (simp add: join_bytes_def)
  show ?case
  proof (cases "i < 8")
    case True
    then show ?thesis by (simp add: j bit_or_iff bit_push_bit_iff nth_append)
  next
    case False
    then have "\<not> bit b i" using snoc.prems(2) by force
    moreover have "bit (join_bytes bs) (i - 8) \<longleftrightarrow> i - 8 < 8 * length bs \<and> bit (bs ! (length bs - 1 - (i - 8) div 8)) ((i - 8) mod 8)"
      using snoc.prems by (intro snoc.IH) auto
    moreover have "(i - 8) mod 8 = i mod 8" "(i - 8) div 8 = i div 8 - 1" "0 < i div 8"
      using False by (simp_all add: mod_if [of i] div_if [of i])
    moreover have "i < 64" if "bit (join_bytes bs) (i - 8)"
      using that False calculation(2) snoc.prems(1) by auto
    ultimately show ?thesis
      using False by (auto simp: j bit_or_iff bit_push_bit_iff nth_append) linarith+
  qed
qed (simp add: join_bytes_def)

lemma bit_swap_bytes:
  assumes n: "width = 8 \<and> n \<in> {16, 24, 32, 40, 48, 56, 64} \<or> width = 16 \<and> n \<in> {32, 48, 64}"
  shows "bit (swap_bytes width n x) i \<longleftrightarrow> i < n \<and> bit x (n - width - width * (i div width) + i mod width)"
proof -
  define q where "q = i div 8"
  define r where "r = i mod 8"
  have r: "r < 8" "i = 8 * q + r" "i div 16 = q div 2" "i mod 16 = 8 * (q mod 2) + r"
    using div_mult2_eq [of i 8 2] mod_mult2_eq [of i 8 2] by (simp_all add: q_def r_def)
  have join: "bit (join_bytes (map (byte_of x) ks)) i \<longleftrightarrow> i < 8 * length ks \<and> bit x (8 * (ks ! (length ks - 1 - q)) + r)"
    if "length ks \<le> 8" "\<forall>k \<in> set ks. k < 8" for ks
  proof (cases "i < 8 * length ks")
    case True
    then have "length ks - 1 - q < length ks" by (cases ks) auto
    then show ?thesis using that r(1) by (subst bit_join_bytes) (auto simp: bit_byte_of q_def r_def)
  qed (use that in \<open>subst bit_join_bytes; auto simp: bit_byte_of\<close>)
  from n show ?thesis
  proof
    assume a: "width = 8 \<and> n \<in> {16, 24, 32, 40, 48, 56, 64}"
    then have e: "swap_bytes width n x = join_bytes (map (byte_of x) [0 ..< n div 8])" "8 * (n div 8) = n" "n div 8 \<le> 8" "1 \<le> n div 8"
      by (auto simp: swap_bytes_def)
    have "\<forall>k \<in> set [0 ..< n div 8]. k < 8" using e(3) by auto
    then have "bit (swap_bytes width n x) i \<longleftrightarrow> i < 8 * (n div 8) \<and> bit x (8 * ([0 ..< n div 8] ! (n div 8 - 1 - q)) + r)"
      unfolding e(1) using join [of "[0 ..< n div 8]"] e(3) by (simp only: length_upt diff_zero simp_thms)
    then have "bit (swap_bytes width n x) i \<longleftrightarrow> i < n \<and> bit x (8 * ([0 ..< n div 8] ! (n div 8 - 1 - q)) + r)"
      unfolding e(2) .
    moreover have "8 * ([0 ..< n div 8] ! (n div 8 - 1 - q)) = n - 8 - 8 * q" if "i < n"
      using e that r by (subst nth_upt) auto
    moreover have "width = 8" using a by (rule conjunct1)
    ultimately show ?thesis unfolding q_def r_def by (cases "i < n") simp_all
  next
    assume a: "width = 16 \<and> n \<in> {32, 48, 64}"
    then obtain ks where ks: "swap_bytes width n x = join_bytes (map (byte_of x) ks)" "n = 8 * length ks" "length ks \<le> 8" "\<forall>k \<in> set ks. k < 8"
      and halves: "list_all (\<lambda>q. 8 * ks ! (length ks - 1 - q) = n - 16 - 16 * (q div 2) + 8 * (q mod 2)) [0 ..< length ks]"
    proof -
      from a consider "n = 32" | "n = 48" | "n = 64" by auto
      then show thesis
      proof cases
        case 1
        show ?thesis by (rule that [of "[1, 0, 3, 2]"]) (use a 1 in \<open>simp_all add: swap_bytes_def\<close>)
      next
        case 2
        show ?thesis by (rule that [of "[1, 0, 3, 2, 5, 4]"]) (use a 2 in \<open>simp_all add: swap_bytes_def\<close>)
      next
        case 3
        show ?thesis by (rule that [of "[1, 0, 3, 2, 5, 4, 7, 6]"]) (use a 3 in \<open>simp_all add: swap_bytes_def\<close>)
      qed
    qed
    have "bit (swap_bytes width n x) i \<longleftrightarrow> i < n \<and> bit x (8 * (ks ! (length ks - 1 - q)) + r)"
      using join [OF ks(3,4)] unfolding ks(1) by (simp only: ks(2))
    moreover have "q < length ks" if "i < n" using that r(2) ks(2) by simp
    moreover have "width = 16" using a by (rule conjunct1)
    ultimately show ?thesis using halves r(3,4) by (cases "i < n") (simp_all add: add.assoc list_all_iff)
  qed
qed

end
