(* ===== verification/ShortRegs.thy ===== *)
theory ShortRegs
  imports RegisterProps BitLaws
begin

text \<open>
  Short integers as register values, and what the commands on them do to the registers: reading,
  writing in place, and the common frame of the bit commands, which save X in L and put their result
  into X.
\<close>

section \<open>Short integers as values\<close>

definition short_blocks :: "u64 \<Rightarrow> u32 list" where
  "short_blocks v = [ucast v, ucast (drop_bit 32 v)]"

definition short_value :: "nat \<Rightarrow> u64 \<Rightarrow> reg_value" where
  "short_value base v = (dtShortInteger, base, short_blocks v)"

lemma short_blocks_join: "short_blocks (ucast lo OR push_bit 32 (ucast hi)) = [lo, hi]"
proof -
  have "ucast (ucast lo OR push_bit 32 (ucast hi) :: u64) = lo"
    by (rule bit_word_eqI) (simp add: bit_ucast_iff bit_or_iff bit_push_bit_iff)
  moreover have "ucast (drop_bit 32 (ucast lo OR push_bit 32 (ucast hi) :: u64)) = hi"
    by (rule bit_word_eqI) (auto simp: bit_ucast_iff bit_or_iff bit_push_bit_iff bit_drop_bit_eq dest: bit_imp_le_length)
  ultimately show ?thesis by (simp add: short_blocks_def)
qed

lemma short_value_inject [simp]: "short_value b v = short_value b' v' \<longleftrightarrow> b = b' \<and> v = v'"
proof -
  have "v = v'" if "ucast v = (ucast v' :: u32)" "ucast (drop_bit 32 v) = (ucast (drop_bit 32 v') :: u32)"
  proof (rule bit_word_eqI)
    fix i assume i: "i < LENGTH(64)"
    have "bit (ucast v :: u32) i = bit (ucast v' :: u32) i" "bit (ucast (drop_bit 32 v) :: u32) (i - 32) = bit (ucast (drop_bit 32 v') :: u32) (i - 32)"
      using that by simp_all
    then show "bit v i = bit v' i" using i by (cases "i < 32") (auto simp: bit_ucast_iff bit_drop_bit_eq)
  qed
  then show ?thesis by (auto simp: short_value_def short_blocks_def)
qed

lemma short_register:
  assumes inv: "regs_inv lim R m" and s: "slot r m = Some k" and dt: "dataType (all_headers m ! k) = dtShortInteger"
  shows "hsize m (all_headers m ! k) = 2"
    and "reg_values m ! k = short_value (getRegisterTag r m) (read_short_integer r m)"
proof -
  let ?h = "all_headers m ! k"
  have kl: "k < length (all_headers m)" by (rule slot_less [OF _ s]) (use inv in simp)
  show size: "hsize m ?h = 2" using dt by (simp add: hsize_def full_size_def)
  have "hvalue m ?h = (dtShortInteger, tag ?h, [ram_block (pointerToRegisterData ?h) m, ram_block (pointerToRegisterData ?h + 1) m])"
    using dt by (simp add: hvalue_def size upt_rec)
  moreover have "getRegisterTag r m = tag ?h" by (rule slot_getters(3) [OF _ s]) (use inv in simp)
  ultimately show "reg_values m ! k = short_value (getRegisterTag r m) (read_short_integer r m)"
    using kl by (simp only: reg_values_def nth_map short_value_def read_short_integer_def regs_pointer(1) [OF inv s] Let_def
        option.case short_blocks_join)
qed

section \<open>Writing in place\<close>

lemma write_short:
  assumes inv: "regs_inv lim R m" and s: "slot r m = Some k" and dt: "dataType (all_headers m ! k) = dtShortInteger"
  obtains m' where "write_short_integer r v m = Inr m'" "same_rest m m'" "regs_inv lim R m'" "all_headers m' = all_headers m"
    "reg_values m' = (reg_values m)[k := short_value (getRegisterTag r m) v]"
proof -
  let ?h = "all_headers m ! k" and ?p = "pointerToRegisterData (all_headers m ! k)"
  define m' where "m' = update_ram (\<lambda>r. r(?p := ucast v, ?p + 1 := ucast (drop_bit 32 v))) m"
  have kl: "k < length (all_headers m)" by (rule slot_less [OF _ s]) (use inv in simp)
  have hs: "all_headers m' = all_headers m" by (simp add: m'_def)
  have size: "hsize m ?h = 2" "hsize m' ?h = 2" using dt by (simp_all add: hsize_def full_size_def)
  have val: "hvalue m' ?h = short_value (getRegisterTag r m) v"
    using dt slot_getters(3) [OF regs_inv_globals [OF inv] s] unfolding hvalue_def size(2)
    by (simp add: upt_rec short_value_def short_blocks_def m'_def)
  have pool: "pool (memory m') = (pool (memory m))\<lparr>ram := ram (pool (memory m'))\<rparr>" by (simp add: m'_def memory_update_ram)
  have "pool_ok lim (pool (memory m')) (pieces m + R)" using inv by (subst pool) (simp add: regs_inv_def)
  then have ok: "pool_ok lim (pool (memory m')) (add_mset (hpiece m' ?h) (pieces m - {#hpiece m ?h#} + R))"
    using piece_member [OF kl] by (simp add: hpiece_def size)
  have same: "ram_block a m' = ram_block a m"
    if j: "j < length (all_headers m)" "j \<noteq> k" "a \<in> piece_set (hpiece m (all_headers m ! j))" for a j
  proof -
    have "a \<notin> {?p ..< ?p + 2}"
      using regs_pieces_disjoint [OF inv j(1) kl j(2)] j(3) size(1) by (auto simp: hpiece_def)
    then show ?thesis by (auto simp: m'_def)
  qed
  have g: "globals_ok m'" using inv by (simp add: m'_def)
  have "header_ok m' ?h" using regs_header [OF inv kl] dt by (simp add: header_ok_def)
  note eff = regs_replace [OF inv kl g _ ok same this]
  have "all_headers m' = (all_headers m)[k := ?h]" by (simp add: hs)
  note eff = eff [OF this]
  show thesis
  proof (rule that)
    show "write_short_integer r v m = Inr m'"
      by (simp add: write_short_integer_def regs_pointer(1) [OF inv s] write_at_def m'_def)
    show "same_rest m m'" by (simp add: m'_def)
    show "reg_values m' = (reg_values m)[k := short_value (getRegisterTag r m) v]" using eff(2) val by simp
  qed (use eff hs in simp_all)
qed

text \<open>A register that already is a short integer is written without reallocation.\<close>

lemma store_short:
  assumes inv: "regs_inv lim R m" and s: "slot r m = Some k" and dt: "dataType (all_headers m ! k) = dtShortInteger"
    and base: "base < 32" and f: "\<And>m'. same_rest m m' \<Longrightarrow> f m' = v"
  obtains m' where "store_short_integer r f base m = Inr m'" "same_rest m m'" "regs_inv lim R m'"
    "reg_values m' = (reg_values m)[k := short_value base v]"
proof -
  let ?h = "all_headers m ! k"
  define m1 where "m1 = setRegisterTag r base m"
  have g: "globals_ok m" using inv by simp
  have kl: "k < length (all_headers m)" by (rule slot_less [OF g s])
  have rest: "same_rest m m1" by (simp add: m1_def setRegisterTag_def)
  have g1: "globals_ok m1" and s1: "slot r m1 = Some k" using g s by (simp_all add: m1_def setRegisterTag_def)
  have hs1: "all_headers m1 = (all_headers m)[k := ?h\<lparr>tag := base\<rparr>]"
    using base by (simp add: m1_def setRegisterTag_def all_headers_update [OF g s])
  have h1: "all_headers m1 ! k = ?h\<lparr>tag := base\<rparr>" using kl by (simp add: hs1)
  have mem: "ram_block a m1 = ram_block a m" "pool (memory m1) = pool (memory m)" for a
    by (simp_all add: m1_def setRegisterTag_def)
  have p: "hpiece m1 (?h\<lparr>tag := base\<rparr>) = hpiece m ?h" by (simp add: hpiece_def hsize_def mem)
  have "regs_inv lim R m1 \<and> reg_values m1 = (reg_values m)[k := hvalue m1 (?h\<lparr>tag := base\<rparr>)]"
  proof (intro conjI)
    have ok: "pool_ok lim (pool (memory m1)) (add_mset (hpiece m1 (?h\<lparr>tag := base\<rparr>)) (pieces m - {#hpiece m ?h#} + R))"
      using inv piece_member [OF kl] by (simp add: p mem regs_inv_def)
    have hok: "header_ok m1 (?h\<lparr>tag := base\<rparr>)" using regs_header [OF inv kl] base by (simp add: header_ok_def mem)
    show "regs_inv lim R m1" "reg_values m1 = (reg_values m)[k := hvalue m1 (?h\<lparr>tag := base\<rparr>)]"
      using regs_replace [OF inv kl g1 hs1 ok mem(1) hok] by simp_all
  qed
  then have inv1: "regs_inv lim R m1" and v1: "reg_values m1 = (reg_values m)[k := hvalue m1 (?h\<lparr>tag := base\<rparr>)]" by auto
  have real: "reallocateRegister r dtShortInteger SHORT_INTEGER_SIZE_IN_BLOCKS base m = Inr m1"
    using slot_getters(1) [OF g s] dt by (simp add: reallocateRegister_def m1_def)
  have dt1: "dataType (all_headers m1 ! k) = dtShortInteger" using dt by (simp add: h1)
  obtain m' where m': "write_short_integer r (f m1) m1 = Inr m'" "same_rest m1 m'" "regs_inv lim R m'"
      "reg_values m' = (reg_values m1)[k := short_value (getRegisterTag r m1) (f m1)]"
    using write_short [OF inv1 s1 dt1] by metis
  have "getRegisterTag r m1 = base" using slot_getters(3) [OF g1 s1] by (simp add: h1)
  then show thesis
    using that [of m'] m' f [OF rest] v1 same_rest_trans [OF rest m'(2)] by (simp add: store_short_integer_def real)
qed

lemma set_shift_result:
  assumes "regs_inv lim R m" "getRegisterDataType REGISTER_X m = dtShortInteger" "base < 32"
  obtains m' where "setShiftResult w base m = Inr m'" "same_rest m m'" "regs_inv lim R m'"
    "reg_values m' = (reg_values m)[REGISTER_X := short_value base (w AND shortIntegerMask m)]"
proof -
  have s: "slot REGISTER_X m = Some REGISTER_X" by simp
  have "dataType (all_headers m ! REGISTER_X) = dtShortInteger"
    using assms slot_getters(1) [OF regs_inv_globals [OF assms(1)] s] by simp
  from store_short [OF assms(1) s this assms(3), where f = "\<lambda>m. w AND shortIntegerMask m"] show thesis
    using that by (simp add: setShiftResult_def same_rest_fields) metis
qed

end
