(* ===== verification/BitCommands.thy ===== *)
theory BitCommands
  imports ShortRegs
begin

text \<open>
  The bit commands on a machine whose register X holds a short integer: what they leave in X, in L and
  in CARRY, and when they fail; the inverses among them.
\<close>

section \<open>CARRY\<close>

lemma carry_frame [simp]:
  "all_headers (forceSystemFlag ui FLAG_CARRY c m) = all_headers m"
  "globals_ok (forceSystemFlag ui FLAG_CARRY c m) = globals_ok m"
  "memory (forceSystemFlag ui FLAG_CARRY c m) = memory m"
  "lastErrorCode (forceSystemFlag ui FLAG_CARRY c m) = lastErrorCode m"
  "shortIntegerMask (forceSystemFlag ui FLAG_CARRY c m) = shortIntegerMask m"
  by (simp_all add: forceSystemFlag_def setSystemFlag_def clearSystemFlag_def systemFlagAction_def interaction_flags_def
      refresh_action_def refreshStateFlags_def fnRefreshState_def set_system_bit_def clear_system_bit_def flag_ix_mod
      all_headers_def local_headers_def globals_ok_def Let_def)

lemma carry_value [simp]: "getSystemFlag FLAG_CARRY (forceSystemFlag ui FLAG_CARRY c m) = c"
  by (simp add: getSystemFlag_sysbit forceSystemFlag_def setSystemFlag_def clearSystemFlag_def systemFlagAction_def
      interaction_flags_def refresh_action_def refreshStateFlags_def flag_ix_mod sysbit_set sysbit_clear)

section \<open>The common frame\<close>

definition bit_outcome :: "nat \<Rightarrow> piece multiset \<Rightarrow> machine \<Rightarrow> u64 \<Rightarrow> bool \<Rightarrow> crash + machine \<Rightarrow> bool" where
  "bit_outcome lim R m v c r \<longleftrightarrow>
     (case r of
        Inl e \<Rightarrow> e = Exit TooManyFreeRegions \<and> length (freeMemoryRegions (pool (memory m))) = MAX_FREE_REGIONS
      | Inr m' \<Rightarrow> regs_inv lim R m' \<and>
          (lastErrorCode m' = ERROR_NONE \<and> getSystemFlag FLAG_CARRY m' = c \<and>
             reg_values m' = (reg_values m)[REGISTER_L := reg_values m ! REGISTER_X, REGISTER_X := short_value (getRegisterTag REGISTER_X m) v] \<or>
           lastErrorCode m' = ERROR_RAM_FULL \<and> getSystemFlag FLAG_CARRY m' = getSystemFlag FLAG_CARRY m \<and> reg_values m' = reg_values m))"

lemma shift_input:
  assumes inv: "regs_inv lim R m" and x: "getRegisterDataType REGISTER_X m = dtShortInteger" and e: "lastErrorCode m = ERROR_NONE"
  obtains (exit) "getShiftInput e m = Inl (Exit TooManyFreeRegions)" "length (freeMemoryRegions (pool (memory m))) = MAX_FREE_REGIONS"
  | (full) m' where "getShiftInput e m = Inr (None, m')" "regs_inv lim R m'" "reg_values m' = reg_values m"
      "lastErrorCode m' = ERROR_RAM_FULL" "getSystemFlag FLAG_CARRY m' = getSystemFlag FLAG_CARRY m"
  | (ok) m' where "getShiftInput e m = Inr (Some (read_short_integer REGISTER_X m, getRegisterTag REGISTER_X m), m')"
      "same_rest m m'" "regs_inv lim R m'" "reg_values m' = (reg_values m)[REGISTER_L := reg_values m ! REGISTER_X]"
proof -
  have s: "slot (lettered REGISTER_X) m = Some REGISTER_X" "slot (lettered REGISTER_L) m = Some REGISTER_L"
    by (simp_all add: lettered_def)
  have g: "getShiftInput e m = andThen (andThen (copySourceRegisterToDestRegister (env_tvm_sync e) REGISTER_X REGISTER_L m)
       (\<lambda>m1. Inr (lastErrorCode m1 = ERROR_NONE, m1)))
       (\<lambda>(ok, m2). Inr (if ok then Some (read_short_integer REGISTER_X m, getRegisterTag REGISTER_X m) else None, m2))"
    using x by (simp add: getShiftInput_def getRegisterAsRawShortInt_def saveLastX_def)
  show thesis
  proof (cases rule: copy_register [OF inv s, where sync = "env_tvm_sync e"])
    case 1
    with exit g show thesis by simp
  next
    case 2
    let ?m' = "displayCalcErrorMessage ERROR_RAM_FULL ERR_REGISTER_LINE (m\<lparr>lastErrorCode := ERROR_NONE\<rparr>)"
    have "getSystemFlag FLAG_CARRY ?m' = getSystemFlag FLAG_CARRY m" by (simp add: getSystemFlag_def displayCalcErrorMessage_def)
    with full [of ?m'] g 2 regs_inv_cong [of ?m' m] inv show thesis by simp
  next
    case (3 m')
    with ok [of m'] g same_rest_fields(1) [OF 3(2)] e show thesis by simp
  qed
qed

lemma raw_input_short: "getRegisterDataType REGISTER_X m = dtShortInteger \<Longrightarrow> raw_input_saved e m = getShiftInput e m"
  by (simp add: raw_input_saved_def getShiftInput_def getRegisterAsRawShortInt_def)

text \<open>A command computes a word from X, may set CARRY, and stores the word under the mask.\<close>

lemma command_outcome:
  assumes inv: "regs_inv lim R m" and x: "getRegisterDataType REGISTER_X m = dtShortInteger" and e: "lastErrorCode m = ERROR_NONE"
    and body: "\<And>m1. same_rest m m1 \<Longrightarrow> fst (body (read_short_integer REGISTER_X m) m1) AND shortIntegerMask m = v"
    and carry: "\<And>m1. same_rest m m1 \<Longrightarrow>
       snd (body (read_short_integer REGISTER_X m) m1) = (if keep then m1 else forceSystemFlag ui FLAG_CARRY c m1)"
  shows "bit_outcome lim R m v (if keep then getSystemFlag FLAG_CARRY m else c)
    (with_input (getShiftInput e m) (\<lambda>w base m1. let (w1, m2) = body w m1 in setShiftResult w1 base m2))"
proof (cases rule: shift_input [OF inv x e, where e = e])
  case 1
  then show ?thesis by (simp add: bit_outcome_def with_input_def)
next
  case (2 m')
  then show ?thesis by (simp add: bit_outcome_def with_input_def)
next
  case (3 m1)
  define m2 where "m2 = (if keep then m1 else forceSystemFlag ui FLAG_CARRY c m1)"
  have same: "all_headers m2 = all_headers m1" "globals_ok m2 = globals_ok m1" "pool (memory m2) = pool (memory m1)"
    by (simp_all add: m2_def)
  note f = same_rest_fields [OF 3(2)]
  have inv2: "regs_inv lim R m2" and v2: "reg_values m2 = reg_values m1" using regs_inv_cong [OF same] 3(3) by simp_all
  have s: "slot REGISTER_X m' = Some REGISTER_X" for m' :: machine by simp
  have kl: "REGISTER_X < length (all_headers m)" "REGISTER_L < length (all_headers m)"
    using slot_less [OF regs_inv_globals [OF inv], of REGISTER_X REGISTER_X] slot_less [OF regs_inv_globals [OF inv], of REGISTER_L REGISTER_L] by simp_all
  have "fst (reg_values m1 ! REGISTER_X) = dtShortInteger"
    using 3(4) kl x slot_getters(1) [OF regs_inv_globals [OF inv] s] by (simp add: reg_values_def hvalue_def)
  moreover have kl2: "REGISTER_X < length (all_headers m1)"
    using slot_less [OF regs_inv_globals [OF 3(3)], of REGISTER_X REGISTER_X] by simp
  ultimately have x2: "getRegisterDataType REGISTER_X m2 = dtShortInteger"
    using slot_getters(1) [OF regs_inv_globals [OF inv2] s] by (simp add: same reg_values_def hvalue_def)
  have base: "getRegisterTag REGISTER_X m < 32"
    using regs_header [OF inv kl(1)] slot_getters(3) [OF regs_inv_globals [OF inv] s] by (simp add: header_ok_def)
  obtain m' where m': "setShiftResult (fst (body (read_short_integer REGISTER_X m) m1)) (getRegisterTag REGISTER_X m) m2 = Inr m'"
      "same_rest m2 m'" "regs_inv lim R m'"
      "reg_values m' = (reg_values m2)[REGISTER_X := short_value (getRegisterTag REGISTER_X m)
         (fst (body (read_short_integer REGISTER_X m) m1) AND shortIntegerMask m2)]"
    using set_shift_result [OF inv2 x2 base] by metis
  have "shortIntegerMask m2 = shortIntegerMask m" "lastErrorCode m2 = ERROR_NONE"
    "getSystemFlag FLAG_CARRY m2 = (if keep then getSystemFlag FLAG_CARRY m else c)"
    using f e by (simp_all add: m2_def)
  with m' body [OF 3(2)] carry [OF 3(2)] same_rest_fields [OF m'(2)] 3(1,4) show ?thesis
    by (simp add: bit_outcome_def with_input_def case_prod_beta v2 m2_def [symmetric])
qed

lemma shift_outcome:
  assumes "regs_inv lim R m" "getRegisterDataType REGISTER_X m = dtShortInteger" "lastErrorCode m = ERROR_NONE"
  defines "w \<equiv> read_short_integer REGISTER_X m"
  assumes "\<And>m1. same_rest m m1 \<Longrightarrow> out w m1 = o1" "\<And>m1. same_rest m m1 \<Longrightarrow> step w m1 = s1"
    and "(s1 ^^ k) w AND shortIntegerMask m = v"
    and "c = (if k = 0 then getSystemFlag FLAG_CARRY m else o1 ((s1 ^^ (k - 1)) w))"
  shows "bit_outcome lim R m v c (shift_command e out step k m)"
proof -
  have "bit_outcome lim R m v (if k = 0 then getSystemFlag FLAG_CARRY m else o1 ((s1 ^^ (k - 1)) w))
    (with_input (getShiftInput e m) (\<lambda>w base m1. let (w1, m2) = shift_loop (env_ui e) (out w m1) (step w m1) k w m1 in setShiftResult w1 base m2))"
    by (rule command_outcome [OF assms(1-3), where ui = "env_ui e"]) (use assms(5-7) in \<open>simp_all add: shift_loop_iter w_def\<close>)
  then show ?thesis unfolding shift_command_def assms(8) .
qed

lemma carry_outcome:
  assumes "regs_inv lim R m" "getRegisterDataType REGISTER_X m = dtShortInteger" "lastErrorCode m = ERROR_NONE"
    and "\<And>m1. same_rest m m1 \<Longrightarrow> rotation m1 (read_short_integer REGISTER_X m) (getSystemFlag FLAG_CARRY m) = (w1, c)"
    and "w1 AND shortIntegerMask m = v"
  shows "bit_outcome lim R m v c (carry_command e rotation m)"
proof -
  have "bit_outcome lim R m v (if False then getSystemFlag FLAG_CARRY m else c)
    (with_input (getShiftInput e m) (\<lambda>w base m1.
       let (w1, m2) = (let (w1, carry) = rotation m1 w (getSystemFlag FLAG_CARRY m1) in (w1, forceSystemFlag (env_ui e) FLAG_CARRY carry m1))
       in setShiftResult w1 base m2))"
    by (rule command_outcome [OF assms(1-3), where ui = "env_ui e"]) (use assms(4,5) in \<open>simp_all add: same_rest_fields\<close>)
  then show ?thesis unfolding carry_command_def by (simp add: case_prod_beta Let_def)
qed

lemma plain_outcome:
  assumes "regs_inv lim R m" "getRegisterDataType REGISTER_X m = dtShortInteger" "lastErrorCode m = ERROR_NONE"
    and "\<And>m1. same_rest m m1 \<Longrightarrow> f (read_short_integer REGISTER_X m) m1 AND shortIntegerMask m = v"
  shows "bit_outcome lim R m v (getSystemFlag FLAG_CARRY m) (with_input (getShiftInput e m) (\<lambda>w base m1. setShiftResult (f w m1) base m1))"
  using command_outcome [OF assms(1-3), where body = "\<lambda>w m1. (f w m1, m1)" and keep = True] assms(4) by simp

section \<open>Shifts, rotations, single bits\<close>

lemma left_index: "1 \<le> n \<Longrightarrow> (i + k * (n - 1)) mod n = nat ((int i - int k) mod int n)"
proof -
  assume n: "1 \<le> n"
  then obtain l where l: "n = Suc l" by (cases n) auto
  have "int ((i + k * (n - 1)) mod n) = (int i + int k * int l) mod int n" by (simp add: l of_nat_mod)
  also have "int i + int k * int l = int i - int k + int k * int n" by (simp add: l algebra_simps)
  also have "\<dots> mod int n = (int i - int k) mod int n" by (rule mod_mult_self1)
  finally show ?thesis by simp
qed

lemma left_index_carry: "(i + k * n) mod Suc n = nat ((int i - int k) mod int (Suc n))"
  using left_index [of "Suc n" i k] by simp

lemma top_index: "1 \<le> k \<Longrightarrow> 1 \<le> n \<Longrightarrow> nat ((int (n - 1) - int (k - 1)) mod int n) = nat ((- int k) mod int n)"
proof -
  assume "1 \<le> k" "1 \<le> n"
  then have "int (n - 1) - int (k - 1) = - int k + int n" by (simp add: of_nat_diff)
  then show ?thesis by (simp only: mod_add_self2)
qed

definition plain_env :: env where
  "plain_env = \<lparr>env_ui = \<lparr>ui_changeBase = (\<lambda>_ m. m), ui_leaveTamMode = (\<lambda>m. m), ui_setAlpha = (\<lambda>m. m), ui_clearAlpha = (\<lambda>m. m),
      ui_confirm = (\<lambda>m. m), ui_showAlphaMode = (\<lambda>m. m)\<rparr>,
    env_tvm_sync = (\<lambda>_ m. m), env_as_short_int = (\<lambda>_ m. (None, m)), env_adjust_real = (\<lambda>_ m. m)\<rparr>"

text \<open>C24. The bit commands, with a short integer of n bits in X: after k steps of a shift or rotation
  every bit of X comes from the position the command says (the sign bit repeats, zeros come in, or the
  word, with or without CARRY as its bit n, turns), and CARRY holds the last bit that left; mirror,
  clear, set and flip bit change what they say.  L gets the old X, its base stays, no other register
  changes and the data stay disjoint in the pool.  If L cannot be saved for want of memory, the
  command reports RAM full and changes nothing.\<close>

theorem bit_commands_correct:
  assumes inv: "regs_inv lim R m" and ok: "si_ok m" and x: "getRegisterDataType REGISTER_X m = dtShortInteger"
    and e: "lastErrorCode m = ERROR_NONE" and wf: "si_wf m (read_short_integer REGISTER_X m)" and j: "j < shortIntegerWordSize m"
  defines "w \<equiv> read_short_integer REGISTER_X m" and "n \<equiv> shortIntegerWordSize m" and "c \<equiv> getSystemFlag FLAG_CARRY m"
  shows "\<forall>(r, f, c') \<in> set
   [(fnAsr env k m, \<lambda>i. bit w (min (i + k) (n - 1)), if k = 0 then c else bit w (min (k - 1) (n - 1))),
    (fnSl env k m, \<lambda>i. k \<le> i \<and> bit w (i - k), if k = 0 then c else k \<le> n \<and> bit w (n - k)),
    (fnSr env k m, \<lambda>i. bit w (i + k), if k = 0 then c else bit w (k - 1)),
    (fnRl env k m, \<lambda>i. bit w (nat ((int i - int k) mod int n)), if k = 0 then c else bit w (nat ((- int k) mod int n))),
    (fnRr env k m, \<lambda>i. bit w ((i + k) mod n), if k = 0 then c else bit w ((k - 1) mod n)),
    (fnRlc env k m, \<lambda>i. carry_bit n (w, c) (nat ((int i - int k) mod int (n + 1))),
       carry_bit n (w, c) (nat ((int n - int k) mod int (n + 1)))),
    (fnRrc env k m, \<lambda>i. carry_bit n (w, c) ((i + k) mod (n + 1)), carry_bit n (w, c) ((n + k) mod (n + 1))),
    (fnMirror env m, \<lambda>i. bit w (n - 1 - i), c),
    (fnCb env j m, \<lambda>i. bit w i \<and> i \<noteq> j, c), (fnSb env j m, \<lambda>i. bit w i \<or> i = j, c), (fnFb env j m, \<lambda>i. bit w i \<longleftrightarrow> i \<noteq> j, c)].
      bit_outcome lim R m (word_of n f) c' r"
proof -
  have n: "1 \<le> n" "n \<le> 64" and mask: "shortIntegerMask m = mask n" using ok by (simp_all add: si_ok_def n_def)
  define S :: u64 where "S = push_bit (n - 1) 1"
  have sign: "shortIntegerSignBit m = S" using ok by (simp add: si_ok_def n_def S_def)
  have w: "\<And>i. bit w i \<Longrightarrow> i < n" using si_wf_bit [OF ok wf] by (simp add: w_def n_def)
  note shift = shift_outcome [OF inv x e, folded w_def c_def, unfolded mask]
  note carry = carry_outcome [OF inv x e, folded w_def c_def, unfolded mask]
  note plain = plain_outcome [OF inv x e, folded w_def c_def, unfolded mask]
  have high: "high_out S v \<longleftrightarrow> bit v (n - 1)" for v using n by (simp add: S_def high_out_bit')
  note asr_bits = bit_asr_iter [OF n w, folded S_def]
  have rl_bits: "bit ((rl_step S ^^ k) w) i \<longleftrightarrow> bit w (nat ((int i - int k) mod int n))" if "i < n" for i k
    using bit_rl_iter [OF n that, folded S_def] by (simp only: left_index [OF n(1)])
  have asr: "bit_outcome lim R m (word_of n (\<lambda>i. bit w (min (i + k) (n - 1)))) (if k = 0 then c else bit w (min (k - 1) (n - 1))) (fnAsr env k m)"
    unfolding fnAsr_def
    by (rule shift [where ?s1.0 = "asr_step (w AND S)" and ?o1.0 = low_out])
      (use n in \<open>simp_all add: same_rest_fields sign word_of_mask asr_bits low_out_bit\<close>)
  have sl: "bit_outcome lim R m (word_of n (\<lambda>i. k \<le> i \<and> bit w (i - k))) (if k = 0 then c else k \<le> n \<and> bit w (n - k)) (fnSl env k m)"
    unfolding fnSl_def
    by (rule shift [where ?s1.0 = sl_step and ?o1.0 = "high_out S"])
      (use n in \<open>auto simp: same_rest_fields sign word_of_mask bit_sl_iter high\<close>)
  have sr: "bit_outcome lim R m (word_of n (\<lambda>i. bit w (i + k))) (if k = 0 then c else bit w (k - 1)) (fnSr env k m)"
    unfolding fnSr_def
    by (rule shift [where ?s1.0 = sr_step and ?o1.0 = low_out]) (use n in \<open>simp_all add: word_of_mask bit_sr_iter low_out_bit\<close>)
  have rl: "bit_outcome lim R m (word_of n (\<lambda>i. bit w (nat ((int i - int k) mod int n)))) (if k = 0 then c else bit w (nat ((- int k) mod int n))) (fnRl env k m)"
    unfolding fnRl_def
    by (rule shift [where ?s1.0 = "rl_step S" and ?o1.0 = "high_out S"])
      (use n top_index [OF _ n(1), of k] in \<open>auto intro!: word_of_mask simp: same_rest_fields sign rl_bits high\<close>)
  have rr: "bit_outcome lim R m (word_of n (\<lambda>i. bit w ((i + k) mod n))) (if k = 0 then c else bit w ((k - 1) mod n)) (fnRr env k m)"
    unfolding fnRr_def
    by (rule shift [where ?s1.0 = "rr_step n" and ?o1.0 = low_out])
      (use n in \<open>simp_all add: same_rest_fields n_def [symmetric] word_of_mask bit_rr_iter [OF n w] low_out_bit\<close>)
  have rlc: "bit_outcome lim R m (word_of n (\<lambda>i. carry_bit n (w, c) (nat ((int i - int k) mod int (n + 1)))))
      (carry_bit n (w, c) (nat ((int n - int k) mod int (n + 1)))) (fnRlc env k m)"
  proof -
    note b = carry_bit_rlc [OF n, where k = k and w = w and c = c, unfolded left_index_carry, folded S_def]
    let ?r = "rlc_loop S k w c"
    have "snd ?r = carry_bit n (w, c) (nat ((int n - int k) mod int (n + 1)))" using b [of n] by (simp add: carry_bit_def [of n ?r])
    moreover have "bit (fst ?r) i = carry_bit n (w, c) (nat ((int i - int k) mod int (n + 1)))" if "i < n" for i
      using b [of i] that by (simp add: carry_bit_def [of n ?r])
    ultimately show ?thesis unfolding fnRlc_def
      by (intro carry [where ?w1.0 = "fst ?r"])
        (use n in \<open>simp_all add: same_rest_fields sign word_of_mask prod_eq_iff\<close>)
  qed
  have rrc: "bit_outcome lim R m (word_of n (\<lambda>i. carry_bit n (w, c) ((i + k) mod (n + 1)))) (carry_bit n (w, c) ((n + k) mod (n + 1))) (fnRrc env k m)"
  proof -
    have b: "carry_bit n (rrc_loop n k w c) i \<longleftrightarrow> carry_bit n (w, c) ((i + k) mod Suc n)" if "i \<le> n" for i
      using carry_bit_rrc [OF n that] w by blast
    let ?r = "rrc_loop n k w c"
    have "snd ?r = carry_bit n (w, c) ((n + k) mod (n + 1))" using b [of n] by (simp add: carry_bit_def [of n ?r])
    moreover have "bit (fst ?r) i = carry_bit n (w, c) ((i + k) mod (n + 1))" if "i < n" for i
      using b [of i] that by (simp add: carry_bit_def [of n ?r])
    ultimately show ?thesis unfolding fnRrc_def
      by (intro carry [where ?w1.0 = "fst ?r"])
        (use n in \<open>simp_all add: same_rest_fields n_def [symmetric] word_of_mask prod_eq_iff\<close>)
  qed
  have mirror: "bit_outcome lim R m (word_of n (\<lambda>i. bit w (n - 1 - i))) c (fnMirror env m)"
    unfolding fnMirror_def
    by (rule plain [where f = "\<lambda>x m1. mirror_bits (shortIntegerWordSize m1) x"])
      (use n in \<open>simp add: same_rest_fields n_def [symmetric] word_of_mask bit_mirror\<close>)
  have bits: "bit_outcome lim R m (word_of n f) c (bit_command env g j m)"
    if "\<And>i. i < n \<Longrightarrow> bit (g w (push_bit j 1)) i = f i" for f g
    using that j n plain [where f = "\<lambda>x m1. g x (push_bit j 1)"]
    by (simp add: bit_command_def raw_input_short [OF x] word_of_mask n_def [symmetric] del: push_bit_of_1)
  have single: "bit (push_bit j 1 :: u64) i \<longleftrightarrow> i = j" if "i < n" for i using n that by (auto simp: word_bits)
  have low: "bit (NOT v :: u64) i \<longleftrightarrow> \<not> bit v i" if "i < n" for v i using that n by (simp add: bit_not_iff)
  have cb: "bit_outcome lim R m (word_of n (\<lambda>i. bit w i \<and> i \<noteq> j)) c (fnCb env j m)"
    unfolding fnCb_def by (rule bits) (simp only: bit_and_iff low single)
  have sb: "bit_outcome lim R m (word_of n (\<lambda>i. bit w i \<or> i = j)) c (fnSb env j m)"
    unfolding fnSb_def by (rule bits) (simp only: bit_or_iff single)
  have fb: "bit_outcome lim R m (word_of n (\<lambda>i. bit w i \<longleftrightarrow> i \<noteq> j)) c (fnFb env j m)"
    unfolding fnFb_def by (rule bits) (auto simp only: bit_xor_iff single)
  show ?thesis
    by (simp only: list.set ball_simps case_prod_conv asr sl sr rl rr rlc rrc mirror cb sb fb simp_thms)
qed

lemma plain_machine_ok: "si_ok plain_machine" "shortIntegerWordSize plain_machine = 64" "lastErrorCode plain_machine = ERROR_NONE"
  by (simp_all add: si_ok_def plain_machine_def plain_calc_def calc.defs mask_eq_exp_minus_1)

lemma bit_commands_correct_witness:
  "bit_outcome 65533 {#} plain_machine (word_of 64 (\<lambda>i. bit (read_short_integer REGISTER_X plain_machine) (i + 3)))
     (bit (read_short_integer REGISTER_X plain_machine) 2) (fnSr plain_env 3 plain_machine)"
proof -
  have x: "getRegisterDataType REGISTER_X plain_machine = dtShortInteger"
    by (simp add: slot_getters(1) plain_header_def)
  have wf: "si_wf plain_machine (read_short_integer REGISTER_X plain_machine)"
    by (simp add: si_wf_def si_half_def plain_machine_ok)
  show ?thesis
    using bit_commands_correct [OF plain_machine_inv plain_machine_ok(1) x plain_machine_ok(3) wf, of 0 plain_env 3]
    by (simp add: plain_machine_ok)
qed

section \<open>Inverses\<close>

lemma turn_back: "0 < n \<Longrightarrow> ((i + k) mod n + k * (n - 1)) mod n = i mod n" "0 < n \<Longrightarrow> ((i + k * (n - 1)) mod n + k) mod n = i mod (n :: nat)"
proof -
  assume "0 < n"
  then have e: "k + k * (n - 1) = k * n" by (cases n) simp_all
  show "((i + k) mod n + k * (n - 1)) mod n = i mod n" "((i + k * (n - 1)) mod n + k) mod n = i mod n"
    using e by (simp_all only: mod_add_left_eq add.assoc add.commute [of "k * (n - 1)" k] mod_mult_self1)
qed

lemma carry_bit_eqI:
  assumes "\<And>i. bit (fst p) i \<Longrightarrow> i < n" "\<And>i. bit (fst q) i \<Longrightarrow> i < n" "\<And>i. i \<le> n \<Longrightarrow> carry_bit n p i = carry_bit n q i"
  shows "p = q"
proof -
  have "bit (fst p) i = bit (fst q) i" for i using assms(1,2) [of i] assms(3) [of i] by (cases "i < n") (auto simp: carry_bit_def)
  moreover have "snd p = snd q" using assms(3) [of n] by (simp add: carry_bit_def)
  ultimately show ?thesis by (simp add: prod_eq_iff bit_eq_iff)
qed

lemma carry_bit_masked: "i \<le> n \<Longrightarrow> carry_bit n (w AND mask n, c) i = carry_bit n (w, c) (i :: nat)" if "n \<le> 64"
  using that by (auto simp: carry_bit_def bit_and_iff bit_mask_iff)

text \<open>C25. For every word size: rotating left and then right by as many steps, or right and then
  left, with or without CARRY, gives the word (and CARRY) back; so do mirroring twice and, for the word
  sizes the byte order commands establish, exchanging the bytes or the 16-bit groups twice.  Zip and
  unzip are inverse on half words.  Results are taken under the word mask, as they are stored.\<close>

theorem bit_rearrangements_invertible:
  assumes ok: "si_ok m" and wf: "si_wf m w"
  defines "n \<equiv> shortIntegerWordSize m" and "S \<equiv> shortIntegerSignBit m" and "M \<equiv> shortIntegerMask m" and "h \<equiv> shortIntegerWordSize m div 2"
  shows "(let w1 = fst (shift_loop ui out1 (rl_step S) k w m) AND M in fst (shift_loop ui out2 (rr_step n) k w1 m) = w) \<and>
    (let w1 = fst (shift_loop ui out2 (rr_step n) k w m) in fst (shift_loop ui out1 (rl_step S) k w1 m) AND M = w) \<and>
    (let (w1, c1) = rlc_loop S k w c in rrc_loop n k (w1 AND M) c1 = (w, c)) \<and>
    (let (w1, c1) = rrc_loop n k w c; (w2, c2) = rlc_loop S k w1 c1 in (w2 AND M, c2) = (w, c)) \<and>
    mirror_bits n (mirror_bits n w) = w \<and>
    unzip_loop h 0 1 (zip_loop h 0 1 x y 0) 0 0 = (x AND mask h, y AND mask h) \<and>
    (even n \<longrightarrow> (let (x, y) = unzip_loop h 0 1 w 0 0 in zip_loop h 0 1 x y 0 = w)) \<and>
    (n \<in> {16, 24, 32, 40, 48, 56, 64} \<longrightarrow> swap_bytes 8 n (swap_bytes 8 n w) = w) \<and>
    (n \<in> {32, 48, 64} \<longrightarrow> swap_bytes 16 n (swap_bytes 16 n w) = w)"
proof -
  have n: "1 \<le> n" "n \<le> 64" and M: "M = mask n" and S: "S = push_bit (n - 1) 1" and h': "h = n div 2"
    using ok by (simp_all add: si_ok_def n_def M_def S_def h_def)
  have h: "h \<le> 32" "h = n div 2" using n h' by simp_all
  have w: "\<And>i. bit w i \<Longrightarrow> i < n" using si_wf_bit [OF ok wf] by (simp add: n_def)
  have masked: "bit (v AND mask n :: u64) i \<longleftrightarrow> i < n \<and> bit v i" for v i using n by (auto simp: bit_and_iff bit_mask_iff)
  have eqI: "u = w" if "\<And>i. bit u i \<longleftrightarrow> i < n \<and> bit w i" for u using that w by (auto simp: bit_eq_iff)
  have m_le: "l mod Suc n \<le> n" for l by (simp add: less_Suc_eq_le [symmetric])
  note turn = turn_back [OF order.strict_trans2 [OF zero_less_one n(1)]] and turn_carry = turn_back [of "Suc n", simplified diff_Suc_1, OF zero_less_Suc]
  have rr_bits: "bit ((rr_step n ^^ k) w) i \<longleftrightarrow> i < n \<and> bit w ((i + k) mod n)" for i by (rule bit_rr_iter [OF n w])
  have rrc_bits: "carry_bit n (rrc_loop n k w c) i \<longleftrightarrow> carry_bit n (w, c) ((i + k) mod Suc n)" if "i \<le> n" for i
    by (rule carry_bit_rrc [OF n that w])
  note rl_bits = bit_rl_iter [OF n, folded S] and rlc_bits = carry_bit_rlc [OF n, folded S]
  have lr: "fst (shift_loop ui out2 (rr_step n) k (fst (shift_loop ui out1 (rl_step S) k w m) AND M) m) = w"
  proof (rule eqI)
    fix i
    show "bit (fst (shift_loop ui out2 (rr_step n) k (fst (shift_loop ui out1 (rl_step S) k w m) AND M) m)) i \<longleftrightarrow> i < n \<and> bit w i"
      using n turn(1) [of i k] bit_rr_iter [OF n, of "(rl_step S ^^ k) w AND mask n" k i] rl_bits [of "(i + k) mod n" k w]
      by (simp add: shift_loop_iter M masked) auto
  qed
  have rl: "fst (shift_loop ui out1 (rl_step S) k (fst (shift_loop ui out2 (rr_step n) k w m)) m) AND M = w"
  proof (rule eqI)
    fix i
    show "bit (fst (shift_loop ui out1 (rl_step S) k (fst (shift_loop ui out2 (rr_step n) k w m)) m) AND M) i \<longleftrightarrow> i < n \<and> bit w i"
      using n turn(2) [of i k] rr_bits [of "(i + k * (n - 1)) mod n"] rl_bits [of i k "(rr_step n ^^ k) w"]
      by (simp add: shift_loop_iter M masked) auto
  qed
  have lrc: "rrc_loop n k (fst (rlc_loop S k w c) AND M) (snd (rlc_loop S k w c)) = (w, c)"
  proof (rule carry_bit_eqI)
    let ?p = "rlc_loop S k w c"
    have b: "\<And>i. bit (fst ?p AND M) i \<Longrightarrow> i < n" by (simp add: M masked)
    show "\<And>i. bit (fst (rrc_loop n k (fst ?p AND M) (snd ?p))) i \<Longrightarrow> i < n" by (rule rrc_loop_below [OF n b])
    show "carry_bit n (rrc_loop n k (fst ?p AND M) (snd ?p)) i = carry_bit n (w, c) i" if "i \<le> n" for i
      using carry_bit_rrc [OF n that, of "fst ?p AND M" k "snd ?p", OF b] rlc_bits [OF m_le [of "i + k"], of k w c] turn_carry(1) [of i k] that
      by (simp only: carry_bit_masked [OF n(2) m_le] M prod.collapse mod_less less_Suc_eq_le)
  qed (use w in simp)
  have rlc: "(fst (rlc_loop S k (fst (rrc_loop n k w c)) (snd (rrc_loop n k w c))) AND M, snd (rlc_loop S k (fst (rrc_loop n k w c)) (snd (rrc_loop n k w c)))) = (w, c)"
  proof (rule carry_bit_eqI)
    let ?p = "rrc_loop n k w c"
    let ?q = "rlc_loop S k (fst ?p) (snd ?p)"
    show "carry_bit n (fst ?q AND M, snd ?q) i = carry_bit n (w, c) i" if "i \<le> n" for i
      using rrc_bits [OF m_le [of "i + k * n"]] rlc_bits [OF that, of k "fst ?p" "snd ?p"] turn_carry(2) [of i k] that
      by (simp only: carry_bit_masked [OF n(2) that] M prod.collapse mod_less less_Suc_eq_le)
  qed (use w in \<open>simp_all add: M masked\<close>)
  have mirror: "mirror_bits n (mirror_bits n w) = w"
    by (rule eqI) (use n in \<open>auto simp: bit_mirror\<close>)
  have unzip: "unzip_loop h 0 1 (zip_loop h 0 1 x y 0) 0 0 = (x AND mask h, y AND mask h)"
    by (rule prod_eqI; rule bit_word_eqI) (use h in \<open>auto simp: bit_unzip bit_zip bit_and_iff bit_mask_iff\<close>)
  have zip: "zip_loop h 0 1 (fst (unzip_loop h 0 1 w 0 0)) (snd (unzip_loop h 0 1 w 0 0)) 0 = w" if "even n"
  proof (rule eqI)
    fix i
    have "i div 2 < h \<longleftrightarrow> i < n" "bit (if even i then fst (unzip_loop h 0 1 w 0 0) else snd (unzip_loop h 0 1 w 0 0)) (i div 2) \<longleftrightarrow> i div 2 < h \<and> bit w i"
      using that h by (auto simp: bit_unzip)
    then show "bit (zip_loop h 0 1 (fst (unzip_loop h 0 1 w 0 0)) (snd (unzip_loop h 0 1 w 0 0)) 0) i \<longleftrightarrow> i < n \<and> bit w i"
      unfolding bit_zip [OF h(1)] by simp
  qed
  have swap: "swap_bytes v n (swap_bytes v n w) = w"
    if v: "v = 8 \<and> n \<in> {16, 24, 32, 40, 48, 56, 64} \<or> v = 16 \<and> n \<in> {32, 48, 64}" for v
  proof (rule eqI)
    fix i
    from v obtain l where l: "n = v * Suc l" "0 < v" by (auto intro: that [of "n div v - 1"])
    let ?i = "n - v - v * (i div v) + i mod v"
    have "?i < n \<and> n - v - v * (?i div v) + ?i mod v = i" if "i < n"
    proof -
      have q: "i div v \<le> l" using that l by (simp add: less_Suc_eq_le [symmetric] less_mult_imp_div_less mult.commute)
      have e: "n - v - v * a = v * (l - a)" for a using l by (simp add: algebra_simps)
      have "(v * (l - i div v) + i mod v) div v = l - i div v" "(v * (l - i div v) + i mod v) mod v = i mod v"
        using l(2) by simp_all
      moreover have "l - (l - i div v) = i div v" using q by simp
      moreover have "v * (l - i div v) + i mod v < v * Suc l"
        using add_le_less_mono [OF mult_le_mono2 [OF diff_le_self] mod_less_divisor [OF l(2)], of v l "i div v" i] by simp
      ultimately show ?thesis unfolding e using l(1) by simp
    qed
    then show "bit (swap_bytes v n (swap_bytes v n w)) i \<longleftrightarrow> i < n \<and> bit w i" by (auto simp: bit_swap_bytes [OF v])
  qed
  show ?thesis using lr rl lrc rlc mirror unzip zip swap [of 8] swap [of 16] by (simp add: Let_def case_prod_beta)
qed

lemma bit_rearrangements_invertible_witness:
  "swap_bytes 8 64 (swap_bytes 8 64 0x0123456789ABCDEF) = 0x0123456789ABCDEF \<and>
   (let (x, y) = unzip_loop 32 0 1 0x0123456789ABCDEF 0 0 in zip_loop 32 0 1 x y 0 = 0x0123456789ABCDEF)"
proof -
  have "si_wf plain_machine 0x0123456789ABCDEF" by (simp add: si_wf_def si_half_def plain_machine_ok)
  from bit_rearrangements_invertible [OF plain_machine_ok(1) this] show ?thesis by (simp add: plain_machine_ok)
qed

end
