(* ===== verification/WordSize.thy ===== *)
theory WordSize
  imports BitCommands
begin

text \<open>
  The word size command: the new masks, the short integers of the stack and of L cut to the new size,
  everything else untouched.
\<close>

section \<open>Clamping\<close>

definition short_of :: "u32 list \<Rightarrow> u64" where
  "short_of bs = ucast (bs ! 0) OR push_bit 32 (ucast (bs ! 1))"

lemma short_of_blocks [simp]: "short_of (short_blocks v) = v"
proof -
  have "bit (ucast (ucast v :: u32) OR push_bit 32 (ucast (ucast (drop_bit 32 v) :: u32)) :: u64) i = bit v i" if "i < 64" for i
    using that by (auto simp: bit_ucast_iff bit_or_iff bit_push_bit_iff bit_drop_bit_eq)
  then show ?thesis by (intro bit_word_eqI) (simp add: short_of_def short_blocks_def)
qed

definition clamp_value :: "u64 \<Rightarrow> reg_value \<Rightarrow> reg_value" where
  "clamp_value M v = (case v of (dt, t, bs) \<Rightarrow> if dt = dtShortInteger then short_value t (short_of bs AND M) else v)"

lemma clamp_value_simps [simp]:
  "clamp_value M (short_value t w) = short_value t (w AND M)"
  "clamp_value M (clamp_value M v) = clamp_value M v"
  by (auto simp: clamp_value_def short_value_def and.assoc split: prod.split)

definition clamped :: "u64 \<Rightarrow> nat set \<Rightarrow> reg_value list \<Rightarrow> reg_value list" where
  "clamped M A vs = map (\<lambda>k. if k \<in> A then clamp_value M (vs ! k) else vs ! k) [0 ..< length vs]"

lemma clamped_update: "k < length vs \<Longrightarrow> clamped M A (vs[k := clamp_value M (vs ! k)]) = clamped M (insert k A) vs"
  by (rule nth_equalityI) (auto simp: clamped_def nth_list_update)

lemma clamped_empty [simp]: "clamped M {} vs = vs"
  by (rule nth_equalityI) (simp_all add: clamped_def)

lemma clamp_other: "fst (vs ! k) \<noteq> dtShortInteger \<Longrightarrow> clamped M (insert k A) vs = clamped M A vs"
  by (rule nth_equalityI) (auto simp: clamped_def clamp_value_def split: prod.split)

lemma type_of_value:
  "regs_inv lim R m \<Longrightarrow> k \<le> LAST_GLOBAL_REGISTER \<Longrightarrow> k < length (all_headers m) \<and> getRegisterDataType k m = fst (reg_values m ! k)"
  using slot_less [of m k k] slot_getters(1) [of m k k] by (simp add: reg_values_def hvalue_def)

lemma clamp_registers_values:
  assumes "regs_inv lim R m" "\<forall>r \<in> set rs. r \<le> LAST_GLOBAL_REGISTER"
  shows "\<exists>m'. clamp_registers rs m = Inr m' \<and> same_rest m m' \<and> regs_inv lim R m' \<and>
           reg_values m' = clamped (shortIntegerMask m) (set rs) (reg_values m)"
  using assms
proof (induction rs arbitrary: m)
  case (Cons r rs)
  have r: "r \<le> LAST_GLOBAL_REGISTER" and inv: "regs_inv lim R m" using Cons.prems by auto
  note t = type_of_value [OF inv r]
  have len: "length (reg_values m) = length (all_headers m)" by (simp add: reg_values_def)
  show ?case
  proof (cases "getRegisterDataType r m = dtShortInteger")
    case False
    with Cons.IH [OF inv] Cons.prems(2) t show ?thesis by (simp add: clamp_other)
  next
    case True
    have dt: "dataType (all_headers m ! r) = dtShortInteger"
      using True slot_getters(1) [OF regs_inv_globals [OF inv] slot_global [OF r]] by simp
    obtain m1 where m1: "write_short_integer r (read_short_integer r m AND shortIntegerMask m) m = Inr m1" "same_rest m m1"
        "regs_inv lim R m1" "reg_values m1 = (reg_values m)[r := short_value (getRegisterTag r m) (read_short_integer r m AND shortIntegerMask m)]"
      using write_short [OF inv slot_global [OF r] dt] by metis
    have "reg_values m1 = (reg_values m)[r := clamp_value (shortIntegerMask m) (reg_values m ! r)]"
      using m1(4) short_register(2) [OF inv slot_global [OF r] dt] by simp
    then have "clamped (shortIntegerMask m1) (set rs) (reg_values m1) = clamped (shortIntegerMask m) (set (r # rs)) (reg_values m)"
      using clamped_update [of r "reg_values m"] t len same_rest_fields(4) [OF m1(2)] by simp
    with Cons.IH [OF m1(3)] Cons.prems(2) True m1(1) same_rest_trans [OF m1(2)] show ?thesis by fastforce
  qed
qed simp

section \<open>The command\<close>

lemma setting_frame:
  "all_headers (setSystemFlagChanged sf m) = all_headers m" "globals_ok (setSystemFlagChanged sf m) = globals_ok m"
  "memory (setSystemFlagChanged sf m) = memory m" "lastErrorCode (setSystemFlagChanged sf m) = lastErrorCode m"
  "shortIntegerWordSize (setSystemFlagChanged sf m) = shortIntegerWordSize m" "shortIntegerMode (setSystemFlagChanged sf m) = shortIntegerMode m"
  "getSystemFlag f (setSystemFlagChanged sf m) = getSystemFlag f m"
  by (simp_all add: setSystemFlagChanged_def all_headers_def local_headers_def globals_ok_def getSystemFlag_def Let_def)

lemma masks_frame:
  "all_headers (updateShortIntegerMasks m) = all_headers m" "globals_ok (updateShortIntegerMasks m) = globals_ok m"
  "memory (updateShortIntegerMasks m) = memory m" "lastErrorCode (updateShortIntegerMasks m) = lastErrorCode m"
  "shortIntegerWordSize (updateShortIntegerMasks m) = shortIntegerWordSize m" "shortIntegerMode (updateShortIntegerMasks m) = shortIntegerMode m"
  "getSystemFlag f (updateShortIntegerMasks m) = getSystemFlag f m"
  by (simp_all add: updateShortIntegerMasks_def all_headers_def local_headers_def globals_ok_def getSystemFlag_def Let_def)

lemma record_frame:
  "all_headers (m\<lparr>shortIntegerWordSize := n\<rparr>) = all_headers m" "globals_ok (m\<lparr>shortIntegerWordSize := n\<rparr>) = globals_ok m"
  "all_headers (m\<lparr>screenUpdatingMode := s\<rparr>) = all_headers m" "globals_ok (m\<lparr>screenUpdatingMode := s\<rparr>) = globals_ok m"
  "all_headers (fnRefreshState m) = all_headers m" "globals_ok (fnRefreshState m) = globals_ok m" "memory (fnRefreshState m) = memory m"
  "getSystemFlag f (m\<lparr>shortIntegerWordSize := n\<rparr>) = getSystemFlag f m" "getSystemFlag f (m\<lparr>screenUpdatingMode := s\<rparr>) = getSystemFlag f m"
  for m :: machine
  by (simp_all add: all_headers_def local_headers_def globals_ok_def getSystemFlag_def fnRefreshState_def)

lemmas word_size_frame = setting_frame masks_frame record_frame

text \<open>C26. The word size command always succeeds.  It leaves a consistent word size, mask and sign bit
  for the new size (0 stands for 64); a smaller size cuts the short integers of the stack and of L to
  the new mask and changes no other value, a larger one changes no value at all; so the short integers
  in the stack and in L that fitted the old size fit the new one.  The data stay disjoint in the pool.\<close>

theorem fnSetWordSize_keeps_types:
  assumes inv: "regs_inv lim R m" and ok: "si_ok m" and WS: "WS \<le> 64"
  defines "n \<equiv> if WS = 0 then 64 else WS" and "A \<equiv> {REGISTER_X .. getStackTop m} \<union> {REGISTER_L}"
  shows "\<exists>m'. fnSetWordSize WS m = Inr m' \<and> si_ok m' \<and> shortIntegerWordSize m' = n \<and> regs_inv lim R m' \<and> lastErrorCode m' = lastErrorCode m \<and>
    reg_values m' = (if n < shortIntegerWordSize m then clamped (mask n) A (reg_values m) else reg_values m) \<and>
    (\<forall>k \<in> A. getRegisterDataType k m' = getRegisterDataType k m \<and>
       (getRegisterDataType k m = dtShortInteger \<longrightarrow> si_wf m (read_short_integer k m) \<longrightarrow>
        si_wf m' (read_short_integer k m') \<and> read_short_integer k m' = read_short_integer k m AND mask n))"
proof -
  have n: "1 \<le> n" "n \<le> 64" using WS by (auto simp: n_def)
  define m1 where "m1 = (if shortIntegerWordSize m \<noteq> WS
      then (setSystemFlagChanged SETTING_SINT_WS m)\<lparr>screenUpdatingMode := screenUpdatingMode m AND NOT SCRUPD_MANUAL_STATUSBAR\<rparr> else m)"
  define m2 where "m2 = updateShortIntegerMasks (m1\<lparr>shortIntegerWordSize := n\<rparr>)"
  have f1: "all_headers m1 = all_headers m" "globals_ok m1 = globals_ok m" "memory m1 = memory m" "lastErrorCode m1 = lastErrorCode m"
    "shortIntegerMode m1 = shortIntegerMode m" "getSystemFlag f m1 = getSystemFlag f m" "shortIntegerWordSize m1 = shortIntegerWordSize m" for f
    by (simp_all add: m1_def word_size_frame)
  have f2: "all_headers m2 = all_headers m" "globals_ok m2 = globals_ok m" "memory m2 = memory m" "lastErrorCode m2 = lastErrorCode m"
    "getSystemFlag f m2 = getSystemFlag f m" "shortIntegerWordSize m2 = n" for f
    by (simp_all add: m2_def word_size_frame f1)
  have ok2: "si_ok m2" unfolding m2_def by (rule updateShortIntegerMasks_ok) (use n ok f1 in \<open>simp_all add: si_ok_def\<close>)
  then have mask: "shortIntegerMask m2 = mask n" by (simp add: si_ok_def f2)
  have inv2: "regs_inv lim R m2" and v2: "reg_values m2 = reg_values m" using regs_inv_cong [of m2 m] f2 inv by simp_all
  have top: "getStackTop m2 = getStackTop m" by (simp add: getStackTop_def f2)
  have top_le: "getStackTop m \<le> LAST_GLOBAL_REGISTER" by (simp add: getStackTop_def)
  let ?rs = "[REGISTER_X ..< Suc (getStackTop m)] @ [REGISTER_L]"
  have A: "set ?rs = A" "\<forall>r \<in> set ?rs. r \<le> LAST_GLOBAL_REGISTER" using top_le by (auto simp: A_def)
  have n256: "n mod 256 = n" using n by simp
  have run: "fnSetWordSize WS m = andThen (if n < shortIntegerWordSize m then clamp_registers ?rs m2 else Inr m2) (\<lambda>m3. Inr (fnRefreshState m3))"
    using top by (simp only: fnSetWordSize_def Let_def m1_def [symmetric] n_def [symmetric] n256 m2_def [symmetric] f1)
  obtain m3 where m3: "(if n < shortIntegerWordSize m then clamp_registers ?rs m2 else Inr m2) = Inr m3" "same_rest m2 m3" "regs_inv lim R m3"
      "reg_values m3 = (if n < shortIntegerWordSize m then clamped (mask n) A (reg_values m) else reg_values m)"
  proof (cases "n < shortIntegerWordSize m")
    case True
    with clamp_registers_values [OF inv2 A(2)] that show thesis unfolding A(1) mask v2 by auto
  qed (use that inv2 v2 in simp)
  let ?m' = "fnRefreshState m3"
  have inv': "regs_inv lim R ?m'" and v': "reg_values ?m' = reg_values m3"
    using regs_inv_cong [of ?m' m3] m3(3) by (simp_all add: word_size_frame)
  note f3 = same_rest_fields [OF m3(2)]
  have ok': "si_ok ?m'" using ok2 f3 by (simp add: si_ok_def fnRefreshState_def)
  have size': "shortIntegerWordSize ?m' = n" using f3 f2 by (simp add: fnRefreshState_def)
  have each: "getRegisterDataType k ?m' = getRegisterDataType k m \<and>
       (getRegisterDataType k m = dtShortInteger \<longrightarrow> si_wf m (read_short_integer k m) \<longrightarrow>
        si_wf ?m' (read_short_integer k ?m') \<and> read_short_integer k ?m' = read_short_integer k m AND mask n)" if k: "k \<in> A" for k
  proof -
    have kl: "k \<le> LAST_GLOBAL_REGISTER" using k A by blast
    note t = type_of_value [OF inv kl] and t' = type_of_value [OF inv' kl]
    have len: "k < length (reg_values m)" using t by (simp add: reg_values_def)
    have val: "reg_values ?m' ! k = (if n < shortIntegerWordSize m then clamp_value (mask n) (reg_values m ! k) else reg_values m ! k)"
      using m3(4) v' k len by (simp add: clamped_def)
    then have type: "getRegisterDataType k ?m' = getRegisterDataType k m"
      using t t' by (auto simp: clamp_value_def short_value_def split: prod.splits)
    moreover have "si_wf ?m' (read_short_integer k ?m') \<and> read_short_integer k ?m' = read_short_integer k m AND mask n"
      if s: "getRegisterDataType k m = dtShortInteger" and wf: "si_wf m (read_short_integer k m)"
    proof -
      note short = short_register(2) [OF inv slot_global [OF kl]] and short' = short_register(2) [OF inv' slot_global [OF kl]]
      have dt: "dataType (all_headers m ! k) = dtShortInteger" "dataType (all_headers ?m' ! k) = dtShortInteger"
        using s type slot_getters(1) [OF regs_inv_globals [OF inv] slot_global [OF kl]] slot_getters(1) [OF regs_inv_globals [OF inv'] slot_global [OF kl]]
        by simp_all
      have "read_short_integer k m AND mask n = read_short_integer k m" if "\<not> n < shortIntegerWordSize m"
      proof (rule bit_word_eqI)
        show "bit (read_short_integer k m AND mask n) i = bit (read_short_integer k m) i" for i
          using si_wf_bit [OF ok wf, of i] that by (auto simp: bit_and_iff bit_mask_iff bit_u64_imp_less)
      qed
      then have "short_value (getRegisterTag k ?m') (read_short_integer k ?m') = short_value (getRegisterTag k m) (read_short_integer k m AND mask n)"
        using val unfolding short [OF dt(1)] short' [OF dt(2)] by (auto split: if_splits)
      then have e: "read_short_integer k ?m' = read_short_integer k m AND mask n" by simp
      moreover have "shortIntegerMask ?m' = mask n" using ok' size' by (simp add: si_ok_def)
      ultimately show ?thesis using mask_wf [OF ok', of "read_short_integer k m"] by simp
    qed
    ultimately show ?thesis by blast
  qed
  have err: "lastErrorCode ?m' = lastErrorCode m" using f3(1) f2(4) by (simp add: fnRefreshState_def)
  have res: "fnSetWordSize WS m = Inr ?m'" unfolding run m3(1) by simp
  show ?thesis
    using each by (intro exI [of _ ?m'] conjI ballI) (simp_all only: res ok' size' inv' err v' m3(4) simp_thms, blast+)
qed

lemma fnSetWordSize_keeps_types_witness:
  "\<exists>m'. fnSetWordSize 8 plain_machine = Inr m' \<and> si_ok m' \<and> shortIntegerWordSize m' = 8 \<and>
     reg_values m' = clamped (mask 8) ({REGISTER_X .. getStackTop plain_machine} \<union> {REGISTER_L}) (reg_values plain_machine)"
proof -
  from fnSetWordSize_keeps_types [OF plain_machine_inv plain_machine_ok(1), of 8] show ?thesis
    by (simp add: plain_machine_ok) blast
qed

end
