(* ===== verification/StackProps.thy ===== *)
theory StackProps
  imports RegisterProps Stack
begin

text \<open>
  The stack operations on register values.  Rolling and swapping permute the headers and touch nothing
  else: their common contract is the locale \<open>header_permutation\<close>, interpreted for each of them.  Lifting
  and dropping are a permutation followed by the replacement of one register.
\<close>

section \<open>Permutations of the headers\<close>

definition reindexed :: "(nat \<Rightarrow> nat) \<Rightarrow> machine \<Rightarrow> machine \<Rightarrow> bool" where
  "reindexed f m m' \<longleftrightarrow> same_rest m m' \<and> memory m' = memory m \<and>
     all_headers m' = map (\<lambda>k. all_headers m ! f k) [0 ..< length (all_headers m)]"

lemma mset_reindex:
  assumes "bij_betw f {0 ..< length xs} {0 ..< length xs}"
  shows "mset (map (\<lambda>k. xs ! f k) [0 ..< length xs]) = mset xs"
proof -
  let ?A = "{0 ..< length xs}"
  have "mset (map (\<lambda>k. xs ! f k) [0 ..< length xs]) = image_mset (nth xs) (image_mset f (mset_set ?A))"
    by (simp add: image_mset.compositionality o_def flip: mset_upt)
  also have "image_mset f (mset_set ?A) = mset_set ?A"
    using assms by (simp add: image_mset_mset_set bij_betw_def)
  also have "image_mset (nth xs) (mset_set ?A) = mset (map (nth xs) [0 ..< length xs])"
    by (simp flip: mset_upt)
  finally show ?thesis by (simp add: map_nth)
qed

lemma reindexed_values:
  assumes r: "reindexed f m m'" and bij: "bij_betw f {0 ..< length (all_headers m)} {0 ..< length (all_headers m)}"
  shows "regs_inv lim R m' = regs_inv lim R m"
    and "reg_values m' = map (\<lambda>k. reg_values m ! f k) [0 ..< length (reg_values m)]"
    and "pieces m' = pieces m" and "mset (all_headers m') = mset (all_headers m)"
proof -
  have hs: "all_headers m' = map (\<lambda>k. all_headers m ! f k) [0 ..< length (all_headers m)]"
    and mem: "memory m' = memory m" and rest: "same_rest m m'" using r by (auto simp: reindexed_def)
  have ram: "ram_block a m' = ram_block a m" for a by (simp add: ram_block_def mem)
  then have same: "hpiece m' = hpiece m" "hvalue m' = hvalue m" "header_ok m' = header_ok m"
    by (intro ext; simp add: hpiece_def hvalue_def hsize_def header_ok_def)+
  show ms: "mset (all_headers m') = mset (all_headers m)" by (simp only: hs mset_reindex [OF bij])
  then show pcs: "pieces m' = pieces m" by (simp add: pieces_def same)
  have "set (all_headers m') = set (all_headers m)" by (rule mset_eq_setD [OF ms])
  then show "regs_inv lim R m' = regs_inv lim R m"
    using same_rest_globals_ok [OF rest] pcs by (simp add: regs_inv_def mem same list_all_iff)
  have "f k < length (all_headers m)" if "k < length (all_headers m)" for k
    using bij that by (auto simp: bij_betw_def)
  then show "reg_values m' = map (\<lambda>k. reg_values m ! f k) [0 ..< length (reg_values m)]"
    by (simp add: reg_values_def hs same)
qed

locale header_permutation =
  fixes operation :: "machine \<Rightarrow> machine" and place :: "machine \<Rightarrow> nat \<Rightarrow> nat"
  assumes reindexes: "globals_ok m \<Longrightarrow> reindexed (place m) m (operation m)"
    and place_bij: "globals_ok m \<Longrightarrow> bij_betw (place m) {0 ..< length (all_headers m)} {0 ..< length (all_headers m)}"
begin

lemma keeps_inv: "regs_inv lim R m \<Longrightarrow> regs_inv lim R (operation m)"
  using reindexed_values(1) [OF reindexes place_bij] by simp

lemma moves_values: "globals_ok m \<Longrightarrow> reg_values (operation m) = map (\<lambda>k. reg_values m ! place m k) [0 ..< length (reg_values m)]"
  using reindexed_values(2) [OF reindexes place_bij] by simp

lemma keeps_pieces: "globals_ok m \<Longrightarrow> pieces (operation m) = pieces m"
  using reindexed_values(3) [OF reindexes place_bij] by simp

lemma keeps_rest: "globals_ok m \<Longrightarrow> same_rest m (operation m) \<and> memory (operation m) = memory m"
  using reindexes by (simp add: reindexed_def)

lemma keeps_length: "globals_ok m \<Longrightarrow> length (all_headers (operation m)) = length (all_headers m)"
  using reindexes by (simp add: reindexed_def)

end

section \<open>Moving headers\<close>

definition moved :: "(nat \<times> nat) list \<Rightarrow> registerHeader list \<Rightarrow> registerHeader list" where
  "moved moves hs = fold (\<lambda>(d, s) xs. xs[d := xs ! s]) moves hs"

lemma move_headers_moved: "move_headers moves m = m\<lparr>globalRegister := moved moves (globalRegister m)\<rparr>"
  by (induction moves arbitrary: m) (auto simp: move_headers_def moved_def set_global_def)

lemma length_moved [simp]: "length (moved moves hs) = length hs"
  by (induction moves arbitrary: hs) (auto simp: moved_def)

lemma moved_up:
  "REGISTER_X \<le> t \<Longrightarrow> t < length hs \<Longrightarrow> k < length hs \<Longrightarrow>
   moved (shift_up t) hs ! k = hs ! (if REGISTER_X < k \<and> k \<le> t then k - 1 else k)"
proof (induction t arbitrary: hs)
  case (Suc t)
  show ?case
  proof (cases "REGISTER_X \<le> t")
    case True
    then have "shift_up (Suc t) = (Suc t, t) # shift_up t" by (simp add: shift_up_def)
    then have "moved (shift_up (Suc t)) hs = moved (shift_up t) (hs[Suc t := hs ! t])" by (simp add: moved_def)
    with Suc.IH [of "hs[Suc t := hs ! t]"] Suc.prems True show ?thesis
      by (auto simp: nth_list_update le_Suc_eq)
  next
    case False
    with Suc.prems show ?thesis by (auto simp: shift_up_def moved_def)
  qed
qed (simp add: shift_up_def)

lemma moved_down:
  "first \<le> t \<Longrightarrow> t < length hs \<Longrightarrow> k < length hs \<Longrightarrow>
   moved (shift_down first t) hs ! k = hs ! (if first \<le> k \<and> k < t then k + 1 else k)"
proof (induction t arbitrary: k)
  case (Suc t)
  show ?case
  proof (cases "first \<le> t")
    case True
    then have "shift_down first (Suc t) = shift_down first t @ [(t, Suc t)]" by (simp add: shift_down_def)
    then have "moved (shift_down first (Suc t)) hs = (moved (shift_down first t) hs)[t := moved (shift_down first t) hs ! Suc t]"
      by (simp add: moved_def)
    with Suc True show ?thesis by (auto simp: nth_list_update less_Suc_eq)
  next
    case False
    with Suc.prems show ?thesis by (auto simp: shift_down_def moved_def)
  qed
qed (simp add: shift_down_def moved_def)

lemma same_rest_globalRegister [simp]:
  "length gs = length (globalRegister m) \<Longrightarrow> same_rest m (m\<lparr>globalRegister := gs\<rparr>)"
  by (simp add: same_rest_def shape_def core_def)

lemma local_headers_globalRegister [simp]: "local_headers (m\<lparr>globalRegister := gs\<rparr>) = local_headers m"
  by (simp add: local_headers_def)

lemma all_headers_globalRegister:
  "all_headers (m\<lparr>globalRegister := gs\<rparr>) = gs @ namedVariables m @ local_headers m"
  by (simp add: all_headers_def local_headers_def)

lemma reindexed_globals:
  assumes g: "globals_ok m" and len: "length gs = length (globalRegister m)"
    and nth: "\<And>k. k \<le> LAST_GLOBAL_REGISTER \<Longrightarrow> gs ! k = globalRegister m ! f k"
    and f: "\<And>k. k \<le> LAST_GLOBAL_REGISTER \<Longrightarrow> f k \<le> LAST_GLOBAL_REGISTER" "\<And>k. LAST_GLOBAL_REGISTER < k \<Longrightarrow> f k = k"
  shows "reindexed f m (m\<lparr>globalRegister := gs\<rparr>)"
proof -
  have "all_headers (m\<lparr>globalRegister := gs\<rparr>) = map (\<lambda>k. all_headers m ! f k) [0 ..< length (all_headers m)]"
  proof (rule nth_equalityI)
    fix k assume "k < length (all_headers (m\<lparr>globalRegister := gs\<rparr>))"
    then have k: "k < length (all_headers m)" by (simp add: all_headers_globalRegister len) (simp add: all_headers_def)
    have "all_headers (m\<lparr>globalRegister := gs\<rparr>) ! k = all_headers m ! f k"
      using g f [of k] nth [of k] len
      by (cases "k \<le> LAST_GLOBAL_REGISTER") (auto simp: all_headers_globalRegister all_headers_def globals_ok_def nth_append)
    with k show "all_headers (m\<lparr>globalRegister := gs\<rparr>) ! k = map (\<lambda>k. all_headers m ! f k) [0 ..< length (all_headers m)] ! k"
      by simp
  qed (simp add: all_headers_globalRegister len, simp add: all_headers_def)
  with len show ?thesis by (simp add: reindexed_def)
qed

section \<open>Rolling and swapping\<close>

text \<open>Where the value of each place comes from.\<close>

definition place_up :: "nat \<Rightarrow> nat \<Rightarrow> nat \<Rightarrow> nat" where
  "place_up first t k = (if k = first then t else if first < k \<and> k \<le> t then k - 1 else k)"

definition place_down :: "nat \<Rightarrow> nat \<Rightarrow> nat \<Rightarrow> nat" where
  "place_down first t k = (if k = t then first else if first \<le> k \<and> k < t then k + 1 else k)"

definition exchanged :: "nat \<Rightarrow> nat \<Rightarrow> nat \<Rightarrow> nat" where
  "exchanged i j k = (if k = i then j else if k = j then i else k)"

lemma place_up_down:
  "first \<le> t \<Longrightarrow> place_up first t (place_down first t k) = k"
  "first \<le> t \<Longrightarrow> place_down first t (place_up first t k) = k"
  "exchanged i j (exchanged i j k) = k"
  by (auto simp: place_up_def place_down_def exchanged_def)

lemma place_less:
  "first < n \<Longrightarrow> t < n \<Longrightarrow> k < n \<Longrightarrow> place_up first t k < n"
  "first < n \<Longrightarrow> t < n \<Longrightarrow> k < n \<Longrightarrow> place_down first t k < n"
  "i < n \<Longrightarrow> j < n \<Longrightarrow> k < n \<Longrightarrow> exchanged i j k < n"
  by (auto simp: place_up_def place_down_def exchanged_def)

lemma place_bijs:
  "first \<le> t \<Longrightarrow> t < n \<Longrightarrow> bij_betw (place_up first t) {0 ..< n} {0 ..< n}"
  "first \<le> t \<Longrightarrow> t < n \<Longrightarrow> bij_betw (place_down first t) {0 ..< n} {0 ..< n}"
  "i < n \<Longrightarrow> j < n \<Longrightarrow> bij_betw (exchanged i j) {0 ..< n} {0 ..< n}"
proof -
  assume a: "first \<le> t" "t < n"
  show "bij_betw (place_up first t) {0 ..< n} {0 ..< n}"
    by (rule bij_betw_byWitness [where f' = "place_down first t"]) (use a in \<open>auto simp: place_up_down place_less\<close>)
  show "bij_betw (place_down first t) {0 ..< n} {0 ..< n}"
    by (rule bij_betw_byWitness [where f' = "place_up first t"]) (use a in \<open>auto simp: place_up_down place_less\<close>)
next
  assume "i < n" "j < n"
  then show "bij_betw (exchanged i j) {0 ..< n} {0 ..< n}"
    by (intro bij_betw_byWitness [where f' = "exchanged i j"]) (auto simp: place_up_down place_less)
qed

lemma stack_top_range: "REGISTER_T \<le> getStackTop m" "getStackTop m \<le> REGISTER_D"
  by (simp_all add: getStackTop_def)

lemma stack_top_less: "globals_ok m \<Longrightarrow> getStackTop m < length (globalRegister m)" "globals_ok m \<Longrightarrow> getStackTop m < length (all_headers m)"
  "globals_ok m \<Longrightarrow> REGISTER_L < length (all_headers m)"
  using stack_top_range [of m] by (simp_all add: globals_ok_def all_headers_def)

lemma same_rest_stack_top: "same_rest m m' \<Longrightarrow> getStackTop m' = getStackTop m"
  by (simp add: getStackTop_def same_rest_fields)

lemma fnRollUp_reindexed:
  assumes g: "globals_ok m"
  shows "reindexed (place_up REGISTER_X (getStackTop m)) m (fnRollUp m)"
proof -
  let ?t = "getStackTop m" and ?g = "globalRegister m"
  have t: "REGISTER_T \<le> ?t" "?t \<le> REGISTER_D" by (rule stack_top_range)+
  have l: "length ?g = Suc LAST_GLOBAL_REGISTER" using g by (simp add: globals_ok_def)
  have "fnRollUp m = m\<lparr>globalRegister := (moved (shift_up ?t) ?g)[REGISTER_X := ?g ! ?t]\<rparr>"
    by (simp add: fnRollUp_def set_global_def move_headers_moved)
  moreover have "reindexed (place_up REGISTER_X ?t) m (m\<lparr>globalRegister := (moved (shift_up ?t) ?g)[REGISTER_X := ?g ! ?t]\<rparr>)"
    by (rule reindexed_globals [OF g]) (use t l in \<open>auto simp: nth_list_update moved_up place_up_def\<close>)
  ultimately show ?thesis by simp
qed

lemma fnRollDown_reindexed:
  assumes g: "globals_ok m"
  shows "reindexed (place_down REGISTER_X (getStackTop m)) m (fnRollDown m)"
proof -
  let ?t = "getStackTop m" and ?g = "globalRegister m"
  have t: "REGISTER_T \<le> ?t" "?t \<le> REGISTER_D" by (rule stack_top_range)+
  have l: "length ?g = Suc LAST_GLOBAL_REGISTER" using g by (simp add: globals_ok_def)
  have "fnRollDown m = m\<lparr>globalRegister := (moved (shift_down REGISTER_X ?t) ?g)[?t := ?g ! REGISTER_X]\<rparr>"
    by (simp add: fnRollDown_def set_global_def move_headers_moved getStackTop_def getSystemFlag_def)
  moreover have "reindexed (place_down REGISTER_X ?t) m (m\<lparr>globalRegister := (moved (shift_down REGISTER_X ?t) ?g)[?t := ?g ! REGISTER_X]\<rparr>)"
    by (rule reindexed_globals [OF g]) (use t l in \<open>auto simp: nth_list_update moved_down place_down_def\<close>)
  ultimately show ?thesis by simp
qed

lemma fnSwapXY_reindexed: "globals_ok m \<Longrightarrow> reindexed (exchanged REGISTER_X REGISTER_Y) m (fnSwapXY m)"
  unfolding fnSwapXY_def set_global_def Let_def
  by (simp, rule reindexed_globals) (auto simp: globals_ok_def nth_list_update exchanged_def)

interpretation roll_up: header_permutation fnRollUp "\<lambda>m. place_up REGISTER_X (getStackTop m)"
  by unfold_locales (use stack_top_range stack_top_less in \<open>auto intro!: fnRollUp_reindexed place_bijs intro: order_trans [of _ REGISTER_T]\<close>)

interpretation roll_down: header_permutation fnRollDown "\<lambda>m. place_down REGISTER_X (getStackTop m)"
  by unfold_locales (use stack_top_range stack_top_less in \<open>auto intro!: fnRollDown_reindexed place_bijs intro: order_trans [of _ REGISTER_T]\<close>)

interpretation swap_xy: header_permutation fnSwapXY "\<lambda>m. exchanged REGISTER_X REGISTER_Y"
  by unfold_locales (use stack_top_less in \<open>force intro!: fnSwapXY_reindexed place_bijs\<close>)+

lemma machine_eqI:
  assumes "same_rest m m'" "memory m' = memory m" "all_headers m' = all_headers m"
  shows "m' = m"
proof -
  have len: "length (globalRegister m') = length (globalRegister m)" "length (namedVariables m') = length (namedVariables m)"
    and opt: "map_option length (currentLocalRegisters m') = map_option length (currentLocalRegisters m)"
    and core: "core m' = core m"
    using assms(1) by (simp_all add: same_rest_def shape_def)
  have "globalRegister m' = globalRegister m" "namedVariables m' = namedVariables m" "local_headers m' = local_headers m"
    using assms(3) len by (simp_all add: all_headers_def)
  moreover from this(3) opt have "currentLocalRegisters m' = currentLocalRegisters m"
    by (cases "currentLocalRegisters m"; cases "currentLocalRegisters m'") (simp_all add: local_headers_def)
  ultimately have tables: "globalRegister m' = globalRegister m" "namedVariables m' = namedVariables m"
    "currentLocalRegisters m' = currentLocalRegisters m" by simp_all
  have restore: "x = (core x)\<lparr>memory := memory x, globalRegister := globalRegister x, namedVariables := namedVariables x,
      currentLocalRegisters := currentLocalRegisters x\<rparr>" for x by (simp add: core_def)
  show ?thesis by (subst restore [of m'], subst restore [of m]) (simp only: core tables assms(2))
qed

lemma reindexed_inverse:
  assumes r1: "reindexed f m m1" and r2: "reindexed h m1 m2"
    and inv: "\<And>k. k < length (all_headers m) \<Longrightarrow> f (h k) = k" and less: "\<And>k. k < length (all_headers m) \<Longrightarrow> h k < length (all_headers m)"
  shows "m2 = m"
proof (rule machine_eqI)
  show "same_rest m m2" "memory m2 = memory m"
    using r1 r2 by (auto simp: reindexed_def intro: same_rest_trans)
  show "all_headers m2 = all_headers m"
    using r1 r2 inv less by (auto simp: reindexed_def intro!: nth_equalityI)
qed

lemma rolls_inverse:
  assumes g: "globals_ok m"
  shows "fnRollDown (fnRollUp m) = m" and "fnRollUp (fnRollDown m) = m"
proof -
  have t: "REGISTER_X \<le> getStackTop m" "getStackTop m < length (all_headers m)" "REGISTER_X < length (all_headers m)"
    using stack_top_range [of m] stack_top_less [OF g] by auto
  have up: "globals_ok (fnRollUp m)" "getStackTop (fnRollUp m) = getStackTop m"
    and down: "globals_ok (fnRollDown m)" "getStackTop (fnRollDown m) = getStackTop m"
    using roll_up.keeps_rest [OF g] roll_down.keeps_rest [OF g] same_rest_globals_ok same_rest_stack_top g by auto
  show "fnRollDown (fnRollUp m) = m"
    using reindexed_inverse [OF roll_up.reindexes [OF g] roll_down.reindexes [OF up(1), unfolded up(2)]] t
    by (simp add: place_up_down place_less)
  show "fnRollUp (fnRollDown m) = m"
    using reindexed_inverse [OF roll_down.reindexes [OF g] roll_up.reindexes [OF down(1), unfolded down(2)]] t
    by (simp add: place_up_down place_less)
qed

lemma swapRegs_reindexed:
  assumes g: "globals_ok m" and s: "srcReg \<le> LAST_GLOBAL_REGISTER" and r: "slot regist m = Some j"
  shows "\<exists>m'. swapRegs srcReg regist m = Inr m' \<and> reindexed (exchanged srcReg j) m m'"
  using g r
proof (cases rule: slot_cases)
  case global
  have "reindexed (exchanged srcReg j) m
      (m\<lparr>globalRegister := (globalRegister m)[srcReg := globalRegister m ! regist, regist := globalRegister m ! srcReg]\<rparr>)"
    by (rule reindexed_globals [OF g])
      (use s g global in \<open>auto simp: globals_ok_def nth_list_update exchanged_def\<close>)
  then show ?thesis using global g by (simp add: swapRegs_def set_global_def globals_ok_def Let_def)
next
  case (named i)
  let ?m = "m\<lparr>globalRegister := (globalRegister m)[srcReg := namedVariables m ! i], namedVariables := (namedVariables m)[i := globalRegister m ! srcReg]\<rparr>"
  have "swapRegs srcReg regist m = Inr ?m"
    using named s g by (simp add: swapRegs_def set_global_def Let_def)
  moreover have "reindexed (exchanged srcReg j) m ?m"
    using named s g
    by (auto simp: reindexed_def same_rest_def core_def shape_def all_headers_def local_headers_def globals_ok_def exchanged_def
        nth_append nth_list_update list_update_append intro!: nth_equalityI)
  ultimately show ?thesis by blast
next
  case (local i ls)
  let ?m = "m\<lparr>globalRegister := (globalRegister m)[srcReg := ls ! i], currentLocalRegisters := Some (ls[i := globalRegister m ! srcReg])\<rparr>"
  have "swapRegs srcReg regist m = Inr ?m"
    using local s g by (simp add: swapRegs_def set_global_def Let_def globals_ok_def)
  moreover have "reindexed (exchanged srcReg j) m ?m"
    using local s g
    by (auto simp: reindexed_def same_rest_def core_def shape_def all_headers_def local_headers_def globals_ok_def exchanged_def
        nth_append nth_list_update list_update_append intro!: nth_equalityI)
  ultimately show ?thesis by blast
qed

text \<open>C22. Rolling the stack up and down, exchanging X and Y and exchanging a register with any other permute the
  register values and touch nothing else, so that the data stay disjoint pieces of the pool; rolling up
  and down undo each other.\<close>

theorem stack_moves_permute:
  assumes inv: "regs_inv lim R m" and src: "srcReg \<le> LAST_GLOBAL_REGISTER" and r: "slot regist m = Some j"
  defines "moves \<equiv> [(fnRollUp m, place_up REGISTER_X (getStackTop m)), (fnRollDown m, place_down REGISTER_X (getStackTop m)),
                    (fnSwapXY m, exchanged REGISTER_X REGISTER_Y), (projr (swapRegs srcReg regist m), exchanged srcReg j)]"
  shows "(\<forall>(m', f) \<in> set moves. regs_inv lim R m' \<and> memory m' = memory m \<and>
            reg_values m' = map (\<lambda>k. reg_values m ! f k) [0 ..< length (reg_values m)]) \<and>
         \<not> isl (swapRegs srcReg regist m) \<and> fnRollDown (fnRollUp m) = m \<and> fnRollUp (fnRollDown m) = m"
proof -
  have g: "globals_ok m" using inv by simp
  obtain m' where m': "swapRegs srcReg regist m = Inr m'" "reindexed (exchanged srcReg j) m m'"
    using swapRegs_reindexed [OF g src r] by blast
  have "bij_betw (exchanged srcReg j) {0 ..< length (all_headers m)} {0 ..< length (all_headers m)}"
    using src slot_less [OF g r] g by (intro place_bijs(3)) (simp_all add: all_headers_def globals_ok_def)
  note swap = reindexed_values [OF m'(2) this] m'
  then show ?thesis
    using roll_up.keeps_inv [OF inv] roll_up.moves_values [OF g] roll_up.keeps_rest [OF g]
      roll_down.keeps_inv [OF inv] roll_down.moves_values [OF g] roll_down.keeps_rest [OF g]
      swap_xy.keeps_inv [OF inv] swap_xy.moves_values [OF g] swap_xy.keeps_rest [OF g] rolls_inverse [OF g] inv
    by (simp add: moves_def reindexed_def)
qed

lemma stack_moves_permute_witness:
  "reg_values (fnRollUp plain_machine) = map (\<lambda>k. reg_values plain_machine ! place_up REGISTER_X REGISTER_T k) [0 ..< 137] \<and>
   reg_values (projr (swapRegs REGISTER_X 7 plain_machine)) = map (\<lambda>k. reg_values plain_machine ! exchanged REGISTER_X 7 k) [0 ..< 137]"
proof -
  have "getStackTop plain_machine = REGISTER_T"
    by (simp add: getStackTop_def getSystemFlag_def plain_machine_def plain_calc_def calc.defs flag_ix_def)
  moreover have "length (reg_values plain_machine) = 137" by (simp add: reg_values_def)
  ultimately show ?thesis using stack_moves_permute [OF plain_machine_inv, of REGISTER_X 7 7] by simp
qed

end
