(* ===== verification/StackLift.thy ===== *)
theory StackLift
  imports StackProps
begin

text \<open>
  Lifting and dropping the stack: a permutation of the registers that moves the one to be lost into
  the place to be filled, then the replacement of that register.
\<close>

section \<open>Releasing one register and filling another\<close>

definition placed :: "(nat \<Rightarrow> nat) \<Rightarrow> machine \<Rightarrow> machine" where
  "placed f m = m\<lparr>globalRegister := map (\<lambda>k. globalRegister m ! f k) [0 ..< length (globalRegister m)]\<rparr>"

lemma placed_reindexed:
  assumes g: "globals_ok m" and f: "\<And>k. k \<le> LAST_GLOBAL_REGISTER \<Longrightarrow> f k \<le> LAST_GLOBAL_REGISTER" "\<And>k. LAST_GLOBAL_REGISTER < k \<Longrightarrow> f k = k"
  shows "reindexed f m (placed f m)"
  unfolding placed_def by (rule reindexed_globals [OF g]) (use f g in \<open>auto simp: globals_ok_def\<close>)

lemma slot_headers_nth: "globals_ok m \<Longrightarrow> k \<le> LAST_GLOBAL_REGISTER \<Longrightarrow> all_headers m ! k = globalRegister m ! k"
  by (simp add: all_headers_def nth_append globals_ok_def)

text \<open>The machine after a release: only the pool has changed, RAM has not.\<close>

definition released :: "registerHeader \<Rightarrow> heap \<Rightarrow> machine \<Rightarrow> machine" where
  "released h p m = m\<lparr>memory := (memory m)\<lparr>pool := p, c47MemInBlocks := c47MemInBlocks (memory m) - of_nat (hsize m h)\<rparr>\<rparr>"

definition allocated :: "nat \<Rightarrow> heap \<Rightarrow> machine \<Rightarrow> machine" where
  "allocated n p m = m\<lparr>memory := (memory m)\<lparr>pool := p, c47MemInBlocks := c47MemInBlocks (memory m) + of_nat n\<rparr>\<rparr>"

lemma alloc_blocks_Some: "freeListAlloc n (pool (memory m)) = (Some q, p) \<Longrightarrow> alloc_blocks n m = (Some q, allocated n p m)"
  by (simp add: alloc_blocks_def allocC47Blocks_def allocated_def)

lemma alloc_blocks_None: "freeListAlloc n (pool (memory m)) = (None, p) \<Longrightarrow> alloc_blocks n m = (None, m\<lparr>memory := (memory m)\<lparr>pool := p\<rparr>\<rparr>)"
  by (simp add: alloc_blocks_def allocC47Blocks_def)

lemma pool_released [simp]: "pool (memory (released h p m)) = p" "globalRegister (released h p m) = globalRegister m"
  "pool (memory (allocated n p m)) = p" "all_headers (allocated n p m) = all_headers m"
  "pool (memory (m\<lparr>globalRegister := gs\<rparr>)) = pool (memory m)" "globals_ok (allocated n p m) = globals_ok m"
  by (simp_all add: released_def allocated_def globals_ok_def all_headers_def local_headers_def)

lemma released_cases:
  assumes inv: "regs_inv lim R m" and s: "slot r m = Some k" and n: "0 < n"
  obtains (exit) "freeRegisterData r m = Inl (Exit TooManyFreeRegions)" "length (freeMemoryRegions (pool (memory m))) = MAX_FREE_REGIONS"
  | (none) p where "freeRegisterData r m = Inr (released (all_headers m ! k) p m)" "freeListAlloc n p = (None, p)"
      "ram p = ram (pool (memory m))" "\<nexists>a. {a ..< a + n} \<subseteq> free_blocks (pool (memory m))"
  | (some) p q p2 where "freeRegisterData r m = Inr (released (all_headers m ! k) p m)" "freeListAlloc n p = (Some q, p2)"
      "pool_ok lim p2 (add_mset (q, n) (pieces m - {#hpiece m (all_headers m ! k)#} + R))"
      "ram p = ram (pool (memory m))" "ram p2 = ram (pool (memory m))" "q < C47_NULL"
proof -
  let ?h = "all_headers m ! k"
  have kl: "k < length (all_headers m)" by (rule slot_less [OF _ s]) (use inv in simp)
  have owned: "pool_ok lim (pool (memory m)) (add_mset (pointerToRegisterData ?h, hsize m ?h) (pieces m - {#hpiece m ?h#} + R))"
    using inv piece_member [OF kl] by (simp add: regs_inv_def flip: hpiece_def)
  show thesis
  proof (cases "freeListFree (Some (pointerToRegisterData ?h)) (hsize m ?h) (pool (memory m))")
    case (Inl e)
    with pool_free_error [OF owned _ Inl] exit show thesis by (simp add: freeRegisterData_slot [OF inv s])
  next
    case (Inr p)
    have fr: "freeRegisterData r m = Inr (released ?h p m)"
      by (simp add: freeRegisterData_slot [OF inv s] Inr released_def)
    have rp: "ram p = ram (pool (memory m))" using pool_free(3) [OF owned _ Inr] by simp
    show thesis
      by (rule free_alloc_outcome [OF owned n Inr]) (use none some fr rp in auto)
  qed
qed

section \<open>Lifting\<close>

definition lift_permuted :: "machine \<Rightarrow> machine" where
  "lift_permuted m = (if getSystemFlag FLAG_ASLIFT m then fnRollUp m else m)"

lemma filled_register:
  assumes inv: "regs_inv lim R m" and k: "k < length (all_headers m)" and g: "globals_ok m'"
    and hs: "all_headers m' = (all_headers m)[k := \<lparr>pointerToRegisterData = q, dataType = dtReal34, tag = amNone\<rparr>]"
    and pool: "pool (memory m') = p" "ram p = ram (pool (memory m))"
    and ok: "pool_ok lim p (add_mset (q, REAL34_SIZE_IN_BLOCKS) (pieces m - {#hpiece m (all_headers m ! k)#} + R))"
  shows "regs_inv lim R m' \<and> (\<exists>bs. length bs = 4 \<and> reg_values m' = (reg_values m)[k := (dtReal34, amNone, bs)])"
proof -
  let ?h = "\<lparr>pointerToRegisterData = q, dataType = dtReal34, tag = amNone\<rparr>"
  have ram: "ram_block a m' = ram_block a m" for a by (simp add: ram_block_def pool)
  have hok: "header_ok m' ?h" by (simp add: header_ok_def)
  have hp: "hpiece m' ?h = (q, REAL34_SIZE_IN_BLOCKS)" by (simp add: hpiece_def hsize_def full_size_def)
  have "pool_ok lim (pool (memory m')) (add_mset (hpiece m' ?h) (pieces m - {#hpiece m (all_headers m ! k)#} + R))"
    unfolding pool hp by (rule ok)
  note new = regs_replace [OF inv k g hs this ram hok]
  have "hvalue m' ?h = (dtReal34, amNone, map (\<lambda>a. ram_block a m') [q ..< q + 4])"
    by (simp add: hvalue_def hsize_def full_size_def)
  with new show ?thesis by (intro conjI exI [of _ "map (\<lambda>a. ram_block a m') [q ..< q + 4]"]) simp_all
qed

text \<open>What is common to both ways of lifting: register X is set up anew.\<close>

lemma fill_X:
  assumes inv: "regs_inv lim R m" and g: "globals_ok m1" and hs: "all_headers m1 = (all_headers m)[REGISTER_X := h0]"
    and ram: "ram p2 = ram (pool (memory m))" and q: "q < C47_NULL" and al: "freeListAlloc REAL34_SIZE_IN_BLOCKS (pool (memory m1)) = (Some q, p2)"
    and ok: "pool_ok lim p2 (add_mset (q, REAL34_SIZE_IN_BLOCKS) (pieces m - {#hpiece m (all_headers m ! REGISTER_X)#} + R))"
  defines "m' \<equiv> setRegisterDataType REGISTER_X dtReal34 amNone (setRegisterDataPointer REGISTER_X (Some q) (allocated REAL34_SIZE_IN_BLOCKS p2 m1))"
  shows "regs_inv lim R m' \<and> (\<exists>bs. length bs = 4 \<and> reg_values m' = (reg_values m)[REGISTER_X := (dtReal34, amNone, bs)])"
proof (rule filled_register [OF inv])
  have kl: "REGISTER_X < length (all_headers m)" by (rule slot_less [of _ REGISTER_X]) (use inv in auto)
  then show "REGISTER_X < length (all_headers m)" .
  show "globals_ok m'" using g by (simp add: m'_def setRegisterDataType_def setRegisterDataPointer_def)
  show "all_headers m' = (all_headers m)[REGISTER_X := \<lparr>pointerToRegisterData = q, dataType = dtReal34, tag = amNone\<rparr>]"
    using g kl q by (simp add: m'_def setRegisterDataType_def setRegisterDataPointer_def all_headers_update hs TO_C47MEMPTR_def)
  show "pool (memory m') = p2" by (simp add: m'_def setRegisterDataType_def setRegisterDataPointer_def)
qed (use ram ok in simp_all)

definition after_release :: "machine \<Rightarrow> crash + machine" where
  "after_release m =
     (let (p, m1) = alloc_blocks REAL34_SIZE_IN_BLOCKS m in
      Inr (setRegisterDataType REGISTER_X dtReal34 amNone (setRegisterDataPointer REGISTER_X p m1)))"

lemma andThen_Inr: "andThen (andThen r (\<lambda>x. Inr (f x))) h = andThen r (\<lambda>x. h (f x))"
  by (cases r) simp_all

lemma liftStack_raise:
  "getSystemFlag FLAG_ASLIFT m \<Longrightarrow> liftStack m =
     andThen (freeRegisterData (getStackTop m) (if currentInputVariable m \<noteq> INVALID_VARIABLE
                then m\<lparr>currentInputVariable := currentInputVariable m OR 0x8000\<rparr> else m))
       (\<lambda>m2. after_release (move_headers (shift_up (getStackTop m2)) m2))"
proof -
  assume f: "getSystemFlag FLAG_ASLIFT m"
  let ?m0 = "if currentInputVariable m \<noteq> INVALID_VARIABLE then m\<lparr>currentInputVariable := currentInputVariable m OR 0x8000\<rparr> else m"
  have t: "getStackTop ?m0 = getStackTop m" by (simp add: getStackTop_def getSystemFlag_def)
  show ?thesis
    unfolding liftStack_def after_release_def by (simp only: f if_True Let_def t andThen_Inr)
qed

lemma liftStack_replace: "\<not> getSystemFlag FLAG_ASLIFT m \<Longrightarrow> liftStack m = andThen (freeRegisterData REGISTER_X m) after_release"
  unfolding liftStack_def after_release_def by simp

text \<open>Where no block is free for the new X, its pointer is null.\<close>

lemma unfilled_X:
  assumes g: "globals_ok m1" and al: "freeListAlloc REAL34_SIZE_IN_BLOCKS (pool (memory m1)) = (None, p)"
  shows "\<exists>m'. after_release m1 = Inr m' \<and> getRegisterDataPointer REGISTER_X m' = None"
proof -
  let ?m2 = "m1\<lparr>memory := (memory m1)\<lparr>pool := p\<rparr>\<rparr>"
  let ?m' = "setRegisterDataType REGISTER_X dtReal34 amNone (setRegisterDataPointer REGISTER_X None ?m2)"
  have "REGISTER_X < length (all_headers m1)" by (rule slot_less [OF g, of REGISTER_X]) simp
  then have "pointerToRegisterData (all_headers ?m' ! REGISTER_X) = C47_NULL"
    using g by (simp add: setRegisterDataType_def setRegisterDataPointer_def all_headers_update TO_C47MEMPTR_def)
  moreover have "globals_ok ?m'" using g by (simp add: setRegisterDataType_def setRegisterDataPointer_def)
  ultimately have "getRegisterDataPointer REGISTER_X ?m' = None"
    using slot_getters(2) [of ?m' REGISTER_X REGISTER_X] by (simp add: TO_PCMEMPTR_def)
  then show ?thesis using alloc_blocks_None [OF al] by (simp add: after_release_def)
qed

definition lift_outcome :: "nat \<Rightarrow> piece multiset \<Rightarrow> machine \<Rightarrow> bool" where
  "lift_outcome lim R m \<longleftrightarrow>
     (case liftStack m of
        Inl e \<Rightarrow> e = Exit TooManyFreeRegions \<and> length (freeMemoryRegions (pool (memory m))) = MAX_FREE_REGIONS
      | Inr m' \<Rightarrow>
          getRegisterDataPointer REGISTER_X m' = None \<and> (\<nexists>a. {a ..< a + REAL34_SIZE_IN_BLOCKS} \<subseteq> free_blocks (pool (memory m))) \<or>
          regs_inv lim R m' \<and>
          (\<exists>bs. length bs = 4 \<and> reg_values m' = (reg_values (lift_permuted m))[REGISTER_X := (dtReal34, amNone, bs)]))"

lemma lift_replace_outcome:
  assumes inv: "regs_inv lim R m" and f: "\<not> getSystemFlag FLAG_ASLIFT m"
  shows "lift_outcome lim R m"
proof -
  have g: "globals_ok m" using inv by simp
  show ?thesis
  proof (cases rule: released_cases [OF inv slot_global, of REGISTER_X REAL34_SIZE_IN_BLOCKS])
    case (4 p)
    have "globals_ok (released (all_headers m ! REGISTER_X) p m)" using g by (simp add: released_def)
    from unfilled_X [OF this, of p] 4 show ?thesis by (auto simp: lift_outcome_def liftStack_replace [OF f])
  next
    case (5 p q p2)
    let ?m1 = "released (all_headers m ! REGISTER_X) p m"
    have g1: "globals_ok ?m1" and h1: "all_headers ?m1 = (all_headers m)[REGISTER_X := all_headers m ! REGISTER_X]"
      using g by (simp_all add: released_def)
    from fill_X [OF inv g1 h1 5(5) 5(6) _ 5(3)] 5 show ?thesis
      by (simp add: lift_outcome_def liftStack_replace [OF f] after_release_def alloc_blocks_Some lift_permuted_def f)
  qed (simp_all add: lift_outcome_def liftStack_replace [OF f])
qed

lemma lift_raise_outcome:
  assumes inv: "regs_inv lim R m" and f: "getSystemFlag FLAG_ASLIFT m"
  shows "lift_outcome lim R m"
proof -
  let ?m0 = "if currentInputVariable m \<noteq> INVALID_VARIABLE then m\<lparr>currentInputVariable := currentInputVariable m OR 0x8000\<rparr> else m"
  let ?t = "getStackTop m"
  have g: "globals_ok m" using inv by simp
  have t: "REGISTER_X \<le> ?t" "?t \<le> LAST_GLOBAL_REGISTER" using stack_top_range [of m] by auto
  have m0: "all_headers ?m0 = all_headers m" "globals_ok ?m0 = globals_ok m" "pool (memory ?m0) = pool (memory m)"
    "globalRegister ?m0 = globalRegister m" "namedVariables ?m0 = namedVariables m" "local_headers ?m0 = local_headers m"
    by (simp_all add: all_headers_def local_headers_def globals_ok_def)
  have inv0: "regs_inv lim R ?m0" using regs_inv_cong(1) [OF m0(1-3)] inv by simp
  have p0: "pieces ?m0 = pieces m" "hpiece ?m0 = hpiece m" using pieces_cong [OF m0(1) m0(3)] by auto
  have inv': "regs_inv lim R (fnRollUp m)" by (rule roll_up.keeps_inv [OF inv])
  have len: "length (all_headers m) > ?t" using stack_top_less [OF g] by simp
  have hr: "all_headers (fnRollUp m) = map (\<lambda>k. all_headers m ! place_up REGISTER_X ?t k) [0 ..< length (all_headers m)]"
    and mr: "memory (fnRollUp m) = memory m" using roll_up.reindexes [OF g] by (auto simp: reindexed_def)
  have hX: "hpiece (fnRollUp m) (all_headers (fnRollUp m) ! REGISTER_X) = hpiece m (all_headers m ! ?t)"
    using len t by (simp add: hr place_up_def hpiece_def hsize_def ram_block_def mr)
  have top: "getStackTop (released h p ?m0) = ?t" for h p
    by (simp add: released_def getStackTop_def getSystemFlag_def)
  have g2: "globals_ok (move_headers ms (released h p ?m0))" for ms h p
    using g by (simp add: move_headers_moved released_def globals_ok_def)
  have pool2: "pool (memory (move_headers ms (released h p ?m0))) = p" for ms h p
    by (simp add: move_headers_moved)
  have h2: "all_headers (move_headers (shift_up ?t) (released h p ?m0)) = (all_headers (fnRollUp m))[REGISTER_X := globalRegister m ! REGISTER_X]" for h p
  proof -
    let ?G = "globalRegister m" and ?B = "namedVariables m @ local_headers m"
    have e: "all_headers (move_headers (shift_up ?t) (released h p ?m0)) = moved (shift_up ?t) ?G @ ?B"
      by (simp add: move_headers_moved all_headers_globalRegister released_def local_headers_def)
    have hm: "all_headers m = ?G @ ?B" by (simp add: all_headers_def)
    have l: "length ?G = Suc LAST_GLOBAL_REGISTER" using g by (simp add: globals_ok_def)
    show ?thesis unfolding e hr hm
      by (rule nth_equalityI) (use t l in \<open>auto simp: nth_list_update nth_append moved_up place_up_def\<close>)
  qed
  show ?thesis
  proof (cases rule: released_cases [OF inv0 slot_global [OF t(2)], of REAL34_SIZE_IN_BLOCKS])
    case (3 p)
    let ?m3 = "move_headers (shift_up ?t) (released (all_headers ?m0 ! ?t) p ?m0)"
    have al: "freeListAlloc REAL34_SIZE_IN_BLOCKS (pool (memory ?m3)) = (None, p)" using 3(2) by (simp only: pool2)
    obtain m' where m': "after_release ?m3 = Inr m'" "getRegisterDataPointer REGISTER_X m' = None"
      using unfilled_X [OF g2 al] by blast
    have res: "liftStack m = Inr m'" by (simp only: liftStack_raise [OF f] 3(1) andThen_simps top m'(1))
    show ?thesis using 3(4) m'(2) by (simp add: lift_outcome_def res m0 del: if_split)
  next
    case (4 p q p2)
    let ?m3 = "move_headers (shift_up ?t) (released (all_headers ?m0 ! ?t) p ?m0)"
    have al: "freeListAlloc REAL34_SIZE_IN_BLOCKS (pool (memory ?m3)) = (Some q, p2)" using 4(2) by (simp only: pool2)
    have ram: "ram p2 = ram (pool (memory (fnRollUp m)))" using 4(5) by (simp add: mr m0 del: if_split)
    have ok: "pool_ok lim p2 (add_mset (q, REAL34_SIZE_IN_BLOCKS)
        (pieces (fnRollUp m) - {#hpiece (fnRollUp m) (all_headers (fnRollUp m) ! REGISTER_X)#} + R))"
      using 4(3) by (simp only: p0 m0 hX roll_up.keeps_pieces [OF g])
    define m' where "m' = setRegisterDataType REGISTER_X dtReal34 amNone
      (setRegisterDataPointer REGISTER_X (Some q) (allocated REAL34_SIZE_IN_BLOCKS p2 ?m3))"
    have res: "liftStack m = Inr m'"
      by (simp only: liftStack_raise [OF f] 4(1) andThen_simps top after_release_def alloc_blocks_Some [OF al] Let_def prod.case m'_def)
    from fill_X [OF inv' g2 h2 ram 4(6) al ok] show ?thesis
      by (simp only: lift_outcome_def res sum.case lift_permuted_def f if_True m'_def simp_thms)
  qed (simp_all add: lift_outcome_def liftStack_raise [OF f] m0 del: if_split)
qed

lemma liftStack_outcome: "regs_inv lim R m \<Longrightarrow> lift_outcome lim R m"
  by (cases "getSystemFlag FLAG_ASLIFT m") (simp_all add: lift_replace_outcome lift_raise_outcome)

section \<open>Dropping\<close>

definition shifted_down :: "nat \<Rightarrow> nat \<Rightarrow> 'a list \<Rightarrow> 'a list" where
  "shifted_down first t xs = map (\<lambda>k. xs ! (if first \<le> k \<and> k < t then k + 1 else k)) [0 ..< length xs]"

definition drop_outcome :: "nat \<Rightarrow> piece multiset \<Rightarrow> nat \<Rightarrow> machine \<Rightarrow> bool" where
  "drop_outcome lim R reg m \<longleftrightarrow>
     (let t = getStackTop m in
      case drop_register reg m of
        Inl e \<Rightarrow> e = Exit TooManyFreeRegions \<and> length (freeMemoryRegions (pool (memory m))) = MAX_FREE_REGIONS
      | Inr m' \<Rightarrow>
          lastErrorCode m' = ERROR_RAM_FULL \<and> getRegisterDataPointer (t - 1) m' = getRegisterDataPointer t m' \<and>
            (\<nexists>a. {a ..< a + getRegisterFullSizeInBlocks t m} \<subseteq> free_blocks (pool (memory m))) \<or>
          regs_inv lim R m' \<and> lastErrorCode m' = lastErrorCode m \<and> reg_values m' = shifted_down reg t (reg_values m))"

lemma drop_register_outcome:
  assumes inv: "regs_inv lim R m" and reg: "REGISTER_X \<le> reg" "reg < getStackTop m"
  shows "drop_outcome lim R reg m"
proof -
  let ?t = "getStackTop m" and ?hs = "all_headers m"
  let ?f = "place_down reg (?t - 1)" and ?ht = "all_headers m ! getStackTop m"
  have g: "globals_ok m" using inv by simp
  have t: "REGISTER_T \<le> ?t" "?t \<le> REGISTER_D" by (rule stack_top_range)+
  have l: "length (globalRegister m) = Suc LAST_GLOBAL_REGISTER" using g by (simp add: globals_ok_def)
  have lh: "?t < length ?hs" "reg < length ?hs" using stack_top_less [OF g] reg by auto
  have st: "slot ?t m = Some ?t" "slot reg m = Some reg" using t reg by auto
  have n: "0 < hsize m ?ht" by (rule regs_piece(1) [OF inv lh(1)])
  have pt: "pointerToRegisterData ?ht < C47_NULL" using regs_piece [OF inv lh(1)] by simp
  define mt where "mt = placed ?f m"
  have re: "reindexed ?f m mt" unfolding mt_def
    by (rule placed_reindexed [OF g]) (use t reg in \<open>auto simp: place_down_def\<close>)
  have bij: "bij_betw ?f {0 ..< length ?hs} {0 ..< length ?hs}" by (rule place_bijs) (use t reg lh in auto)
  note rv = reindexed_values [OF re bij]
  have invt: "regs_inv lim R mt" using rv(1) inv by simp
  have ht: "all_headers mt = map (\<lambda>k. ?hs ! ?f k) [0 ..< length ?hs]" and memt: "memory mt = memory m"
    using re by (auto simp: reindexed_def)
  have same: "hpiece mt = hpiece m" "hsize mt = hsize m"
    by (intro ext; simp add: hpiece_def hsize_def ram_block_def memt)+
  have at: "all_headers mt ! ?t = ?ht" "all_headers mt ! (?t - 1) = ?hs ! reg" "?t - 1 < length (all_headers mt)" "?t < length (all_headers mt)"
    using t reg lh by (auto simp: ht place_down_def)
  have full: "getRegisterFullSizeInBlocks ?t m = hsize m ?ht" by (rule regs_pointer(2) [OF inv st(1)])
  have ne: "reg \<noteq> ?t" using reg by simp
  have top: "getStackTop (released h p m) = ?t" "getStackTop (move_headers ms (released h p m)) = ?t" for h p ms
    by (simp_all add: move_headers_moved released_def getStackTop_def getSystemFlag_def)
  have h2: "all_headers (move_headers (shift_down reg ?t) (released h p m)) =
      map (\<lambda>k. ?hs ! (if reg \<le> k \<and> k < ?t then k + 1 else k)) [0 ..< length ?hs]" for h p
  proof -
    let ?G = "globalRegister m" and ?B = "namedVariables m @ local_headers m"
    have e: "all_headers (move_headers (shift_down reg ?t) (released h p m)) = moved (shift_down reg ?t) ?G @ ?B"
      by (simp add: move_headers_moved all_headers_globalRegister released_def local_headers_def)
    have hm: "?hs = ?G @ ?B" by (simp add: all_headers_def)
    show ?thesis unfolding e hm
      by (rule nth_equalityI) (use t l reg in \<open>auto simp: nth_append moved_down\<close>)
  qed
  have g2: "globals_ok (move_headers ms (released h p m))" and pool2: "pool (memory (move_headers ms (released h p m))) = p" for ms h p
    using g by (simp_all add: move_headers_moved released_def globals_ok_def)
  have size2: "getRegisterFullSizeInBlocks ?t (move_headers (shift_down reg ?t) (released h p m)) = hsize m ?ht"
    if r: "ram p = ram (pool (memory m))" for h p
  proof -
    let ?m2 = "move_headers (shift_down reg ?t) (released h p m)"
    have s: "slot ?t ?m2 = Some ?t" using t by simp
    have h: "all_headers ?m2 ! ?t = ?ht" using lh by (simp add: h2)
    have w: "data_word ?t ?m2 = ram_block (pointerToRegisterData ?ht) m"
      using slot_getters(2) [OF g2 s] pt r by (simp add: h data_word_def TO_PCMEMPTR_def ram_block_def pool2)
    show ?thesis
      using regs_size_small [OF inv lh(1)]
      by (simp add: getRegisterFullSizeInBlocks_def slot_getters(1) [OF g2 s] h w hsize_def)
  qed
  show ?thesis
  proof (cases rule: released_cases [OF inv st(2) n])
    case 1
    then show ?thesis by (simp add: drop_outcome_def drop_register_def ne)
  next
    case (2 p)
    let ?m2 = "move_headers (shift_down reg ?t) (released (?hs ! reg) p m)"
    let ?m3 = "?m2\<lparr>memory := (memory ?m2)\<lparr>pool := p\<rparr>\<rparr>\<lparr>lastErrorCode := ERROR_RAM_FULL\<rparr>"
    have "alloc_blocks (hsize m ?ht) ?m2 = (None, ?m2\<lparr>memory := (memory ?m2)\<lparr>pool := p\<rparr>\<rparr>)"
      by (rule alloc_blocks_None) (simp add: pool2 2(2))
    then have res: "drop_register reg m = Inr ?m3"
      by (simp add: drop_register_def ne 2(1) top size2 [OF 2(3)] Let_def)
    have g3: "globals_ok ?m3" and h3: "all_headers ?m3 = all_headers ?m2" using g2 by simp_all
    have "getRegisterDataPointer (?t - 1) ?m3 = getRegisterDataPointer ?t ?m3"
      using slot_getters(2) [OF g3, of "?t - 1" "?t - 1"] slot_getters(2) [OF g3, of ?t ?t] t lh reg
      by (simp only: slot_global h3 h2) auto
    then show ?thesis using 2(4) by (simp only: drop_outcome_def res Let_def sum.case full) simp
  next
    case (3 p q p2)
    let ?m2 = "move_headers (shift_down reg ?t) (released (?hs ! reg) p m)"
    let ?m3 = "allocated (hsize m ?ht) p2 ?m2"
    let ?m4 = "setRegisterDataPointer (?t - 1) (Some q) ?m3"
    let ?m5 = "update_ram (xcopy q (pointerToRegisterData ?ht) (hsize m ?ht)) ?m4"
    have al: "alloc_blocks (hsize m ?ht) ?m2 = (Some q, ?m3)"
      by (rule alloc_blocks_Some) (simp add: pool2 3(2))
    have g3: "globals_ok ?m3" and h3: "all_headers ?m3 = all_headers ?m2" using g2 by simp_all
    have g4: "globals_ok ?m4" using g3 by (simp add: setRegisterDataPointer_def)
    have t1: "?t - 1 \<le> LAST_GLOBAL_REGISTER" "?t \<le> LAST_GLOBAL_REGISTER" using t by auto
    have h4: "all_headers ?m4 = (all_headers mt)[?t - 1 := \<lparr>pointerToRegisterData = q, dataType = dataType ?ht, tag = tag ?ht\<rparr>]"
    proof -
      have "all_headers ?m4 = (all_headers ?m2)[?t - 1 := (all_headers ?m2 ! (?t - 1))\<lparr>pointerToRegisterData := q\<rparr>]"
        using all_headers_update [OF g3 slot_global [OF t1(1)]] 3(6) by (simp add: setRegisterDataPointer_def h3 TO_C47MEMPTR_def)
      also have "all_headers ?m2 ! (?t - 1) = ?ht" using t reg lh by (simp add: h2)
      also have "?ht\<lparr>pointerToRegisterData := q\<rparr> = \<lparr>pointerToRegisterData = q, dataType = dataType ?ht, tag = tag ?ht\<rparr>"
        by (cases ?ht) simp
      finally have e: "all_headers ?m4 = (all_headers ?m2)[?t - 1 := \<lparr>pointerToRegisterData = q, dataType = dataType ?ht, tag = tag ?ht\<rparr>]" .
      have "(all_headers ?m2)[?t - 1 := x] = (all_headers mt)[?t - 1 := x]" for x
      proof (rule nth_equalityI)
        fix i assume "i < length ((all_headers ?m2)[?t - 1 := x])"
        then show "(all_headers ?m2)[?t - 1 := x] ! i = (all_headers mt)[?t - 1 := x] ! i"
          using t reg by (cases "i = ?t - 1") (simp_all add: h2 ht place_down_def, auto)
      qed (simp add: h2 ht)
      with e show ?thesis by simp
    qed
    have at4: "all_headers ?m4 ! ?t = ?ht" "pointerToRegisterData (all_headers ?m4 ! (?t - 1)) = q"
      unfolding h4 using at t by (auto simp: nth_list_update)
    have copy: "copy_blocks (?t - 1) ?t (hsize m ?ht) ?m4 = Inr ?m5"
      using pt 3(6) by (intro copied_blocks [OF slot_global [OF t1(2)] slot_global [OF t1(1)] g4, unfolded at4])
    have res: "drop_register reg m = Inr ?m5"
      using al copy by (simp add: drop_register_def ne 3(1) top size2 [OF 3(4)] Let_def)
    have h5: "all_headers ?m5 = all_headers ?m4" and g5: "globals_ok ?m5" using g4 by simp_all
    have ram5: "ram_block a ?m5 = xcopy q (pointerToRegisterData ?ht) (hsize m ?ht) (\<lambda>b. ram_block b m) a" for a
      using 3(5) by (simp add: setRegisterDataPointer_def allocated_def) (simp add: ram_block_def)
    have pool5: "pool (memory ?m5) = p2\<lparr>ram := ram (pool (memory ?m5))\<rparr>"
      by (simp add: memory_update_ram setRegisterDataPointer_def)
    have ok: "pool_ok lim (pool (memory ?m5)) (add_mset (q, hsize mt (all_headers mt ! ?t)) (pieces mt - {#hpiece mt (all_headers mt ! (?t - 1))#} + R))"
      using 3(3) by (subst pool5) (simp only: pool_ok_ram at same rv(3))
    have "regs_inv lim R ?m5 \<and> reg_values ?m5 = (reg_values mt)[?t - 1 := reg_values mt ! ?t]"
      by (rule copy_effect [OF invt at(4,3) g5 _ ok])
        (simp_all only: h5 h4 at ram5 same xcopy_apply, auto simp: ram_block_def memt)
    moreover have "(reg_values mt)[?t - 1 := reg_values mt ! ?t] = shifted_down reg ?t (reg_values m)"
      unfolding rv(2) shifted_down_def
      by (rule nth_equalityI) (use t reg lh in \<open>auto simp: reg_values_def nth_list_update place_down_def\<close>)
    moreover have "lastErrorCode ?m5 = lastErrorCode m"
      by (simp add: update_ram_def setRegisterDataPointer_def update_header_def allocated_def released_def move_headers_moved split: cell.split)
    ultimately show ?thesis by (simp only: drop_outcome_def res Let_def sum.case simp_thms)
  qed
qed

text \<open>C23. Lifting discards the top of the stack (with lifting disabled, X), moves the other values up
  and puts a new real into X; dropping a register closes the gap and keeps the value at the top.  Both
  keep the data disjoint and in the pool.  They fail only on a full region table, or, leaving X without
  data or two registers with the same data, when no free interval was large enough before.\<close>

theorem stack_lift_and_drop:
  assumes inv: "regs_inv lim R m" and reg: "REGISTER_X \<le> reg" "reg < getStackTop m"
  shows "(case liftStack m of
            Inl e \<Rightarrow> e = Exit TooManyFreeRegions \<and> length (freeMemoryRegions (pool (memory m))) = MAX_FREE_REGIONS
          | Inr m' \<Rightarrow>
              getRegisterDataPointer REGISTER_X m' = None \<and> (\<nexists>a. {a ..< a + REAL34_SIZE_IN_BLOCKS} \<subseteq> free_blocks (pool (memory m))) \<or>
              regs_inv lim R m' \<and>
              (\<exists>bs. length bs = 4 \<and>
                reg_values m' = (map (\<lambda>k. reg_values m ! (if getSystemFlag FLAG_ASLIFT m then place_up REGISTER_X (getStackTop m) k else k))
                                  [0 ..< length (reg_values m)])[REGISTER_X := (dtReal34, amNone, bs)])) \<and>
         (case drop_register reg m of
            Inl e \<Rightarrow> e = Exit TooManyFreeRegions \<and> length (freeMemoryRegions (pool (memory m))) = MAX_FREE_REGIONS
          | Inr m' \<Rightarrow>
              lastErrorCode m' = ERROR_RAM_FULL \<and> getRegisterDataPointer (getStackTop m - 1) m' = getRegisterDataPointer (getStackTop m) m' \<and>
                (\<nexists>a. {a ..< a + getRegisterFullSizeInBlocks (getStackTop m) m} \<subseteq> free_blocks (pool (memory m))) \<or>
              regs_inv lim R m' \<and> lastErrorCode m' = lastErrorCode m \<and>
                reg_values m' = map (\<lambda>k. reg_values m ! (if reg \<le> k \<and> k < getStackTop m then k + 1 else k)) [0 ..< length (reg_values m)])"
proof
  have v: "reg_values (lift_permuted m) = map (\<lambda>k. reg_values m ! (if getSystemFlag FLAG_ASLIFT m then place_up REGISTER_X (getStackTop m) k else k))
             [0 ..< length (reg_values m)]"
    using inv by (simp add: lift_permuted_def roll_up.moves_values map_nth)
  show "case liftStack m of
            Inl e \<Rightarrow> e = Exit TooManyFreeRegions \<and> length (freeMemoryRegions (pool (memory m))) = MAX_FREE_REGIONS
          | Inr m' \<Rightarrow>
              getRegisterDataPointer REGISTER_X m' = None \<and> (\<nexists>a. {a ..< a + REAL34_SIZE_IN_BLOCKS} \<subseteq> free_blocks (pool (memory m))) \<or>
              regs_inv lim R m' \<and>
              (\<exists>bs. length bs = 4 \<and>
                reg_values m' = (map (\<lambda>k. reg_values m ! (if getSystemFlag FLAG_ASLIFT m then place_up REGISTER_X (getStackTop m) k else k))
                                  [0 ..< length (reg_values m)])[REGISTER_X := (dtReal34, amNone, bs)])"
    using liftStack_outcome [OF inv] unfolding lift_outcome_def v .
qed (rule drop_register_outcome [OF inv reg, unfolded drop_outcome_def shifted_down_def Let_def])

lemma stack_lift_and_drop_witness:
  "case drop_register REGISTER_Y plain_machine of
     Inl e \<Rightarrow> e = Exit TooManyFreeRegions \<and> length (freeMemoryRegions (pool (memory plain_machine))) = MAX_FREE_REGIONS
   | Inr m' \<Rightarrow>
       lastErrorCode m' = ERROR_RAM_FULL \<and> getRegisterDataPointer (getStackTop plain_machine - 1) m' = getRegisterDataPointer (getStackTop plain_machine) m' \<and>
         (\<nexists>a. {a ..< a + getRegisterFullSizeInBlocks (getStackTop plain_machine) plain_machine} \<subseteq> free_blocks (pool (memory plain_machine))) \<or>
       regs_inv 65533 {#} m' \<and> lastErrorCode m' = lastErrorCode plain_machine \<and>
         reg_values m' = map (\<lambda>k. reg_values plain_machine ! (if REGISTER_Y \<le> k \<and> k < getStackTop plain_machine then k + 1 else k))
                           [0 ..< length (reg_values plain_machine)]"
proof (rule stack_lift_and_drop [THEN conjunct2])
  show "regs_inv 65533 {#} plain_machine" by (rule plain_machine_inv)
  show "REGISTER_Y < getStackTop plain_machine" using stack_top_range(1) [of plain_machine] by auto
qed simp

end
