(* ===== verification/ProgramSteps.thy ===== *)
theory ProgramSteps
  imports Memory
begin

text \<open>
  Program memory as a sequence of steps, \<^verbatim>\<open>programming/nextStep.c\<close> and the step tests of
  \<^verbatim>\<open>programming/manage.c\<close>.  A step is an op code of one or two bytes and its parameters, whose number
  follows from the kind of the op code and from the bytes themselves; the walkers find the next and
  the previous step, the step of a given number and the number of steps, and move the program pointer
  and the window of the program editor.

  A pointer into program memory is a byte address, \<open>None\<close> the null pointer.  The status word of the
  item table is an argument.  Left out: the editor's text input, drawing, the CASE command.
\<close>

section \<open>State\<close>

record labelList =
  labelProgram :: int
  labelStep :: int
  labelPointer :: nat
  labelInstructionPointer :: nat

record programList =
  programStep :: int
  programInstructionPointer :: nat

record programs = memory +
  labels :: "labelList list"
  programTable :: "programList list"
  currentProgramNumber :: nat
  currentStep :: nat
  currentLocalStepNumber :: nat
  firstDisplayedStep :: nat
  firstDisplayedLocalStepNumber :: nat
  pemCursorIsZerothStep :: bool
  programListEnd :: bool

abbreviation programBegin :: "'a memory_scheme \<Rightarrow> nat" where
  "programBegin m \<equiv> TO_BYTES (beginOfProgramMemory m)"

definition byte_at :: "'a memory_scheme \<Rightarrow> nat \<Rightarrow> nat" where
  "byte_at m a = unat (drop_bit (8 * (a mod 4)) (ram (pool m) (a div 4)) AND 0xff)"

section \<open>Constants\<close>

abbreviation (input) ITM_LBL :: nat where "ITM_LBL \<equiv> 1"
abbreviation (input) ITM_LITERAL :: nat where "ITM_LITERAL \<equiv> 114"
abbreviation (input) ITM_END :: nat where "ITM_END \<equiv> 1458"
abbreviation (input) ITM_KEY :: nat where "ITM_KEY \<equiv> 1497"
abbreviation (input) ITM_42KEY :: nat where "ITM_42KEY \<equiv> 2794"
abbreviation (input) LAST_ITEM :: nat where "LAST_ITEM \<equiv> 3536"

abbreviation (input) PTP_STATUS :: nat where "PTP_STATUS \<equiv> 0x1e00"
abbreviation (input) PTP_NONE :: nat where "PTP_NONE \<equiv> 0"
abbreviation (input) PTP_KEYG_KEYX :: nat where "PTP_KEYG_KEYX \<equiv> 0x1000"
abbreviation (input) PTP_LITERAL :: nat where "PTP_LITERAL \<equiv> 0x1a00"
abbreviation (input) PTP_REM :: nat where "PTP_REM \<equiv> 0x1c00"
abbreviation (input) PTP_DISABLED :: nat where "PTP_DISABLED \<equiv> 0x1e00"

abbreviation (input) PARAM_DECLARE_LABEL :: nat where "PARAM_DECLARE_LABEL \<equiv> 1"
abbreviation (input) PARAM_LABEL :: nat where "PARAM_LABEL \<equiv> 2"
abbreviation (input) PARAM_REGISTER :: nat where "PARAM_REGISTER \<equiv> 3"
abbreviation (input) PARAM_FLAG :: nat where "PARAM_FLAG \<equiv> 4"
abbreviation (input) PARAM_NUMBER_8 :: nat where "PARAM_NUMBER_8 \<equiv> 5"
abbreviation (input) PARAM_NUMBER_16 :: nat where "PARAM_NUMBER_16 \<equiv> 6"
abbreviation (input) PARAM_COMPARE :: nat where "PARAM_COMPARE \<equiv> 7"
abbreviation (input) PARAM_SKIP_BACK :: nat where "PARAM_SKIP_BACK \<equiv> 9"
abbreviation (input) PARAM_NUMBER_8_16 :: nat where "PARAM_NUMBER_8_16 \<equiv> 10"
abbreviation (input) PARAM_SHUFFLE :: nat where "PARAM_SHUFFLE \<equiv> 11"
abbreviation (input) PARAM_MENU :: nat where "PARAM_MENU \<equiv> 12"

abbreviation (input) LAST_LOCAL_LABEL :: nat where "LAST_LOCAL_LABEL \<equiv> 123"
abbreviation (input) LAST_SPARE_REGISTERS_IN_KS_CODE :: nat where "LAST_SPARE_REGISTERS_IN_KS_CODE \<equiv> 224"
abbreviation (input) LOCAL_LABEL_VARIABLE :: nat where "LOCAL_LABEL_VARIABLE \<equiv> 249"
abbreviation (input) CNST_BEYOND_250 :: nat where "CNST_BEYOND_250 \<equiv> 250"
abbreviation (input) SYSTEM_FLAG_NUMBER :: nat where "SYSTEM_FLAG_NUMBER \<equiv> 250"
abbreviation (input) VALUE_0 :: nat where "VALUE_0 \<equiv> 251"
abbreviation (input) VALUE_1 :: nat where "VALUE_1 \<equiv> 252"
abbreviation (input) STRING_LABEL_VARIABLE :: nat where "STRING_LABEL_VARIABLE \<equiv> 253"
abbreviation (input) INDIRECT_REGISTER :: nat where "INDIRECT_REGISTER \<equiv> 254"
abbreviation (input) INDIRECT_VARIABLE :: nat where "INDIRECT_VARIABLE \<equiv> 255"
abbreviation (input) LAST_LOCAL_FLAG :: nat where "LAST_LOCAL_FLAG \<equiv> 143"
abbreviation (input) FLAG_M :: nat where "FLAG_M \<equiv> 211"
abbreviation (input) FLAG_W :: nat where "FLAG_W \<equiv> 224"
abbreviation (input) MAX_LABEL_NAME_LENGTH :: nat where "MAX_LABEL_NAME_LENGTH \<equiv> 14"

section \<open>The grammar of parameters\<close>

text \<open>The parameter bytes after the first: a fixed number, a length byte and as many, a base byte before these.\<close>

datatype tail = PARAM_TAIL nat | PARAM_TAIL_INVALID | PARAM_TAIL_LENGTH_PREFIXED | PARAM_TAIL_BASE_LENGTH_PREFIXED

definition isFunctionOldParam16 :: "nat \<Rightarrow> bool" where
  "isFunctionOldParam16 func \<longleftrightarrow> func = 1297 \<or> func = 1934 \<or> func = 2236 \<or> func = 2196"

definition paramTailBytes :: "nat \<Rightarrow> nat \<Rightarrow> nat \<Rightarrow> tail" where
  "paramTailBytes paramMode op opParam =
     (if paramMode = PARAM_DECLARE_LABEL then
        (if opParam \<le> LAST_LOCAL_LABEL then PARAM_TAIL 0
         else if opParam = STRING_LABEL_VARIABLE \<or> opParam = LOCAL_LABEL_VARIABLE then PARAM_TAIL_LENGTH_PREFIXED
         else PARAM_TAIL_INVALID)
      else if paramMode = PARAM_LABEL then
        (if opParam \<le> LAST_LOCAL_LABEL then PARAM_TAIL 0
         else if opParam = STRING_LABEL_VARIABLE \<or> opParam = INDIRECT_VARIABLE \<or> opParam = LOCAL_LABEL_VARIABLE
           then PARAM_TAIL_LENGTH_PREFIXED
         else if opParam = INDIRECT_REGISTER then PARAM_TAIL 1
         else PARAM_TAIL_INVALID)
      else if paramMode = PARAM_REGISTER then
        (if opParam \<le> LAST_SPARE_REGISTERS_IN_KS_CODE then PARAM_TAIL 0
         else if opParam = STRING_LABEL_VARIABLE \<or> opParam = INDIRECT_VARIABLE then PARAM_TAIL_LENGTH_PREFIXED
         else if opParam = INDIRECT_REGISTER then PARAM_TAIL 1
         else PARAM_TAIL_INVALID)
      else if paramMode = PARAM_COMPARE then
        (if opParam \<le> LAST_SPARE_REGISTERS_IN_KS_CODE \<or> opParam = VALUE_0 \<or> opParam = VALUE_1 then PARAM_TAIL 0
         else if opParam = STRING_LABEL_VARIABLE \<or> opParam = INDIRECT_VARIABLE then PARAM_TAIL_LENGTH_PREFIXED
         else if opParam = INDIRECT_REGISTER then PARAM_TAIL 1
         else PARAM_TAIL_INVALID)
      else if paramMode = PARAM_FLAG then
        (if opParam \<le> LAST_LOCAL_FLAG \<or> FLAG_M \<le> opParam \<and> opParam \<le> FLAG_W then PARAM_TAIL 0
         else if opParam = INDIRECT_REGISTER \<or> opParam = SYSTEM_FLAG_NUMBER then PARAM_TAIL 1
         else if opParam = INDIRECT_VARIABLE then PARAM_TAIL_LENGTH_PREFIXED
         else PARAM_TAIL_INVALID)
      else if paramMode = PARAM_NUMBER_8 then
        (if opParam \<le> 249 then PARAM_TAIL 0
         else if opParam = INDIRECT_REGISTER then PARAM_TAIL 1
         else if opParam = INDIRECT_VARIABLE then PARAM_TAIL_LENGTH_PREFIXED
         else PARAM_TAIL_INVALID)
      else if paramMode = PARAM_NUMBER_8_16 then
        (if opParam \<le> 249 then PARAM_TAIL 0
         else if opParam = CNST_BEYOND_250 \<or> opParam = INDIRECT_REGISTER then PARAM_TAIL 1
         else if opParam = INDIRECT_VARIABLE then PARAM_TAIL_LENGTH_PREFIXED
         else PARAM_TAIL_INVALID)
      else if paramMode = PARAM_NUMBER_16 then
        (if isFunctionOldParam16 op then PARAM_TAIL 1
         else if opParam = INDIRECT_VARIABLE then PARAM_TAIL_LENGTH_PREFIXED
         else PARAM_TAIL 1)
      else if paramMode = PARAM_SKIP_BACK \<or> paramMode = PARAM_SHUFFLE then PARAM_TAIL 0
      else if paramMode = PARAM_MENU then
        (if opParam = STRING_LABEL_VARIABLE \<or> opParam = INDIRECT_VARIABLE then PARAM_TAIL_LENGTH_PREFIXED
         else if opParam = INDIRECT_REGISTER then PARAM_TAIL 1
         else PARAM_TAIL_INVALID)
      else PARAM_TAIL_INVALID)"

text \<open>By the type byte of a literal: binary short integer, real and complex; string with a base; other strings.\<close>

definition literalTailBytes :: "nat \<Rightarrow> tail" where
  "literalTailBytes literalType =
     (if literalType = 1 then PARAM_TAIL 9
      else if literalType = 3 then PARAM_TAIL 16
      else if literalType = 4 then PARAM_TAIL (TO_BYTES (REAL34_SIZE_IN_BLOCKS * 2))
      else if literalType = 7 then PARAM_TAIL_BASE_LENGTH_PREFIXED
      else if literalType \<in> set [8, 9, STRING_LABEL_VARIABLE, 10, 12, 11, 21, 18, 19, 20, 22] then PARAM_TAIL_LENGTH_PREFIXED
      else PARAM_TAIL_INVALID)"

definition countOpBytes :: "'a memory_scheme \<Rightarrow> nat \<Rightarrow> nat \<Rightarrow> nat option" where
  "countOpBytes m step0 paramMode =
     (let opParam = byte_at m step0; step = step0 + 1;
          op = (if paramMode = PARAM_NUMBER_16 then (256 * byte_at m (step - 3) + byte_at m (step - 2)) AND 0x7fff else 0)
      in case paramTailBytes paramMode op opParam of
           PARAM_TAIL_INVALID \<Rightarrow> None
         | PARAM_TAIL_LENGTH_PREFIXED \<Rightarrow> Some (step + byte_at m step + 1)
         | PARAM_TAIL n \<Rightarrow> Some (step + n)
         | PARAM_TAIL_BASE_LENGTH_PREFIXED \<Rightarrow> Some (step - 3))"

definition countLiteralBytes :: "'a memory_scheme \<Rightarrow> nat \<Rightarrow> nat option" where
  "countLiteralBytes m step0 =
     (let step = step0 + 1 in
      case literalTailBytes (byte_at m step0) of
        PARAM_TAIL_INVALID \<Rightarrow> None
      | PARAM_TAIL_BASE_LENGTH_PREFIXED \<Rightarrow> Some (step + byte_at m (step + 1) + 2)
      | PARAM_TAIL_LENGTH_PREFIXED \<Rightarrow> Some (step + byte_at m step + 1)
      | PARAM_TAIL n \<Rightarrow> Some (step + n))"

section \<open>The next step\<close>

definition programBytesAvailable :: "nat \<Rightarrow> nat \<Rightarrow> 'a memory_scheme \<Rightarrow> bool" where
  "programBytesAvailable address numberOfBytes m \<longleftrightarrow>
     programBegin m \<le> address \<and> address \<le> firstFreeProgramByte m \<and> numberOfBytes \<le> firstFreeProgramByte m - address"

definition isAtEndOfPrograms :: "'a memory_scheme \<Rightarrow> nat option \<Rightarrow> bool" where
  "isAtEndOfPrograms m step =
     (case step of None \<Rightarrow> True | Some a \<Rightarrow> byte_at m a = 255 \<and> byte_at m (a + 1) = 255)"

definition checkOpCodeOfStep :: "'a memory_scheme \<Rightarrow> nat option \<Rightarrow> nat \<Rightarrow> bool" where
  "checkOpCodeOfStep m step op =
     (case step of
        None \<Rightarrow> False
      | Some a \<Rightarrow>
          if op < 128 then byte_at m a = op
          else byte_at m a = (op div 256 OR 0x80) \<and> byte_at m (a + 1) = (op AND 0xff))"

definition isAtEndOfProgram :: "'a memory_scheme \<Rightarrow> nat option \<Rightarrow> bool" where
  "isAtEndOfProgram m step = checkOpCodeOfStep m step ITM_END"

text \<open>The end of the parameters of operation \<open>op\<close>, which start at \<open>step\<close>.\<close>

definition parameters_end :: "(nat \<Rightarrow> nat) \<Rightarrow> 'a memory_scheme \<Rightarrow> nat \<Rightarrow> nat \<Rightarrow> nat option" where
  "parameters_end status m op step =
     (let ptp = status op AND PTP_STATUS;
          secondParam =
            (if op \<ge> LAST_ITEM then None
             else if ptp = PTP_NONE \<or> ptp = PTP_DISABLED then Some step
             else if ptp = PTP_LITERAL \<or> ptp = PTP_REM then countLiteralBytes m step
             else if ptp = PTP_KEYG_KEYX then countOpBytes m step PARAM_NUMBER_8
             else countOpBytes m step (ptp div 512))
      in case secondParam of
           None \<Rightarrow> None
         | Some a \<Rightarrow> if programBytesAvailable a 0 m then Some a else None)"

definition findKey2ndParam :: "(nat \<Rightarrow> nat) \<Rightarrow> 'a memory_scheme \<Rightarrow> nat option \<Rightarrow> nat option" where
  "findKey2ndParam status m step =
     (case step of
        None \<Rightarrow> None
      | Some a \<Rightarrow>
          if \<not> programBytesAvailable a 1 m then None
          else (let op = byte_at m a in
            if op AND 0x80 \<noteq> 0 then
              (if \<not> programBytesAvailable (a + 1) 1 m then None
               else parameters_end status m (256 * (op AND 0x7f) + byte_at m (a + 1)) (a + 2))
            else parameters_end status m op (a + 1)))"

definition findNextStep :: "(nat \<Rightarrow> nat) \<Rightarrow> 'a memory_scheme \<Rightarrow> nat option \<Rightarrow> nat option" where
  "findNextStep status m step =
     (if checkOpCodeOfStep m step ITM_KEY \<or> checkOpCodeOfStep m step ITM_42KEY
      then findKey2ndParam status m (findKey2ndParam status m step)
      else findKey2ndParam status m step)"

section \<open>Progress\<close>

lemma parameters_end_progress:
  assumes "parameters_end status m op step = Some a"
  shows "step \<le> a \<and> a \<le> firstFreeProgramByte m \<and> programBegin m \<le> a"
proof -
  have "step \<le> a"
    using assms unfolding parameters_end_def countLiteralBytes_def countOpBytes_def Let_def
    by (auto split: if_splits tail.splits option.splits simp: paramTailBytes_def literalTailBytes_def)
  with assms(1) show ?thesis
    by (auto simp: parameters_end_def programBytesAvailable_def Let_def split: option.splits if_splits)
qed

lemma findKey2ndParam_progress:
  assumes "findKey2ndParam status m (Some a) = Some b"
  shows "a < b \<and> b \<le> firstFreeProgramByte m \<and> programBegin m \<le> a"
proof -
  obtain op k where e: "parameters_end status m op (a + k) = Some b" and k: "0 < k" and a: "programBegin m \<le> a"
  proof -
    from assms have "programBegin m \<le> a"
      by (auto simp: findKey2ndParam_def programBytesAvailable_def split: if_splits)
    with assms that [of _ 1] that [of _ 2] show thesis
      by (auto simp: findKey2ndParam_def Let_def split: if_splits)
  qed
  from parameters_end_progress [OF e] k a show ?thesis by simp
qed

lemma findKey2ndParam_None [simp]: "findKey2ndParam status m None = None"
  by (simp add: findKey2ndParam_def)

lemma findNextStep_None [simp]: "findNextStep status m None = None"
  by (simp add: findNextStep_def)

lemma findNextStep_progress:
  assumes "findNextStep status m (Some a) = Some b"
  shows "a < b \<and> b \<le> firstFreeProgramByte m \<and> programBegin m \<le> a"
proof (cases "findKey2ndParam status m (Some a)")
  case (Some c)
  with assms findKey2ndParam_progress [OF Some] findKey2ndParam_progress [of status m c b] show ?thesis
    by (auto simp: findNextStep_def split: if_splits)
qed (use assms in \<open>auto simp: findNextStep_def split: if_splits\<close>)

definition remaining :: "'a memory_scheme \<Rightarrow> nat option \<Rightarrow> nat" where
  "remaining m step = (case step of None \<Rightarrow> 0 | Some a \<Rightarrow> Suc (Suc (firstFreeProgramByte m) - a))"

lemma remaining_decreases: "step \<noteq> None \<Longrightarrow> remaining m (findNextStep status m step) < remaining m step"
  using findNextStep_progress [of status m "the step"]
  by (fastforce simp: remaining_def split: option.splits)

lemma remaining_next: "findNextStep status m step = Some b \<Longrightarrow> remaining m (Some b) < remaining m step"
  using remaining_decreases [of step m status] by (cases step) auto

section \<open>Walking over the steps\<close>

text \<open>The loop of \<^verbatim>\<open>findPreviousStep\<close>; the last step before \<open>target\<close>, or where the walk stops.\<close>

function walk_to :: "(nat \<Rightarrow> nat) \<Rightarrow> 'a memory_scheme \<Rightarrow> nat \<Rightarrow> nat option \<Rightarrow> nat option" where
  "walk_to status m target searchFromStep =
     (case findNextStep status m searchFromStep of
        None \<Rightarrow> searchFromStep
      | Some a \<Rightarrow> if a = target then searchFromStep else walk_to status m target (Some a))"
  by auto
termination
  by (relation "measure (\<lambda>(_, m, _, step). remaining m step)") (auto simp: remaining_next)

definition findPreviousStep :: "(nat \<Rightarrow> nat) \<Rightarrow> 'a programs_scheme \<Rightarrow> nat \<Rightarrow> nat option" where
  "findPreviousStep status p step =
     (if step = programBegin p then Some step
      else walk_to status p step
        (if labels p = [] \<or> step \<le> labelInstructionPointer (labels p ! 0) then Some (programBegin p)
         else map_option labelInstructionPointer (find (\<lambda>l. labelInstructionPointer l < step) (rev (labels p)))))"

function count_steps :: "(nat \<Rightarrow> nat) \<Rightarrow> 'a memory_scheme \<Rightarrow> nat option \<Rightarrow> nat \<Rightarrow> nat" where
  "count_steps status m step numberOfSteps =
     (if isAtEndOfProgram m step \<or> isAtEndOfPrograms m step then numberOfSteps
      else count_steps status m (findNextStep status m step) (trunc16 (numberOfSteps + 1)))"
  by auto
termination
  by (relation "measure (\<lambda>(_, m, step, _). remaining m step)")
    (auto intro!: remaining_decreases simp: isAtEndOfPrograms_def split: option.splits)

definition program_start :: "'a programs_scheme \<Rightarrow> nat" where
  "program_start p = programInstructionPointer (programTable p ! (currentProgramNumber p - 1))"

definition getNumberOfSteps :: "(nat \<Rightarrow> nat) \<Rightarrow> 'a programs_scheme \<Rightarrow> nat" where
  "getNumberOfSteps status p =
     (if currentProgramNumber p = length (programTable p) then count_steps status p (Some (program_start p)) 1
      else trunc16 (nat \<bar>programStep (programTable p ! currentProgramNumber p) -
                          programStep (programTable p ! (currentProgramNumber p - 1))\<bar>))"

fun step_forward :: "(nat \<Rightarrow> nat) \<Rightarrow> 'a memory_scheme \<Rightarrow> nat \<Rightarrow> nat \<Rightarrow> nat" where
  "step_forward status m 0 a = a"
| "step_forward status m (Suc k) a =
     (case findNextStep status m (Some a) of None \<Rightarrow> a | Some b \<Rightarrow> step_forward status m k b)"

definition defineCurrentStep :: "(nat \<Rightarrow> nat) \<Rightarrow> 'a programs_scheme \<Rightarrow> 'a programs_scheme" where
  "defineCurrentStep status p =
     p\<lparr>currentStep := step_forward status p (currentLocalStepNumber p - 1) (program_start p)\<rparr>"

definition defineFirstDisplayedStep :: "(nat \<Rightarrow> nat) \<Rightarrow> 'a programs_scheme \<Rightarrow> 'a programs_scheme" where
  "defineFirstDisplayedStep status p =
     p\<lparr>firstDisplayedStep := step_forward status p (firstDisplayedLocalStepNumber p - 1) (program_start p)\<rparr>"

section \<open>Moving the program pointer\<close>

definition fnBack :: "(nat \<Rightarrow> nat) \<Rightarrow> nat \<Rightarrow> 'a programs_scheme \<Rightarrow> 'a programs_scheme" where
  "fnBack status numberOfSteps p =
     (if numberOfSteps \<ge> currentLocalStepNumber p - 1 then p\<lparr>currentLocalStepNumber := 1, currentStep := program_start p\<rparr>
      else defineCurrentStep status (p\<lparr>currentLocalStepNumber := currentLocalStepNumber p - numberOfSteps\<rparr>))"

text \<open>The 16-bit loop counter wraps: with 65535 only the end of the program ends the loop.\<close>

function skip_loop :: "(nat \<Rightarrow> nat) \<Rightarrow> nat \<Rightarrow> nat \<Rightarrow> 'a programs_scheme \<Rightarrow> 'a programs_scheme" where
  "skip_loop status numberOfSteps i p =
     (if i \<le> numberOfSteps \<and> \<not> isAtEndOfProgram p (Some (currentStep p)) \<and> \<not> isAtEndOfPrograms p (Some (currentStep p)) then
        (case findNextStep status p (Some (currentStep p)) of
           None \<Rightarrow> p
         | Some a \<Rightarrow>
             skip_loop status numberOfSteps (trunc16 (i + 1))
               (p\<lparr>currentLocalStepNumber := trunc16 (currentLocalStepNumber p + 1), currentStep := a\<rparr>))
      else p)"
  by auto
termination
  by (relation "measure (\<lambda>(_, _, _, p). remaining p (Some (currentStep p)))")
    (auto dest!: remaining_next simp: remaining_def)

definition fnSkip :: "(nat \<Rightarrow> nat) \<Rightarrow> nat \<Rightarrow> 'a programs_scheme \<Rightarrow> 'a programs_scheme" where
  "fnSkip status numberOfSteps p = skip_loop status numberOfSteps 0 p"

definition scrollPemBackwards :: "(nat \<Rightarrow> nat) \<Rightarrow> programs \<Rightarrow> programs" where
  "scrollPemBackwards status p =
     defineFirstDisplayedStep status
       (if firstDisplayedLocalStepNumber p > 0
        then p\<lparr>firstDisplayedLocalStepNumber := firstDisplayedLocalStepNumber p - 1\<rparr> else p)"

definition bstInPem :: "(nat \<Rightarrow> nat) \<Rightarrow> programs \<Rightarrow> programs" where
  "bstInPem status p =
     defineFirstDisplayedStep status
       (if currentLocalStepNumber p > 1 then
          (if firstDisplayedLocalStepNumber p > 0 \<and> currentLocalStepNumber p \<le> firstDisplayedLocalStepNumber p + 3
           then p\<lparr>firstDisplayedLocalStepNumber := firstDisplayedLocalStepNumber p - 1,
                  currentLocalStepNumber := currentLocalStepNumber p - 1\<rparr>
           else p\<lparr>currentLocalStepNumber := currentLocalStepNumber p - 1\<rparr>)
        else if currentLocalStepNumber p = 1 \<and> \<not> pemCursorIsZerothStep p then
          p\<lparr>currentLocalStepNumber := 1, firstDisplayedLocalStepNumber := 0, pemCursorIsZerothStep := True\<rparr>
        else
          (let numberOfSteps = getNumberOfSteps status p in
           p\<lparr>currentLocalStepNumber := numberOfSteps, pemCursorIsZerothStep := False,
             firstDisplayedLocalStepNumber := (if numberOfSteps \<le> 6 then 0 else numberOfSteps - 6)\<rparr>))"

definition sstInPem :: "(nat \<Rightarrow> nat) \<Rightarrow> programs \<Rightarrow> programs" where
  "sstInPem status p =
     (let numberOfSteps = getNumberOfSteps status p in
      defineFirstDisplayedStep status
        (if currentLocalStepNumber p = 1 \<and> pemCursorIsZerothStep p then
           p\<lparr>currentLocalStepNumber := 1, firstDisplayedLocalStepNumber := 0, pemCursorIsZerothStep := False\<rparr>
         else if currentLocalStepNumber p < numberOfSteps then
           (let p1 = p\<lparr>currentLocalStepNumber := currentLocalStepNumber p + 1\<rparr>;
                p2 = (if currentLocalStepNumber p \<ge> 3 \<and> \<not> programListEnd p
                      then p1\<lparr>firstDisplayedLocalStepNumber := firstDisplayedLocalStepNumber p1 + 1\<rparr> else p1)
            in if firstDisplayedLocalStepNumber p2 + 7 > numberOfSteps
               then p2\<lparr>firstDisplayedLocalStepNumber := (if numberOfSteps \<le> 6 then 0 else numberOfSteps - 6)\<rparr> else p2)
         else p\<lparr>currentLocalStepNumber := 1, firstDisplayedLocalStepNumber := 0, pemCursorIsZerothStep := True\<rparr>))"

section \<open>Label names\<close>

definition boundProgramNameLength :: "nat \<Rightarrow> nat \<Rightarrow> 'a memory_scheme \<Rightarrow> nat" where
  "boundProgramNameLength nameStart claimedLength m =
     (if nameStart \<ge> firstFreeProgramByte m then 0
      else if claimedLength > firstFreeProgramByte m - nameStart then (firstFreeProgramByte m - nameStart) mod 256
      else claimedLength)"

function programMemoryHasOverlongLabelName :: "(nat \<Rightarrow> nat) \<Rightarrow> 'a memory_scheme \<Rightarrow> nat \<Rightarrow> bool" where
  "programMemoryHasOverlongLabelName status m step =
     (if programBytesAvailable step 2 m \<and> \<not> isAtEndOfPrograms m (Some step) then
        (if checkOpCodeOfStep m (Some step) ITM_LBL \<and>
            (byte_at m (step + 1) = STRING_LABEL_VARIABLE \<or> byte_at m (step + 1) = LOCAL_LABEL_VARIABLE) \<and>
            programBytesAvailable step 3 m \<and> byte_at m (step + 2) > MAX_LABEL_NAME_LENGTH
         then True
         else case findNextStep status m (Some step) of
                None \<Rightarrow> False
              | Some a \<Rightarrow> programMemoryHasOverlongLabelName status m a)
      else False)"
  by auto
termination
  by (relation "measure (\<lambda>(_, m, step). remaining m (Some step))") (auto simp: remaining_next)

end
