(* ===== verification/Labels.thy ===== *)
theory Labels
  imports ProgramSteps Strings
begin

text \<open>
  Labels and programs, \<^verbatim>\<open>programming/manage.c\<close>, \<^verbatim>\<open>programming/lblGtoXeq.c\<close> and the step tests of
  \<^verbatim>\<open>programming/structured.c\<close>: the scan of program memory that fills the label table and the program
  table, the searches for a label by number and by name, and GTO.

  The two tables are lists in the state; their blocks of the pool are allocated and released as in the
  code, but nothing else writes them, so that their contents are not read from RAM.  A null pointer in a
  state field is 0.  Left out: the insertion of GTO into a program by the editor, the menus (the label
  chosen in a dynamic menu is a field of the state), error texts.
\<close>

section \<open>State\<close>

record labelled = programs +
  structureLabels :: "labelList list"
  labelListPtr :: ptr
  programListPtr :: ptr
  beginOfCurrentProgram :: nat
  endOfCurrentProgram :: "nat option"     \<comment> \<open>\<open>None\<close>: a difference with the null pointer\<close>
  freeProgramBytes :: nat
  programError :: nat                     \<comment> \<open>\<^verbatim>\<open>lastErrorCode\<close>\<close>
  programRunning :: bool                  \<comment> \<open>\<^verbatim>\<open>programRunStop == PGM_RUNNING\<close>\<close>
  dynamicMenuItem :: "(cstring \<times> int \<times> bool) option" \<comment> \<open>label name, duplicate number, menu of local labels\<close>

abbreviation (input) ERROR_UNDEFINED_OPCODE :: nat where "ERROR_UNDEFINED_OPCODE \<equiv> 3"
abbreviation (input) ERROR_LABEL_NOT_FOUND :: nat where "ERROR_LABEL_NOT_FOUND \<equiv> 6"
abbreviation (input) ERROR_OUT_OF_RANGE :: nat where "ERROR_OUT_OF_RANGE \<equiv> 8"
abbreviation (input) ERROR_RAM_FULL :: nat where "ERROR_RAM_FULL \<equiv> 11"
abbreviation (input) INVALID_VARIABLE :: nat where "INVALID_VARIABLE \<equiv> 2199"
abbreviation (input) FIRST_LABEL :: nat where "FIRST_LABEL \<equiv> 2200"
abbreviation (input) LAST_LABEL :: nat where "LAST_LABEL \<equiv> 6999"
abbreviation (input) ALL_LABELS :: nat where "ALL_LABELS \<equiv> 0"
abbreviation (input) GLOBAL_LABELS :: nat where "GLOBAL_LABELS \<equiv> STRING_LABEL_VARIABLE"
abbreviation (input) LOCAL_LABELS :: nat where "LOCAL_LABELS \<equiv> LOCAL_LABEL_VARIABLE"

text \<open>Sizes of the table entries with pointers of 64 bits; the end of RAM.\<close>

abbreviation (input) LABEL_SIZE_IN_BLOCKS :: nat where "LABEL_SIZE_IN_BLOCKS \<equiv> 6"
abbreviation (input) PROGRAM_SIZE_IN_BLOCKS :: nat where "PROGRAM_SIZE_IN_BLOCKS \<equiv> 4"
abbreviation programRegionEnd :: nat where "programRegionEnd \<equiv> TO_BYTES RAM_SIZE_IN_BLOCKS"

definition wrap16 :: "int \<Rightarrow> nat" where
  "wrap16 i = nat (i mod 65536)"

section \<open>Steps of structures\<close>

abbreviation (input) ITM_IF :: nat where "ITM_IF \<equiv> 2920"
abbreviation (input) ITM_ELSE :: nat where "ITM_ELSE \<equiv> 2921"
abbreviation (input) ITM_ENDIF :: nat where "ITM_ENDIF \<equiv> 2922"
abbreviation (input) ITM_DO :: nat where "ITM_DO \<equiv> 2924"
abbreviation (input) ITM_WHILE :: nat where "ITM_WHILE \<equiv> 2925"
abbreviation (input) ITM_ENDDO :: nat where "ITM_ENDDO \<equiv> 2926"
abbreviation (input) ITM_FOR :: nat where "ITM_FOR \<equiv> 2927"
abbreviation (input) ITM_NEXT :: nat where "ITM_NEXT \<equiv> 2928"
abbreviation (input) ITM_FORx :: nat where "ITM_FORx \<equiv> 2929"
abbreviation (input) ITM_NEXTx :: nat where "ITM_NEXTx \<equiv> 2930"
abbreviation (input) ITM_FORYX :: nat where "ITM_FORYX \<equiv> 2933"
abbreviation (input) ITM_FORYXx :: nat where "ITM_FORYXx \<equiv> 2934"
abbreviation (input) ITM_REPEAT :: nat where "ITM_REPEAT \<equiv> 2935"
abbreviation (input) ITM_UNTIL :: nat where "ITM_UNTIL \<equiv> 2936"
abbreviation (input) ITM_FORTOP :: nat where "ITM_FORTOP \<equiv> 2938"
abbreviation (input) ITM_FORTOPx :: nat where "ITM_FORTOPx \<equiv> 2939"

definition structOpOfStep :: "'a memory_scheme \<Rightarrow> nat option \<Rightarrow> nat" where
  "structOpOfStep m step =
     (case step of
        None \<Rightarrow> 0
      | Some a \<Rightarrow>
          if \<not> programBytesAvailable a 1 m then 0
          else if byte_at m a AND 0x80 \<noteq> 0 then
            (if \<not> programBytesAvailable a 2 m then 0 else 256 * (byte_at m a AND 0x7f) + byte_at m (a + 1))
          else byte_at m a)"

definition structOpHasNumber :: "nat \<Rightarrow> bool" where
  "structOpHasNumber op \<longleftrightarrow> op \<in> set [ITM_IF, ITM_ELSE, ITM_ENDIF, ITM_DO, ITM_WHILE, ITM_ENDDO, ITM_REPEAT, ITM_UNTIL]"

definition structPlainOp :: "nat \<Rightarrow> nat" where
  "structPlainOp op =
     (if op \<in> set [ITM_FORx, ITM_FORYX, ITM_FORYXx, ITM_FORTOP, ITM_FORTOPx] then ITM_FOR
      else if op = ITM_NEXTx then ITM_NEXT else op)"

definition structStepIsIfOrWhile :: "'a memory_scheme \<Rightarrow> nat option \<Rightarrow> bool" where
  "structStepIsIfOrWhile m step \<longleftrightarrow> structOpOfStep m step \<in> set [ITM_IF, ITM_WHILE, ITM_UNTIL]"

definition structDisplayOutdent :: "'a memory_scheme \<Rightarrow> nat option \<Rightarrow> bool" where
  "structDisplayOutdent m step \<longleftrightarrow>
     (let op = structPlainOp (structOpOfStep m step) in structOpHasNumber op \<or> op = ITM_FOR \<or> op = ITM_NEXT)"

definition structStepOpensIndent :: "'a memory_scheme \<Rightarrow> nat option \<Rightarrow> bool" where
  "structStepOpensIndent m step \<longleftrightarrow> structPlainOp (structOpOfStep m step) \<in> set [ITM_IF, ITM_DO, ITM_FOR, ITM_REPEAT]"

definition structStepClosesIndent :: "'a memory_scheme \<Rightarrow> nat option \<Rightarrow> bool" where
  "structStepClosesIndent m step \<longleftrightarrow> structPlainOp (structOpOfStep m step) \<in> set [ITM_ENDIF, ITM_ENDDO, ITM_NEXT, ITM_UNTIL]"

definition structStepOnOpenerColumn :: "'a memory_scheme \<Rightarrow> nat option \<Rightarrow> bool" where
  "structStepOnOpenerColumn m step \<longleftrightarrow> structPlainOp (structOpOfStep m step) \<in> set [ITM_ELSE, ITM_WHILE]"

definition structStepIsJumpTarget :: "'a memory_scheme \<Rightarrow> nat option \<Rightarrow> bool" where
  "structStepIsJumpTarget m step \<longleftrightarrow>
     structPlainOp (structOpOfStep m step) \<in>
       set [ITM_ELSE, ITM_ENDIF, ITM_DO, ITM_ENDDO, ITM_FOR, ITM_NEXT, ITM_REPEAT, ITM_UNTIL]"

definition structFusedOp :: "(nat \<Rightarrow> nat) \<Rightarrow> 'a memory_scheme \<Rightarrow> nat option \<Rightarrow> nat" where
  "structFusedOp status m step =
     (case findNextStep status m step of
        None \<Rightarrow> 0
      | Some a \<Rightarrow> (let op = structOpOfStep m (Some a) in
          if op \<in> set [ITM_IF, ITM_WHILE, ITM_UNTIL] \<and> programBytesAvailable a 3 m then op else 0))"

definition structNoLegacySkip :: "(nat \<Rightarrow> nat) \<Rightarrow> 'a memory_scheme \<Rightarrow> nat option \<Rightarrow> bool" where
  "structNoLegacySkip status m step \<longleftrightarrow>
     structFusedOp status m step \<noteq> 0 \<or> structStepIsJumpTarget m (findNextStep status m step)"

section \<open>The current program\<close>

text \<open>Where a walk over the steps of a program meets its end; \<open>None\<close> when it cannot decode a step.\<close>

function program_end :: "(nat \<Rightarrow> nat) \<Rightarrow> 'a memory_scheme \<Rightarrow> nat option \<Rightarrow> nat option" where
  "program_end status m step =
     (if isAtEndOfProgram m step \<or> isAtEndOfPrograms m step then step
      else program_end status m (findNextStep status m step))"
  by auto
termination
  by (relation "measure (\<lambda>(_, m, step). remaining m step)")
    (auto intro!: remaining_decreases simp: isAtEndOfPrograms_def split: option.splits)

declare program_end.simps [simp del]

definition getProgramSize :: "(nat \<Rightarrow> nat) \<Rightarrow> 'a programs_scheme \<Rightarrow> nat option" where
  "getProgramSize status p =
     (if currentProgramNumber p = length (programTable p)
      then map_option (\<lambda>a. a - program_start p + 2) (program_end status p (Some (program_start p)))
      else Some (programInstructionPointer (programTable p ! currentProgramNumber p) - program_start p))"

definition define_bounds :: "(nat \<Rightarrow> nat) \<Rightarrow> 'a labelled_scheme \<Rightarrow> 'a labelled_scheme" where
  "define_bounds status p =
     p\<lparr>endOfCurrentProgram :=
         (if currentProgramNumber p \<ge> length (programTable p)
          then map_option (\<lambda>n. program_start p + n) (getProgramSize status p)
          else Some (programInstructionPointer (programTable p ! currentProgramNumber p))),
       beginOfCurrentProgram := program_start p\<rparr>"

definition defineCurrentProgramFromGlobalStepNumber :: "(nat \<Rightarrow> nat) \<Rightarrow> int \<Rightarrow> 'a labelled_scheme \<Rightarrow> 'a labelled_scheme" where
  "defineCurrentProgramFromGlobalStepNumber status globalStepNumber p =
     (let n = length (takeWhile (\<lambda>e. globalStepNumber \<ge> programStep e) (programTable p))
      in define_bounds status (p\<lparr>currentProgramNumber := if n = 0 then 1 else n\<rparr>))"

definition defineCurrentProgramFromCurrentStep :: "(nat \<Rightarrow> nat) \<Rightarrow> 'a labelled_scheme \<Rightarrow> 'a labelled_scheme" where
  "defineCurrentProgramFromCurrentStep status p =
     (if programBegin p \<le> currentStep p \<and> currentStep p \<le> firstFreeProgramByte p
      then define_bounds status
        (p\<lparr>currentProgramNumber := length (takeWhile (\<lambda>e. currentStep p \<ge> programInstructionPointer e) (programTable p))\<rparr>)
      else p)"

section \<open>The scan\<close>

text \<open>
  First pass: how many labels, structure labels and programs.  It stops at the end of all programs, or
  with an error at a step that it cannot decode or that reaches the end of RAM.
\<close>

definition scan_next :: "(nat \<Rightarrow> nat) \<Rightarrow> 'a memory_scheme \<Rightarrow> nat \<Rightarrow> nat option" where
  "scan_next status m step =
     (case findNextStep status m (Some step) of
        None \<Rightarrow> None
      | Some nextStep \<Rightarrow> if nextStep \<le> step \<or> nextStep \<ge> programRegionEnd then None else Some nextStep)"

lemma scan_next_progress: "scan_next status m a = Some b \<Longrightarrow> findNextStep status m (Some a) = Some b \<and> a < b \<and> b < programRegionEnd"
  by (auto simp: scan_next_def split: option.splits if_splits)

definition starts_program :: "'a memory_scheme \<Rightarrow> nat \<Rightarrow> nat \<Rightarrow> bool" where
  "starts_program m step nextStep \<longleftrightarrow> isAtEndOfProgram m (Some step) \<and> \<not> isAtEndOfPrograms m (Some nextStep)"

function scan_count :: "(nat \<Rightarrow> nat) \<Rightarrow> 'a memory_scheme \<Rightarrow> nat \<Rightarrow> nat \<Rightarrow> nat \<Rightarrow> nat \<Rightarrow> (nat \<times> nat \<times> nat) \<times> bool" where
  "scan_count status m step numberOfLabels numberOfStructureLabels numberOfPrograms =
     (if isAtEndOfPrograms m (Some step) then ((numberOfLabels, numberOfStructureLabels, numberOfPrograms), False)
      else case scan_next status m step of
        None \<Rightarrow> ((numberOfLabels, numberOfStructureLabels, numberOfPrograms), True)
      | Some nextStep \<Rightarrow>
          scan_count status m nextStep
            (if byte_at m step = ITM_LBL then trunc16 (numberOfLabels + 1) else numberOfLabels)
            (if byte_at m step \<noteq> ITM_LBL \<and> structStepIsJumpTarget m (Some step)
             then trunc16 (numberOfStructureLabels + 1) else numberOfStructureLabels)
            (if starts_program m step nextStep then trunc16 (numberOfPrograms + 1) else numberOfPrograms))"
  by auto
termination
  by (relation "measure (\<lambda>(_, m, step, _). remaining m (Some step))") (auto simp: remaining_next dest: scan_next_progress)

text \<open>Second pass: the entries.  \<open>n\<close> is the number of the program, \<open>stepNumber\<close> counts over all programs.\<close>

definition label_entry :: "'a memory_scheme \<Rightarrow> nat \<Rightarrow> nat \<Rightarrow> nat \<Rightarrow> nat \<Rightarrow> labelList" where
  "label_entry m n step stepNumber nextStep =
     (if byte_at m (step + 1) \<le> LAST_LOCAL_LABEL then
        \<lparr>labelProgram = int n, labelStep = - int stepNumber, labelPointer = step + 1, labelInstructionPointer = nextStep\<rparr>
      else if byte_at m (step + 1) = LOCAL_LABEL_VARIABLE then
        \<lparr>labelProgram = int n, labelStep = - int stepNumber, labelPointer = step + 2, labelInstructionPointer = nextStep\<rparr>
      else
        \<lparr>labelProgram = int n, labelStep = int stepNumber, labelPointer = step + 2, labelInstructionPointer = nextStep\<rparr>)"

definition structure_entry :: "nat \<Rightarrow> nat \<Rightarrow> nat \<Rightarrow> nat \<Rightarrow> labelList" where
  "structure_entry n step stepNumber nextStep =
     \<lparr>labelProgram = int n, labelStep = - int stepNumber, labelPointer = step + 2, labelInstructionPointer = nextStep\<rparr>"

type_synonym tables = "labelList list \<times> labelList list \<times> programList list"

function scan_fill :: "(nat \<Rightarrow> nat) \<Rightarrow> 'a memory_scheme \<Rightarrow> nat \<Rightarrow> nat \<Rightarrow> tables \<Rightarrow> tables \<times> nat \<times> bool" where
  "scan_fill status m step stepNumber (ls, ss, ps) =
     (if isAtEndOfPrograms m (Some step) then ((ls, ss, ps), step, False)
      else case scan_next status m step of
        None \<Rightarrow> ((ls, ss, ps), step, True)
      | Some nextStep \<Rightarrow>
          scan_fill status m nextStep (stepNumber + 1)
            (if checkOpCodeOfStep m (Some step) ITM_LBL then ls @ [label_entry m (length ps) step stepNumber nextStep] else ls,
             if \<not> checkOpCodeOfStep m (Some step) ITM_LBL \<and> structStepIsJumpTarget m (Some step)
             then ss @ [structure_entry (length ps) step stepNumber nextStep] else ss,
             if starts_program m step nextStep
             then ps @ [\<lparr>programStep = int (stepNumber + 1), programInstructionPointer = step + 2\<rparr>] else ps))"
  by auto
termination
  by (relation "measure (\<lambda>(_, m, step, _). remaining m (Some step))") (auto simp: remaining_next dest: scan_next_progress)

declare scan_count.simps [simp del] scan_fill.simps [simp del]

text \<open>
  A failed allocation leaves the counts of the first pass without tables, which the code does not check
  afterwards; such a scan has no value here.
\<close>

datatype scan_failure = ScanExit mem_error | NoLabelTable | NoProgramTable

definition with_memory :: "memory \<Rightarrow> 'a labelled_scheme \<Rightarrow> 'a labelled_scheme" where
  "with_memory m p = p\<lparr>pool := pool m, c47MemInBlocks := c47MemInBlocks m\<rparr>"

definition release :: "ptr \<Rightarrow> nat \<Rightarrow> 'a labelled_scheme \<Rightarrow> scan_failure + 'a labelled_scheme" where
  "release q n p =
     (case freeC47Blocks q n (memory.truncate p) of Inl e \<Rightarrow> Inl (ScanExit e) | Inr m \<Rightarrow> Inr (with_memory m p))"

definition fill_tables :: "(nat \<Rightarrow> nat) \<Rightarrow> 'a labelled_scheme \<Rightarrow> 'a labelled_scheme" where
  "fill_tables status p =
     (let ((ls, ss, ps), step, bad) =
        scan_fill status p (programBegin p) 1 ([], [], [\<lparr>programStep = 1, programInstructionPointer = programBegin p\<rparr>]);
          p1 = p\<lparr>labels := ls, structureLabels := ss, programTable := ps,
                 programError := if bad then ERROR_UNDEFINED_OPCODE else programError p,
                 firstFreeProgramByte := step, freeProgramBytes := wrap16 (int programRegionEnd - int step - 2)\<rparr>
      in defineFirstDisplayedStep status (defineCurrentProgramFromCurrentStep status p1))"

definition scanLabelsAndPrograms :: "(nat \<Rightarrow> nat) \<Rightarrow> 'a labelled_scheme \<Rightarrow> scan_failure + 'a labelled_scheme" where
  "scanLabelsAndPrograms status p =
     (case release (labelListPtr p) (LABEL_SIZE_IN_BLOCKS * (length (labels p) + length (structureLabels p))) p of
        Inl e \<Rightarrow> Inl e
      | Inr p1 \<Rightarrow>
          (case release (programListPtr p1) (PROGRAM_SIZE_IN_BLOCKS * length (programTable p1)) p1 of
             Inl e \<Rightarrow> Inl e
           | Inr p2 \<Rightarrow>
               (let ((nl, ns, np), bad) = scan_count status p2 (programBegin p2) 0 0 1;
                    p3 = (if bad then p2\<lparr>programError := ERROR_UNDEFINED_OPCODE\<rparr> else p2) in
                case allocC47Blocks (LABEL_SIZE_IN_BLOCKS * (nl + ns)) (memory.truncate p3) of
                  (None, m) \<Rightarrow> Inl NoLabelTable
                | (Some q, m) \<Rightarrow>
                    (case allocC47Blocks (PROGRAM_SIZE_IN_BLOCKS * np) m of
                       (None, m') \<Rightarrow> Inl NoProgramTable
                     | (Some q', m') \<Rightarrow>
                         Inr (fill_tables status ((with_memory m' p3)\<lparr>labelListPtr := Some q, programListPtr := Some q'\<rparr>))))))"

section \<open>Finding a label\<close>

text \<open>The local step number of a label of the current program, a \<^verbatim>\<open>uint16_t\<close>.\<close>

definition local_step :: "'a labelled_scheme \<Rightarrow> labelList \<Rightarrow> nat" where
  "local_step p l = wrap16 (- labelStep l - programStep (programTable p ! (currentProgramNumber p - 1)) + 1)"

text \<open>
  The loop over the labels of the current program: the first match and the first match after the
  current step, 0 when there is none.
\<close>

fun search_local ::
    "(labelList \<Rightarrow> bool) \<Rightarrow> 'a labelled_scheme \<Rightarrow> nat \<Rightarrow> nat option \<Rightarrow> labelList list \<Rightarrow> nat option \<times> nat" where
  "search_local matches p lbl firstLabel [] = (firstLabel, 0)"
| "search_local matches p lbl firstLabel (l # ls) =
     (if labelProgram l > int (currentProgramNumber p) then (firstLabel, 0)
      else if labelProgram l = int (currentProgramNumber p) \<and> matches l then
        (let firstLabel' = (case firstLabel of None \<Rightarrow> Some lbl | Some f \<Rightarrow> Some f) in
         if local_step p l > currentLocalStepNumber p then (firstLabel', lbl)
         else search_local matches p (Suc lbl) firstLabel' ls)
      else search_local matches p (Suc lbl) firstLabel ls)"

definition find_local :: "(labelList \<Rightarrow> bool) \<Rightarrow> 'a labelled_scheme \<Rightarrow> nat option" where
  "find_local matches p =
     (case search_local matches p 0 None (labels p) of
        (None, nextLabel) \<Rightarrow> None
      | (Some firstLabel, nextLabel) \<Rightarrow> Some (if nextLabel \<noteq> 0 then nextLabel else firstLabel))"

definition local_label :: "nat \<Rightarrow> 'a memory_scheme \<Rightarrow> labelList \<Rightarrow> bool" where
  "local_label label m l \<longleftrightarrow>
     labelStep l < 0 \<and> byte_at m (labelPointer l) = label \<and> byte_at m (labelPointer l - 1) = ITM_LBL"

text \<open>The name of a label, up to a zero byte.\<close>

definition label_name :: "'a memory_scheme \<Rightarrow> labelList \<Rightarrow> cstring" where
  "label_name m l =
     (let a = labelPointer l + 1; n = boundProgramNameLength a (byte_at m (labelPointer l)) m
      in takeWhile (\<lambda>b. b \<noteq> 0) (map (\<lambda>i. of_nat (byte_at m (a + i))) [0 ..< n]))"

definition has_name :: "cstring \<Rightarrow> 'a memory_scheme \<Rightarrow> labelList \<Rightarrow> bool" where
  "has_name labelName m l \<longleftrightarrow> compareString [] (label_name m l) labelName CMP_BINARY = Some 0"

fun search_global :: "cstring \<Rightarrow> 'a memory_scheme \<Rightarrow> int \<Rightarrow> nat \<Rightarrow> labelList list \<Rightarrow> nat option" where
  "search_global labelName m dupNum lbl [] = None"
| "search_global labelName m dupNum lbl (l # ls) =
     (if labelStep l > 0 \<and> has_name labelName m l then
        (if dupNum \<le> 0 then Some lbl else search_global labelName m (dupNum - 1) (Suc lbl) ls)
      else search_global labelName m dupNum (Suc lbl) ls)"

definition findNamedLabelWithDuplicate :: "cstring \<Rightarrow> int \<Rightarrow> nat \<Rightarrow> 'a labelled_scheme \<Rightarrow> nat" where
  "findNamedLabelWithDuplicate labelName dupNum labelType p =
     (let inLocal = (if labelType = ALL_LABELS \<or> labelType = LOCAL_LABELS
            then find_local (\<lambda>l. labelStep l < 0 \<and> byte_at p (labelPointer l - 1) = LOCAL_LABEL_VARIABLE \<and> has_name labelName p l) p
            else None)
      in case inLocal of
           Some lbl \<Rightarrow> lbl + FIRST_LABEL
         | None \<Rightarrow>
             if labelType = ALL_LABELS \<or> labelType = GLOBAL_LABELS then
               (case search_global labelName p dupNum 0 (labels p) of None \<Rightarrow> INVALID_VARIABLE | Some lbl \<Rightarrow> lbl + FIRST_LABEL)
             else INVALID_VARIABLE)"

definition findNamedLabel :: "cstring \<Rightarrow> nat \<Rightarrow> 'a labelled_scheme \<Rightarrow> nat" where
  "findNamedLabel labelName labelType p = findNamedLabelWithDuplicate labelName 0 labelType p"

definition fnCheckLabel :: "nat \<Rightarrow> 'a labelled_scheme \<Rightarrow> bool" where
  "fnCheckLabel label0 p =
     (let label = (case dynamicMenuItem p of None \<Rightarrow> label0 | Some (name, _, _) \<Rightarrow> findNamedLabel name ALL_LABELS p) in
      if label \<le> LAST_LOCAL_LABEL then
        list_ex (\<lambda>l. labelProgram l = int (currentProgramNumber p) \<and> local_label label p l) (labels p)
      else if FIRST_LABEL \<le> label \<and> label \<le> LAST_LABEL then label - FIRST_LABEL < length (labels p)
      else False)"

text \<open>The loop over the labels of \<^verbatim>\<open>findProgramLabel\<close>, and the names X, Y, Z, T of the four registers.\<close>

definition findProgramLabel :: "nat \<Rightarrow> 'a labelled_scheme \<Rightarrow> nat \<times> 'a labelled_scheme" where
  "findProgramLabel label p =
     (if label \<le> LAST_LOCAL_LABEL then
        (case find (\<lambda>i. labelProgram (labels p ! i) = int (currentProgramNumber p) \<and> local_label label p (labels p ! i))
                [0 ..< length (takeWhile (\<lambda>l. labelProgram l \<le> int (currentProgramNumber p)) (labels p))] of
           Some lbl \<Rightarrow> (lbl + FIRST_LABEL, p)
         | None \<Rightarrow> (INVALID_VARIABLE, p\<lparr>programError := ERROR_LABEL_NOT_FOUND\<rparr>))
      else if FIRST_LABEL \<le> label \<and> label \<le> LAST_LABEL then (label, p)
      else if 100 \<le> label \<and> label \<le> 103 then
        (let l = findNamedLabel [[88, 89, 90, 84] ! (label - 100)] GLOBAL_LABELS p
         in (l, if l = INVALID_VARIABLE then p\<lparr>programError := ERROR_LABEL_NOT_FOUND\<rparr> else p))
      else (INVALID_VARIABLE, p\<lparr>programError := ERROR_OUT_OF_RANGE\<rparr>))"

section \<open>GTO\<close>

text \<open>The walk from the begin of the program; a local step number 0 is never reached.\<close>

fun walk_steps :: "(nat \<Rightarrow> nat) \<Rightarrow> 'a memory_scheme \<Rightarrow> nat \<Rightarrow> nat option \<Rightarrow> nat option" where
  "walk_steps status m 0 step = step"
| "walk_steps status m (Suc k) step = walk_steps status m k (findNextStep status m step)"

definition display_window :: "(nat \<Rightarrow> nat) \<Rightarrow> 'a labelled_scheme \<Rightarrow> 'a labelled_scheme" where
  "display_window status p =
     (if currentLocalStepNumber p \<ge> 3 then
        (let first = currentLocalStepNumber p - 3; numberOfSteps = getNumberOfSteps status p
         in defineFirstDisplayedStep status
              (p\<lparr>firstDisplayedLocalStepNumber :=
                  if first + 6 > numberOfSteps then first - (3 + currentLocalStepNumber p - numberOfSteps) else first\<rparr>))
      else p\<lparr>firstDisplayedLocalStepNumber := 0, firstDisplayedStep := beginOfCurrentProgram p\<rparr>)"

definition goto_step :: "(nat \<Rightarrow> nat) \<Rightarrow> int \<Rightarrow> 'a labelled_scheme \<Rightarrow> 'a labelled_scheme option" where
  "goto_step status step p =
     (let p1 = defineCurrentProgramFromGlobalStepNumber status (to_int16 step) p;
          local = wrap16 (\<bar>step\<bar> - \<bar>programStep (programTable p1 ! (currentProgramNumber p1 - 1))\<bar> + 1)
      in if local = 0 then None
         else Some (display_window status
           (p1\<lparr>currentLocalStepNumber := local,
              currentStep := case walk_steps status p (local - 1) (Some (beginOfCurrentProgram p1)) of None \<Rightarrow> 0 | Some a \<Rightarrow> a\<rparr>)))"

text \<open>\<open>None\<close>: the search for the step does not end.\<close>

definition goToGlobalStep :: "(nat \<Rightarrow> nat) \<Rightarrow> int \<Rightarrow> 'a labelled_scheme \<Rightarrow> 'a labelled_scheme option" where
  "goToGlobalStep status step p =
     (case dynamicMenuItem p of
        None \<Rightarrow> goto_step status step p
      | Some (labelName, dupNum, localLabel) \<Rightarrow>
          if labelName = [] then Some p
          else (let lbl = findNamedLabelWithDuplicate labelName dupNum (if localLabel then LOCAL_LABELS else GLOBAL_LABELS) p
            in if lbl = INVALID_VARIABLE then Some p
               else goto_step status \<bar>labelStep (labels p ! (lbl - FIRST_LABEL))\<bar> p))"

definition goToPgmStep :: "(nat \<Rightarrow> nat) \<Rightarrow> nat \<Rightarrow> nat \<Rightarrow> 'a labelled_scheme \<Rightarrow> 'a labelled_scheme option" where
  "goToPgmStep status program step p = goToGlobalStep status (programStep (programTable p ! (program - 1)) + int step - 1) p"

definition fnGotoDot :: "(nat \<Rightarrow> nat) \<Rightarrow> nat \<Rightarrow> 'a labelled_scheme \<Rightarrow> 'a labelled_scheme option" where
  "fnGotoDot status globalStepNumber p = goToGlobalStep status (to_int16 (int globalStepNumber)) p"

definition fnGoto :: "(nat \<Rightarrow> nat) \<Rightarrow> nat \<Rightarrow> 'a labelled_scheme \<Rightarrow> 'a labelled_scheme option" where
  "fnGoto status label p =
     (if dynamicMenuItem p \<noteq> None then goToGlobalStep status (int label) p
      else if label \<le> LAST_LOCAL_LABEL then
        (case find_local (local_label label p) p of
           Some lbl \<Rightarrow>
             (let l = labels p ! lbl in
              if programRunning p
              then Some (p\<lparr>currentLocalStepNumber := local_step p l, currentStep := labelPointer l - 1\<rparr>)
              else goToGlobalStep status (- labelStep l) p)
         | None \<Rightarrow> Some (p\<lparr>programError := ERROR_LABEL_NOT_FOUND\<rparr>))
      else if FIRST_LABEL \<le> label \<and> label \<le> LAST_LABEL then
        (if label - FIRST_LABEL < length (labels p)
         then goToGlobalStep status \<bar>to_int16 (labelStep (labels p ! (label - FIRST_LABEL)))\<bar> p
         else Some (p\<lparr>programError := ERROR_LABEL_NOT_FOUND\<rparr>))
      else Some (p\<lparr>programError := ERROR_LABEL_NOT_FOUND\<rparr>))"

end
