(* ===== verification/Structures.thy ===== *)
theory Structures
  imports Labels
begin

text \<open>
  Structured programming at run time, \<^verbatim>\<open>programming/structured.c\<close>: IF, ELSE, ENDIF, DO, WHILE, ENDDO, REPEAT
  and UNTIL.  A step of a structure carries the number of its structure; a jump goes to the nearest step
  of that number, found in the label table after the real labels.  The build is the one with
  \<^verbatim>\<open>OPTION_STRUCTURED_PGM\<close> and the limits of the simulator.

  The answer of the last test is \<^verbatim>\<open>temporaryInformation\<close>.
\<close>

record structured = labelled +
  temporaryInformation :: nat
  programStopped :: bool                  \<comment> \<open>\<^verbatim>\<open>programRunStop == PGM_STOPPED\<close>\<close>

abbreviation (input) TI_NO_INFO :: nat where "TI_NO_INFO \<equiv> 0"
abbreviation (input) TI_FALSE :: nat where "TI_FALSE \<equiv> 12"
abbreviation (input) TI_TRUE :: nat where "TI_TRUE \<equiv> 13"
abbreviation (input) STRUCT_MAX_NUMBER :: nat where "STRUCT_MAX_NUMBER \<equiv> 255"
abbreviation (input) ERROR_NESTING_TOO_DEEP :: nat where "ERROR_NESTING_TOO_DEEP \<equiv> 66"
abbreviation (input) ERROR_IF_WHILE_CONDITION_MISSING :: nat where "ERROR_IF_WHILE_CONDITION_MISSING \<equiv> 67"
abbreviation (input) ERROR_STRUCTURE_NOT_NUMBERED :: nat where "ERROR_STRUCTURE_NOT_NUMBERED \<equiv> 69"
abbreviation (input) ERROR_STRUCTURE_INVALID :: nat where "ERROR_STRUCTURE_INVALID \<equiv> 70"
abbreviation (input) ERROR_NEXT_NOT_FOUND :: nat where "ERROR_NEXT_NOT_FOUND \<equiv> 71"
abbreviation (input) ERROR_NEXT_WITHOUT_FOR :: nat where "ERROR_NEXT_WITHOUT_FOR \<equiv> 72"

definition structStepIs :: "'a memory_scheme \<Rightarrow> nat \<Rightarrow> nat \<Rightarrow> bool" where
  "structStepIs m step op \<longleftrightarrow> structOpOfStep m (Some step) = op"

definition structNumberIsValid :: "nat \<Rightarrow> bool" where
  "structNumberIsValid structureNumber \<longleftrightarrow> structureNumber \<noteq> 0 \<and> structureNumber \<le> STRUCT_MAX_NUMBER"

text \<open>The state with the message, for a step without a number; \<open>None\<close> when the number is there.\<close>

definition structNumberMissing :: "nat \<Rightarrow> 'a structured_scheme \<Rightarrow> 'a structured_scheme option" where
  "structNumberMissing structureNumber p =
     (if structNumberIsValid structureNumber then None
      else Some (p\<lparr>temporaryInformation := TI_NO_INFO, programError := ERROR_STRUCTURE_NOT_NUMBERED\<rparr>))"

section \<open>The partner of a step\<close>

definition label_list :: "'a labelled_scheme \<Rightarrow> labelList list" where
  "label_list p = labels p @ structureLabels p"

definition partner_matches :: "nat \<Rightarrow> nat \<Rightarrow> nat \<Rightarrow> 'a memory_scheme \<Rightarrow> labelList \<Rightarrow> bool" where
  "partner_matches structureNumber firstOp secondOp m l \<longleftrightarrow>
     byte_at m (labelPointer l) = structureNumber \<and>
     (structStepIs m (labelPointer l - 2) firstOp \<or> secondOp \<noteq> 0 \<and> structStepIs m (labelPointer l - 2) secondOp)"

text \<open>The loop over the entries; \<open>label\<close> is the index of the next one.\<close>

fun partner_loop :: "(labelList \<Rightarrow> bool) \<Rightarrow> bool \<Rightarrow> 'a labelled_scheme \<Rightarrow> nat \<Rightarrow> nat \<Rightarrow> labelList list \<Rightarrow> nat" where
  "partner_loop matches below p label bestLabel [] = bestLabel"
| "partner_loop matches below p label bestLabel (l # ls) =
     (if labelProgram l > int (currentProgramNumber p) then bestLabel
      else if labelProgram l \<noteq> int (currentProgramNumber p) then partner_loop matches below p (Suc label) bestLabel ls
      else if (if below then local_step p l \<le> currentLocalStepNumber p else local_step p l \<ge> currentLocalStepNumber p) then
        (if \<not> below then bestLabel else partner_loop matches below p (Suc label) bestLabel ls)
      else if \<not> matches l then partner_loop matches below p (Suc label) bestLabel ls
      else if below then label
      else partner_loop matches below p (Suc label) label ls)"

definition structFindPartner :: "nat \<Rightarrow> nat \<Rightarrow> nat \<Rightarrow> bool \<Rightarrow> 'a labelled_scheme \<Rightarrow> nat" where
  "structFindPartner structureNumber firstOp secondOp below p =
     partner_loop (partner_matches structureNumber firstOp secondOp p) below p (length (labels p))
       (length (label_list p)) (structureLabels p)"

definition structJumpToLabel :: "nat \<Rightarrow> 'a labelled_scheme \<Rightarrow> 'a labelled_scheme option" where
  "structJumpToLabel label p =
     (if label \<ge> length (label_list p) then None
      else (let l = label_list p ! label in
        Some (p\<lparr>currentLocalStepNumber :=
                  wrap16 (- labelStep l - programStep (programTable p ! (currentProgramNumber p - 1)) + 2),
                currentStep := labelInstructionPointer l\<rparr>)))"

definition structJumpToPartner :: "nat \<Rightarrow> nat \<Rightarrow> nat \<Rightarrow> bool \<Rightarrow> 'a labelled_scheme \<Rightarrow> 'a labelled_scheme option" where
  "structJumpToPartner structureNumber firstOp secondOp below p =
     structJumpToLabel (structFindPartner structureNumber firstOp secondOp below p) p"

section \<open>The commands\<close>

text \<open>What the four commands without a jump do, and the error of a jump without a partner.\<close>

definition jump_or_error :: "'a structured_scheme option \<Rightarrow> 'a structured_scheme \<Rightarrow> 'a structured_scheme" where
  "jump_or_error jump p = (case jump of Some p' \<Rightarrow> p' | None \<Rightarrow> p\<lparr>programError := ERROR_STRUCTURE_INVALID\<rparr>)"

definition fnIf :: "(nat \<Rightarrow> nat) \<Rightarrow> nat \<Rightarrow> 'a structured_scheme \<Rightarrow> 'a structured_scheme" where
  "fnIf status structureNumber p =
     (if \<not> programRunning p then p
      else case structNumberMissing structureNumber p of
        Some p' \<Rightarrow> p'
      | None \<Rightarrow>
          if temporaryInformation p \<noteq> TI_TRUE \<and> temporaryInformation p \<noteq> TI_FALSE
          then p\<lparr>programError := ERROR_IF_WHILE_CONDITION_MISSING\<rparr>
          else if temporaryInformation p = TI_TRUE then fnSkip status 0 (p\<lparr>temporaryInformation := TI_NO_INFO\<rparr>)
          else let q = p\<lparr>temporaryInformation := TI_NO_INFO\<rparr>
            in jump_or_error (structJumpToPartner structureNumber ITM_ENDIF ITM_ELSE True q) q)"

definition fnElse :: "nat \<Rightarrow> 'a structured_scheme \<Rightarrow> 'a structured_scheme" where
  "fnElse structureNumber p =
     (if \<not> programRunning p then p
      else case structNumberMissing structureNumber p of
        Some p' \<Rightarrow> p'
      | None \<Rightarrow> jump_or_error (structJumpToPartner structureNumber ITM_ENDIF 0 True p) p)"

definition fnEndif :: "(nat \<Rightarrow> nat) \<Rightarrow> nat \<Rightarrow> 'a structured_scheme \<Rightarrow> 'a structured_scheme" where
  "fnEndif status structureNumber p =
     (if \<not> programRunning p then p
      else case structNumberMissing structureNumber p of Some p' \<Rightarrow> p' | None \<Rightarrow> fnSkip status 0 p)"

definition fnDo :: "(nat \<Rightarrow> nat) \<Rightarrow> nat \<Rightarrow> 'a structured_scheme \<Rightarrow> 'a structured_scheme" where
  "fnDo status structureNumber p =
     (if \<not> programRunning p then p
      else case structNumberMissing structureNumber p of Some p' \<Rightarrow> p' | None \<Rightarrow> fnSkip status 0 p)"

definition fnWhile :: "(nat \<Rightarrow> nat) \<Rightarrow> nat \<Rightarrow> 'a structured_scheme \<Rightarrow> 'a structured_scheme" where
  "fnWhile status structureNumber p =
     (if \<not> programRunning p then p
      else case structNumberMissing structureNumber p of
        Some p' \<Rightarrow> p'
      | None \<Rightarrow>
          if temporaryInformation p \<noteq> TI_TRUE \<and> temporaryInformation p \<noteq> TI_FALSE
          then p\<lparr>programError := ERROR_IF_WHILE_CONDITION_MISSING\<rparr>
          else if temporaryInformation p = TI_TRUE then fnSkip status 0 (p\<lparr>temporaryInformation := TI_NO_INFO\<rparr>)
          else let q = p\<lparr>temporaryInformation := TI_NO_INFO\<rparr>
            in jump_or_error (structJumpToPartner structureNumber ITM_ENDDO 0 True q) q)"

text \<open>
  Back to the step after the nearest opener above, unless a closer of the same number lies between: then
  that one closed it, and there is nowhere to go.
\<close>

definition jump_back :: "nat \<Rightarrow> nat \<Rightarrow> nat \<Rightarrow> 'a structured_scheme \<Rightarrow> 'a structured_scheme" where
  "jump_back structureNumber opener closer p =
     (let n = length (label_list p);
          openerLabel = structFindPartner structureNumber opener 0 False p;
          closerLabel = structFindPartner structureNumber closer 0 False p
      in if openerLabel < n \<and>
            (closerLabel \<ge> n \<or> labelStep (label_list p ! closerLabel) > labelStep (label_list p ! openerLabel))
         then (case structJumpToLabel openerLabel p of Some p' \<Rightarrow> p' | None \<Rightarrow> p)
         else p\<lparr>programError := ERROR_STRUCTURE_INVALID\<rparr>)"

definition fnEnddo :: "nat \<Rightarrow> 'a structured_scheme \<Rightarrow> 'a structured_scheme" where
  "fnEnddo structureNumber p =
     (if \<not> programRunning p then p
      else case structNumberMissing structureNumber p of
        Some p' \<Rightarrow> p'
      | None \<Rightarrow> jump_back structureNumber ITM_DO ITM_ENDDO p)"

definition fnRepeat :: "(nat \<Rightarrow> nat) \<Rightarrow> nat \<Rightarrow> 'a structured_scheme \<Rightarrow> 'a structured_scheme" where
  "fnRepeat status structureNumber p =
     (if \<not> programRunning p then p
      else case structNumberMissing structureNumber p of Some p' \<Rightarrow> p' | None \<Rightarrow> fnSkip status 0 p)"

definition fnUntil :: "(nat \<Rightarrow> nat) \<Rightarrow> nat \<Rightarrow> 'a structured_scheme \<Rightarrow> 'a structured_scheme" where
  "fnUntil status structureNumber p =
     (if \<not> programRunning p then p
      else case structNumberMissing structureNumber p of
        Some p' \<Rightarrow> p'
      | None \<Rightarrow>
          if temporaryInformation p \<noteq> TI_TRUE \<and> temporaryInformation p \<noteq> TI_FALSE
          then p\<lparr>programError := ERROR_IF_WHILE_CONDITION_MISSING\<rparr>
          else if temporaryInformation p = TI_TRUE then fnSkip status 0 (p\<lparr>temporaryInformation := TI_NO_INFO\<rparr>)
          else jump_back structureNumber ITM_REPEAT ITM_UNTIL (p\<lparr>temporaryInformation := TI_NO_INFO\<rparr>))"

end
