(* ===== verification/Valid.thy ===== *)
theory Valid
  imports Structures
begin

text \<open>
  VALID, \<^verbatim>\<open>programming/structured.c\<close>: one walk over the open program checks the structures, a second one
  writes their numbers into the program.  An edit takes the numbers off again.

  The arrays of the structures open at a step are a stack, the innermost first; the entry of a FOR has no
  number.  What the walk decides at a step is a function of the program text and the walk (\<open>walk_check\<close>);
  what it does to the state, a number or a fault, follows (\<open>write_number\<close>, \<open>report_fault\<close>).
\<close>

section \<open>Writing to program memory\<close>

definition set_byte :: "nat \<Rightarrow> nat \<Rightarrow> 'a memory_scheme \<Rightarrow> 'a memory_scheme" where
  "set_byte a v m =
     m\<lparr>pool := (pool m)\<lparr>ram := (ram (pool m))(a div 4 :=
        (ram (pool m) (a div 4) AND NOT (push_bit (8 * (a mod 4)) 0xff)) OR push_bit (8 * (a mod 4)) (of_nat v AND 0xff))\<rparr>\<rparr>"

definition low_byte :: "nat \<Rightarrow> nat" where
  "low_byte op = op AND 0xff"

text \<open>A loop over the open program goes on at this step.  The end of a program that cannot be decoded is unknown.\<close>

definition in_program :: "nat option \<Rightarrow> 'a labelled_scheme \<Rightarrow> bool" where
  "in_program step p \<longleftrightarrow>
     (case step of None \<Rightarrow> False | Some a \<Rightarrow> (case endOfCurrentProgram p of None \<Rightarrow> False | Some e \<Rightarrow> a < e)) \<and>
     \<not> isAtEndOfProgram p step \<and> \<not> isAtEndOfPrograms p step"

lemma in_program_Some: "in_program step p \<Longrightarrow> step \<noteq> None"
  by (auto simp: in_program_def split: option.splits)

lemma set_byte_frame [simp]:
  "firstFreeProgramByte (set_byte a v m) = firstFreeProgramByte m" "beginOfProgramMemory (set_byte a v m) = beginOfProgramMemory m"
  by (simp_all add: set_byte_def)

lemma set_byte_remaining [simp]: "remaining (set_byte a v m) step = remaining m step"
  by (simp add: remaining_def split: option.split)

text \<open>The step holds an operand byte: a damaged step may be shorter.\<close>

definition has_operand :: "(nat \<Rightarrow> nat) \<Rightarrow> 'a memory_scheme \<Rightarrow> nat \<Rightarrow> bool" where
  "has_operand status m a \<longleftrightarrow> (case findNextStep status m (Some a) of None \<Rightarrow> False | Some b \<Rightarrow> b - a \<ge> 3)"

definition clear_number :: "(nat \<Rightarrow> nat) \<Rightarrow> nat \<Rightarrow> 'a labelled_scheme \<Rightarrow> 'a labelled_scheme" where
  "clear_number status a p =
     (if structOpHasNumber (structOpOfStep p (Some a)) \<and> has_operand status p a then set_byte (a + 2) 0 p else p)"

function clear_numbers :: "(nat \<Rightarrow> nat) \<Rightarrow> nat option \<Rightarrow> 'a labelled_scheme \<Rightarrow> 'a labelled_scheme" where
  "clear_numbers status step p =
     (if in_program step p then clear_numbers status (findNextStep status p step) (clear_number status (the step) p) else p)"
  by auto
termination
proof (relation "measure (\<lambda>(_, step, p). remaining p step)", goal_cases)
  case (2 status step p)
  have "remaining (clear_number status (the step) p) (findNextStep status p step) = remaining p (findNextStep status p step)"
    by (simp add: clear_number_def)
  with 2 remaining_decreases [OF in_program_Some [OF 2], of p status] show ?case by simp
qed simp

definition structClearProgramNumbers :: "(nat \<Rightarrow> nat) \<Rightarrow> 'a labelled_scheme \<Rightarrow> 'a labelled_scheme" where
  "structClearProgramNumbers status p = clear_numbers status (Some (beginOfCurrentProgram p)) p"

section \<open>The marks of FOR and NEXT\<close>

definition structNotCheckedOp :: "nat \<Rightarrow> nat" where
  "structNotCheckedOp op =
     (if op = ITM_FOR then ITM_FORx
      else if op = ITM_FORYX then ITM_FORYXx
      else if op = ITM_FORTOP then ITM_FORTOPx
      else if op = ITM_NEXT then ITM_NEXTx
      else op)"

definition structMarkNotChecked :: "nat \<Rightarrow> 'a labelled_scheme \<Rightarrow> 'a labelled_scheme" where
  "structMarkNotChecked step p =
     (let op = structOpOfStep p (Some step) in
      if op = ITM_FOR then set_byte (step + 1) (low_byte ITM_FORx) p
      else if op = ITM_FORYX then set_byte (step + 1) (low_byte ITM_FORYXx) p
      else if op = ITM_FORTOP then set_byte (step + 1) (low_byte ITM_FORTOPx) p
      else if op = ITM_NEXT then set_byte (step + 1) (low_byte ITM_NEXTx) p
      else p)"

definition rewrite_mark :: "nat \<Rightarrow> nat \<Rightarrow> nat \<Rightarrow> nat \<Rightarrow> nat \<Rightarrow> 'a labelled_scheme \<Rightarrow> 'a labelled_scheme" where
  "rewrite_mark fromFor toFor fromNext toNext step p =
     (let op = structOpOfStep p (Some step) in
      if op = fromFor then set_byte (step + 1) (low_byte toFor) p
      else if op = fromNext then set_byte (step + 1) (low_byte toNext) p
      else p)"

lemma rewrite_mark_remaining [simp]: "remaining (rewrite_mark fromFor toFor fromNext toNext a p) step = remaining p step"
  by (simp add: rewrite_mark_def Let_def)

text \<open>Here the next step is looked up after the write.\<close>

function rewrite_marks :: "(nat \<Rightarrow> nat) \<Rightarrow> nat \<Rightarrow> nat \<Rightarrow> nat \<Rightarrow> nat \<Rightarrow> nat option \<Rightarrow> 'a labelled_scheme \<Rightarrow> 'a labelled_scheme" where
  "rewrite_marks status fromFor toFor fromNext toNext step p =
     (if in_program step p then
        (let p' = rewrite_mark fromFor toFor fromNext toNext (the step) p
         in rewrite_marks status fromFor toFor fromNext toNext (findNextStep status p' step) p')
      else p)"
  by auto
termination
proof (relation "measure (\<lambda>(_, _, _, _, _, step, p). remaining p step)", goal_cases)
  case (2 status fromFor toFor fromNext toNext step p p')
  with remaining_decreases [OF in_program_Some [OF 2(1)], of p' status] show ?case by simp
qed simp

definition forRewriteMarks :: "(nat \<Rightarrow> nat) \<Rightarrow> nat \<Rightarrow> nat \<Rightarrow> nat \<Rightarrow> nat \<Rightarrow> 'a labelled_scheme \<Rightarrow> 'a labelled_scheme" where
  "forRewriteMarks status fromFor toFor fromNext toNext p =
     rewrite_marks status fromFor toFor fromNext toNext (Some (beginOfCurrentProgram p)) p"

definition structClearMarks :: "(nat \<Rightarrow> nat) \<Rightarrow> 'a labelled_scheme \<Rightarrow> 'a labelled_scheme" where
  "structClearMarks status p =
     forRewriteMarks status ITM_FORTOPx ITM_FORTOP ITM_NEXTx ITM_NEXT
       (forRewriteMarks status ITM_FORYXx ITM_FORYX ITM_NEXTx ITM_NEXT
         (forRewriteMarks status ITM_FORx ITM_FOR ITM_NEXTx ITM_NEXT p))"

definition forClearChecked :: "(nat \<Rightarrow> nat) \<Rightarrow> 'a labelled_scheme \<Rightarrow> 'a labelled_scheme" where
  "forClearChecked status p =
     forRewriteMarks status ITM_FORTOP ITM_FORTOPx ITM_NEXT ITM_NEXTx
       (forRewriteMarks status ITM_FORYX ITM_FORYXx ITM_NEXT ITM_NEXTx
         (forRewriteMarks status ITM_FOR ITM_FORx ITM_NEXT ITM_NEXTx p))"

declare clear_numbers.simps [simp del] rewrite_marks.simps [simp del]

section \<open>Questions of the file writer and the editor\<close>

definition unnumbered_step :: "(nat \<Rightarrow> nat) \<Rightarrow> 'a memory_scheme \<Rightarrow> nat \<Rightarrow> bool" where
  "unnumbered_step status m a \<longleftrightarrow>
     (let op = structOpOfStep m (Some a) in
      op \<in> set [ITM_FORx, ITM_NEXTx, ITM_FORYXx, ITM_FORTOPx] \<or>
      structOpHasNumber op \<and> has_operand status m a \<and> \<not> structNumberIsValid (byte_at m (a + 2)))"

function has_unnumbered :: "(nat \<Rightarrow> nat) \<Rightarrow> nat option \<Rightarrow> 'a labelled_scheme \<Rightarrow> bool" where
  "has_unnumbered status step p =
     (if in_program step p then unnumbered_step status p (the step) \<or> has_unnumbered status (findNextStep status p step) p else False)"
  by auto
termination
  by (relation "measure (\<lambda>(_, step, p). remaining p step)") (auto intro!: remaining_decreases dest!: in_program_Some)

definition structProgramHasUnnumbered :: "(nat \<Rightarrow> nat) \<Rightarrow> 'a labelled_scheme \<Rightarrow> bool" where
  "structProgramHasUnnumbered status p = has_unnumbered status (Some (beginOfCurrentProgram p)) p"

function range_has_numbered :: "(nat \<Rightarrow> nat) \<Rightarrow> nat \<Rightarrow> nat option \<Rightarrow> 'a memory_scheme \<Rightarrow> bool" where
  "range_has_numbered status to step m =
     (case step of
        None \<Rightarrow> False
      | Some a \<Rightarrow>
          if a < to then
            (let op = structPlainOp (structOpOfStep m (Some a)) in structOpHasNumber op \<or> op = ITM_FOR \<or> op = ITM_NEXT) \<or>
            range_has_numbered status to (findNextStep status m (Some a)) m
          else False)"
  by auto
termination
  by (relation "measure (\<lambda>(_, _, step, m). remaining m step)") (auto intro!: remaining_decreases)

definition structRangeHasNumbered :: "(nat \<Rightarrow> nat) \<Rightarrow> nat \<Rightarrow> nat \<Rightarrow> 'a memory_scheme \<Rightarrow> bool" where
  "structRangeHasNumbered status from to m = range_has_numbered status to (Some from) m"

declare has_unnumbered.simps [simp del] range_has_numbered.simps [simp del]

section \<open>Faults\<close>

definition structMayMoveThePointer :: "'a structured_scheme \<Rightarrow> bool" where
  "structMayMoveThePointer p = programStopped p"

definition structGoToLocalStep :: "(nat \<Rightarrow> nat) \<Rightarrow> nat \<Rightarrow> 'a structured_scheme \<Rightarrow> 'a structured_scheme" where
  "structGoToLocalStep status localStepNumber p =
     (let p1 = defineCurrentStep status (p\<lparr>currentLocalStepNumber := localStepNumber\<rparr>);
          p2 = defineFirstDisplayedStep status
            (p1\<lparr>firstDisplayedLocalStepNumber := if localStepNumber \<ge> 3 then localStepNumber - 3 else 0\<rparr>)
      in p2\<lparr>pemCursorIsZerothStep := False\<rparr>)"

definition structTest :: "nat list" where
  "structTest =
     [5, 6, 7, 8, 9, 10, 11, 12, 13, 14, 15, 16, 17, 18, 19, 2851, 2850, 20, 21, 396, 397, 398, 399, 400, 401, 405, 406,
      22, 23, 24, 25, 2398, 2400, 28, 30, 32, 33, 2399, 29, 26, 31, 27, 2524, 2525, 113, 2715, 2531, 2532,
      2527, 2528, 2529, 2530, 2396, 2397, 2401, 1504, 2526, 1503, 34, 57, 77, 56]"

definition structOpIsTest :: "nat \<Rightarrow> bool" where
  "structOpIsTest op = list_ex (\<lambda>t. op = t) structTest"

definition structReportFault :: "(nat \<Rightarrow> nat) \<Rightarrow> nat \<Rightarrow> nat \<Rightarrow> 'a structured_scheme \<Rightarrow> 'a structured_scheme" where
  "structReportFault status localStepNumber error p =
     (let p1 = (if structMayMoveThePointer p then structGoToLocalStep status localStepNumber p else p)
      in p1\<lparr>temporaryInformation := TI_NO_INFO, programError := error\<rparr>)"

text \<open>The command that a marked FOR or NEXT runs.\<close>

definition fnForNotChecked :: "'a structured_scheme \<Rightarrow> 'a structured_scheme" where
  "fnForNotChecked p = p\<lparr>temporaryInformation := TI_NO_INFO, programError := ERROR_STRUCTURE_NOT_NUMBERED\<rparr>"

section \<open>The walk\<close>

abbreviation (input) STRUCT_MAX_NESTING :: nat where "STRUCT_MAX_NESTING \<equiv> 63"
abbreviation (input) FOR_MAX_LOOPS :: nat where "FOR_MAX_LOOPS \<equiv> 18"
abbreviation (input) ITM_RTN :: nat where "ITM_RTN \<equiv> 4"
abbreviation (input) ITM_LocR :: nat where "ITM_LocR \<equiv> 1514"
abbreviation (input) ITM_POPLR :: nat where "ITM_POPLR \<equiv> 1553"
abbreviation (input) ITM_REM :: nat where "ITM_REM \<equiv> 1554"
abbreviation (input) ITM_RTNP1 :: nat where "ITM_RTNP1 \<equiv> 1579"

record opened =
  openedBy :: nat
  openSawWhile :: bool
  openStepNumber :: nat
  openNumber :: nat
  openCrossed :: bool
  openForStep :: nat

record walk =
  walkStep :: "nat option"
  walkNumber :: nat                       \<comment> \<open>\<^verbatim>\<open>localStepNumber\<close>\<close>
  openStructures :: "opened list"
  forDepth :: nat
  previousOp :: nat
  previousStepOp :: nat
  ifNext :: nat
  doNext :: nat
  repeatNext :: nat
  forSeen :: bool
  firstForStep :: nat

record walk_fault =
  faultClears :: bool                     \<comment> \<open>the numbers of the program are taken off\<close>
  faultMarks :: "nat list"                \<comment> \<open>the steps marked as not checked\<close>
  faultStep :: nat
  faultError :: nat

definition fault :: "nat \<Rightarrow> nat \<Rightarrow> walk_fault" where
  "fault step error = \<lparr>faultClears = False, faultMarks = [], faultStep = step, faultError = error\<rparr>"

definition forStepsSameCounter :: "(nat \<Rightarrow> nat) \<Rightarrow> 'a memory_scheme \<Rightarrow> nat \<Rightarrow> nat \<Rightarrow> bool" where
  "forStepsSameCounter status m forStep nextStep =
     (case (findNextStep status m (Some forStep), findNextStep status m (Some nextStep)) of
        (Some forEnd, Some nextEnd) \<Rightarrow>
          forEnd - forStep = nextEnd - nextStep \<and>
          list_all (\<lambda>i. byte_at m (forStep + i) = byte_at m (nextStep + i)) [2 ..< trunc16 (forEnd - forStep)]
      | _ \<Rightarrow> False)"

text \<open>A label after a return starts the next routine.\<close>

definition routine_boundary :: "nat \<Rightarrow> walk \<Rightarrow> walk" where
  "routine_boundary op w =
     (if op = ITM_LBL \<and> (previousOp w = ITM_RTN \<or> previousOp w = ITM_RTNP1)
      then w\<lparr>forSeen := False, openStructures := map (\<lambda>e. e\<lparr>openCrossed := True\<rparr>) (openStructures w)\<rparr>
      else w)"

definition see_for :: "nat \<Rightarrow> nat \<Rightarrow> walk \<Rightarrow> walk" where
  "see_for op step w =
     (if op = ITM_FOR then w\<lparr>firstForStep := if forSeen w then firstForStep w else step, forSeen := True\<rparr> else w)"

definition check_for :: "nat \<Rightarrow> walk \<Rightarrow> walk_fault + walk" where
  "check_for step w =
     (if length (openStructures w) \<ge> STRUCT_MAX_NESTING \<or> forDepth w \<ge> FOR_MAX_LOOPS
      then Inl (fault (walkNumber w) ERROR_NESTING_TOO_DEEP)
      else Inr (w\<lparr>forDepth := forDepth w + 1,
                  openStructures := \<lparr>openedBy = ITM_FOR, openSawWhile = False, openStepNumber = walkNumber w, openNumber = 0,
                                     openCrossed = False, openForStep = step\<rparr> # openStructures w\<rparr>))"

definition check_next :: "(nat \<Rightarrow> nat) \<Rightarrow> 'a memory_scheme \<Rightarrow> nat \<Rightarrow> walk \<Rightarrow> walk_fault + walk" where
  "check_next status m step w =
     (case openStructures w of
        [] \<Rightarrow> Inl ((fault (walkNumber w) ERROR_NEXT_WITHOUT_FOR)\<lparr>faultMarks := [step]\<rparr>)
      | e # es \<Rightarrow>
          if openedBy e \<noteq> ITM_FOR then Inl ((fault (walkNumber w) ERROR_STRUCTURE_INVALID)\<lparr>faultMarks := [step]\<rparr>)
          else if \<not> forStepsSameCounter status m (openForStep e) step
            then Inl ((fault (openStepNumber e) ERROR_NEXT_NOT_FOUND)\<lparr>faultMarks := [openForStep e]\<rparr>)
          else if openCrossed e
            then Inl ((fault (walkNumber w) ERROR_STRUCTURE_INVALID)\<lparr>faultMarks := [openForStep e, step]\<rparr>)
          else Inr (w\<lparr>forDepth := forDepth w - 1, openStructures := es\<rparr>))"

definition series :: "nat \<Rightarrow> walk \<Rightarrow> nat" where
  "series op w = (if op = ITM_IF then ifNext w else if op = ITM_DO then doNext w else repeatNext w)"

definition check_opener :: "nat \<Rightarrow> walk \<Rightarrow> walk_fault + walk" where
  "check_opener op w =
     (if length (openStructures w) \<ge> STRUCT_MAX_NESTING then Inl (fault (walkNumber w) ERROR_NESTING_TOO_DEEP)
      else if series op w \<ge> STRUCT_MAX_NUMBER then Inl (fault (walkNumber w) ERROR_STRUCTURE_INVALID)
      else Inr (w\<lparr>ifNext := if op = ITM_IF then ifNext w + 1 else ifNext w,
                  doNext := if op = ITM_DO then doNext w + 1 else doNext w,
                  repeatNext := if op \<noteq> ITM_IF \<and> op \<noteq> ITM_DO then repeatNext w + 1 else repeatNext w,
                  openStructures := \<lparr>openedBy = op, openSawWhile = False, openStepNumber = walkNumber w,
                                     openNumber = series op w + 1, openCrossed = False, openForStep = 0\<rparr> # openStructures w\<rparr>))"

definition opener_of :: "nat \<Rightarrow> nat" where
  "opener_of op = (if op = ITM_ELSE \<or> op = ITM_ENDIF then ITM_IF else if op = ITM_UNTIL then ITM_REPEAT else ITM_DO)"

definition check_closer :: "nat \<Rightarrow> walk \<Rightarrow> walk_fault + walk" where
  "check_closer op w =
     (case openStructures w of
        [] \<Rightarrow> Inl (fault (walkNumber w) ERROR_STRUCTURE_INVALID)
      | e # es \<Rightarrow>
          if openedBy e \<noteq> opener_of op then Inl (fault (walkNumber w) ERROR_STRUCTURE_INVALID)
          else let e' = (if op = ITM_WHILE then e\<lparr>openSawWhile := True\<rparr> else e) in
            if op = ITM_ENDDO \<and> \<not> openSawWhile e' then Inl (fault (openStepNumber e') ERROR_STRUCTURE_INVALID)
            else Inr (w\<lparr>openStructures := e' # es\<rparr>))"

definition check_structure :: "(nat \<Rightarrow> nat) \<Rightarrow> 'a memory_scheme \<Rightarrow> nat \<Rightarrow> nat \<Rightarrow> walk \<Rightarrow> walk_fault + walk" where
  "check_structure status m op step w =
     (if op = ITM_FOR then check_for step w
      else if op = ITM_NEXT then check_next status m step w
      else if op = ITM_IF \<or> op = ITM_DO \<or> op = ITM_REPEAT then check_opener op w
      else if structOpHasNumber op then check_closer op w
      else Inr w)"

text \<open>The number for a step, of the innermost open structure; a closer across a routine boundary is a fault.\<close>

definition check_crossed :: "nat \<Rightarrow> walk \<Rightarrow> walk_fault + nat option" where
  "check_crossed op w =
     (case openStructures w of
        [] \<Rightarrow> Inr None
      | e # es \<Rightarrow>
          if \<not> structOpHasNumber op then Inr None
          else if openCrossed e \<and> op \<noteq> ITM_IF \<and> op \<noteq> ITM_DO \<and> op \<noteq> ITM_REPEAT
            then Inl ((fault (walkNumber w) ERROR_STRUCTURE_INVALID)\<lparr>faultClears := True\<rparr>)
          else Inr (Some (openNumber e)))"

definition walk_on :: "nat option \<Rightarrow> nat \<Rightarrow> walk \<Rightarrow> walk" where
  "walk_on nextStep op w =
     w\<lparr>openStructures := if op = ITM_ENDIF \<or> op = ITM_ENDDO \<or> op = ITM_UNTIL then tl (openStructures w) else openStructures w,
       previousStepOp := op, previousOp := if op \<noteq> ITM_REM then op else previousOp w,
       walkStep := nextStep, walkNumber := trunc16 (walkNumber w + 1)\<rparr>"

definition walk_check :: "(nat \<Rightarrow> nat) \<Rightarrow> 'a memory_scheme \<Rightarrow> nat \<Rightarrow> walk \<Rightarrow> walk_fault + walk \<times> nat option" where
  "walk_check status m step w0 =
     (let op = structPlainOp (structOpOfStep m (Some step));
          w1 = routine_boundary op w0;
          w2 = see_for op step w1
      in if (op = ITM_IF \<or> op = ITM_WHILE \<or> op = ITM_UNTIL) \<and> \<not> structOpIsTest (previousStepOp w1)
         then Inl ((fault (walkNumber w1) ERROR_IF_WHILE_CONDITION_MISSING)\<lparr>faultClears := True\<rparr>)
         else if op \<noteq> ITM_FOR \<and> forSeen w2 \<and> (op = ITM_LocR \<or> op = ITM_POPLR)
         then Inl ((fault (walkNumber w2) ERROR_STRUCTURE_INVALID)\<lparr>faultMarks := [firstForStep w2]\<rparr>)
         else case check_structure status m op step w2 of
           Inl f \<Rightarrow> Inl f
         | Inr w3 \<Rightarrow>
             (case check_crossed op w3 of
                Inl f \<Rightarrow> Inl f
              | Inr number \<Rightarrow> Inr (walk_on (findNextStep status m (Some step)) op w3, number)))"

text \<open>What is still open at the end, the innermost first.\<close>

definition walk_end :: "walk \<Rightarrow> walk_fault option" where
  "walk_end w =
     (case openStructures w of
        [] \<Rightarrow> None
      | e # es \<Rightarrow>
          Some (if openedBy e = ITM_FOR
                then (fault (openStepNumber e) ERROR_NEXT_NOT_FOUND)\<lparr>faultMarks := [openForStep e]\<rparr>
                else fault (openStepNumber e) ERROR_STRUCTURE_INVALID))"

section \<open>VALID\<close>

definition report_fault :: "(nat \<Rightarrow> nat) \<Rightarrow> walk_fault \<Rightarrow> 'a structured_scheme \<Rightarrow> 'a structured_scheme" where
  "report_fault status f p =
     structReportFault status (faultStep f) (faultError f)
       (fold structMarkNotChecked (faultMarks f) (if faultClears f then structClearProgramNumbers status p else p))"

definition write_number :: "(nat \<Rightarrow> nat) \<Rightarrow> bool \<Rightarrow> nat \<Rightarrow> nat option \<Rightarrow> 'a labelled_scheme \<Rightarrow> 'a labelled_scheme" where
  "write_number status numbering step number p =
     (case number of
        None \<Rightarrow> p
      | Some n \<Rightarrow> if numbering \<and> has_operand status p step then set_byte (step + 2) n p else p)"

definition walks_on :: "nat option \<Rightarrow> nat option \<Rightarrow> 'a labelled_scheme \<Rightarrow> bool" where
  "walks_on stopAt step p \<longleftrightarrow>
     (case (stopAt, step) of (Some s, Some a) \<Rightarrow> a < s | _ \<Rightarrow> True) \<and> in_program step p"

lemma walks_on_Some: "walks_on stopAt step p \<Longrightarrow> step \<noteq> None"
  by (auto simp: walks_on_def dest: in_program_Some)

lemma walk_check_next: "walk_check status m step w = Inr (w', number) \<Longrightarrow> walkStep w' = findNextStep status m (Some step)"
  by (auto simp: walk_check_def walk_on_def Let_def split: if_splits sum.splits)

lemma write_number_remaining [simp]: "remaining (write_number status numbering step number p) a = remaining p a"
  by (simp add: write_number_def split: option.split)

function walk_loop ::
    "(nat \<Rightarrow> nat) \<Rightarrow> bool \<Rightarrow> nat option \<Rightarrow> walk \<Rightarrow> 'a structured_scheme \<Rightarrow> (walk_fault + walk) \<times> 'a structured_scheme" where
  "walk_loop status numbering stopAt w p =
     (if walks_on stopAt (walkStep w) p then
        (case walk_check status p (the (walkStep w)) w of
           Inl f \<Rightarrow> (Inl f, p)
         | Inr (w', number) \<Rightarrow> walk_loop status numbering stopAt w' (write_number status numbering (the (walkStep w)) number p))
      else (Inr w, p))"
  by auto
termination
proof (relation "measure (\<lambda>(_, _, _, w, p). remaining p (walkStep w))", goal_cases)
  case (2 status numbering stopAt w p r w' number)
  then have "walkStep w' = findNextStep status p (walkStep w)"
    using walk_check_next [of status p "the (walkStep w)" w w' number] walks_on_Some [of stopAt "walkStep w" p] by simp
  with 2 remaining_decreases [OF walks_on_Some [OF 2(1)], of p status] show ?case by simp
qed simp

declare walk_loop.simps [simp del]

definition walk_start :: "'a labelled_scheme \<Rightarrow> walk" where
  "walk_start p =
     \<lparr>walkStep = Some (beginOfCurrentProgram p), walkNumber = 1, openStructures = [], forDepth = 0, previousOp = 0, previousStepOp = 0,
      ifNext = 0, doNext = 0, repeatNext = 0, forSeen = False, firstForStep = 0\<rparr>"

definition structWalkProgram ::
    "(nat \<Rightarrow> nat) \<Rightarrow> bool \<Rightarrow> nat option \<Rightarrow> 'a structured_scheme \<Rightarrow> bool \<times> 'a structured_scheme" where
  "structWalkProgram status numbering stopAt p =
     (case walk_loop status numbering stopAt (walk_start p) p of
        (Inl f, p') \<Rightarrow> (False, report_fault status f p')
      | (Inr w, p') \<Rightarrow>
          (case walk_end w of
             Some f \<Rightarrow> (False, report_fault status f p')
           | None \<Rightarrow> (True, if numbering then structClearMarks status p' else p')))"

definition fnValid :: "(nat \<Rightarrow> nat) \<Rightarrow> 'a structured_scheme \<Rightarrow> 'a structured_scheme" where
  "fnValid status p0 =
     (let p = defineCurrentProgramFromCurrentStep status p0;
          (valid, p1) = structWalkProgram status False None p
      in if \<not> valid then p1
         else (let p2 = snd (structWalkProgram status True None p1);
                   p3 = (if structMayMoveThePointer p2
                         then (defineFirstDisplayedStep status
                                ((defineCurrentStep status (p2\<lparr>currentLocalStepNumber := currentLocalStepNumber p1\<rparr>))
                                  \<lparr>firstDisplayedLocalStepNumber := firstDisplayedLocalStepNumber p1\<rparr>))
                                \<lparr>pemCursorIsZerothStep := pemCursorIsZerothStep p1\<rparr>
                         else p2)
               in p3\<lparr>temporaryInformation := TI_NO_INFO\<rparr>))"

definition structEndSplitsWell :: "(nat \<Rightarrow> nat) \<Rightarrow> 'a structured_scheme \<Rightarrow> bool \<times> 'a structured_scheme" where
  "structEndSplitsWell status p0 =
     (let p = defineCurrentProgramFromCurrentStep status p0 in structWalkProgram status False (Some (currentStep p)) p)"

end
