(* ===== verification/Nesting.thy ===== *)
theory Nesting
  imports Valid
begin

text \<open>
  Block structure without numbers.  \<open>ops\<close> gives the operation of each step, a program starts at step \<open>s\<close>.
  The structures open at a step are the list of their openers, the innermost first; the owner of a step
  is the opener of the structure it belongs to.  In a well-nested program the next step at the same level
  belongs to the same structure, so that numbering the structures by their openers is enough to find it.
\<close>

section \<open>Open structures\<close>

definition opens :: "nat \<Rightarrow> bool" where
  "opens op \<longleftrightarrow> op \<in> {ITM_IF, ITM_DO, ITM_REPEAT, ITM_FOR}"

definition closes :: "nat \<Rightarrow> bool" where
  "closes op \<longleftrightarrow> op \<in> {ITM_ENDIF, ITM_ENDDO, ITM_UNTIL, ITM_NEXT}"

primrec open_at :: "(nat \<Rightarrow> nat) \<Rightarrow> nat \<Rightarrow> nat \<Rightarrow> nat list" where
  "open_at ops s 0 = []"
| "open_at ops s (Suc i) =
     (if i < s then [] else if opens (ops i) then i # open_at ops s i
      else if closes (ops i) then tl (open_at ops s i) else open_at ops s i)"

definition owner :: "(nat \<Rightarrow> nat) \<Rightarrow> nat \<Rightarrow> nat \<Rightarrow> nat" where
  "owner ops s i = (if opens (ops i) then i else hd (open_at ops s i))"

definition level :: "(nat \<Rightarrow> nat) \<Rightarrow> nat \<Rightarrow> nat \<Rightarrow> nat" where
  "level ops s i = length (open_at ops s i)"

text \<open>The operation that opens the structure to which a step with \<open>op\<close> belongs.\<close>

definition family :: "nat \<Rightarrow> nat" where
  "family op = (if opens op then op else if op = ITM_NEXT then ITM_FOR else opener_of op)"

definition nested :: "(nat \<Rightarrow> nat) \<Rightarrow> nat \<Rightarrow> nat \<Rightarrow> bool" where
  "nested ops s e \<longleftrightarrow>
     (\<forall>i. s \<le> i \<and> i < e \<longrightarrow> structOpHasNumber (ops i) \<or> ops i = ITM_NEXT \<longrightarrow> \<not> opens (ops i) \<longrightarrow>
        open_at ops s i \<noteq> [] \<and> ops (hd (open_at ops s i)) = family (ops i)) \<and>
     open_at ops s e = []"

text \<open>The number of a structure counts the openers of its kind up to its own.\<close>

definition rank :: "(nat \<Rightarrow> nat) \<Rightarrow> nat \<Rightarrow> nat \<Rightarrow> nat" where
  "rank ops s i = length (filter (\<lambda>j. ops j = ops i) [s ..< Suc i])"

definition next_at_level :: "(nat \<Rightarrow> nat) \<Rightarrow> nat \<Rightarrow> nat \<Rightarrow> nat set \<Rightarrow> nat \<Rightarrow> nat option" where
  "next_at_level ops s e S i =
     find (\<lambda>j. level ops s j = (if opens (ops i) then Suc (level ops s i) else level ops s i) \<and> ops j \<in> S) [Suc i ..< e]"

definition last_at_level :: "(nat \<Rightarrow> nat) \<Rightarrow> nat \<Rightarrow> nat \<Rightarrow> nat \<Rightarrow> nat option" where
  "last_at_level ops s op k =
     (case filter (\<lambda>i. ops i = op \<and> Suc (level ops s i) = level ops s k) [s ..< k] of [] \<Rightarrow> None | i # is \<Rightarrow> Some (last (i # is)))"

section \<open>The stack of openers\<close>

lemma open_at_start: "i \<le> s \<Longrightarrow> open_at ops s i = []"
  by (cases i) auto

text \<open>Below an opener lies what was open when it came.\<close>

lemma open_at_suffix:
  "open_at ops s j = pre @ q # post \<Longrightarrow> post = open_at ops s q \<and> q < j \<and> s \<le> q \<and> opens (ops q)"
proof (induction j arbitrary: pre)
  case (Suc j)
  have IH: "open_at ops s j = pre' @ q # post \<Longrightarrow> post = open_at ops s q \<and> q < Suc j \<and> s \<le> q \<and> opens (ops q)" for pre'
    using Suc.IH by fastforce
  show ?case
  proof (cases "opens (ops j)")
    case True
    then show ?thesis using Suc.prems IH by (cases pre) (auto split: if_splits)
  next
    case False
    then consider "open_at ops s j = pre @ q # post" | x where "open_at ops s j = (x # pre) @ q # post"
      using Suc.prems by (cases "open_at ops s j") (auto split: if_splits)
    then show ?thesis using IH by cases blast+
  qed
qed simp

lemma open_at_head:
  assumes "open_at ops s j \<noteq> []"
  shows "tl (open_at ops s j) = open_at ops s (hd (open_at ops s j))" "hd (open_at ops s j) < j" "s \<le> hd (open_at ops s j)"
    "opens (ops (hd (open_at ops s j)))" "level ops s j = Suc (level ops s (hd (open_at ops s j)))"
proof -
  have "open_at ops s j = [] @ hd (open_at ops s j) # tl (open_at ops s j)" using assms by simp
  from open_at_suffix [OF this] show t: "tl (open_at ops s j) = open_at ops s (hd (open_at ops s j))" and "hd (open_at ops s j) < j"
    "s \<le> hd (open_at ops s j)" "opens (ops (hd (open_at ops s j)))" by simp_all
  from t show "level ops s j = Suc (level ops s (hd (open_at ops s j)))" using assms by (cases "open_at ops s j") (simp_all add: level_def)
qed

text \<open>Until a step closes at level \<open>d\<close>, what was open at that level stays.\<close>

lemma open_at_persists:
  assumes "i \<le> j" "\<And>m. i \<le> m \<Longrightarrow> m < j \<Longrightarrow> closes (ops m) \<Longrightarrow> \<not> opens (ops m) \<Longrightarrow> level ops s m \<noteq> level ops s i" "s \<le> i"
  shows "\<exists>pre. open_at ops s j = pre @ open_at ops s i"
  using assms(1,2)
proof (induction j rule: dec_induct)
  case (step j)
  then obtain pre where pre: "open_at ops s j = pre @ open_at ops s i" by auto
  show ?case
  proof (cases "\<not> opens (ops j) \<and> closes (ops j)")
    case True
    then have "pre \<noteq> []" using step.prems [of j] step.hyps pre by (auto simp: level_def)
    then show ?thesis using pre True step.hyps assms(3) by (cases pre) auto
  next
    case False
    then show ?thesis using pre step.hyps assms(3) by (auto intro: exI [of _ pre] exI [of _ "j # pre"])
  qed
qed simp

lemma find_upt: "find P [a ..< e] = Some j \<longleftrightarrow> a \<le> j \<and> j < e \<and> P j \<and> (\<forall>m. a \<le> m \<and> m < j \<longrightarrow> \<not> P m)"
proof -
  have "find P [a ..< e] = Some j \<longleftrightarrow> (\<exists>k < e - a. P (a + k) \<and> j = a + k \<and> (\<forall>m < k. \<not> P (a + m)))"
    by (auto simp: find_Some_iff)
  also have "\<dots> \<longleftrightarrow> a \<le> j \<and> j < e \<and> P j \<and> (\<forall>m. a \<le> m \<and> m < j \<longrightarrow> \<not> P m)"
  proof
    assume "a \<le> j \<and> j < e \<and> P j \<and> (\<forall>m. a \<le> m \<and> m < j \<longrightarrow> \<not> P m)"
    then show "\<exists>k < e - a. P (a + k) \<and> j = a + k \<and> (\<forall>m < k. \<not> P (a + m))" by (intro exI [of _ "j - a"]) auto
  next
    assume "\<exists>k < e - a. P (a + k) \<and> j = a + k \<and> (\<forall>m < k. \<not> P (a + m))"
    then obtain k where k: "k < e - a" "P (a + k)" "j = a + k" "\<forall>m < k. \<not> P (a + m)" by blast
    have "\<not> P m" if "a \<le> m" "m < j" for m using k(3,4) that by (metis add_diff_inverse_nat le_add_diff_inverse nat_add_left_cancel_less)
    with k show "a \<le> j \<and> j < e \<and> P j \<and> (\<forall>m. a \<le> m \<and> m < j \<longrightarrow> \<not> P m)" by auto
  qed
  finally show ?thesis .
qed

lemma find_upt_ex: "\<exists>m. a \<le> m \<and> m < e \<and> P m \<Longrightarrow> \<exists>j. find P [a ..< e] = Some j"
  by (metis find_None_iff atLeastLessThan_iff not_Some_eq set_upt)

text \<open>Inside the structure of a step.\<close>

definition inside :: "(nat \<Rightarrow> nat) \<Rightarrow> nat \<Rightarrow> nat \<Rightarrow> nat" where
  "inside ops s i = (if opens (ops i) then Suc (level ops s i) else level ops s i)"

lemma numbered_kinds: "structOpHasNumber op \<Longrightarrow> opens op \<or> closes op \<or> op = ITM_ELSE \<or> op = ITM_WHILE"
  "closes op \<Longrightarrow> structOpHasNumber op \<or> op = ITM_NEXT" "closes op \<Longrightarrow> \<not> opens op"
  "opens op \<Longrightarrow> family op = op"
  by (auto simp: structOpHasNumber_def opens_def closes_def family_def)

lemma nested_owner:
  assumes "nested ops s e" "s \<le> i" "i < e" "structOpHasNumber (ops i) \<or> ops i = ITM_NEXT"
  shows "ops (owner ops s i) = family (ops i)" "inside ops s i = Suc (level ops s (owner ops s i))" "owner ops s i \<le> i" "s \<le> owner ops s i"
    "opens (ops (owner ops s i))" "\<not> opens (ops i) \<Longrightarrow> open_at ops s i = owner ops s i # open_at ops s (owner ops s i)"
proof -
  have n: "\<not> opens (ops i) \<Longrightarrow> open_at ops s i \<noteq> [] \<and> ops (hd (open_at ops s i)) = family (ops i)"
    using assms by (auto simp: nested_def)
  then show "ops (owner ops s i) = family (ops i)" using numbered_kinds(4) by (auto simp: owner_def)
  show "inside ops s i = Suc (level ops s (owner ops s i))" "owner ops s i \<le> i" "s \<le> owner ops s i" "opens (ops (owner ops s i))"
    using n open_at_head [of ops s i] assms(2) by (auto simp: owner_def inside_def)
  show "open_at ops s i = owner ops s i # open_at ops s (owner ops s i)" if "\<not> opens (ops i)"
    using n [OF that] open_at_head(1) [of ops s i] that by (cases "open_at ops s i") (auto simp: owner_def)
qed

lemma inside_open:
  assumes "nested ops s e" "s \<le> i" "i < e" "structOpHasNumber (ops i)" "\<not> closes (ops i)"
  shows "open_at ops s (Suc i) = owner ops s i # open_at ops s (owner ops s i)" "level ops s (Suc i) = inside ops s i"
proof -
  show o: "open_at ops s (Suc i) = owner ops s i # open_at ops s (owner ops s i)"
    using nested_owner(6) [OF assms(1-3)] assms by (cases "opens (ops i)") (auto simp: owner_def)
  show "level ops s (Suc i) = inside ops s i" using o nested_owner(2) [OF assms(1-3)] assms(4) by (simp add: level_def)
qed

lemma next_at_level_owner:
  assumes n: "nested ops s e" and i: "s \<le> i" "i < e" "structOpHasNumber (ops i)" "\<not> closes (ops i)"
    and S: "\<And>op. op \<in> S \<Longrightarrow> structOpHasNumber op \<and> \<not> opens op" "\<And>op. closes op \<Longrightarrow> family op = family (ops i) \<Longrightarrow> op \<in> S"
  shows "\<exists>j. next_at_level ops s e S i = Some j \<and> find (\<lambda>j. owner ops s j = owner ops s i \<and> ops j \<in> S) [Suc i ..< e] = Some j"
proof -
  let ?o = "open_at ops s" and ?b = "owner ops s i"
  let ?P = "\<lambda>j. level ops s j = inside ops s i \<and> ops j \<in> S" and ?Q = "\<lambda>j. owner ops s j = ?b \<and> ops j \<in> S"
    and ?C = "\<lambda>m. level ops s m = inside ops s i \<and> closes (ops m)"
  note here = inside_open [OF n i] nested_owner [OF n i(1,2) disjI1 [OF i(3)]]
  have persists: "?o j = ?o (Suc i)" if j: "Suc i \<le> j" "\<And>m. Suc i \<le> m \<Longrightarrow> m < j \<Longrightarrow> \<not> ?C m" "level ops s j = inside ops s i" for j
  proof -
    obtain pre where pre: "?o j = pre @ ?o (Suc i)"
      using open_at_persists [of "Suc i" j ops s] j(1,2) here(2) i(1) by auto
    then show ?thesis using j(3) here(2) by (simp add: level_def)
  qed
  have "\<exists>m. Suc i \<le> m \<and> m < e \<and> ?C m"
  proof (rule ccontr)
    assume "\<not> ?thesis"
    then obtain pre where "?o e = pre @ ?o (Suc i)"
      using open_at_persists [of "Suc i" e ops s] i here(2) by auto
    with n here(1) show False by (simp add: nested_def)
  qed
  then obtain m where m: "find ?C [Suc i ..< e] = Some m" using find_upt_ex [of "Suc i" e ?C] by blast
  then have mm: "Suc i \<le> m" "m < e" "?C m" "\<And>k. Suc i \<le> k \<Longrightarrow> k < m \<Longrightarrow> \<not> ?C k" by (simp_all add: find_upt)
  have "?o m = ?o (Suc i)" using mm by (intro persists) auto
  then have "owner ops s m = ?b" using here(1) mm(3) numbered_kinds(3) by (simp add: owner_def)
  moreover have "ops (owner ops s m) = family (ops m)"
    using nested_owner(1) [OF n, of m] mm i(1) numbered_kinds(2) [of "ops m"] by simp
  ultimately have "family (ops m) = family (ops i)" using here(3) by simp
  then have "?P m" using S(2) [of "ops m"] mm(3) by simp
  then have "\<exists>m. Suc i \<le> m \<and> m < e \<and> ?P m" using mm by blast
  then obtain j where j: "find ?P [Suc i ..< e] = Some j" using find_upt_ex [of "Suc i" e ?P] by blast
  then have jj: "Suc i \<le> j" "j < e" "?P j" "\<And>k. Suc i \<le> k \<Longrightarrow> k < j \<Longrightarrow> \<not> ?P k" by (simp_all add: find_upt)
  have "j \<le> m" using jj(4) [of m] mm(1) \<open>?P m\<close> by (meson not_less)
  then have "?o j = ?o (Suc i)" using jj mm(4) by (intro persists) auto
  then have "?Q j" using here(1) jj(3) S(1) by (simp add: owner_def)
  moreover have "?P k" if "?Q k" "Suc i \<le> k" "k < e" for k
  proof -
    have "structOpHasNumber (ops k)" "\<not> opens (ops k)" using S(1) that by auto
    then have "inside ops s k = Suc (level ops s ?b)" using nested_owner(2) [OF n, of k] that i(1) by simp
    then show ?thesis using that(1) here(4) \<open>\<not> opens (ops k)\<close> by (simp add: inside_def)
  qed
  ultimately have "find ?Q [Suc i ..< e] = Some j" using jj unfolding find_upt by (meson less_trans)
  then show ?thesis using j by (auto simp: next_at_level_def inside_def)
qed

lemma open_at_gone:
  assumes "q \<notin> set (open_at ops s m)" "q < m" "m \<le> j"
  shows "q \<notin> set (open_at ops s j)"
  using assms(3)
proof (induction j rule: dec_induct)
  case (step j)
  then show ?case using assms(2) by (cases "open_at ops s j") (auto simp: list.set_sel)
qed (rule assms(1))

lemma open_at_below: "q \<in> set (open_at ops s m) \<Longrightarrow> q < m"
  using open_at_suffix by (metis split_list)

lemma open_at_level: "q \<in> set (open_at ops s m) \<Longrightarrow> Suc (level ops s q) \<le> level ops s m"
proof -
  assume "q \<in> set (open_at ops s m)"
  then obtain pre post where p: "open_at ops s m = pre @ q # post" by (auto dest: split_list)
  from open_at_suffix [OF this] p show ?thesis by (simp add: level_def)
qed

lemma upt_split: "a \<le> b \<Longrightarrow> b \<le> c \<Longrightarrow> [a ..< c] = [a ..< b] @ [b ..< c]"
  using upt_add_eq_append [of a b "c - b"] by simp

lemma last_filter_upt:
  assumes "s \<le> b" "b < k" "P b" "\<And>i. b < i \<Longrightarrow> i < k \<Longrightarrow> \<not> P i"
  shows "filter P [s ..< k] \<noteq> []" "last (filter P [s ..< k]) = b"
proof -
  have "[s ..< k] = [s ..< b] @ b # [Suc b ..< k]" using assms(1,2) upt_split [of s b k] by (simp add: upt_conv_Cons)
  moreover have "filter P [Suc b ..< k] = []" using assms(4) by (simp add: filter_empty_conv)
  ultimately have "filter P [s ..< k] = filter P [s ..< b] @ [b]" using assms(3) by simp
  then show "filter P [s ..< k] \<noteq> []" "last (filter P [s ..< k]) = b" by simp_all
qed

lemma last_at_level_owner:
  assumes n: "nested ops s e" and k: "s \<le> k" "k < e" "structOpHasNumber (ops k)" "closes (ops k)"
  shows "last_at_level ops s (family (ops k)) k = Some (owner ops s k)" "owner ops s k < k"
    "\<And>j. j < k \<Longrightarrow> s \<le> j \<Longrightarrow> structOpHasNumber (ops j) \<Longrightarrow> closes (ops j) \<Longrightarrow> owner ops s j \<noteq> owner ops s k"
proof -
  let ?b = "owner ops s k"
  have closer: "\<not> opens (ops k)" using k(4) numbered_kinds(3) by blast
  note here = nested_owner [OF n k(1,2) disjI1 [OF k(3)]]
  have head: "open_at ops s k = ?b # open_at ops s ?b" by (rule here(6) [OF closer])
  show below: "?b < k" using open_at_below [of ?b ops s k] head by simp
  have stays: "?b \<in> set (open_at ops s j)" if "?b < j" "j \<le> k" for j
    using open_at_gone [of ?b ops s j k] that head by auto
  show "owner ops s j \<noteq> ?b" if j: "j < k" "s \<le> j" "structOpHasNumber (ops j)" "closes (ops j)" for j
  proof
    assume same: "owner ops s j = ?b"
    have "\<not> opens (ops j)" using j(4) numbered_kinds(3) by blast
    moreover have "open_at ops s j = ?b # open_at ops s ?b"
      using nested_owner(6) [OF n j(2) _ disjI1 [OF j(3)]] k(2) j(1) calculation same by simp
    ultimately have "open_at ops s (Suc j) = open_at ops s ?b" using j by simp
    moreover have "?b < Suc j" using open_at_below [of ?b ops s j] \<open>open_at ops s j = _\<close> by simp
    ultimately show False using stays [of "Suc j"] j(1) open_at_below [of ?b ops s ?b] by simp
  qed
  let ?P = "\<lambda>i. ops i = family (ops k) \<and> Suc (level ops s i) = level ops s k"
  have "?P ?b" using here(1,2) closer by (simp add: inside_def)
  moreover have "\<not> ?P i" if "?b < i" "i < k" for i
    using open_at_level [OF stays [OF that(1)]] that here(2) closer by (simp add: inside_def)
  ultimately have "filter ?P [s ..< k] \<noteq> []" "last (filter ?P [s ..< k]) = ?b"
    using last_filter_upt [of s ?b k ?P] here(4) below by blast+
  then show "last_at_level ops s (family (ops k)) k = Some ?b" by (auto simp: last_at_level_def split: list.split)
qed

section \<open>Numbers\<close>

lemma rank_less:
  assumes "ops i = ops j" "i < j" "s \<le> i"
  shows "rank ops s i < rank ops s j"
proof -
  have "[s ..< Suc j] = [s ..< Suc i] @ [Suc i ..< Suc j]" using assms(2,3) by (intro upt_split) auto
  moreover have "j \<in> set (filter (\<lambda>k. ops k = ops j) [Suc i ..< Suc j])" using assms(2) by simp
  then have "filter (\<lambda>k. ops k = ops j) [Suc i ..< Suc j] \<noteq> []" by force
  ultimately show ?thesis using assms(1) by (simp add: rank_def)
qed

lemma rank_inject: "ops i = ops j \<Longrightarrow> s \<le> i \<Longrightarrow> s \<le> j \<Longrightarrow> rank ops s i = rank ops s j \<longleftrightarrow> i = j"
  using rank_less [of ops i j s] rank_less [of ops j i s] by (metis less_irrefl linorder_neqE_nat)

lemma rank_pos: "s \<le> i \<Longrightarrow> 0 < rank ops s i"
  by (simp add: rank_def)

text \<open>Steps of the same family carry the same number exactly if they belong to the same structure.\<close>

lemma same_number:
  assumes n: "nested ops s e" and i: "s \<le> i" "i < e" "structOpHasNumber (ops i)" and j: "s \<le> j" "j < e" "structOpHasNumber (ops j)"
    and f: "family (ops i) = family (ops j)"
  shows "rank ops s (owner ops s i) = rank ops s (owner ops s j) \<longleftrightarrow> owner ops s i = owner ops s j"
  using nested_owner(1,4) [OF n i(1,2) disjI1 [OF i(3)]] nested_owner(1,4) [OF n j(1,2) disjI1 [OF j(3)]] f
  by (intro rank_inject) simp_all

end
