(* ===== verification/StepProps.thy ===== *)
theory StepProps
  imports ProgramSteps
begin

text \<open>
  Program memory as the list of its steps: the walkers are list functions, the program pointer is an
  index, and single-stepping in the editor visits every step.
\<close>

section \<open>The list of steps\<close>

function step_list :: "(nat \<Rightarrow> nat) \<Rightarrow> 'a memory_scheme \<Rightarrow> nat \<Rightarrow> nat list" where
  "step_list status m a =
     a # (case findNextStep status m (Some a) of None \<Rightarrow> [] | Some b \<Rightarrow> step_list status m b)"
  by auto
termination
  by (relation "measure (\<lambda>(_, m, a). remaining m (Some a))") (auto simp: remaining_next)

declare step_list.simps [simp del] walk_to.simps [simp del] count_steps.simps [simp del] skip_loop.simps [simp del]

lemma step_list_simps:
  "findNextStep status m (Some a) = None \<Longrightarrow> step_list status m a = [a]"
  "findNextStep status m (Some a) = Some b \<Longrightarrow> step_list status m a = a # step_list status m b"
  by (simp_all add: step_list.simps [of status m a])

lemma step_list_0 [simp]: "step_list status m a ! 0 = a" "step_list status m a \<noteq> []"
  by (simp_all add: step_list.simps [of status m a])

lemma step_list_induct [case_names ends steps]:
  assumes "\<And>a. findNextStep status m (Some a) = None \<Longrightarrow> P a"
    and "\<And>a b. findNextStep status m (Some a) = Some b \<Longrightarrow> a < b \<Longrightarrow> P b \<Longrightarrow> P a"
  shows "P a"
proof (induction "remaining m (Some a)" arbitrary: a rule: less_induct)
  case less
  show ?case
  proof (cases "findNextStep status m (Some a)")
    case (Some b)
    with less [OF remaining_next [OF Some]] assms(2) findNextStep_progress [OF Some] show ?thesis by blast
  qed (rule assms(1))
qed

lemma step_list_sorted: "sorted_wrt (<) (step_list status m a) \<and> step_list status m a \<noteq> [] \<and> hd (step_list status m a) = a \<and>
    (\<forall>b \<in> set (step_list status m a). a \<le> b)"
proof (induction a rule: step_list_induct [of status m])
  case (steps a b)
  then show ?case by (auto simp: step_list_simps(2) [OF steps(1)])
qed (simp add: step_list_simps)

lemma step_list_bounded: "length (step_list status m a) \<le> Suc (Suc (firstFreeProgramByte m) - a)"
proof (induction a rule: step_list_induct [of status m])
  case (steps a b)
  with findNextStep_progress [OF steps(1)] show ?case by (simp add: step_list_simps(2) [OF steps(1)]) arith
qed (simp add: step_list_simps)

lemma step_list_drop: "j < length (step_list status m a) \<Longrightarrow> step_list status m (step_list status m a ! j) = drop j (step_list status m a)"
proof (induction a arbitrary: j rule: step_list_induct [of status m])
  case (steps a b)
  then show ?case by (cases j) (simp_all add: step_list_simps(2) [OF steps(1)])
qed (simp add: step_list_simps)

lemma step_list_next:
  "i < length (step_list status m a) \<Longrightarrow>
   findNextStep status m (Some (step_list status m a ! i)) =
     (if Suc i < length (step_list status m a) then Some (step_list status m a ! Suc i) else None)"
proof (induction a arbitrary: i rule: step_list_induct [of status m])
  case (steps a b)
  then show ?case by (cases i) (auto simp: step_list_simps(2) [OF steps(1)])
qed (simp add: step_list_simps)

section \<open>The walkers\<close>

lemma walk_to_step:
  "walk_to status m t (Some a) =
     (case findNextStep status m (Some a) of None \<Rightarrow> Some a | Some b \<Rightarrow> if b = t then Some a else walk_to status m t (Some b))"
  by (simp add: walk_to.simps [of status m t "Some a"])

lemma walk_to_found:
  "Suc i < length (step_list status m a) \<Longrightarrow> walk_to status m (step_list status m a ! Suc i) (Some a) = Some (step_list status m a ! i)"
proof (induction a arbitrary: i rule: step_list_induct [of status m])
  case (steps a b)
  from step_list_sorted [of status m b] have b: "sorted_wrt (<) (step_list status m b)" by blast
  show ?case
  proof (cases i)
    case 0
    then show ?thesis using steps b by (simp add: walk_to_step step_list_simps(2) [OF steps(1)])
  next
    case (Suc j)
    then have "step_list status m b ! 0 < step_list status m b ! Suc j"
      using steps.prems sorted_wrt_nth_less [OF b, of 0 "Suc j"] by (simp add: step_list_simps(2) [OF steps(1)])
    with steps Suc b show ?thesis by (simp add: walk_to_step step_list_simps(2) [OF steps(1)])
  qed
qed (simp add: step_list_simps)

lemma step_forward_nth:
  "step_forward status m k a = (let P = step_list status m a in if k < length P then P ! k else last P)"
proof (induction k arbitrary: a)
  case 0
  show ?case by (simp add: Let_def)
next
  case (Suc k)
  show ?case
  proof (cases "findNextStep status m (Some a)")
    case (Some b)
    with Suc step_list_sorted [of status m b] show ?thesis by (simp add: step_list_simps(2) Let_def)
  qed (simp add: step_list_simps(1) Let_def)
qed

definition at_end :: "'a memory_scheme \<Rightarrow> nat \<Rightarrow> bool" where
  "at_end m a \<longleftrightarrow> isAtEndOfProgram m (Some a) \<or> isAtEndOfPrograms m (Some a)"

lemma count_steps_list:
  "n < 65536 \<Longrightarrow> count_steps status m (Some a) n = trunc16 (n + length (takeWhile (\<lambda>b. \<not> at_end m b) (step_list status m a)))"
proof (induction a arbitrary: n rule: step_list_induct [of status m])
  case (ends a)
  have "count_steps status m None k = k" for k by (simp add: count_steps.simps isAtEndOfPrograms_def)
  with ends show ?case
    by (simp add: count_steps.simps [of status m "Some a"] step_list_simps at_end_def)
next
  case (steps a b)
  from steps.IH [of "trunc16 (n + 1)"] steps show ?case
    by (simp add: count_steps.simps [of status m "Some a"] step_list_simps(2) at_end_def trunc16_def mod_Suc_eq mod_add_left_eq)
qed

lemma findNextStep_cong:
  assumes "ram (pool m') = ram (pool m)" "beginOfProgramMemory m' = beginOfProgramMemory m" "firstFreeProgramByte m' = firstFreeProgramByte m"
  shows "findNextStep status m' s = findNextStep status m s"
proof -
  have b: "byte_at m' = byte_at m" by (intro ext) (simp add: byte_at_def assms)
  have a: "programBytesAvailable x n m' = programBytesAvailable x n m" for x n by (simp add: programBytesAvailable_def assms)
  have e: "parameters_end status m' op x = parameters_end status m op x" for op x
    unfolding parameters_end_def countLiteralBytes_def countOpBytes_def a b by (rule refl)
  have k: "findKey2ndParam status m' s = findKey2ndParam status m s" for s
    unfolding findKey2ndParam_def a e b by (rule refl)
  show ?thesis unfolding findNextStep_def checkOpCodeOfStep_def k b by (rule refl)
qed

lemma step_list_cong:
  assumes "ram (pool m') = ram (pool m)" "beginOfProgramMemory m' = beginOfProgramMemory m" "firstFreeProgramByte m' = firstFreeProgramByte m"
  shows "step_list status m' a = step_list status m a"
proof (induction a rule: step_list_induct [of status m])
  case (ends a)
  with findNextStep_cong [OF assms] show ?case by (simp add: step_list_simps)
next
  case (steps a b)
  with findNextStep_cong [OF assms, of status "Some a"] show ?case by (simp add: step_list_simps)
qed

section \<open>Program pointer\<close>

definition steps_of :: "(nat \<Rightarrow> nat) \<Rightarrow> 'a programs_scheme \<Rightarrow> nat list" where
  "steps_of status p = step_list status p (program_start p)"

lemma steps_of_updates [simp]:
  "steps_of status (p\<lparr>currentStep := a\<rparr>) = steps_of status p" "steps_of status (p\<lparr>currentLocalStepNumber := n\<rparr>) = steps_of status p"
  "at_end (p\<lparr>currentStep := a\<rparr>) = at_end p" "at_end (p\<lparr>currentLocalStepNumber := n\<rparr>) = at_end p"
  "program_start (p\<lparr>currentStep := a\<rparr>) = program_start p" "program_start (p\<lparr>currentLocalStepNumber := n\<rparr>) = program_start p"
  by (simp_all add: steps_of_def program_start_def fun_eq_iff at_end_def isAtEndOfProgram_def isAtEndOfPrograms_def
      checkOpCodeOfStep_def byte_at_def step_list_cong [of "p\<lparr>currentStep := a\<rparr>" p] step_list_cong [of "p\<lparr>currentLocalStepNumber := n\<rparr>" p])

definition pointer_ok :: "(nat \<Rightarrow> nat) \<Rightarrow> 'a programs_scheme \<Rightarrow> bool" where
  "pointer_ok status p \<longleftrightarrow> 1 \<le> currentLocalStepNumber p \<and> currentLocalStepNumber p \<le> length (steps_of status p) \<and>
     currentStep p = steps_of status p ! (currentLocalStepNumber p - 1)"

definition at_step :: "(nat \<Rightarrow> nat) \<Rightarrow> nat \<Rightarrow> 'a programs_scheme \<Rightarrow> 'a programs_scheme" where
  "at_step status n p = p\<lparr>currentLocalStepNumber := n, currentStep := steps_of status p ! (n - 1)\<rparr>"

lemma at_step_ok [simp]: "1 \<le> n \<Longrightarrow> n \<le> length (steps_of status p) \<Longrightarrow> pointer_ok status (at_step status n p)"
  by (simp add: pointer_ok_def at_step_def)

lemma at_step_simps [simp]:
  "currentLocalStepNumber (at_step status n p) = n" "steps_of status (at_step status n p) = steps_of status p"
  "at_step status n' (at_step status n p) = at_step status n' p" "at_end (at_step status n p) = at_end p"
  "program_start (at_step status n p) = program_start p"
  by (simp_all add: at_step_def)

lemma at_step_self: "pointer_ok status p \<Longrightarrow> at_step status (currentLocalStepNumber p) p = p"
  by (simp add: at_step_def pointer_ok_def)

text \<open>How many steps lie ahead before the end of the program stops the walk.\<close>

definition ahead :: "(nat \<Rightarrow> nat) \<Rightarrow> 'a programs_scheme \<Rightarrow> nat" where
  "ahead status p =
     (let T = drop (currentLocalStepNumber p - 1) (steps_of status p)
      in min (length (takeWhile (\<lambda>b. \<not> at_end p b) T)) (length T - 1))"

lemma findNextStep_pointer:
  assumes "pointer_ok status p"
  shows "findNextStep status p (Some (currentStep p)) =
    (if currentLocalStepNumber p < length (steps_of status p) then Some (steps_of status p ! currentLocalStepNumber p) else None)"
proof -
  let ?l = "currentLocalStepNumber p"
  have "?l - 1 < length (steps_of status p)" "Suc (?l - 1) = ?l" using assms by (auto simp: pointer_ok_def)
  from step_list_next [OF this(1) [unfolded steps_of_def]] this(2) assms show ?thesis
    by (simp only: pointer_ok_def steps_of_def)
qed

lemma skip_loop_list:
  "pointer_ok status p \<Longrightarrow> length (steps_of status p) < 65536 \<Longrightarrow> i \<le> n + 1 \<Longrightarrow> n < 65535 \<Longrightarrow>
   skip_loop status n i p = at_step status (currentLocalStepNumber p + min (n + 1 - i) (ahead status p)) p"
proof (induction "length (steps_of status p) - currentLocalStepNumber p" arbitrary: i p)
  case less: 0
  then have l: "currentLocalStepNumber p = length (steps_of status p)" by (simp add: pointer_ok_def)
  then have "ahead status p = 0" using less.prems(1) by (simp add: ahead_def pointer_ok_def Let_def)
  moreover have "findNextStep status p (Some (currentStep p)) = None" using findNextStep_pointer [OF less.prems(1)] l by simp
  ultimately show ?case by (simp add: skip_loop.simps [of status n i p] at_step_self [OF less.prems(1)])
next
  case (Suc d)
  let ?l = "currentLocalStepNumber p" and ?P = "steps_of status p"
  have l: "1 \<le> ?l" "?l < length ?P" "currentStep p = ?P ! (?l - 1)" using Suc.hyps(2) Suc.prems(1) by (auto simp: pointer_ok_def)
  have drop: "drop (?l - 1) ?P = ?P ! (?l - 1) # drop ?l ?P" using l by (metis Cons_nth_drop_Suc Suc_diff_1 less_imp_diff_less less_le_trans zero_less_one)
  have room: "ahead status p = (if at_end p (currentStep p) then 0 else Suc (ahead status (at_step status (Suc ?l) p)))"
  proof -
    let ?T = "drop ?l ?P" and ?x = "?P ! (?l - 1)"
    have "ahead status p = min (length (takeWhile (\<lambda>b. \<not> at_end p b) (?x # ?T))) (length (?x # ?T) - 1)"
      unfolding ahead_def drop Let_def ..
    moreover have "ahead status (at_step status (Suc ?l) p) = min (length (takeWhile (\<lambda>b. \<not> at_end p b) ?T)) (length ?T - 1)"
      by (simp add: ahead_def Let_def)
    moreover have "length ?T = Suc (length ?T - 1)" using l(2) by simp
    ultimately show ?thesis using l(3) by auto
  qed
  have unfold: "skip_loop status n i p =
      (if i \<le> n \<and> \<not> at_end p (currentStep p) then skip_loop status n (trunc16 (i + 1)) (at_step status (Suc ?l) p) else p)"
    using l Suc.prems findNextStep_pointer [OF Suc.prems(1)]
    by (subst skip_loop.simps) (simp add: at_end_def at_step_def)
  show ?case
  proof (cases "i \<le> n \<and> \<not> at_end p (currentStep p)")
    case True
    have "skip_loop status n (i + 1) (at_step status (Suc ?l) p) =
        at_step status (Suc ?l + min (n + 1 - (i + 1)) (ahead status (at_step status (Suc ?l) p))) p"
      using Suc.hyps(1) [of "at_step status (Suc ?l) p" "i + 1"] Suc.hyps(2) Suc.prems l True by simp
    moreover have "n + 1 - i = Suc (n + 1 - (i + 1))" using conjunct1 [OF True] by simp
    ultimately show ?thesis using True Suc.prems room by (simp add: unfold)
  next
    case False
    then have "min (n + 1 - i) (ahead status p) = 0" using room by auto
    then show ?thesis using unfold False at_step_self [OF Suc.prems(1)] by (simp)
  qed
qed

section \<open>A small program\<close>

text \<open>Two one-byte steps, END and the end of all programs, at the top of RAM.\<close>

definition two_steps :: programs where
  "two_steps = memory.extend
     \<lparr>pool = \<lparr>freeMemoryRegions = [], allocatedMemoryRegions = [], ram = (\<lambda>a. if a = 65533 then 0xB2852010 else 0xFFFF)\<rparr>,
      c47MemInBlocks = 0, beginOfProgramMemory = 65533, firstFreeProgramByte = 262136\<rparr>
     (programs.fields [] [\<lparr>programStep = 1, programInstructionPointer = 262132\<rparr>] 1 262132 1 262132 0 True False)"

lemma two_steps_simps [simp]:
  "programBegin two_steps = 262132" "firstFreeProgramByte two_steps = 262136" "labels two_steps = []" "program_start two_steps = 262132"
  "currentLocalStepNumber two_steps = 1" "currentStep two_steps = 262132" "currentProgramNumber two_steps = 1" "length (programTable two_steps) = 1"
  "pemCursorIsZerothStep two_steps"
  by (simp_all add: two_steps_def memory.defs programs.defs program_start_def)

lemma two_steps_bytes [simp]:
  "byte_at two_steps 262132 = 0x10" "byte_at two_steps 262133 = 0x20" "byte_at two_steps 262134 = 0x85" "byte_at two_steps 262135 = 0xB2"
  "byte_at two_steps 262136 = 0xFF" "byte_at two_steps 262137 = 0xFF"
  by (simp_all add: byte_at_def two_steps_def memory.defs programs.defs)

lemma two_steps_next:
  "findNextStep (\<lambda>_. 0) two_steps (Some 262132) = Some 262133" "findNextStep (\<lambda>_. 0) two_steps (Some 262133) = Some 262134"
  "findNextStep (\<lambda>_. 0) two_steps (Some 262134) = Some 262136" "findNextStep (\<lambda>_. 0) two_steps (Some 262136) = None"
  by (simp_all add: findNextStep_def checkOpCodeOfStep_def findKey2ndParam_def programBytesAvailable_def parameters_end_def Let_def)

lemma two_steps_list: "step_list (\<lambda>_. 0) two_steps 262132 = [262132, 262133, 262134, 262136]"
  by (simp add: step_list_simps two_steps_next)

lemma two_steps_end: "at_end two_steps a \<longleftrightarrow> a \<in> {262134, 262136}" if "a \<in> {262132, 262133, 262134, 262136}"
  using that by (auto simp: at_end_def isAtEndOfProgram_def isAtEndOfPrograms_def checkOpCodeOfStep_def)

section \<open>Properties\<close>

text \<open>C27. When the labels point to steps, the step before a step of program memory is found, from
  whatever label the search starts, and it is the one whose next step is the given one; the first step
  has no predecessor and is its own answer.\<close>

theorem findPreviousStep_correct:
  fixes status and p :: "'a programs_scheme"
  defines "P \<equiv> step_list status p (programBegin p)"
  assumes labels: "\<forall>l \<in> set (labels p). labelInstructionPointer l \<in> set P" and i: "Suc i < length P"
  shows "findPreviousStep status p (P ! Suc i) = Some (P ! i) \<and> findNextStep status p (Some (P ! i)) = Some (P ! Suc i) \<and>
    findPreviousStep status p (programBegin p) = Some (programBegin p)"
proof -
  have sorted: "sorted_wrt (<) P" unfolding P_def using step_list_sorted by blast
  have zero: "P ! 0 = programBegin p" by (simp add: P_def)
  have "P ! 0 < P ! Suc i" using sorted_wrt_nth_less [OF sorted, of 0 "Suc i"] i by simp
  then have later: "P ! Suc i \<noteq> programBegin p" using zero by simp
  have walk: "walk_to status p (P ! Suc i) (Some (P ! j)) = Some (P ! i)" if j: "j \<le> i" for j
  proof -
    have d: "step_list status p (P ! j) = drop j P" using j i unfolding P_def by (intro step_list_drop) simp
    have "Suc (i - j) < length (step_list status p (P ! j))" using i j by (simp add: d)
    from walk_to_found [OF this] show ?thesis using j i by (simp add: d)
  qed
  have "findPreviousStep status p (P ! Suc i) = Some (P ! i)"
  proof (cases "labels p = [] \<or> P ! Suc i \<le> labelInstructionPointer (labels p ! 0)")
    case True
    with walk [of 0] later zero show ?thesis by (simp add: findPreviousStep_def)
  next
    case False
    then have "labels p ! 0 \<in> set (rev (labels p))" "labelInstructionPointer (labels p ! 0) < P ! Suc i" by auto
    then obtain l where l: "find (\<lambda>l. labelInstructionPointer l < P ! Suc i) (rev (labels p)) = Some l"
      by (cases "find (\<lambda>l. labelInstructionPointer l < P ! Suc i) (rev (labels p))") (auto simp: find_None_iff)
    then have less: "labelInstructionPointer l < P ! Suc i" and "l \<in> set (labels p)"
      by (auto simp: find_Some_iff dest: nth_mem) (metis length_rev nth_mem set_rev)
    with labels have "labelInstructionPointer l \<in> set P" by blast
    then obtain j where j: "j < length P" "labelInstructionPointer l = P ! j" by (metis in_set_conv_nth)
    have "j \<le> i"
    proof (rule ccontr)
      assume "\<not> j \<le> i"
      then have "P ! Suc i \<le> P ! j" using sorted_wrt_nth_less [OF sorted, of "Suc i" j] j by (cases "j = Suc i") simp_all
      with less j show False by simp
    qed
    with walk [of j] False later l j show ?thesis by (auto simp: findPreviousStep_def)
  qed
  moreover have "findNextStep status p (Some (P ! i)) = Some (P ! Suc i)"
    using step_list_next [of i status p "programBegin p"] i by (simp add: P_def)
  ultimately show ?thesis by (simp add: findPreviousStep_def)
qed

lemma findPreviousStep_correct_witness: "findPreviousStep (\<lambda>_. 0) two_steps 262134 = Some 262133"
proof -
  have P: "step_list (\<lambda>_. 0) two_steps (programBegin two_steps) = [262132, 262133, 262134, 262136]"
    using two_steps_list by (simp only: two_steps_simps)
  from findPreviousStep_correct [of two_steps "\<lambda>_. 0" 1] show ?thesis unfolding P by (simp del: two_steps_simps(1))
qed

text \<open>C28. Whatever the bytes of program memory are, a walk from step to step ends: each step lies
  behind the one before, inside program memory, so after at most as many steps as there are bytes the
  next step is the null pointer.  The walk over a program that counts its steps stops at its end.\<close>

theorem step_walks_end:
  "(\<exists>k \<le> firstFreeProgramByte m + 2. (findNextStep status m ^^ k) (Some a) = None) \<and>
   (case findNextStep status m (Some a) of None \<Rightarrow> True | Some b \<Rightarrow> programBegin m \<le> a \<and> a < b \<and> b \<le> firstFreeProgramByte m) \<and>
   count_steps status m (Some a) 1 = trunc16 (1 + length (takeWhile (\<lambda>b. \<not> at_end m b) (step_list status m a)))"
proof (intro conjI)
  let ?P = "step_list status m a"
  have iter: "i < length ?P \<Longrightarrow> (findNextStep status m ^^ i) (Some a) = Some (?P ! i)" for i
    by (induction i) (simp_all add: step_list_next)
  have "0 < length ?P" by simp
  then have "(findNextStep status m ^^ length ?P) (Some a) = findNextStep status m (Some (?P ! (length ?P - 1)))"
    using iter [of "length ?P - 1"] by (cases "length ?P") simp_all
  also have "\<dots> = None" using step_list_next [of "length ?P - 1" status m a] \<open>0 < length ?P\<close> by simp
  finally have "(findNextStep status m ^^ length ?P) (Some a) = None" .
  moreover have "length ?P \<le> firstFreeProgramByte m + 2" using step_list_bounded [of status m a] by simp
  ultimately show "\<exists>k \<le> firstFreeProgramByte m + 2. (findNextStep status m ^^ k) (Some a) = None" by blast
  show "case findNextStep status m (Some a) of None \<Rightarrow> True | Some b \<Rightarrow> programBegin m \<le> a \<and> a < b \<and> b \<le> firstFreeProgramByte m"
    using findNextStep_progress [of status m a] by (simp split: option.split)
  show "count_steps status m (Some a) 1 = trunc16 (1 + length (takeWhile (\<lambda>b. \<not> at_end m b) ?P))"
    by (rule count_steps_list) simp
qed

text \<open>C29. The program pointer is an index into the list of the steps of the program: BACK subtracts,
  down to the first step; SKIP n adds n + 1 but stops at the end of the program; and the pointer
  recomputed from the local step number is the one that was there.\<close>

theorem program_pointer_refines:
  assumes ok: "pointer_ok status p" and small: "length (steps_of status p) < 65536" and n: "n < 65535"
  shows "fnBack status n p = at_step status (max 1 (currentLocalStepNumber p - n)) p \<and>
    fnSkip status n p = at_step status (currentLocalStepNumber p + min (n + 1) (ahead status p)) p \<and>
    defineCurrentStep status (p\<lparr>currentStep := a\<rparr>) = p \<and>
    pointer_ok status (fnBack status n p) \<and> pointer_ok status (fnSkip status n p)"
proof -
  let ?l = "currentLocalStepNumber p" and ?P = "steps_of status p"
  have l: "1 \<le> ?l" "?l \<le> length ?P" "currentStep p = ?P ! (?l - 1)" using ok by (auto simp: pointer_ok_def)
  have located: "defineCurrentStep status (q\<lparr>currentStep := a\<rparr>) = at_step status (currentLocalStepNumber q) q"
    if "1 \<le> currentLocalStepNumber q" "currentLocalStepNumber q \<le> length (steps_of status q)" for q a
  proof -
    have "step_forward status (q\<lparr>currentStep := a\<rparr>) k x = step_forward status q k x" for k x
      unfolding step_forward_nth using step_list_cong [of "q\<lparr>currentStep := a\<rparr>" q] by simp
    then show ?thesis using that by (simp add: defineCurrentStep_def at_step_def step_forward_nth steps_of_def Let_def)
  qed
  have backward: "fnBack status n p = at_step status (max 1 (?l - n)) p"
  proof (cases "?l - 1 \<le> n")
    case True
    then have "max 1 (?l - n) = 1" by simp
    with True show ?thesis by (simp add: fnBack_def at_step_def steps_of_def)
  next
    case False
    let ?q = "p\<lparr>currentLocalStepNumber := ?l - n\<rparr>"
    have same: "?q\<lparr>currentStep := currentStep p\<rparr> = ?q" by simp
    have "1 \<le> currentLocalStepNumber ?q" "currentLocalStepNumber ?q \<le> length (steps_of status ?q)" using False l by simp_all
    from located [OF this, of "currentStep p", unfolded same] have "defineCurrentStep status ?q = at_step status (?l - n) p"
      by (simp add: at_step_def)
    moreover have "max 1 (?l - n) = ?l - n" using False by simp
    ultimately show ?thesis using False by (simp add: fnBack_def)
  qed
  have skip: "fnSkip status n p = at_step status (?l + min (n + 1) (ahead status p)) p"
    using skip_loop_list [OF ok small, of 0 n] n by (simp add: fnSkip_def)
  have room: "?l + ahead status p \<le> length ?P" using l by (simp add: ahead_def Let_def)
  have self: "defineCurrentStep status (p\<lparr>currentStep := a\<rparr>) = p" using located [of p a] l at_step_self [OF ok] by simp
  show ?thesis using backward skip self l room by (simp add: min_le_iff_disj)
qed

lemma program_pointer_refines_witness:
  "currentStep (fnSkip (\<lambda>_. 0) 0 two_steps) = 262133 \<and> currentStep (fnSkip (\<lambda>_. 0) 9 two_steps) = 262134"
proof -
  have P: "steps_of (\<lambda>_. 0) two_steps = [262132, 262133, 262134, 262136]" by (simp add: steps_of_def two_steps_list)
  have ok: "pointer_ok (\<lambda>_. 0) two_steps" "length (steps_of (\<lambda>_. 0) two_steps) < 65536" by (simp_all add: pointer_ok_def P)
  have "ahead (\<lambda>_. 0) two_steps = 2" by (simp add: ahead_def P two_steps_end Let_def)
  then show ?thesis using program_pointer_refines [OF ok, of 0] program_pointer_refines [OF ok, of 9]
    by (simp add: at_step_def P)
qed

section \<open>Single-stepping in the editor\<close>

text \<open>The position of the cursor: 0 is the line before the first step.\<close>

definition cursor :: "programs \<Rightarrow> nat" where
  "cursor p = (if pemCursorIsZerothStep p then 0 else currentLocalStepNumber p)"

definition cursor_ok :: "nat \<Rightarrow> programs \<Rightarrow> bool" where
  "cursor_ok n p \<longleftrightarrow> 1 \<le> currentLocalStepNumber p \<and> currentLocalStepNumber p \<le> n \<and> (pemCursorIsZerothStep p \<longrightarrow> currentLocalStepNumber p = 1)"

text \<open>What neither moving the cursor nor scrolling touches.\<close>

definition code_part :: "programs \<Rightarrow> programs" where
  "code_part p = p\<lparr>currentStep := 0, currentLocalStepNumber := 0, firstDisplayedStep := 0, firstDisplayedLocalStepNumber := 0, pemCursorIsZerothStep := False\<rparr>"

lemma getNumberOfSteps_code: "getNumberOfSteps status (code_part p) = getNumberOfSteps status p"
proof -
  have "count_steps status (code_part p) (Some a) 1 = count_steps status p (Some a) 1" for a
  proof -
    have "step_list status (code_part p) a = step_list status p a" by (rule step_list_cong) (simp_all add: code_part_def)
    moreover have "at_end (code_part p) = at_end p"
      by (simp add: fun_eq_iff code_part_def at_end_def isAtEndOfProgram_def isAtEndOfPrograms_def checkOpCodeOfStep_def byte_at_def)
    ultimately show ?thesis by (simp add: count_steps_list)
  qed
  then show ?thesis by (simp add: getNumberOfSteps_def program_start_def code_part_def)
qed

lemma code_part_updates [simp]:
  "code_part (p\<lparr>currentLocalStepNumber := n\<rparr>) = code_part p" "code_part (p\<lparr>firstDisplayedLocalStepNumber := n\<rparr>) = code_part p"
  "code_part (p\<lparr>pemCursorIsZerothStep := b\<rparr>) = code_part p" "code_part (defineFirstDisplayedStep status p) = code_part p"
  "cursor (defineFirstDisplayedStep status p) = cursor p" "cursor_ok n (defineFirstDisplayedStep status p) = cursor_ok n p"
  by (simp_all add: code_part_def defineFirstDisplayedStep_def cursor_def cursor_ok_def)

lemma sst_step:
  assumes "cursor_ok (getNumberOfSteps status p) p"
  shows "cursor (sstInPem status p) = (if cursor p = getNumberOfSteps status p then 0 else cursor p + 1)"
    and "cursor_ok (getNumberOfSteps status p) (sstInPem status p)" "code_part (sstInPem status p) = code_part p"
  using assms by (auto simp: sstInPem_def Let_def) (auto simp: cursor_def cursor_ok_def)

lemma bst_step:
  assumes "cursor_ok (getNumberOfSteps status p) p"
  shows "cursor (bstInPem status p) = (if cursor p = 0 then getNumberOfSteps status p else cursor p - 1)"
    and "cursor_ok (getNumberOfSteps status p) (bstInPem status p)" "code_part (bstInPem status p) = code_part p"
proof -
  consider "currentLocalStepNumber p > 1" "\<not> pemCursorIsZerothStep p" | "currentLocalStepNumber p = 1" "\<not> pemCursorIsZerothStep p"
    | "currentLocalStepNumber p = 1" "pemCursorIsZerothStep p" using assms by (fastforce simp: cursor_ok_def)
  then have "cursor (bstInPem status p) = (if cursor p = 0 then getNumberOfSteps status p else cursor p - 1) \<and>
      cursor_ok (getNumberOfSteps status p) (bstInPem status p) \<and> code_part (bstInPem status p) = code_part p"
    using assms by cases (simp_all add: bstInPem_def Let_def if_distrib [of code_part] if_distrib [of cursor] if_distrib [of "cursor_ok _"],
      auto simp: cursor_def cursor_ok_def)
  then show "cursor (bstInPem status p) = (if cursor p = 0 then getNumberOfSteps status p else cursor p - 1)"
    and "cursor_ok (getNumberOfSteps status p) (bstInPem status p)" "code_part (bstInPem status p) = code_part p" by auto
qed

lemma sst_iterate:
  "cursor_ok (getNumberOfSteps status p) p \<Longrightarrow>
   cursor ((sstInPem status ^^ k) p) = (cursor p + k) mod (getNumberOfSteps status p + 1) \<and>
   cursor_ok (getNumberOfSteps status p) ((sstInPem status ^^ k) p) \<and> code_part ((sstInPem status ^^ k) p) = code_part p"
proof (induction k)
  case 0
  then have "cursor p < getNumberOfSteps status p + 1" by (auto simp: cursor_def cursor_ok_def)
  with 0 show ?case by simp
next
  case (Suc k)
  let ?q = "(sstInPem status ^^ k) p" and ?n = "getNumberOfSteps status p"
  have same: "getNumberOfSteps status ?q = ?n"
    using Suc getNumberOfSteps_code [of status ?q] getNumberOfSteps_code [of status p] by simp
  note step = sst_step [of status ?q, unfolded same]
  have "(if (cursor p + k) mod (?n + 1) = ?n then 0 else (cursor p + k) mod (?n + 1) + 1) = (cursor p + Suc k) mod (?n + 1)"
    by (simp add: mod_Suc)
  with step Suc show ?case by (simp only: funpow.simps o_apply simp_thms)
qed

text \<open>C30. From any position in the editor, pressing SST often enough brings the cursor to any line of
  the program, the line before the first step included, within one round; BST is the inverse of SST;
  neither changes the program.\<close>

theorem sst_visits_every_step:
  assumes ok: "cursor_ok (getNumberOfSteps status p) p" and t: "t \<le> getNumberOfSteps status p"
  shows "(\<exists>k \<le> getNumberOfSteps status p. cursor ((sstInPem status ^^ k) p) = t \<and> code_part ((sstInPem status ^^ k) p) = code_part p) \<and>
    cursor (bstInPem status (sstInPem status p)) = cursor p \<and> cursor (sstInPem status (bstInPem status p)) = cursor p"
proof -
  let ?n = "getNumberOfSteps status p"
  have c: "cursor p \<le> ?n" using ok by (auto simp: cursor_def cursor_ok_def)
  define k where "k = (if cursor p \<le> t then t - cursor p else ?n + 1 - cursor p + t)"
  have "k \<le> ?n" using c t by (auto simp: k_def)
  moreover have "(cursor p + k) mod (?n + 1) = t"
  proof (cases "cursor p \<le> t")
    case False
    then have "cursor p + k = t + (?n + 1)" using c by (simp add: k_def)
    then have "(cursor p + k) mod (?n + 1) = t mod (?n + 1)" by (simp only: mod_add_self2)
    then show ?thesis using t by simp
  qed (use t in \<open>simp add: k_def\<close>)
  moreover have "getNumberOfSteps status (sstInPem status p) = ?n" "getNumberOfSteps status (bstInPem status p) = ?n"
    using sst_step(3) [OF ok] bst_step(3) [OF ok] getNumberOfSteps_code [of status "sstInPem status p"]
      getNumberOfSteps_code [of status "bstInPem status p"] getNumberOfSteps_code [of status p] by simp_all
  ultimately show ?thesis
    using sst_iterate [OF ok, of k] sst_step [OF ok] bst_step [OF ok] bst_step(1) [of status "sstInPem status p"] sst_step(1) [of status "bstInPem status p"] c
    by (intro conjI exI [of _ k]) (auto split: if_splits)
qed

lemma sst_visits_every_step_witness:
  "\<exists>k \<le> 3. cursor ((sstInPem (\<lambda>_. 0) ^^ k) two_steps) = 2"
proof -
  have n: "getNumberOfSteps (\<lambda>_. 0) two_steps = 3"
    by (simp add: getNumberOfSteps_def count_steps_list two_steps_list two_steps_end)
  have "cursor_ok 3 two_steps" by (simp add: cursor_ok_def)
  with sst_visits_every_step [of "\<lambda>_. 0" two_steps 2] n show ?thesis by auto
qed

end
