(* ===== verification/LabelLaws.thy ===== *)
theory LabelLaws
  imports Labels StepProps
begin

text \<open>
  The tables of labels and programs over the list of all steps.  Well-formed program memory ends with the
  end of all programs at the first free byte; the reference tables select the steps of the list, and the
  two passes of the scan compute their lengths and their entries.
\<close>

section \<open>Well-formed program memory\<close>

definition all_steps :: "(nat \<Rightarrow> nat) \<Rightarrow> 'a memory_scheme \<Rightarrow> nat list" where
  "all_steps status m = step_list status m (programBegin m)"

text \<open>How many steps there are before the end of all programs.\<close>

definition code_length :: "(nat \<Rightarrow> nat) \<Rightarrow> 'a memory_scheme \<Rightarrow> nat" where
  "code_length status m = length (all_steps status m) - 1"

definition code_ok :: "(nat \<Rightarrow> nat) \<Rightarrow> 'a memory_scheme \<Rightarrow> bool" where
  "code_ok status m \<longleftrightarrow>
     status ITM_END AND PTP_STATUS = PTP_NONE \<and> programBegin m \<le> firstFreeProgramByte m \<and>
     last (all_steps status m) = firstFreeProgramByte m \<and> firstFreeProgramByte m < programRegionEnd \<and>
     code_length status m < 32767 \<and>
     (\<forall>i \<le> code_length status m. isAtEndOfPrograms m (Some (all_steps status m ! i)) \<longleftrightarrow> i = code_length status m)"

lemma length_all_steps: "length (all_steps status m) = Suc (code_length status m)"
proof -
  have "all_steps status m \<noteq> []" by (simp add: all_steps_def)
  then show ?thesis by (cases "all_steps status m") (simp_all add: code_length_def)
qed

lemma all_steps_0 [simp]: "all_steps status m ! 0 = programBegin m"
  by (simp add: all_steps_def)

lemma all_steps_sorted: "i < j \<Longrightarrow> j \<le> code_length status m \<Longrightarrow> all_steps status m ! i < all_steps status m ! j"
  using step_list_sorted [of status m "programBegin m"] sorted_wrt_nth_less [of "(<)" "all_steps status m" i j]
  by (simp add: all_steps_def [symmetric] length_all_steps)

lemma all_steps_inject:
  "i \<le> code_length status m \<Longrightarrow> j \<le> code_length status m \<Longrightarrow> all_steps status m ! i = all_steps status m ! j \<longleftrightarrow> i = j"
  using all_steps_sorted [of i j status m] all_steps_sorted [of j i status m] by (metis linorder_neqE_nat less_irrefl)

lemma all_steps_le_iff:
  "i \<le> code_length status m \<Longrightarrow> j \<le> code_length status m \<Longrightarrow> all_steps status m ! i \<le> all_steps status m ! j \<longleftrightarrow> i \<le> j"
  using all_steps_sorted [of i j status m] all_steps_sorted [of j i status m] by (metis less_imp_le linorder_not_less order_refl order_le_less)

lemma all_steps_last: "code_ok status m \<Longrightarrow> all_steps status m ! code_length status m = firstFreeProgramByte m"
  by (auto simp: code_ok_def code_length_def last_conv_nth all_steps_def)

lemma all_steps_below: "code_ok status m \<Longrightarrow> i \<le> code_length status m \<Longrightarrow> all_steps status m ! i \<le> firstFreeProgramByte m"
  using all_steps_sorted [of i "code_length status m" status m] all_steps_last [of status m]
  by (cases "i = code_length status m") auto

lemma all_steps_next:
  "i < code_length status m \<Longrightarrow> findNextStep status m (Some (all_steps status m ! i)) = Some (all_steps status m ! Suc i)"
  using step_list_next [of i status m "programBegin m"] by (simp add: all_steps_def [symmetric] length_all_steps)

lemma all_steps_end: "code_ok status m \<Longrightarrow> i \<le> code_length status m \<Longrightarrow>
    isAtEndOfPrograms m (Some (all_steps status m ! i)) \<longleftrightarrow> i = code_length status m"
  by (simp add: code_ok_def)

lemma all_steps_drop: "i \<le> code_length status m \<Longrightarrow> step_list status m (all_steps status m ! i) = drop i (all_steps status m)"
  unfolding all_steps_def by (rule step_list_drop) (use length_all_steps [of status m] in \<open>simp add: all_steps_def\<close>)

lemma scan_next_all:
  assumes "code_ok status m" "i < code_length status m"
  shows "scan_next status m (all_steps status m ! i) = Some (all_steps status m ! Suc i)"
proof -
  have "all_steps status m ! Suc i \<le> firstFreeProgramByte m" using all_steps_below [OF assms(1), of "Suc i"] assms(2) by simp
  then have "all_steps status m ! Suc i < programRegionEnd" using assms(1) by (auto simp: code_ok_def)
  moreover have "all_steps status m ! i < all_steps status m ! Suc i" using all_steps_sorted [of i "Suc i" status m] assms(2) by simp
  ultimately show ?thesis using all_steps_next [OF assms(2)] by (simp add: scan_next_def)
qed

text \<open>END has no parameters: the next step starts two bytes further.\<close>

lemma end_step_next:
  assumes "status ITM_END AND PTP_STATUS = PTP_NONE" "isAtEndOfProgram m (Some a)" "findNextStep status m (Some a) = Some b"
  shows "b = a + 2"
proof -
  have bytes: "byte_at m a = 0x85" "byte_at m (a + 1) = 0xB2"
    using assms(2) by (simp_all add: isAtEndOfProgram_def checkOpCodeOfStep_def)
  then have "findKey2ndParam status m (Some a) = Some b"
    using assms(3) by (simp add: findNextStep_def checkOpCodeOfStep_def)
  then show ?thesis
    using assms(1) bytes by (auto simp: findKey2ndParam_def parameters_end_def Let_def split: if_splits)
qed

section \<open>The reference tables\<close>

definition ends_program :: "(nat \<Rightarrow> nat) \<Rightarrow> 'a memory_scheme \<Rightarrow> nat \<Rightarrow> bool" where
  "ends_program status m i \<longleftrightarrow> isAtEndOfProgram m (Some (all_steps status m ! i))"

text \<open>The number of the program that holds step \<open>i\<close>, counted from 0.\<close>

definition program_of :: "(nat \<Rightarrow> nat) \<Rightarrow> 'a memory_scheme \<Rightarrow> nat \<Rightarrow> nat" where
  "program_of status m i = Suc (length (filter (ends_program status m) [0 ..< i]))"

definition label_at :: "(nat \<Rightarrow> nat) \<Rightarrow> 'a memory_scheme \<Rightarrow> nat \<Rightarrow> bool" where
  "label_at status m i \<longleftrightarrow> byte_at m (all_steps status m ! i) = ITM_LBL"

definition structure_at :: "(nat \<Rightarrow> nat) \<Rightarrow> 'a memory_scheme \<Rightarrow> nat \<Rightarrow> bool" where
  "structure_at status m i \<longleftrightarrow> \<not> label_at status m i \<and> structStepIsJumpTarget m (Some (all_steps status m ! i))"

definition start_at :: "(nat \<Rightarrow> nat) \<Rightarrow> 'a memory_scheme \<Rightarrow> nat \<Rightarrow> bool" where
  "start_at status m i \<longleftrightarrow> ends_program status m i \<and> Suc i \<noteq> code_length status m"

definition label_of :: "(nat \<Rightarrow> nat) \<Rightarrow> 'a memory_scheme \<Rightarrow> nat \<Rightarrow> labelList" where
  "label_of status m i =
     label_entry m (program_of status m i) (all_steps status m ! i) (Suc i) (all_steps status m ! Suc i)"

definition structure_of :: "(nat \<Rightarrow> nat) \<Rightarrow> 'a memory_scheme \<Rightarrow> nat \<Rightarrow> labelList" where
  "structure_of status m i =
     structure_entry (program_of status m i) (all_steps status m ! i) (Suc i) (all_steps status m ! Suc i)"

definition start_of :: "(nat \<Rightarrow> nat) \<Rightarrow> 'a memory_scheme \<Rightarrow> nat \<Rightarrow> programList" where
  "start_of status m i = \<lparr>programStep = int (Suc i), programInstructionPointer = all_steps status m ! i\<rparr>"

definition label_places :: "(nat \<Rightarrow> nat) \<Rightarrow> 'a memory_scheme \<Rightarrow> nat list" where
  "label_places status m = filter (label_at status m) [0 ..< code_length status m]"

definition structure_places :: "(nat \<Rightarrow> nat) \<Rightarrow> 'a memory_scheme \<Rightarrow> nat list" where
  "structure_places status m = filter (structure_at status m) [0 ..< code_length status m]"

definition start_places :: "(nat \<Rightarrow> nat) \<Rightarrow> 'a memory_scheme \<Rightarrow> nat list" where
  "start_places status m = 0 # map Suc (filter (start_at status m) [0 ..< code_length status m])"

definition tables_ok :: "(nat \<Rightarrow> nat) \<Rightarrow> 'a labelled_scheme \<Rightarrow> bool" where
  "tables_ok status p \<longleftrightarrow>
     labels p = map (label_of status p) (label_places status p) \<and>
     structureLabels p = map (structure_of status p) (structure_places status p) \<and>
     programTable p = map (start_of status p) (start_places status p)"

section \<open>The scan computes them\<close>

lemma upt_filter_step: "i < n \<Longrightarrow> filter Q [i ..< n] = (if Q i then i # filter Q [Suc i ..< n] else filter Q [Suc i ..< n])"
  by (simp add: upt_conv_Cons)

lemma starts_program_all:
  assumes "code_ok status m" "i < code_length status m"
  shows "starts_program m (all_steps status m ! i) (all_steps status m ! Suc i) \<longleftrightarrow> start_at status m i"
  using assms all_steps_end [OF assms(1), of "Suc i"] by (auto simp: starts_program_def start_at_def ends_program_def)

lemma scan_count_all:
  assumes ok: "code_ok status m"
  shows "i \<le> code_length status m \<Longrightarrow>
    nl + length (filter (label_at status m) [i ..< code_length status m]) < 65536 \<Longrightarrow>
    ns + length (filter (structure_at status m) [i ..< code_length status m]) < 65536 \<Longrightarrow>
    np + length (filter (start_at status m) [i ..< code_length status m]) < 65536 \<Longrightarrow>
    scan_count status m (all_steps status m ! i) nl ns np =
      ((nl + length (filter (label_at status m) [i ..< code_length status m]),
        ns + length (filter (structure_at status m) [i ..< code_length status m]),
        np + length (filter (start_at status m) [i ..< code_length status m])), False)"
proof (induction "code_length status m - i" arbitrary: i nl ns np)
  case 0
  then have "i = code_length status m" by simp
  then show ?case using all_steps_end [OF ok, of i] by (subst scan_count.simps) simp
next
  case (Suc d)
  have i: "i < code_length status m" "\<not> isAtEndOfPrograms m (Some (all_steps status m ! i))"
    using Suc.hyps(2) all_steps_end [OF ok, of i] by auto
  have IH: "scan_count status m (all_steps status m ! Suc i) nl' ns' np' =
      ((nl' + length (filter (label_at status m) [Suc i ..< code_length status m]),
        ns' + length (filter (structure_at status m) [Suc i ..< code_length status m]),
        np' + length (filter (start_at status m) [Suc i ..< code_length status m])), False)"
    if "nl' + length (filter (label_at status m) [Suc i ..< code_length status m]) < 65536"
      "ns' + length (filter (structure_at status m) [Suc i ..< code_length status m]) < 65536"
      "np' + length (filter (start_at status m) [Suc i ..< code_length status m]) < 65536" for nl' ns' np'
    using Suc.hyps(1) [of "Suc i" nl' ns' np'] Suc.hyps(2) i(1) that by simp
  have "scan_count status m (all_steps status m ! i) nl ns np =
      scan_count status m (all_steps status m ! Suc i) (if label_at status m i then trunc16 (nl + 1) else nl)
        (if structure_at status m i then trunc16 (ns + 1) else ns) (if start_at status m i then trunc16 (np + 1) else np)"
    by (subst scan_count.simps)
      (simp only: i(2) scan_next_all [OF ok i(1)] if_False option.case starts_program_all [OF ok i(1)] label_at_def structure_at_def)
  then show ?case
    using Suc.prems by (simp only:, subst IH) (auto simp: upt_filter_step [OF i(1)] split: if_splits)
qed

lemma program_of_Suc: "program_of status m (Suc i) = program_of status m i + (if ends_program status m i then 1 else 0)"
  by (simp add: program_of_def)

lemma scan_fill_all:
  assumes ok: "code_ok status m"
  shows "i \<le> code_length status m \<Longrightarrow> (i < code_length status m \<Longrightarrow> length ps = program_of status m i) \<Longrightarrow>
    scan_fill status m (all_steps status m ! i) (Suc i) (ls, ss, ps) =
      ((ls @ map (label_of status m) (filter (label_at status m) [i ..< code_length status m]),
        ss @ map (structure_of status m) (filter (structure_at status m) [i ..< code_length status m]),
        ps @ map (start_of status m) (map Suc (filter (start_at status m) [i ..< code_length status m]))),
       firstFreeProgramByte m, False)"
proof (induction "code_length status m - i" arbitrary: i ls ss ps)
  case 0
  then have "i = code_length status m" by simp
  then show ?case using all_steps_end [OF ok, of i] all_steps_last [OF ok] by (subst scan_fill.simps) simp
next
  case (Suc d)
  have i: "i < code_length status m" "\<not> isAtEndOfPrograms m (Some (all_steps status m ! i))"
    using Suc.hyps(2) all_steps_end [OF ok, of i] by auto
  have start: "\<lparr>programStep = int (Suc (Suc i)), programInstructionPointer = all_steps status m ! i + 2\<rparr> = start_of status m (Suc i)"
    if "start_at status m i"
  proof -
    have "all_steps status m ! Suc i = all_steps status m ! i + 2"
      using end_step_next [OF _ _ all_steps_next [OF i(1)]] ok that by (simp add: code_ok_def start_at_def ends_program_def)
    then show ?thesis by (simp add: start_of_def)
  qed
  have lbl: "checkOpCodeOfStep m (Some (all_steps status m ! i)) ITM_LBL \<longleftrightarrow> label_at status m i"
    by (simp add: checkOpCodeOfStep_def label_at_def)
  have len: "length ps = program_of status m i" using Suc.prems i by simp
  have IH: "scan_fill status m (all_steps status m ! Suc i) (Suc (Suc i)) (ls', ss', ps') =
      ((ls' @ map (label_of status m) (filter (label_at status m) [Suc i ..< code_length status m]),
        ss' @ map (structure_of status m) (filter (structure_at status m) [Suc i ..< code_length status m]),
        ps' @ map (start_of status m) (map Suc (filter (start_at status m) [Suc i ..< code_length status m]))),
       firstFreeProgramByte m, False)"
    if "Suc i < code_length status m \<Longrightarrow> length ps' = program_of status m (Suc i)" for ls' ss' ps'
    using Suc.hyps(1) [of "Suc i" ps' ls' ss'] Suc.hyps(2) i(1) that by simp
  have grow: "Suc i < code_length status m \<Longrightarrow>
      length (if start_at status m i then ps @ [start_of status m (Suc i)] else ps) = program_of status m (Suc i)"
    by (simp add: len program_of_Suc start_at_def)
  let ?ls = "if label_at status m i then ls @ [label_of status m i] else ls"
    and ?ss = "if structure_at status m i then ss @ [structure_of status m i] else ss"
    and ?ps = "if start_at status m i then ps @ [start_of status m (Suc i)] else ps"
  have "scan_fill status m (all_steps status m ! i) (Suc i) (ls, ss, ps) =
      scan_fill status m (all_steps status m ! Suc i) (Suc (Suc i)) (?ls, ?ss, ?ps)"
    using start
    by (subst scan_fill.simps)
      (simp only: i(2) scan_next_all [OF ok i(1)] if_False option.case starts_program_all [OF ok i(1)] lbl lbl [unfolded One_nat_def] len
        structure_at_def label_of_def structure_of_def add_Suc_right add_0_right One_nat_def cong: if_cong)
  then show ?case by (simp only: IH [OF grow] upt_filter_step [OF i(1)]) simp
qed

section \<open>What the code depends on\<close>

definition code_view :: "'a memory_scheme \<Rightarrow> (nat \<Rightarrow> u32) \<times> nat \<times> nat" where
  "code_view m = (ram (pool m), beginOfProgramMemory m, firstFreeProgramByte m)"

lemma code_cong:
  assumes "code_view m' = code_view m"
  shows "byte_at m' = byte_at m" "findNextStep status m' = findNextStep status m" "all_steps status m' = all_steps status m"
    "isAtEndOfPrograms m' = isAtEndOfPrograms m" "isAtEndOfProgram m' = isAtEndOfProgram m" "structOpOfStep m' = structOpOfStep m"
    "programBegin m' = programBegin m" "firstFreeProgramByte m' = firstFreeProgramByte m" "step_list status m' a = step_list status m a"
    "checkOpCodeOfStep m' = checkOpCodeOfStep m" "programBytesAvailable x n m' = programBytesAvailable x n m"
proof -
  have v: "ram (pool m') = ram (pool m)" "beginOfProgramMemory m' = beginOfProgramMemory m" "firstFreeProgramByte m' = firstFreeProgramByte m"
    using assms by (simp_all add: code_view_def)
  show b: "byte_at m' = byte_at m" by (simp add: fun_eq_iff byte_at_def v)
  show "findNextStep status m' = findNextStep status m" by (rule ext, rule findNextStep_cong [OF v])
  show sl: "step_list status m' a = step_list status m a" for a by (rule step_list_cong [OF v])
  show "all_steps status m' = all_steps status m" by (simp add: all_steps_def sl v)
  show "isAtEndOfPrograms m' = isAtEndOfPrograms m" by (simp add: fun_eq_iff isAtEndOfPrograms_def b split: option.split)
  show c: "checkOpCodeOfStep m' = checkOpCodeOfStep m" by (simp add: fun_eq_iff checkOpCodeOfStep_def b split: option.split)
  show "isAtEndOfProgram m' = isAtEndOfProgram m" by (simp add: fun_eq_iff isAtEndOfProgram_def c)
  show "programBegin m' = programBegin m" "firstFreeProgramByte m' = firstFreeProgramByte m" by (simp_all add: v)
  show a: "programBytesAvailable x n m' = programBytesAvailable x n m" for x n by (simp add: programBytesAvailable_def v)
  show "structOpOfStep m' = structOpOfStep m" by (simp add: fun_eq_iff structOpOfStep_def a b split: option.split)
qed

lemma places_cong:
  assumes "code_view m' = code_view m"
  shows "code_length status m' = code_length status m" "code_ok status m' = code_ok status m"
    "label_places status m' = label_places status m" "structure_places status m' = structure_places status m"
    "start_places status m' = start_places status m" "program_of status m' = program_of status m"
    "label_of status m' = label_of status m" "structure_of status m' = structure_of status m" "start_of status m' = start_of status m"
    "label_at status m' = label_at status m"
proof -
  note c = code_cong [OF assms]
  show n: "code_length status m' = code_length status m" by (simp add: code_length_def c)
  show "code_ok status m' = code_ok status m" by (simp add: code_ok_def c n)
  show l: "label_at status m' = label_at status m" by (simp add: fun_eq_iff label_at_def c)
  have e: "ends_program status m' = ends_program status m" by (simp add: fun_eq_iff ends_program_def c)
  have st: "start_at status m' = start_at status m" by (simp add: fun_eq_iff start_at_def e n)
  have sc: "structure_at status m' = structure_at status m"
    by (simp add: fun_eq_iff structure_at_def l structStepIsJumpTarget_def c)
  show "label_places status m' = label_places status m" "structure_places status m' = structure_places status m"
    "start_places status m' = start_places status m"
    by (simp_all add: label_places_def structure_places_def start_places_def l n st sc)
  show p: "program_of status m' = program_of status m" by (simp add: fun_eq_iff program_of_def e)
  show "label_of status m' = label_of status m" "structure_of status m' = structure_of status m" "start_of status m' = start_of status m"
    by (simp_all add: fun_eq_iff label_of_def structure_of_def start_of_def label_entry_def structure_entry_def p c)
qed

section \<open>The program table\<close>

definition program_at :: "(nat \<Rightarrow> nat) \<Rightarrow> 'a memory_scheme \<Rightarrow> nat \<Rightarrow> nat" where
  "program_at status m i = length (filter (\<lambda>s. s \<le> i) (start_places status m))"

lemma start_places_sorted: "sorted_wrt (<) (start_places status m)"
  by (auto simp: start_places_def sorted_wrt_map intro: sorted_wrt_filter)

lemma takeWhile_sorted:
  assumes "sorted_wrt (<) xs" "mono f"
  shows "takeWhile (\<lambda>s. f s \<le> (c :: 'b :: linorder)) xs = filter (\<lambda>s. f s \<le> c) (xs :: nat list)"
  using assms(1)
proof (induction xs)
  case (Cons x xs)
  show ?case
  proof (cases "f x \<le> c")
    case False
    have "filter (\<lambda>s. f s \<le> c) xs = []"
      unfolding filter_empty_conv
    proof
      fix y assume "y \<in> set xs"
      with Cons.prems have "x \<le> y" by auto
      with assms(2) have "f x \<le> f y" by (auto simp: mono_def)
      with False show "\<not> f y \<le> c" by simp
    qed
    with False show ?thesis by simp
  qed (use Cons in simp)
qed simp

lemma program_at_of:
  assumes "i < code_length status m"
  shows "program_at status m i = program_of status m i"
proof -
  have "filter (\<lambda>s. s \<le> i) (map Suc (filter (start_at status m) [0 ..< code_length status m])) =
      map Suc (filter (\<lambda>j. j < i \<and> start_at status m j) [0 ..< code_length status m])"
    by (simp add: filter_map o_def Suc_le_eq conj_commute)
  moreover have "filter (\<lambda>j. j < i \<and> start_at status m j) [0 ..< code_length status m] = filter (ends_program status m) [0 ..< i]"
  proof -
    have "[0 ..< code_length status m] = [0 ..< i] @ [i ..< code_length status m]" using upt_add_eq_append [of 0 i "code_length status m - i"] assms by simp
    moreover have "filter (\<lambda>j. j < i \<and> start_at status m j) [i ..< code_length status m] = []" by (simp add: filter_empty_conv)
    moreover have "filter (\<lambda>j. j < i \<and> start_at status m j) [0 ..< i] = filter (ends_program status m) [0 ..< i]"
      by (rule filter_cong) (use assms in \<open>auto simp: start_at_def\<close>)
    ultimately show ?thesis by simp
  qed
  ultimately show ?thesis by (simp add: program_at_def start_places_def program_of_def)
qed

lemma program_at_bounds: "0 < program_at status m i" "program_at status m i \<le> length (start_places status m)"
proof -
  show "0 < program_at status m i" by (simp add: program_at_def start_places_def)
  show "program_at status m i \<le> length (start_places status m)" unfolding program_at_def by (rule length_filter_le)
qed

text \<open>The start of the program that holds step \<open>i\<close>.\<close>

definition start_before :: "(nat \<Rightarrow> nat) \<Rightarrow> 'a memory_scheme \<Rightarrow> nat \<Rightarrow> nat" where
  "start_before status m i = start_places status m ! (program_at status m i - 1)"

lemma start_before_le: "start_before status m i \<le> i"
proof -
  have "takeWhile (\<lambda>s. s \<le> i) (start_places status m) = filter (\<lambda>s. s \<le> i) (start_places status m)"
    using takeWhile_sorted [OF start_places_sorted, of id i status m] by (simp add: mono_def)
  then have len: "program_at status m i = length (takeWhile (\<lambda>s. s \<le> i) (start_places status m))" by (simp add: program_at_def)
  then have "program_at status m i - 1 < length (takeWhile (\<lambda>s. s \<le> i) (start_places status m))"
    using program_at_bounds(1) [of status m i] by linarith
  then have "takeWhile (\<lambda>s. s \<le> i) (start_places status m) ! (program_at status m i - 1) \<le> i" by (metis nth_mem set_takeWhileD)
  then show ?thesis using \<open>program_at status m i - 1 < _\<close> by (simp add: start_before_def takeWhile_nth)
qed

end
