(* ===== verification/LabelProps.thy ===== *)
theory LabelProps
  imports LabelLaws
begin

text \<open>
  The scan of program memory fills the tables with exactly the labels and programs there are; GTO to a
  step number and to a local label arrives where the tables say.
\<close>

section \<open>The tables in the pool\<close>

definition ptr_piece :: "ptr \<Rightarrow> nat \<Rightarrow> piece multiset" where
  "ptr_piece q n = (case q of None \<Rightarrow> {#} | Some a \<Rightarrow> {#(a, alloc_size n)#})"

definition table_pieces :: "'a labelled_scheme \<Rightarrow> piece multiset" where
  "table_pieces p =
     ptr_piece (labelListPtr p) (LABEL_SIZE_IN_BLOCKS * (length (labels p) + length (structureLabels p))) +
     ptr_piece (programListPtr p) (PROGRAM_SIZE_IN_BLOCKS * length (programTable p))"

lemma with_memory_simps [simp]:
  "pool (with_memory m p) = pool m" "labels (with_memory m p) = labels p" "structureLabels (with_memory m p) = structureLabels p"
  "programTable (with_memory m p) = programTable p" "labelListPtr (with_memory m p) = labelListPtr p"
  "programListPtr (with_memory m p) = programListPtr p" "currentStep (with_memory m p) = currentStep p"
  "programError (with_memory m p) = programError p" "beginOfProgramMemory (with_memory m p) = beginOfProgramMemory p"
  "firstFreeProgramByte (with_memory m p) = firstFreeProgramByte p"
  by (simp_all add: with_memory_def)

lemma truncate_pool [simp]: "pool (memory.truncate p) = pool p"
  by (simp add: memory.truncate_def)

lemma freeListFree_size: "freeListFree q (alloc_size n) h = freeListFree q n h"
  by (cases "n = 0") (simp_all add: freeListFree_def alloc_size_def Let_def split: option.split)

lemma release_pool:
  assumes ok: "pool_ok lim (pool p) (ptr_piece q n + M)" and r: "release q n p = Inr p'"
  shows "pool_ok lim (pool p') M" "ram (pool p') = ram (pool p)" "\<exists>m. p' = with_memory m p"
proof -
  obtain m where m: "freeC47Blocks q n (memory.truncate p) = Inr m" "p' = with_memory m p"
    using r by (auto simp: release_def split: sum.splits)
  then show "\<exists>m. p' = with_memory m p" by blast
  show "pool_ok lim (pool p') M" "ram (pool p') = ram (pool p)"
  proof (atomize (full), cases q)
    case None
    then show "pool_ok lim (pool p') M \<and> ram (pool p') = ram (pool p)" using ok m by (auto simp: ptr_piece_def freeC47Blocks_def)
  next
    case (Some a)
    obtain h where h: "freeListFree (Some a) (alloc_size n) (pool p) = Inr h" "pool m = h"
      using m(1) by (auto simp: Some freeC47Blocks_Inr freeListFree_size)
    have "(a, alloc_size n) \<in># ptr_piece q n + M" by (simp add: Some ptr_piece_def)
    from pool_free [OF ok this h(1)] h m show "pool_ok lim (pool p') M \<and> ram (pool p') = ram (pool p)"
      by (simp add: Some ptr_piece_def)
  qed
qed

lemma alloc_pool:
  assumes ok: "pool_ok lim (pool m) M" and a: "allocC47Blocks n m = (Some q, m')"
  shows "pool_ok lim (pool m') (ptr_piece (Some q) n + M)" "ram (pool m') = ram (pool m)"
proof -
  obtain h where h: "freeListAlloc n (pool m) = (Some q, h)" "pool m' = h" using a by (auto simp: allocC47Blocks_Some)
  from pool_alloc [OF ok h(1)] h(2) show "pool_ok lim (pool m') (ptr_piece (Some q) n + M)" "ram (pool m') = ram (pool m)"
    by (simp_all add: ptr_piece_def)
qed

section \<open>The scan\<close>

lemma define_bounds_simps [simp]:
  "currentProgramNumber (define_bounds status p) = currentProgramNumber p" "beginOfCurrentProgram (define_bounds status p) = program_start p"
  "labels (define_bounds status p) = labels p" "structureLabels (define_bounds status p) = structureLabels p"
  "programTable (define_bounds status p) = programTable p" "pool (define_bounds status p) = pool p"
  "labelListPtr (define_bounds status p) = labelListPtr p" "programListPtr (define_bounds status p) = programListPtr p"
  "programError (define_bounds status p) = programError p" "currentStep (define_bounds status p) = currentStep p"
  "beginOfProgramMemory (define_bounds status p) = beginOfProgramMemory p" "firstFreeProgramByte (define_bounds status p) = firstFreeProgramByte p"
  "freeProgramBytes (define_bounds status p) = freeProgramBytes p"
  by (simp_all add: define_bounds_def)

lemma current_program_of:
  assumes ok: "code_ok status p" and t: "tables_ok status p" and i: "i \<le> code_length status p"
  shows "length (takeWhile (\<lambda>e. int (Suc i) \<ge> programStep e) (programTable p)) = program_at status p i"
    and "length (takeWhile (\<lambda>e. all_steps status p ! i \<ge> programInstructionPointer e) (programTable p)) = program_at status p i"
proof -
  have tab: "programTable p = map (start_of status p) (start_places status p)" using t by (simp add: tables_ok_def)
  have tw: "takeWhile (\<lambda>s. s \<le> i) (start_places status p) = filter (\<lambda>s. s \<le> i) (start_places status p)"
    using takeWhile_sorted [OF start_places_sorted, of id i status p] by (simp add: mono_def)
  have le: "s \<le> code_length status p" if "s \<in> set (start_places status p)" for s
    using that by (auto simp: start_places_def)
  show "length (takeWhile (\<lambda>e. int (Suc i) \<ge> programStep e) (programTable p)) = program_at status p i"
    by (simp add: tab takeWhile_map o_def start_of_def tw program_at_def)
  have "takeWhile (\<lambda>s. all_steps status p ! s \<le> all_steps status p ! i) (start_places status p) = takeWhile (\<lambda>s. s \<le> i) (start_places status p)"
    by (rule takeWhile_cong) (use le i in \<open>simp_all add: all_steps_le_iff\<close>)
  then show "length (takeWhile (\<lambda>e. all_steps status p ! i \<ge> programInstructionPointer e) (programTable p)) = program_at status p i"
    by (simp add: tab takeWhile_map o_def start_of_def tw program_at_def)
qed

lemma tables_cong:
  assumes "code_view p' = code_view p" "labels p' = labels p" "structureLabels p' = structureLabels p" "programTable p' = programTable p"
  shows "tables_ok status p' = tables_ok status p"
  using assms places_cong [OF assms(1)] by (simp add: tables_ok_def)

lemma fill_tables_ok:
  assumes ok: "code_ok status p" and inside: "programBegin p \<le> currentStep p" "currentStep p \<le> firstFreeProgramByte p"
  defines "p' \<equiv> fill_tables status p"
  shows "tables_ok status p'" "code_view p' = code_view p" "labelListPtr p' = labelListPtr p" "programListPtr p' = programListPtr p"
    "pool p' = pool p" "programError p' = programError p" "currentStep p' = currentStep p"
    "freeProgramBytes p' = wrap16 (int programRegionEnd - int (firstFreeProgramByte p) - 2)"
    "\<And>i. i \<le> code_length status p \<Longrightarrow> currentStep p = all_steps status p ! i \<Longrightarrow>
       currentProgramNumber p' = program_at status p i \<and> beginOfCurrentProgram p' = all_steps status p ! start_before status p i"
proof -
  let ?L = "map (label_of status p) (label_places status p)" and ?S = "map (structure_of status p) (structure_places status p)"
    and ?P = "map (start_of status p) (start_places status p)"
  define p1 where "p1 = p\<lparr>labels := ?L, structureLabels := ?S, programTable := ?P, programError := programError p,
      firstFreeProgramByte := firstFreeProgramByte p,
      freeProgramBytes := wrap16 (int programRegionEnd - int (firstFreeProgramByte p) - 2)\<rparr>"
  have scan: "scan_fill status p (programBegin p) 1 ([], [], [\<lparr>programStep = 1, programInstructionPointer = programBegin p\<rparr>]) =
      ((?L, ?S, ?P), firstFreeProgramByte p, False)"
    using scan_fill_all [OF ok, of 0 "[\<lparr>programStep = 1, programInstructionPointer = programBegin p\<rparr>]" "[]" "[]"]
    by (simp add: label_places_def structure_places_def start_places_def program_of_def start_of_def)
  have p': "p' = defineFirstDisplayedStep status (defineCurrentProgramFromCurrentStep status p1)"
    by (simp add: p'_def fill_tables_def scan [unfolded One_nat_def] p1_def)
  have v1: "code_view p1 = code_view p" by (simp add: code_view_def p1_def)
  have t1: "tables_ok status p1" using places_cong [OF v1] by (simp add: tables_ok_def p1_def)
  have ok1: "code_ok status p1" using ok places_cong [OF v1] by simp
  have in1: "programBegin p1 \<le> currentStep p1 \<and> currentStep p1 \<le> firstFreeProgramByte p1" using inside by (simp add: p1_def)
  show v: "code_view p' = code_view p"
    using v1 by (simp add: p' code_view_def defineFirstDisplayedStep_def defineCurrentProgramFromCurrentStep_def)
  show "tables_ok status p'"
    using t1 tables_cong [of p' p1] v v1 by (simp add: p' defineFirstDisplayedStep_def defineCurrentProgramFromCurrentStep_def)
  show "labelListPtr p' = labelListPtr p" "programListPtr p' = programListPtr p" "pool p' = pool p" "programError p' = programError p"
    "currentStep p' = currentStep p" "freeProgramBytes p' = wrap16 (int programRegionEnd - int (firstFreeProgramByte p) - 2)"
    by (simp_all add: p' defineFirstDisplayedStep_def defineCurrentProgramFromCurrentStep_def p1_def)
  fix i assume i: "i \<le> code_length status p" and cur: "currentStep p = all_steps status p ! i"
  have c1: "currentStep p1 = all_steps status p1 ! i" using cur code_cong [OF v1] by (simp add: p1_def)
  have i1: "i \<le> code_length status p1" using i places_cong [OF v1] by simp
  have at: "program_at status p1 i = program_at status p i" using places_cong [OF v1] by (simp add: program_at_def)
  have num: "currentProgramNumber p' = program_at status p i"
    using in1 current_program_of(2) [OF ok1 t1 i1] c1 at by (simp add: p' defineFirstDisplayedStep_def defineCurrentProgramFromCurrentStep_def)
  have "program_at status p i - 1 < length (start_places status p)"
    using program_at_bounds [of status p i] by linarith
  then have "beginOfCurrentProgram p' = all_steps status p ! start_before status p i"
    using in1 num by (simp add: p' defineFirstDisplayedStep_def defineCurrentProgramFromCurrentStep_def program_start_def)
      (simp add: p1_def start_of_def start_before_def)
  with num show "currentProgramNumber p' = program_at status p i \<and> beginOfCurrentProgram p' = all_steps status p ! start_before status p i" by simp
qed

lemma release_error:
  assumes ok: "pool_ok lim (pool p) (ptr_piece q n + M)" and r: "release q n p = Inl e"
  shows "e = ScanExit TooManyFreeRegions"
proof -
  obtain e' where e: "freeC47Blocks q n (memory.truncate p) = Inl e'" "e = ScanExit e'"
    using r by (auto simp: release_def split: sum.splits)
  then obtain a where a: "q = Some a" by (auto simp: freeC47Blocks_def split: option.splits)
  have "freeListFree (Some a) (alloc_size n) (pool p) = Inl e'"
    using e(1) by (auto simp: a freeC47Blocks_def freeListFree_size split: sum.splits)
  moreover have "(a, alloc_size n) \<in># ptr_piece q n + M" by (simp add: a ptr_piece_def)
  ultimately show ?thesis using pool_free_error [OF ok] e(2) by blast
qed

lemma scan_count_places:
  assumes "code_ok status m"
  shows "scan_count status m (programBegin m) 0 0 1 =
    ((length (label_places status m), length (structure_places status m), length (start_places status m)), False)"
proof -
  have n: "code_length status m < 32767" using assms by (simp add: code_ok_def)
  have le: "length (filter Q [0 ..< code_length status m]) < 32767" for Q
    using length_filter_le [of Q "[0 ..< code_length status m]"] n by simp
  then have "scan_count status m (all_steps status m ! 0) 0 0 1 =
      ((0 + length (filter (label_at status m) [0 ..< code_length status m]),
        0 + length (filter (structure_at status m) [0 ..< code_length status m]),
        1 + length (filter (start_at status m) [0 ..< code_length status m])), False)"
    by (intro scan_count_all [OF assms]) (auto intro: less_le_trans [OF le])
  then show ?thesis by (simp add: label_places_def structure_places_def start_places_def)
qed

text \<open>C35. The scan of well-formed program memory: the label table lists exactly the LBL steps in order, each
  with its program, its step number (negative for a local label) and its pointers, the structure table
  the steps that structures jump to, the program table the begins of the programs.  The blocks that
  the first pass asks for are exactly as many as the second pass fills, the old tables are released,
  the steps and every other piece of the pool stay as they are, and the current program is the one that
  holds the current step.  Otherwise the region table of the pool is full or there is no room.\<close>

theorem scan_fills_tables:
  assumes ok: "code_ok status p" and pool: "pool_ok lim (pool p) (table_pieces p + M)"
    and i: "i \<le> code_length status p" and cur: "currentStep p = all_steps status p ! i"
  shows "case scanLabelsAndPrograms status p of
      Inl e \<Rightarrow> e \<in> {ScanExit TooManyFreeRegions, NoLabelTable, NoProgramTable}
    | Inr p' \<Rightarrow> tables_ok status p' \<and> code_ok status p' \<and> code_view p' = code_view p \<and>
        pool_ok lim (pool p') (table_pieces p' + M) \<and> programError p' = programError p \<and>
        currentStep p' = currentStep p \<and> currentProgramNumber p' = program_at status p i \<and>
        beginOfCurrentProgram p' = all_steps status p ! start_before status p i"
proof (cases "scanLabelsAndPrograms status p")
  case (Inl e)
  have t: "table_pieces p + M = ptr_piece (labelListPtr p) (LABEL_SIZE_IN_BLOCKS * (length (labels p) + length (structureLabels p))) +
      (ptr_piece (programListPtr p) (PROGRAM_SIZE_IN_BLOCKS * length (programTable p)) + M)" by (simp add: table_pieces_def)
  have second: "e' = ScanExit TooManyFreeRegions"
    if r: "release (labelListPtr p) (LABEL_SIZE_IN_BLOCKS * (length (labels p) + length (structureLabels p))) p = Inr p1"
      and r': "release (programListPtr p1) (PROGRAM_SIZE_IN_BLOCKS * length (programTable p1)) p1 = Inl e'" for p1 e'
  proof -
    from release_pool(3) [OF pool [unfolded t] r] obtain m where "p1 = with_memory m p" by blast
    with release_pool(1) [OF pool [unfolded t] r] release_error [OF _ r', of lim M] show ?thesis by simp
  qed
  have first: "e' = ScanExit TooManyFreeRegions"
    if "release (labelListPtr p) (LABEL_SIZE_IN_BLOCKS * (length (labels p) + length (structureLabels p))) p = Inl e'" for e'
    by (rule release_error [OF pool [unfolded t] that])
  have "e \<in> {ScanExit TooManyFreeRegions, NoLabelTable, NoProgramTable}"
  proof (cases "release (labelListPtr p) (LABEL_SIZE_IN_BLOCKS * (length (labels p) + length (structureLabels p))) p")
    case (Inl e')
    with \<open>scanLabelsAndPrograms status p = Inl e\<close> first [OF Inl] show ?thesis by (simp add: scanLabelsAndPrograms_def)
  next
    case r: (Inr p1)
    show ?thesis
    proof (cases "release (programListPtr p1) (PROGRAM_SIZE_IN_BLOCKS * length (programTable p1)) p1")
      case (Inl e')
      with r \<open>scanLabelsAndPrograms status p = Inl e\<close> second [OF r Inl] show ?thesis by (simp add: scanLabelsAndPrograms_def)
    next
      case (Inr p2)
      with r \<open>scanLabelsAndPrograms status p = Inl e\<close> show ?thesis
        by (auto simp: scanLabelsAndPrograms_def Let_def split: prod.splits option.splits)
    qed
  qed
  then show ?thesis using Inl by simp
next
  case (Inr p')
  let ?l = "LABEL_SIZE_IN_BLOCKS * (length (labels p) + length (structureLabels p))"
    and ?n = "PROGRAM_SIZE_IN_BLOCKS * length (programTable p)"
  have t: "table_pieces p + M = ptr_piece (labelListPtr p) ?l + (ptr_piece (programListPtr p) ?n + M)" by (simp add: table_pieces_def)
  obtain p1 where r1: "release (labelListPtr p) ?l p = Inr p1"
    using Inr by (auto simp: scanLabelsAndPrograms_def split: sum.splits)
  obtain m1 where m1: "p1 = with_memory m1 p" using release_pool(3) [OF pool [unfolded t] r1] by blast
  obtain p2 where r2: "release (programListPtr p1) (PROGRAM_SIZE_IN_BLOCKS * length (programTable p1)) p1 = Inr p2"
    using Inr r1 by (auto simp: scanLabelsAndPrograms_def split: sum.splits)
  have pool1: "pool_ok lim (pool p1) (ptr_piece (programListPtr p1) (PROGRAM_SIZE_IN_BLOCKS * length (programTable p1)) + M)"
    using release_pool(1) [OF pool [unfolded t] r1] by (simp add: m1)
  obtain m2 where m2: "p2 = with_memory m2 p1" using release_pool(3) [OF pool1 r2] by blast
  note pool2 = release_pool(1) [OF pool1 r2]
  have ram2: "ram (pool p2) = ram (pool p)" using release_pool(2) [OF pool1 r2] release_pool(2) [OF pool [unfolded t] r1] by simp
  have v2: "code_view p2 = code_view p" using ram2 by (simp add: code_view_def m2 m1)
  have ok2: "code_ok status p2" using ok places_cong [OF v2] by simp
  let ?nl = "length (label_places status p)" and ?ns = "length (structure_places status p)" and ?np = "length (start_places status p)"
  have count: "scan_count status p2 (programBegin p2) 0 0 1 = ((?nl, ?ns, ?np), False)"
    using scan_count_places [OF ok2] places_cong [OF v2] by simp
  obtain q m where a1: "allocC47Blocks (LABEL_SIZE_IN_BLOCKS * (?nl + ?ns)) (memory.truncate p2) = (Some q, m)"
    using Inr r1 r2 by (auto simp: scanLabelsAndPrograms_def count [unfolded One_nat_def] split: sum.splits prod.splits option.splits)
  obtain q' m' where a2: "allocC47Blocks (PROGRAM_SIZE_IN_BLOCKS * ?np) m = (Some q', m')"
    using Inr r1 r2 a1 by (auto simp: scanLabelsAndPrograms_def count [unfolded One_nat_def] split: sum.splits prod.splits option.splits)
  define p4 where "p4 = (with_memory m' p2)\<lparr>labelListPtr := Some q, programListPtr := Some q'\<rparr>"
  have p': "p' = fill_tables status p4"
    using Inr r1 r2 a1 a2 by (simp add: scanLabelsAndPrograms_def count [unfolded One_nat_def] p4_def)
  have pm: "pool_ok lim (pool m) (ptr_piece (Some q) (LABEL_SIZE_IN_BLOCKS * (?nl + ?ns)) + M)" "ram (pool m) = ram (pool p2)"
    using alloc_pool [OF _ a1, of lim M] pool2 by simp_all
  note pm' = alloc_pool [OF pm(1) a2]
  have v4: "code_view p4 = code_view p" using pm'(2) pm(2) v2 by (simp add: code_view_def p4_def)
  have ok4: "code_ok status p4" using ok places_cong [OF v4] by simp
  have cur4: "currentStep p4 = all_steps status p ! i" using cur by (simp add: p4_def m1 m2)
  have "programBegin p \<le> all_steps status p ! i" using all_steps_le_iff [of 0 status p i] i by simp
  moreover have "all_steps status p ! i \<le> firstFreeProgramByte p" by (rule all_steps_below [OF ok i])
  ultimately have inside: "programBegin p4 \<le> currentStep p4" "currentStep p4 \<le> firstFreeProgramByte p4"
    using code_cong [OF v4] by (simp_all add: cur4)
  note f = fill_tables_ok [OF ok4 inside, folded p']
  have v: "code_view p' = code_view p" using f(2) v4 by simp
  have lens: "length (labels p') = ?nl" "length (structureLabels p') = ?ns" "length (programTable p') = ?np"
    using f(1) places_cong [OF v] by (simp_all add: tables_ok_def)
  have "pool_ok lim (pool p') (table_pieces p' + M)"
    using pm'(1) f(3,4,5) by (simp add: table_pieces_def lens p4_def ac_simps)
  moreover have "currentProgramNumber p' = program_at status p i \<and> beginOfCurrentProgram p' = all_steps status p ! start_before status p i"
    using f(9) [of i] i cur4 places_cong [OF v4] code_cong [OF v4] by (simp add: program_at_def start_before_def)
  moreover have "code_ok status p'" using ok places_cong [OF v] by simp
  moreover have "programError p' = programError p" "currentStep p' = currentStep p"
    using f(6,7) by (simp_all add: p4_def m1 m2)
  ultimately show ?thesis using Inr f(1) v by simp
qed

section \<open>A small program memory\<close>

text \<open>LBL 05, a step, END; LBL 'AB', a step, END; the end of all programs.\<close>

definition sample_status :: "nat \<Rightarrow> nat" where
  "sample_status op = (if op = ITM_LBL then 0x200 else 0)"

definition sample :: labelled where
  "sample = programs.extend (memory.extend
     \<lparr>pool = \<lparr>freeMemoryRegions = [\<lparr>blockAddress = 100, sizeInBlocks = 200\<rparr>], allocatedMemoryRegions = [],
              ram = (\<lambda>a. if a = 65000 then 0x85100501 else if a = 65001 then 0x02FD01B2 else if a = 65002 then 0x85104241 else 0xFFFFFFB2)\<rparr>,
      c47MemInBlocks = 0, beginOfProgramMemory = 65000, firstFreeProgramByte = 260013\<rparr>
     (programs.fields [] [] 1 260000 1 260000 0 False False))
     (labelled.fields [] None None 260000 None 0 0 True None)"

lemma sample_simps [simp]:
  "pool sample = \<lparr>freeMemoryRegions = [\<lparr>blockAddress = 100, sizeInBlocks = 200\<rparr>], allocatedMemoryRegions = [],
              ram = (\<lambda>a. if a = 65000 then 0x85100501 else if a = 65001 then 0x02FD01B2 else if a = 65002 then 0x85104241 else 0xFFFFFFB2)\<rparr>"
  "programBegin sample = 260000" "beginOfProgramMemory sample = 65000" "firstFreeProgramByte sample = 260013" "labels sample = []"
  "structureLabels sample = []" "programTable sample = []" "labelListPtr sample = None" "programListPtr sample = None"
  "currentStep sample = 260000" "currentLocalStepNumber sample = 1" "currentProgramNumber sample = 1" "programRunning sample"
  "dynamicMenuItem sample = None" "programError sample = 0"
  by (simp_all add: sample_def memory.defs programs.defs labelled.defs)

lemma sample_bytes [simp]:
  "byte_at sample 260000 = 0x01" "byte_at sample 260001 = 0x05" "byte_at sample 260002 = 0x10" "byte_at sample 260003 = 0x85"
  "byte_at sample 260004 = 0xB2" "byte_at sample 260005 = 0x01" "byte_at sample 260006 = 0xFD" "byte_at sample 260007 = 0x02"
  "byte_at sample 260008 = 0x41" "byte_at sample 260009 = 0x42" "byte_at sample 260010 = 0x10" "byte_at sample 260011 = 0x85"
  "byte_at sample 260012 = 0xB2" "byte_at sample 260013 = 0xFF" "byte_at sample 260014 = 0xFF"
  by (simp_all add: byte_at_def)

lemma sample_next:
  "findNextStep sample_status sample (Some 260000) = Some 260002" "findNextStep sample_status sample (Some 260002) = Some 260003"
  "findNextStep sample_status sample (Some 260003) = Some 260005" "findNextStep sample_status sample (Some 260005) = Some 260010"
  "findNextStep sample_status sample (Some 260010) = Some 260011" "findNextStep sample_status sample (Some 260011) = Some 260013"
  "findNextStep sample_status sample (Some 260013) = None"
  by (simp_all add: findNextStep_def checkOpCodeOfStep_def findKey2ndParam_def programBytesAvailable_def parameters_end_def
      countOpBytes_def paramTailBytes_def sample_status_def Let_def)

lemma sample_steps [simp]: "all_steps sample_status sample = [260000, 260002, 260003, 260005, 260010, 260011, 260013]"
  by (simp add: all_steps_def step_list_simps sample_next)

lemma sample_length [simp]: "code_length sample_status sample = 6"
  by (simp add: code_length_def)

lemma sample_ok: "code_ok sample_status sample"
proof -
  have "i \<le> 6 \<longleftrightarrow> i \<in> {0, 1, 2, 3, 4, 5, 6}" for i :: nat by auto
  then show ?thesis
    by (auto simp: code_ok_def sample_status_def isAtEndOfPrograms_def)
qed

lemma sample_upt: "[0 ..< 6] = [0, 1, 2, 3, 4, 5 :: nat]"
  by (simp add: upt_rec)

lemma sample_places [simp]:
  "label_places sample_status sample = [0, 3]" "structure_places sample_status sample = []" "start_places sample_status sample = [0, 3]"
  "program_of sample_status sample 0 = 1" "program_of sample_status sample 3 = 2"
proof -
  have l: "label_at sample_status sample 0" "\<not> label_at sample_status sample 1" "\<not> label_at sample_status sample 2"
    "label_at sample_status sample 3" "\<not> label_at sample_status sample 4" "\<not> label_at sample_status sample 5"
    by (simp_all add: label_at_def)
  then show "label_places sample_status sample = [0, 3]" by (simp add: label_places_def sample_upt)
  have s: "\<not> structure_at sample_status sample 1" "\<not> structure_at sample_status sample 2"
    "\<not> structure_at sample_status sample 4" "\<not> structure_at sample_status sample 5"
    by (simp_all add: structure_at_def structStepIsJumpTarget_def structOpOfStep_def programBytesAvailable_def structPlainOp_def)
  have "\<not> structure_at sample_status sample 0" "\<not> structure_at sample_status sample 3" using l by (simp_all add: structure_at_def)
  with s show "structure_places sample_status sample = []" by (simp add: structure_places_def sample_upt)
  have e: "\<not> ends_program sample_status sample 0" "\<not> ends_program sample_status sample 1" "ends_program sample_status sample 2"
    "\<not> ends_program sample_status sample 3" "\<not> ends_program sample_status sample 4" "ends_program sample_status sample 5"
    by (simp_all add: ends_program_def isAtEndOfProgram_def checkOpCodeOfStep_def)
  then show "start_places sample_status sample = [0, 3]" by (simp add: start_places_def start_at_def sample_upt)
  have "[0 ..< 3] = [0, 1, 2 :: nat]" by (simp add: upt_rec)
  with e show "program_of sample_status sample 0 = 1" "program_of sample_status sample 3 = 2" by (simp_all add: program_of_def)
qed

lemma sample_pool: "pool_ok 65000 (pool sample) {#}"
  by (simp add: pool_ok_def fl_inv_def r_end_def)

lemma scan_fills_tables_witness:
  "\<exists>p'. scanLabelsAndPrograms sample_status sample = Inr p' \<and> map labelStep (labels p') = [-1, 4] \<and> map labelProgram (labels p') = [1, 2] \<and>
     map programStep (programTable p') = [1, 4] \<and> currentProgramNumber p' = 1 \<and> pool_ok 65000 (pool p') (table_pieces p')"
proof -
  have "release None n sample = Inr sample" for n
    by (simp add: release_def freeC47Blocks_def with_memory_def memory.truncate_def)
  moreover have "scan_count sample_status sample 260000 0 0 (Suc 0) = ((2, 0, 2), False)"
    using scan_count_places [OF sample_ok] by (simp add: numeral_2_eq_2)
  ultimately have "\<exists>p'. scanLabelsAndPrograms sample_status sample = Inr p'"
    by (simp add: scanLabelsAndPrograms_def allocC47Blocks_def freeListAlloc_def TO_PCMEMPTR_def mk_region_def log_allocation_def Let_def)
  then obtain p' where p': "scanLabelsAndPrograms sample_status sample = Inr p'" ..
  have "table_pieces sample + {#} = {#}" by (simp add: table_pieces_def ptr_piece_def)
  with scan_fills_tables [OF sample_ok, of 65000 "{#}" 0] sample_pool
  have r: "tables_ok sample_status p'" "code_view p' = code_view sample"
      "pool_ok 65000 (pool p') (table_pieces p')" "currentProgramNumber p' = program_at sample_status sample 0"
    by (simp_all add: p')
  have "program_at sample_status sample 0 = 1" by (simp add: program_at_def)
  with r places_cong [OF r(2)] p' show ?thesis
    by (simp add: tables_ok_def label_of_def label_entry_def start_of_def)
qed

end
