(* ===== verification/GotoProps.thy ===== *)
theory GotoProps
  imports LabelProps
begin

text \<open>
  GTO: to a step number of all programs, and to a local label, which is the next one after the current
  step or else the first one of the program.
\<close>

section \<open>GTO to a step\<close>

lemma wrap16_small: "i < 65536 \<Longrightarrow> wrap16 (int i) = i"
  by (simp add: wrap16_def)

lemma walk_steps_all:
  "s + k \<le> code_length status m \<Longrightarrow> walk_steps status m k (Some (all_steps status m ! s)) = Some (all_steps status m ! (s + k))"
proof (induction k arbitrary: s)
  case (Suc k)
  then show ?case using all_steps_next [of s status m] by (simp add: Suc.IH [of "Suc s", unfolded add_Suc])
qed simp

lemma start_before_index: "start_before status p i \<le> code_length status p" if "i \<le> code_length status p"
  using start_before_le [of status p i] that by simp

lemma program_start_at:
  assumes "tables_ok status p" "currentProgramNumber p = program_at status p i"
  shows "program_start p = all_steps status p ! start_before status p i"
    and "programStep (programTable p ! (currentProgramNumber p - 1)) = int (Suc (start_before status p i))"
proof -
  have "program_at status p i - 1 < length (start_places status p)" using program_at_bounds [of status p i] by linarith
  then show "program_start p = all_steps status p ! start_before status p i"
      "programStep (programTable p ! (currentProgramNumber p - 1)) = int (Suc (start_before status p i))"
    using assms by (simp_all add: program_start_def tables_ok_def start_of_def start_before_def)
qed

lemma steps_of_program:
  assumes "tables_ok status p" "currentProgramNumber p = program_at status p i" "i \<le> code_length status p"
  shows "steps_of status p = drop (start_before status p i) (all_steps status p)"
  using program_start_at(1) [OF assms(1,2)] all_steps_drop [OF start_before_index [OF assms(3)]] by (simp add: steps_of_def)

lemma program_at_Suc: "\<not> ends_program status p i \<Longrightarrow> program_at status p (Suc i) = program_at status p i"
proof -
  assume "\<not> ends_program status p i"
  then have "Suc i \<notin> set (start_places status p)" by (auto simp: start_places_def start_at_def)
  then have "filter (\<lambda>s. s \<le> Suc i) (start_places status p) = filter (\<lambda>s. s \<le> i) (start_places status p)"
    by (intro filter_cong refl) (metis le_Suc_eq)
  then show ?thesis by (simp add: program_at_def)
qed

text \<open>The program pointer stands on step \<open>i\<close> of all steps.\<close>

definition stands_on :: "(nat \<Rightarrow> nat) \<Rightarrow> nat \<Rightarrow> 'a labelled_scheme \<Rightarrow> bool" where
  "stands_on status i p \<longleftrightarrow> i \<le> code_length status p \<and> currentProgramNumber p = program_at status p i \<and>
     currentLocalStepNumber p = i - start_before status p i + 1 \<and> currentStep p = all_steps status p ! i"

lemma stands_on_pointer: "tables_ok status p \<Longrightarrow> stands_on status i p \<Longrightarrow> pointer_ok status p"
proof -
  assume t: "tables_ok status p" and s: "stands_on status i p"
  let ?s = "start_before status p i"
  have "steps_of status p = drop ?s (all_steps status p)"
    using s by (intro steps_of_program [OF t]) (simp_all add: stands_on_def)
  moreover have "?s \<le> i" by (rule start_before_le)
  moreover from this have "Suc (i - ?s) \<le> Suc (code_length status p) - ?s" using s unfolding stands_on_def by linarith
  ultimately show ?thesis using s length_all_steps [of status p] by (simp add: pointer_ok_def stands_on_def)
qed

text \<open>What GTO does not touch.\<close>

definition same_code :: "'a labelled_scheme \<Rightarrow> 'a labelled_scheme \<Rightarrow> bool" where
  "same_code p p' \<longleftrightarrow> code_view p' = code_view p \<and> pool p' = pool p \<and> labels p' = labels p \<and> structureLabels p' = structureLabels p \<and>
     programTable p' = programTable p \<and> labelListPtr p' = labelListPtr p \<and> programListPtr p' = programListPtr p \<and>
     programRunning p' = programRunning p \<and> programError p' = programError p \<and> dynamicMenuItem p' = dynamicMenuItem p"

lemma same_code_tables: "same_code p p' \<Longrightarrow> tables_ok status p' = tables_ok status p"
  by (rule tables_cong) (simp_all add: same_code_def)

lemma stands_on_cong:
  assumes "code_view p' = code_view p"
  shows "stands_on status i p' \<longleftrightarrow> i \<le> code_length status p \<and> currentProgramNumber p' = program_at status p i \<and>
     currentLocalStepNumber p' = i - start_before status p i + 1 \<and> currentStep p' = all_steps status p ! i"
  using places_cong [OF assms, of status] code_cong [OF assms] by (simp add: stands_on_def program_at_def start_before_def)

lemma display_window_simps [simp]:
  "currentProgramNumber (display_window status p) = currentProgramNumber p" "currentStep (display_window status p) = currentStep p"
  "currentLocalStepNumber (display_window status p) = currentLocalStepNumber p" "labels (display_window status p) = labels p"
  "same_code p (display_window status p)" "code_view (display_window status p) = code_view p"
  by (simp_all add: display_window_def defineFirstDisplayedStep_def Let_def same_code_def code_view_def)

lemma goto_step_arrives:
  assumes ok: "code_ok status p" and t: "tables_ok status p" and i: "i \<le> code_length status p"
  shows "\<exists>p'. goto_step status (int (Suc i)) p = Some p' \<and> same_code p p' \<and> stands_on status i p'"
proof -
  let ?s = "start_before status p i"
  have small: "Suc i < 32768" using ok i by (simp add: code_ok_def)
  define p0 where "p0 = p\<lparr>currentProgramNumber := program_at status p i\<rparr>"
  have v0: "code_view p0 = code_view p" by (simp add: p0_def code_view_def)
  have t0: "tables_ok status p0" using t tables_cong [OF v0] by (simp add: p0_def)
  have at0: "currentProgramNumber p0 = program_at status p0 i" "start_before status p0 i = ?s"
    using places_cong [OF v0] by (simp_all add: p0_def program_at_def start_before_def)
  have d: "defineCurrentProgramFromGlobalStepNumber status (int (Suc i)) p = define_bounds status p0"
    using current_program_of(1) [OF ok t i] program_at_bounds(1) [of status p i]
    by (simp add: defineCurrentProgramFromGlobalStepNumber_def p0_def Let_def)
  have st: "programStep (programTable p0 ! (currentProgramNumber p0 - 1)) = int (Suc ?s)" "program_start p0 = all_steps status p ! ?s"
    using program_start_at [OF t0 at0(1)] at0(2) code_cong [OF v0] by simp_all
  have le: "?s \<le> i" by (rule start_before_le)
  have "\<bar>int (Suc i)\<bar> - \<bar>int (Suc ?s)\<bar> + 1 = int (i - ?s + 1)" using le by simp
  then have local: "wrap16 (\<bar>int (Suc i)\<bar> - \<bar>int (Suc ?s)\<bar> + 1) = i - ?s + 1"
    using small by (simp only:, subst wrap16_small) auto
  have walk: "walk_steps status p (i - ?s) (Some (all_steps status p ! ?s)) = Some (all_steps status p ! i)"
    using walk_steps_all [of ?s "i - ?s" status p] le i by simp
  let ?q = "(define_bounds status p0)\<lparr>currentLocalStepNumber := i - ?s + 1, currentStep := all_steps status p ! i\<rparr>"
  have int16: "to_int16 (int (Suc i)) = int (Suc i)" by (rule to_int16_small) (use small in auto)
  have g: "goto_step status (int (Suc i)) p = Some (display_window status ?q)"
    unfolding goto_step_def Let_def int16 d
    by (simp only: define_bounds_simps st local) (simp add: walk)
  have q: "same_code p ?q"
    by (simp add: same_code_def code_view_def p0_def define_bounds_def)
  have "stands_on status i (display_window status ?q)"
    using i at0 by (subst stands_on_cong [of _ p]) (use q in \<open>simp_all add: same_code_def\<close>, simp add: p0_def)
  moreover have "same_code p (display_window status ?q)"
    using q display_window_simps(5) [of ?q status] by (simp add: same_code_def)
  ultimately show ?thesis using g by blast
qed

section \<open>Local labels\<close>

text \<open>The places in the label table where the search may stop.\<close>

definition candidates :: "(labelList \<Rightarrow> bool) \<Rightarrow> 'a labelled_scheme \<Rightarrow> nat \<Rightarrow> nat list" where
  "candidates matches p j =
     filter (\<lambda>k. labelProgram (labels p ! k) = int (currentProgramNumber p) \<and> matches (labels p ! k)) [j ..< length (labels p)]"

lemma candidates_Cons:
  "j < length (labels p) \<Longrightarrow> candidates matches p j =
     (if labelProgram (labels p ! j) = int (currentProgramNumber p) \<and> matches (labels p ! j)
      then j # candidates matches p (Suc j) else candidates matches p (Suc j))"
  by (simp add: candidates_def upt_conv_Cons)

lemma search_local_candidates:
  assumes sorted: "\<And>a b. a < b \<Longrightarrow> b < length (labels p) \<Longrightarrow> labelProgram (labels p ! a) \<le> labelProgram (labels p ! b)"
  shows "j \<le> length (labels p) \<Longrightarrow> search_local matches p j first (drop j (labels p)) =
    (case first of Some f \<Rightarrow> Some f | None \<Rightarrow> (case candidates matches p j of [] \<Rightarrow> None | c # _ \<Rightarrow> Some c),
     case find (\<lambda>k. local_step p (labels p ! k) > currentLocalStepNumber p) (candidates matches p j) of None \<Rightarrow> 0 | Some k \<Rightarrow> k)"
proof (induction "length (labels p) - j" arbitrary: j first)
  case 0
  then show ?case by (simp add: candidates_def split: option.split)
next
  case (Suc d)
  have j: "j < length (labels p)" using Suc.hyps(2) by simp
  have d: "drop j (labels p) = labels p ! j # drop (Suc j) (labels p)" by (simp add: Cons_nth_drop_Suc j)
  have IH: "search_local matches p (Suc j) f (drop (Suc j) (labels p)) =
    (case f of Some f \<Rightarrow> Some f | None \<Rightarrow> (case candidates matches p (Suc j) of [] \<Rightarrow> None | c # _ \<Rightarrow> Some c),
     case find (\<lambda>k. local_step p (labels p ! k) > currentLocalStepNumber p) (candidates matches p (Suc j)) of None \<Rightarrow> 0 | Some k \<Rightarrow> k)" for f
    using Suc.hyps(1) [of "Suc j" f] Suc.hyps(2) j by simp
  show ?case
  proof (cases "labelProgram (labels p ! j) > int (currentProgramNumber p)")
    case True
    have "candidates matches p j = []"
      unfolding candidates_def filter_empty_conv
    proof
      fix k assume "k \<in> set [j ..< length (labels p)]"
      then have "labelProgram (labels p ! j) \<le> labelProgram (labels p ! k)" using sorted [of j k] by (cases "j = k") auto
      with True show "\<not> (labelProgram (labels p ! k) = int (currentProgramNumber p) \<and> matches (labels p ! k))" by simp
    qed
    then show ?thesis using True by (simp add: d split: option.split)
  next
    case False
    then show ?thesis by (simp add: d candidates_Cons [OF j] IH Let_def split: option.split)
  qed
qed

text \<open>The next match after the current step, else the first match.\<close>

definition next_or_first :: "('b \<Rightarrow> bool) \<Rightarrow> 'b list \<Rightarrow> 'b option" where
  "next_or_first later xs = (case find later xs of Some x \<Rightarrow> Some x | None \<Rightarrow> (case xs of [] \<Rightarrow> None | x # _ \<Rightarrow> Some x))"

lemma next_or_first_map: "next_or_first later (map f xs) = map_option f (next_or_first (later \<circ> f) xs)"
proof -
  have "find later (map f xs) = map_option f (find (later \<circ> f) xs)" by (induction xs) simp_all
  then show ?thesis by (cases "find (later \<circ> f) xs"; cases xs) (simp_all add: next_or_first_def)
qed

lemma next_or_first_cong: "(\<And>x. x \<in> set xs \<Longrightarrow> P x = Q x) \<Longrightarrow> next_or_first P xs = next_or_first Q xs"
  by (simp add: next_or_first_def cong: find_cong)

lemma next_or_first_None [simp]: "next_or_first later xs = None \<longleftrightarrow> xs = []"
  by (auto simp: next_or_first_def split: option.splits list.splits)

lemma next_or_first_member: "next_or_first later xs = Some x \<Longrightarrow> x \<in> set xs"
  by (auto simp: next_or_first_def find_Some_iff split: option.splits list.splits)

lemma find_local_candidates:
  assumes sorted: "\<And>a b. a < b \<Longrightarrow> b < length (labels p) \<Longrightarrow> labelProgram (labels p ! a) \<le> labelProgram (labels p ! b)"
  shows "find_local matches p =
    next_or_first (\<lambda>k. local_step p (labels p ! k) > currentLocalStepNumber p) (candidates matches p 0)"
proof -
  let ?C = "candidates matches p 0" and ?Q = "\<lambda>k. local_step p (labels p ! k) > currentLocalStepNumber p"
  have s: "search_local matches p 0 None (labels p) =
    (case ?C of [] \<Rightarrow> None | c # _ \<Rightarrow> Some c, case find ?Q ?C of None \<Rightarrow> 0 | Some k \<Rightarrow> k)"
    using search_local_candidates [OF sorted, of 0 matches None] by simp
  have zero: "hd ?C = 0" if "find ?Q ?C = Some 0"
  proof -
    have mem: "0 \<in> set ?C" using that by (auto simp: find_Some_iff) (metis nth_mem)
    have "sorted ?C" by (simp add: candidates_def sorted_wrt_filter)
    with mem show ?thesis by (cases ?C) auto
  qed
  show ?thesis
  proof (cases ?C)
    case Nil
    then show ?thesis by (simp add: find_local_def s next_or_first_def)
  next
    case (Cons c cs)
    then show ?thesis using zero
      by (cases "find ?Q ?C") (auto simp: find_local_def s next_or_first_def split: if_splits)
  qed
qed

lemma program_of_mono: "i \<le> j \<Longrightarrow> program_of status m i \<le> program_of status m j"
proof -
  assume "i \<le> j"
  then have "[0 ..< j] = [0 ..< i] @ [i ..< j]" using upt_add_eq_append [of 0 i "j - i"] by simp
  then show ?thesis by (simp add: program_of_def)
qed

text \<open>The LBL steps of the current program with this local label.\<close>

definition goto_places :: "(nat \<Rightarrow> nat) \<Rightarrow> nat \<Rightarrow> 'a labelled_scheme \<Rightarrow> nat list" where
  "goto_places status label p =
     filter (\<lambda>i. program_of status p i = currentProgramNumber p \<and> byte_at p (all_steps status p ! i + 1) = label)
       (label_places status p)"

lemma labels_nth:
  assumes "tables_ok status p" "k < length (labels p)"
  shows "labels p ! k = label_of status p (label_places status p ! k)" "label_places status p ! k < code_length status p"
    "label_at status p (label_places status p ! k)"
proof -
  have k: "k < length (label_places status p)" using assms by (simp add: tables_ok_def)
  then show "labels p ! k = label_of status p (label_places status p ! k)" using assms(1) by (simp add: tables_ok_def)
  have "label_places status p ! k \<in> set (label_places status p)" using k by (rule nth_mem)
  then show "label_places status p ! k < code_length status p" "label_at status p (label_places status p ! k)"
    by (auto simp: label_places_def)
qed

lemma label_program [simp]: "labelProgram (label_of status p i) = int (program_of status p i)"
  by (simp add: label_of_def label_entry_def)

lemma labels_sorted:
  assumes "tables_ok status p" "a < b" "b < length (labels p)"
  shows "labelProgram (labels p ! a) \<le> labelProgram (labels p ! b)"
proof -
  have len: "length (labels p) = length (label_places status p)" using assms(1) by (simp add: tables_ok_def)
  have "sorted (label_places status p)" by (simp add: label_places_def sorted_wrt_filter)
  then have "label_places status p ! a \<le> label_places status p ! b" using assms len by (simp add: sorted_nth_mono)
  then show ?thesis using labels_nth [OF assms(1)] assms by (simp add: program_of_mono)
qed

lemma local_label_of:
  assumes "label_at status p i" "label \<le> LAST_LOCAL_LABEL"
  shows "local_label label p (label_of status p i) \<longleftrightarrow> byte_at p (all_steps status p ! i + 1) = label"
  using assms by (auto simp: local_label_def label_of_def label_entry_def label_at_def)

lemma local_step_of:
  assumes ok: "code_ok status p" and t: "tables_ok status p" and k: "stands_on status k p"
    and i: "i < code_length status p" "program_of status p i = currentProgramNumber p" and l: "labelStep l = - int (Suc i)"
  shows "local_step p l = i - start_before status p k + 1" "start_before status p k = start_before status p i"
    "start_before status p k \<le> i" "wrap16 (- labelStep l - programStep (programTable p ! (currentProgramNumber p - 1)) + 2) = Suc i - start_before status p k + 1"
proof -
  have at: "program_at status p i = program_at status p k" using program_at_of [OF i(1)] i(2) k by (simp add: stands_on_def)
  then show s: "start_before status p k = start_before status p i" by (simp add: start_before_def)
  show le: "start_before status p k \<le> i" using start_before_le [of status p i] s by simp
  have small: "code_length status p < 32767" using ok by (simp add: code_ok_def)
  have start: "programStep (programTable p ! (currentProgramNumber p - 1)) = int (Suc (start_before status p k))"
    using k by (intro program_start_at(2) [OF t]) (simp add: stands_on_def)
  then have "local_step p l = wrap16 (int (i - start_before status p k + 1))" using l le by (simp add: local_step_def add.commute)
  then show "local_step p l = i - start_before status p k + 1"
    using i(1) small by (simp add: wrap16_small del: of_nat_add of_nat_Suc)
  have "- labelStep l - programStep (programTable p ! (currentProgramNumber p - 1)) + 2 = int (Suc i - start_before status p k + 1)"
    using l le start by simp
  then show "wrap16 (- labelStep l - programStep (programTable p ! (currentProgramNumber p - 1)) + 2) = Suc i - start_before status p k + 1"
    using i(1) small by (simp only:) (simp add: wrap16_small del: of_nat_add of_nat_Suc)
qed

lemma label_step_neg: "labelStep (label_of status p i) < 0 \<Longrightarrow> labelStep (label_of status p i) = - int (Suc i)"
  by (auto simp: label_of_def label_entry_def split: if_splits)

lemma find_local_places:
  assumes ok: "code_ok status p" and t: "tables_ok status p" and k: "stands_on status k p" and lbl: "label \<le> LAST_LOCAL_LABEL"
  shows "map_option (\<lambda>j. label_places status p ! j) (find_local (local_label label p) p) = next_or_first (\<lambda>i. k < i) (goto_places status label p)"
    and "find_local (local_label label p) p = Some j \<Longrightarrow> j < length (labels p)"
proof -
  let ?C = "candidates (local_label label p) p 0" and ?g = "\<lambda>j. label_places status p ! j"
  have len: "length (labels p) = length (label_places status p)" using t by (simp add: tables_ok_def)
  have test: "labelProgram (labels p ! j) = int (currentProgramNumber p) \<and> local_label label p (labels p ! j) \<longleftrightarrow>
      program_of status p (?g j) = currentProgramNumber p \<and> byte_at p (all_steps status p ! ?g j + 1) = label"
    if "j < length (labels p)" for j
    using labels_nth [OF t that] local_label_of [OF labels_nth(3) [OF t that] lbl] by auto
  let ?Q = "\<lambda>i. program_of status p i = currentProgramNumber p \<and> byte_at p (all_steps status p ! i + 1) = label"
  have C: "?C = filter (?Q \<circ> ?g) [0 ..< length (labels p)]"
    unfolding candidates_def by (rule filter_cong) (use test in \<open>simp_all add: o_def\<close>)
  have g: "map ?g [0 ..< length (labels p)] = label_places status p" by (simp add: len map_nth)
  have "filter ?Q (map ?g [0 ..< length (labels p)]) = map ?g (filter (?Q \<circ> ?g) [0 ..< length (labels p)])" by (rule filter_map)
  then have places: "map ?g ?C = goto_places status label p" by (simp only: goto_places_def C g)
  have later: "local_step p (labels p ! j) > currentLocalStepNumber p \<longleftrightarrow> k < ?g j" if "j \<in> set ?C" for j
  proof -
    have j: "j < length (labels p)" "program_of status p (?g j) = currentProgramNumber p" "labelStep (label_of status p (?g j)) < 0"
      using that labels_nth [OF t] by (auto simp: candidates_def local_label_def)
    note ls = local_step_of [OF ok t k labels_nth(2) [OF t j(1)] j(2) label_step_neg [OF j(3)]]
    have "start_before status p k \<le> k" "start_before status p k \<le> ?g j" using start_before_le [of status p] ls(2) by metis+
    then show ?thesis using ls(1) labels_nth(1) [OF t j(1)] k by (auto simp: stands_on_def)
  qed
  have f: "find_local (local_label label p) p = next_or_first (\<lambda>j. local_step p (labels p ! j) > currentLocalStepNumber p) ?C"
    by (rule find_local_candidates) (rule labels_sorted [OF t])
  also have "\<dots> = next_or_first (\<lambda>j. k < ?g j) ?C" by (rule next_or_first_cong) (rule later)
  finally show "map_option ?g (find_local (local_label label p) p) = next_or_first (\<lambda>i. k < i) (goto_places status label p)"
    by (simp add: places [symmetric] next_or_first_map o_def)
  show "find_local (local_label label p) p = Some j \<Longrightarrow> j < length (labels p)"
    using next_or_first_member [of _ ?C j] by (auto simp: f candidates_def)
qed

text \<open>C36. GTO with a local label, from any step, whether a program runs or not: the pointer arrives on the
  next LBL step of the current program with that label, or on the first one if none follows; without any the
  error is "label not found" and the pointer stays.  The step, the step number and the program number agree,
  and the program and the tables are unchanged.\<close>

theorem fnGoto_local_label:
  assumes ok: "code_ok status p" and t: "tables_ok status p" and k: "stands_on status k p"
    and menu: "dynamicMenuItem p = None" and lbl: "label \<le> LAST_LOCAL_LABEL"
  shows "case next_or_first (\<lambda>i. k < i) (goto_places status label p) of
      None \<Rightarrow> fnGoto status label p = Some (p\<lparr>programError := ERROR_LABEL_NOT_FOUND\<rparr>)
    | Some i \<Rightarrow> \<exists>p'. fnGoto status label p = Some p' \<and> stands_on status i p' \<and> pointer_ok status p' \<and> same_code p p' \<and>
        currentProgramNumber p' = currentProgramNumber p"
proof (cases "find_local (local_label label p) p")
  case None
  then show ?thesis using find_local_places(1) [OF ok t k lbl] menu lbl by (simp add: fnGoto_def)
next
  case (Some j)
  define i where "i = label_places status p ! j"
  have n: "next_or_first (\<lambda>i. k < i) (goto_places status label p) = Some i"
    using find_local_places(1) [OF ok t k lbl] Some by (simp add: i_def)
  have j: "j < length (labels p)" by (rule find_local_places(2) [OF ok t k lbl Some])
  note lj = labels_nth [OF t j, folded i_def]
  have mem: "i \<in> set (goto_places status label p)" by (rule next_or_first_member [OF n])
  then have i: "program_of status p i = currentProgramNumber p" "byte_at p (all_steps status p ! i + 1) = label"
    by (simp_all add: goto_places_def)
  have step: "labelStep (label_of status p i) = - int (Suc i)" and ptr: "labelPointer (label_of status p i) = all_steps status p ! i + 1"
    using i(2) lbl by (simp_all add: label_of_def label_entry_def)
  have at: "program_at status p i = currentProgramNumber p" using program_at_of [OF lj(2)] i(1) by simp
  have "\<exists>p'. fnGoto status label p = Some p' \<and> stands_on status i p' \<and> same_code p p'"
  proof (cases "programRunning p")
    case True
    let ?p = "p\<lparr>currentLocalStepNumber := local_step p (labels p ! j), currentStep := labelPointer (labels p ! j) - 1\<rparr>"
    have v: "code_view ?p = code_view p" by (simp add: code_view_def)
    have "stands_on status i ?p"
      using local_step_of [OF ok t k lj(2) i(1)] step ptr lj at
      by (subst stands_on_cong [OF v]) simp
    moreover have "same_code p ?p" by (simp add: same_code_def code_view_def)
    moreover have "fnGoto status label p = Some ?p" using menu lbl Some True by (simp add: fnGoto_def Let_def)
    ultimately show ?thesis by blast
  next
    case False
    have "fnGoto status label p = goto_step status (int (Suc i)) p"
      using menu lbl Some False step lj(1) by (simp add: fnGoto_def goToGlobalStep_def add.commute)
    with goto_step_arrives [OF ok t, of i] lj(2) show ?thesis by auto
  qed
  then obtain p' where p': "fnGoto status label p = Some p'" "stands_on status i p'" "same_code p p'" by blast
  have v: "code_view p' = code_view p" using p'(3) by (simp add: same_code_def)
  have "currentProgramNumber p' = currentProgramNumber p" using p'(2) at stands_on_cong [OF v, of status i] by simp
  moreover have "pointer_ok status p'"
    using stands_on_pointer p'(2) same_code_tables [OF p'(3)] t by blast
  ultimately show ?thesis using n p' by auto
qed

text \<open>From the second step of the first program back to its LBL 05.\<close>

definition sample_filled :: labelled where
  "sample_filled = sample\<lparr>labels := map (label_of sample_status sample) [0, 3], programTable := map (start_of sample_status sample) [0, 3],
     currentStep := 260002, currentLocalStepNumber := 2\<rparr>"

lemma sample_filled_view: "code_view sample_filled = code_view sample"
  by (simp add: sample_filled_def code_view_def)

lemma sample_filled_ok: "code_ok sample_status sample_filled" "tables_ok sample_status sample_filled"
    "stands_on sample_status 1 sample_filled" "goto_places sample_status 5 sample_filled = [0]"
proof -
  note c = places_cong [OF sample_filled_view, of sample_status] code_cong [OF sample_filled_view]
  show "code_ok sample_status sample_filled" using sample_ok c by simp
  show "tables_ok sample_status sample_filled" by (simp add: tables_ok_def c) (simp add: sample_filled_def)
  have "program_at sample_status sample 1 = 1" "start_before sample_status sample 1 = 0"
    by (simp_all add: program_at_def start_before_def)
  then show "stands_on sample_status 1 sample_filled"
    by (simp add: stands_on_cong [OF sample_filled_view]) (simp add: sample_filled_def)
  show "goto_places sample_status 5 sample_filled = [0]"
    by (simp add: goto_places_def c) (simp add: sample_filled_def)
qed

lemma fnGoto_local_label_witness:
  "\<exists>p'. fnGoto sample_status 5 sample_filled = Some p' \<and> stands_on sample_status 0 p' \<and> currentProgramNumber p' = 1"
  using fnGoto_local_label [OF sample_filled_ok(1-3), of 5] sample_filled_ok(4)
  by (auto simp: next_or_first_def) (auto simp: sample_filled_def)

end
