(* ===== verification/StructProps.thy ===== *)
theory StructProps
  imports Structures GotoProps
begin

text \<open>
  The commands of structures over the list of steps: the search through the label table finds the nearest
  step with the number and the operation, in the program of the pointer and never around its ends.
\<close>

section \<open>The nearest partner\<close>

text \<open>The steps of the current program with the number \<open>n\<close> and one of the operations \<open>ops\<close>.\<close>

definition struct_places :: "(nat \<Rightarrow> nat) \<Rightarrow> nat \<Rightarrow> nat set \<Rightarrow> 'a labelled_scheme \<Rightarrow> nat list" where
  "struct_places status n ops p =
     filter (\<lambda>i. program_of status p i = currentProgramNumber p \<and> byte_at p (all_steps status p ! i + 2) = n \<and>
        structOpOfStep p (Some (all_steps status p ! i)) \<in> ops) (structure_places status p)"

definition next_partner :: "(nat \<Rightarrow> nat) \<Rightarrow> nat \<Rightarrow> nat set \<Rightarrow> nat \<Rightarrow> 'a labelled_scheme \<Rightarrow> nat option" where
  "next_partner status n ops k p = find (\<lambda>i. k < i) (struct_places status n ops p)"

definition last_partner :: "(nat \<Rightarrow> nat) \<Rightarrow> nat \<Rightarrow> nat set \<Rightarrow> nat \<Rightarrow> 'a labelled_scheme \<Rightarrow> nat option" where
  "last_partner status n ops k p =
     (case filter (\<lambda>i. i < k) (struct_places status n ops p) of [] \<Rightarrow> None | i # is \<Rightarrow> Some (last (i # is)))"

text \<open>The pointer moved to step \<open>i\<close> of all steps.\<close>

definition step_at :: "(nat \<Rightarrow> nat) \<Rightarrow> nat \<Rightarrow> 'a labelled_scheme \<Rightarrow> 'a labelled_scheme" where
  "step_at status i p = p\<lparr>currentLocalStepNumber := i - start_before status p i + 1, currentStep := all_steps status p ! i\<rparr>"

lemma step_at_stands:
  assumes "i \<le> code_length status p" "program_at status p i = currentProgramNumber p"
  shows "stands_on status i (step_at status i p)" "code_view (step_at status i p) = code_view p" "same_code p (step_at status i p)"
proof -
  show v: "code_view (step_at status i p) = code_view p" by (simp add: step_at_def code_view_def)
  show "stands_on status i (step_at status i p)"
    using assms by (simp add: stands_on_cong [OF v]) (simp add: step_at_def)
  show "same_code p (step_at status i p)" using v by (simp add: same_code_def step_at_def)
qed

lemma find_map: "find Q (map g xs) = map_option g (find (Q \<circ> g) xs)"
  by (induction xs) auto

lemma find_member: "find Q xs = Some x \<Longrightarrow> x \<in> set xs"
  by (auto simp: find_Some_iff)

lemma partner_loop_below:
  assumes prog: "\<And>j. j < length ls \<Longrightarrow> labelProgram (ls ! j) = int (program_of status p (sp ! j))"
    and sorted: "\<And>i j. i \<le> j \<Longrightarrow> j < length ls \<Longrightarrow> program_of status p (sp ! i) \<le> program_of status p (sp ! j)"
    and step: "\<And>j. j < length ls \<Longrightarrow> program_of status p (sp ! j) = currentProgramNumber p \<Longrightarrow>
      local_step p (ls ! j) \<le> currentLocalStepNumber p \<longleftrightarrow> sp ! j \<le> k"
    and m: "\<And>j. j < length ls \<Longrightarrow> matches (ls ! j) \<longleftrightarrow> Q (sp ! j)"
  shows "j \<le> length ls \<Longrightarrow> partner_loop matches True p (nl + j) best (drop j ls) =
    (case find (\<lambda>j. k < sp ! j) (filter (\<lambda>j. program_of status p (sp ! j) = currentProgramNumber p \<and> Q (sp ! j)) [j ..< length ls]) of
       None \<Rightarrow> best | Some j \<Rightarrow> nl + j)"
proof (induction "length ls - j" arbitrary: j)
  case (Suc d)
  have j: "j < length ls" using Suc.hyps(2) by simp
  have d: "drop j ls = ls ! j # drop (Suc j) ls" by (simp add: Cons_nth_drop_Suc j)
  have u: "[j ..< length ls] = j # [Suc j ..< length ls]" using j by (simp add: upt_conv_Cons)
  note IH = Suc.hyps(1) [of "Suc j", unfolded add_Suc_right]
  show ?case
  proof (cases "program_of status p (sp ! j) > currentProgramNumber p")
    case True
    have "program_of status p (sp ! i) \<noteq> currentProgramNumber p" if "j \<le> i" "i < length ls" for i
      using sorted [OF that] True by simp
    then have "filter (\<lambda>j. program_of status p (sp ! j) = currentProgramNumber p \<and> Q (sp ! j)) [j ..< length ls] = []"
      by (simp add: filter_empty_conv)
    then show ?thesis using True prog [OF j] by (simp add: d)
  next
    case False
    then show ?thesis using IH Suc.hyps(2) j step [OF j] m [OF j] prog [OF j] by (auto simp: d u split: option.split)
  qed
qed simp

lemma partner_loop_above:
  assumes prog: "\<And>j. j < length ls \<Longrightarrow> labelProgram (ls ! j) = int (program_of status p (sp ! j))"
    and sorted: "\<And>i j. i < j \<Longrightarrow> j < length ls \<Longrightarrow> sp ! i < sp ! j"
    and step: "\<And>j. j < length ls \<Longrightarrow> program_of status p (sp ! j) = currentProgramNumber p \<Longrightarrow>
      local_step p (ls ! j) \<ge> currentLocalStepNumber p \<longleftrightarrow> k \<le> sp ! j"
    and m: "\<And>j. j < length ls \<Longrightarrow> matches (ls ! j) \<longleftrightarrow> Q (sp ! j)"
  shows "j \<le> length ls \<Longrightarrow> partner_loop matches False p (nl + j) best (drop j ls) =
    (case filter (\<lambda>j. sp ! j < k) (filter (\<lambda>j. program_of status p (sp ! j) = currentProgramNumber p \<and> Q (sp ! j)) [j ..< length ls]) of
       [] \<Rightarrow> best | i # is \<Rightarrow> nl + last (i # is))"
proof (induction "length ls - j" arbitrary: j best)
  case (Suc d)
  have j: "j < length ls" using Suc.hyps(2) by simp
  have d: "drop j ls = ls ! j # drop (Suc j) ls" by (simp add: Cons_nth_drop_Suc j)
  have u: "[j ..< length ls] = j # [Suc j ..< length ls]" using j by (simp add: upt_conv_Cons)
  note IH = Suc.hyps(1) [of "Suc j", unfolded add_Suc_right]
  have ascend: "sp ! j \<le> sp ! i" if "j \<le> i" "i < length ls" for i using sorted [of j i] that by (cases "i = j") auto
  have empty: "filter (\<lambda>j. sp ! j < k) (filter (\<lambda>j. program_of status p (sp ! j) = currentProgramNumber p \<and> Q (sp ! j)) [j ..< length ls]) = []"
    if "\<And>i. j \<le> i \<Longrightarrow> i < length ls \<Longrightarrow> program_of status p (sp ! i) = currentProgramNumber p \<Longrightarrow> k \<le> sp ! i"
    using that by (force simp: filter_empty_conv not_less)
  consider (beyond) "program_of status p (sp ! j) > currentProgramNumber p" | (other) "program_of status p (sp ! j) < currentProgramNumber p"
    | (late) "program_of status p (sp ! j) = currentProgramNumber p" "k \<le> sp ! j"
    | (early) "program_of status p (sp ! j) = currentProgramNumber p" "\<not> k \<le> sp ! j" by linarith
  then show ?case
  proof cases
    case beyond
    have "program_of status p (sp ! i) \<noteq> currentProgramNumber p" if "j \<le> i" "i < length ls" for i
      using program_of_mono [OF ascend [OF that], of status p] beyond by simp
    then show ?thesis using empty beyond prog [OF j] by (simp add: d)
  next
    case other
    then show ?thesis using IH Suc.hyps(2) j prog [OF j] by (simp add: d u)
  next
    case late
    have "k \<le> sp ! i" if "j \<le> i" "i < length ls" for i using ascend [OF that] late by simp
    then show ?thesis using empty late prog [OF j] step [OF j] by (simp add: d)
  next
    case early
    then show ?thesis using IH Suc.hyps(2) j prog [OF j] step [OF j] m [OF j]
      by (auto simp: d u split: list.split)
  qed
qed simp


lemma structures_nth:
  assumes "tables_ok status p" "j < length (structureLabels p)"
  shows "structureLabels p ! j = structure_of status p (structure_places status p ! j)" "structure_places status p ! j < code_length status p"
    "structure_at status p (structure_places status p ! j)" "j < length (structure_places status p)"
proof -
  show j: "j < length (structure_places status p)" using assms by (simp add: tables_ok_def)
  then show "structureLabels p ! j = structure_of status p (structure_places status p ! j)" using assms(1) by (simp add: tables_ok_def)
  have "structure_places status p ! j \<in> set (structure_places status p)" using j by (rule nth_mem)
  then show "structure_places status p ! j < code_length status p" "structure_at status p (structure_places status p ! j)"
    by (auto simp: structure_places_def)
qed

lemma structure_of_simps [simp]:
  "labelProgram (structure_of status p i) = int (program_of status p i)" "labelStep (structure_of status p i) = - int (Suc i)"
  "labelPointer (structure_of status p i) = all_steps status p ! i + 2"
  "labelInstructionPointer (structure_of status p i) = all_steps status p ! Suc i"
  by (simp_all add: structure_of_def structure_entry_def)

lemma structure_places_strict: "sorted_wrt (<) (structure_places status p)"
  by (simp add: structure_places_def sorted_wrt_filter)

lemma structFindPartner_nearest:
  assumes ok: "code_ok status p" and t: "tables_ok status p" and k: "stands_on status k p"
    and ops: "ops = (if secondOp = 0 then {firstOp} else {firstOp, secondOp})" and nl: "nl = length (labels p)"
  shows "(case next_partner status n ops k p of None \<Rightarrow> structFindPartner n firstOp secondOp True p = length (label_list p)
      | Some i \<Rightarrow> \<exists>j < length (structureLabels p). structFindPartner n firstOp secondOp True p = nl + j \<and> structure_places status p ! j = i)"
    and "(case last_partner status n ops k p of None \<Rightarrow> structFindPartner n firstOp secondOp False p = length (label_list p)
      | Some i \<Rightarrow> \<exists>j < length (structureLabels p). structFindPartner n firstOp secondOp False p = nl + j \<and> structure_places status p ! j = i)"
proof -
  let ?sp = "structure_places status p" and ?ls = "structureLabels p"
  let ?Q = "\<lambda>i. byte_at p (all_steps status p ! i + 2) = n \<and> structOpOfStep p (Some (all_steps status p ! i)) \<in> ops"
  let ?R = "\<lambda>i. program_of status p i = currentProgramNumber p \<and> ?Q i"
  have len: "length ?ls = length ?sp" using t by (simp add: tables_ok_def)
  have prog: "labelProgram (?ls ! j) = int (program_of status p (?sp ! j))" if "j < length ?ls" for j
    using structures_nth(1) [OF t that] by simp
  have strict: "?sp ! i < ?sp ! j" if "i < j" "j < length ?ls" for i j
    using structure_places_strict [of status p] that len by (simp add: sorted_wrt_nth_less)
  have mono: "program_of status p (?sp ! i) \<le> program_of status p (?sp ! j)" if "i \<le> j" "j < length ?ls" for i j
    using strict [of i j] that by (cases "i = j") (simp_all add: program_of_mono)
  have here: "currentLocalStepNumber p = k - start_before status p k + 1" "start_before status p k \<le> k"
    using k start_before_le by (simp_all add: stands_on_def)
  have step: "local_step p (?ls ! j) = ?sp ! j - start_before status p k + 1" "start_before status p k \<le> ?sp ! j"
    if "j < length ?ls" "program_of status p (?sp ! j) = currentProgramNumber p" for j
    using local_step_of(1,3) [OF ok t k structures_nth(2) [OF t that(1)] that(2), of "?ls ! j"] structures_nth(1) [OF t that(1)] by simp_all
  have le: "local_step p (?ls ! j) \<le> currentLocalStepNumber p \<longleftrightarrow> ?sp ! j \<le> k"
    and ge: "local_step p (?ls ! j) \<ge> currentLocalStepNumber p \<longleftrightarrow> k \<le> ?sp ! j"
    if "j < length ?ls" "program_of status p (?sp ! j) = currentProgramNumber p" for j
    using step [OF that] here by auto
  have m: "partner_matches n firstOp secondOp p (?ls ! j) \<longleftrightarrow> ?Q (?sp ! j)" if "j < length ?ls" for j
    using structures_nth(1) [OF t that] by (auto simp: partner_matches_def structStepIs_def ops)
  have map: "struct_places status n ops p = map ((!) ?sp) (filter (?R \<circ> (!) ?sp) [0 ..< length ?ls])"
  proof -
    have "?sp = map ((!) ?sp) [0 ..< length ?ls]" using len map_nth [of ?sp] by simp
    then have "filter ?R ?sp = filter ?R (map ((!) ?sp) [0 ..< length ?ls])" by simp
    then show ?thesis by (simp add: struct_places_def filter_map)
  qed
  have R: "(?R \<circ> (!) ?sp) = (\<lambda>j. program_of status p (?sp ! j) = currentProgramNumber p \<and> ?Q (?sp ! j))" by (simp add: fun_eq_iff)
  note loops = partner_loop_below [of ?ls status p ?sp k "partner_matches n firstOp secondOp p" ?Q 0 nl "length (label_list p)", OF prog mono le m le0]
    partner_loop_above [of ?ls status p ?sp k "partner_matches n firstOp secondOp p" ?Q 0 nl "length (label_list p)", OF prog strict ge m le0]
  have F: "structFindPartner n firstOp secondOp below p =
      partner_loop (partner_matches n firstOp secondOp p) below p (nl + 0) (length (label_list p)) (drop 0 ?ls)" for below
    by (simp add: structFindPartner_def nl)
  define J where "J = filter (?R \<circ> (!) ?sp) [0 ..< length ?ls]"
  have J: "set J \<subseteq> {..< length ?ls}" by (auto simp: J_def)
  have below: "structFindPartner n firstOp secondOp True p =
      (case find ((\<lambda>i. k < i) \<circ> (!) ?sp) J of None \<Rightarrow> length (label_list p) | Some j \<Rightarrow> nl + j)"
    by (simp only: F loops R o_def J_def)
  show "case next_partner status n ops k p of None \<Rightarrow> structFindPartner n firstOp secondOp True p = length (label_list p)
      | Some i \<Rightarrow> \<exists>j < length (structureLabels p). structFindPartner n firstOp secondOp True p = nl + j \<and> structure_places status p ! j = i"
    unfolding next_partner_def map J_def [symmetric] find_map below
    using J find_member [of "(\<lambda>i. k < i) \<circ> (!) ?sp" J]
    by (cases "find ((\<lambda>i. k < i) \<circ> (!) ?sp) J") auto
  have above: "structFindPartner n firstOp secondOp False p =
      (case filter (\<lambda>j. ?sp ! j < k) J of [] \<Rightarrow> length (label_list p) | i # is \<Rightarrow> nl + last (i # is))"
    by (simp only: F loops R J_def)
  have bound: "last (filter (\<lambda>j. ?sp ! j < k) J) < length ?ls" if "filter (\<lambda>j. ?sp ! j < k) J \<noteq> []"
    using last_in_set [OF that] J by auto
  have "filter (\<lambda>i. i < k) (struct_places status n ops p) = map ((!) ?sp) (filter (\<lambda>j. ?sp ! j < k) J)"
    unfolding map J_def [symmetric] by (simp only: filter_map o_def)
  then show "case last_partner status n ops k p of None \<Rightarrow> structFindPartner n firstOp secondOp False p = length (label_list p)
      | Some i \<Rightarrow> \<exists>j < length (structureLabels p). structFindPartner n firstOp secondOp False p = nl + j \<and> structure_places status p ! j = i"
    unfolding last_partner_def above using bound
    by (cases "filter (\<lambda>j. ?sp ! j < k) J") (auto simp: last_map)
qed

section \<open>The jumps\<close>

lemma structure_not_end: "structStepIsJumpTarget m (Some a) \<Longrightarrow> \<not> isAtEndOfProgram m (Some a)"
  by (auto simp: structStepIsJumpTarget_def isAtEndOfProgram_def checkOpCodeOfStep_def structOpOfStep_def structPlainOp_def split: if_splits)

lemma struct_places_member:
  assumes "i \<in> set (struct_places status n ops p)"
  shows "program_of status p i = currentProgramNumber p" "i < code_length status p" "program_at status p (Suc i) = currentProgramNumber p"
    "program_at status p i = currentProgramNumber p" "structOpOfStep p (Some (all_steps status p ! i)) \<in> ops" "byte_at p (all_steps status p ! i + 2) = n"
proof -
  show i: "program_of status p i = currentProgramNumber p" "i < code_length status p" "structOpOfStep p (Some (all_steps status p ! i)) \<in> ops"
      "byte_at p (all_steps status p ! i + 2) = n"
    using assms by (auto simp: struct_places_def structure_places_def)
  then show at: "program_at status p i = currentProgramNumber p" by (simp add: program_at_of)
  have "\<not> ends_program status p i"
    using assms structure_not_end by (auto simp: struct_places_def structure_places_def structure_at_def ends_program_def)
  then show "program_at status p (Suc i) = currentProgramNumber p" using at by (simp add: program_at_Suc)
qed

lemma structJumpToLabel_lands:
  assumes ok: "code_ok status p" and t: "tables_ok status p" and k: "stands_on status k p"
    and j: "j < length (structureLabels p)" and i: "structure_places status p ! j \<in> set (struct_places status n ops p)"
  shows "structJumpToLabel (length (labels p) + j) p = Some (step_at status (Suc (structure_places status p ! j)) p)"
proof -
  let ?i = "structure_places status p ! j"
  note m = struct_places_member [OF i]
  have same: "start_before status p (Suc ?i) = start_before status p ?i" using m(3,4) by (simp add: start_before_def)
  note l = local_step_of(2,4) [OF ok t k m(2,1), of "structure_of status p ?i"]
  show ?thesis using structures_nth(1) [OF t j] j l same
    by (simp add: structJumpToLabel_def label_list_def nth_append step_at_def Let_def)
qed

lemma next_partner_member: "next_partner status n ops k p = Some i \<Longrightarrow> i \<in> set (struct_places status n ops p) \<and> k < i"
  by (auto simp: next_partner_def find_Some_iff)

lemma last_partner_member:
  assumes "last_partner status n ops k p = Some i"
  shows "i \<in> set (struct_places status n ops p) \<and> i < k"
proof -
  have "filter (\<lambda>i. i < k) (struct_places status n ops p) \<noteq> [] \<and> i = last (filter (\<lambda>i. i < k) (struct_places status n ops p))"
    using assms by (auto simp: last_partner_def split: list.splits)
  then have "i \<in> set (filter (\<lambda>i. i < k) (struct_places status n ops p))" by (metis last_in_set)
  then show ?thesis by simp
qed

lemma structJumpToPartner_below:
  assumes "code_ok status p" "tables_ok status p" "stands_on status k p"
  shows "structJumpToPartner n firstOp secondOp True p =
    map_option (\<lambda>i. step_at status (Suc i) p) (next_partner status n (if secondOp = 0 then {firstOp} else {firstOp, secondOp}) k p)"
proof (cases "next_partner status n (if secondOp = 0 then {firstOp} else {firstOp, secondOp}) k p")
  case None
  then show ?thesis using structFindPartner_nearest(1) [OF assms refl refl, of n firstOp secondOp]
    by (simp add: structJumpToPartner_def structJumpToLabel_def del: split_paired_Ex)
next
  case (Some i)
  then obtain j where j: "j < length (structureLabels p)" "structure_places status p ! j = i"
      "structFindPartner n firstOp secondOp True p = length (labels p) + j"
    using structFindPartner_nearest(1) [OF assms refl refl, of n firstOp secondOp] by auto
  have "i \<in> set (struct_places status n (if secondOp = 0 then {firstOp} else {firstOp, secondOp}) p)"
    using next_partner_member [OF Some] by blast
  from structJumpToLabel_lands [OF assms j(1), of n, unfolded j(2), OF this] Some j(3) show ?thesis
    by (simp add: structJumpToPartner_def)
qed

lemma jump_back_nearest:
  assumes "code_ok status p" "tables_ok status p" "stands_on status k p"
  shows "jump_back n opener closer p =
    (case last_partner status n {opener} k p of
       Some i \<Rightarrow> (case last_partner status n {closer} k p of
           Some j \<Rightarrow> if j < i then step_at status (Suc i) p else p\<lparr>programError := ERROR_STRUCTURE_INVALID\<rparr>
         | None \<Rightarrow> step_at status (Suc i) p)
     | None \<Rightarrow> p\<lparr>programError := ERROR_STRUCTURE_INVALID\<rparr>)"
proof -
  have found: "case last_partner status n {op} k p of None \<Rightarrow> structFindPartner n op 0 False p = length (label_list p)
      | Some i \<Rightarrow> structFindPartner n op 0 False p < length (label_list p) \<and>
          label_list p ! structFindPartner n op 0 False p = structure_of status p i \<and>
          structJumpToLabel (structFindPartner n op 0 False p) p = Some (step_at status (Suc i) p)" for op
  proof (cases "last_partner status n {op} k p")
    case None
    then show ?thesis using structFindPartner_nearest(2) [OF assms refl refl, of n op 0] by simp
  next
    case (Some i)
    then obtain j where j: "j < length (structureLabels p)" "structure_places status p ! j = i"
        "structFindPartner n op 0 False p = length (labels p) + j"
      using structFindPartner_nearest(2) [OF assms refl refl, of n op 0] by auto
    have "i \<in> set (struct_places status n {op} p)" using last_partner_member [OF Some] by blast
    from structJumpToLabel_lands [OF assms j(1), of n, unfolded j(2), OF this] Some j structures_nth(1) [OF assms(2) j(1)]
    show ?thesis by (simp add: label_list_def nth_append)
  qed
  show ?thesis using found [of opener] found [of closer]
    by (cases "last_partner status n {opener} k p"; cases "last_partner status n {closer} k p") (simp_all add: jump_back_def Let_def)
qed

lemma fnSkip_next:
  assumes ok: "code_ok status p" and k: "stands_on status k p" "k < code_length status p"
    and struct: "\<not> isAtEndOfProgram p (Some (currentStep p))"
  shows "fnSkip status 0 p = step_at status (Suc k) p"
proof -
  have cur: "currentStep p = all_steps status p ! k" "currentLocalStepNumber p = k - start_before status p k + 1" "k < 32767"
    using k ok by (simp_all add: stands_on_def code_ok_def)
  have "\<not> ends_program status p k" using struct cur by (simp add: ends_program_def)
  then have same: "start_before status p (Suc k) = start_before status p k" by (simp add: start_before_def program_at_Suc)
  have "\<not> isAtEndOfPrograms p (Some (currentStep p))" using all_steps_end [OF ok, of k] k(2) cur by simp
  moreover have "start_before status p k \<le> k" by (rule start_before_le)
  ultimately have "skip_loop status 0 0 p = skip_loop status 0 1 (step_at status (Suc k) p)"
    using struct all_steps_next [OF k(2)] cur same by (subst skip_loop.simps) (simp add: step_at_def Suc_diff_le)
  then show ?thesis by (subst (asm) (2) skip_loop.simps) (simp add: fnSkip_def)
qed

section \<open>The commands\<close>

lemma answer_taken:
  "code_ok status (p\<lparr>temporaryInformation := x\<rparr>) = code_ok status p" "tables_ok status (p\<lparr>temporaryInformation := x\<rparr>) = tables_ok status p"
  "stands_on status k (p\<lparr>temporaryInformation := x\<rparr>) = stands_on status k p"
  "next_partner status n ops k (p\<lparr>temporaryInformation := x\<rparr>) = next_partner status n ops k p"
  "last_partner status n ops k (p\<lparr>temporaryInformation := x\<rparr>) = last_partner status n ops k p"
  "isAtEndOfProgram (p\<lparr>temporaryInformation := x\<rparr>) = isAtEndOfProgram p"
proof -
  have v: "code_view (p\<lparr>temporaryInformation := x\<rparr>) = code_view p" by (simp add: code_view_def)
  note c = places_cong [OF v] code_cong [OF v]
  show "code_ok status (p\<lparr>temporaryInformation := x\<rparr>) = code_ok status p" by (rule c)
  show "tables_ok status (p\<lparr>temporaryInformation := x\<rparr>) = tables_ok status p" by (rule tables_cong [OF v]) simp_all
  show "stands_on status k (p\<lparr>temporaryInformation := x\<rparr>) = stands_on status k p"
    by (simp add: stands_on_cong [OF v]) (simp add: stands_on_def)
  have "struct_places status n ops (p\<lparr>temporaryInformation := x\<rparr>) = struct_places status n ops p" for ops
    by (simp add: struct_places_def c)
  then show "next_partner status n ops k (p\<lparr>temporaryInformation := x\<rparr>) = next_partner status n ops k p"
    "last_partner status n ops k (p\<lparr>temporaryInformation := x\<rparr>) = last_partner status n ops k p"
    by (simp_all add: next_partner_def last_partner_def)
  show "isAtEndOfProgram (p\<lparr>temporaryInformation := x\<rparr>) = isAtEndOfProgram p" by (rule c)
qed

text \<open>Where a search leads: to the step after the one found, or to the message of an unpaired structure.\<close>

definition lands :: "(nat \<Rightarrow> nat) \<Rightarrow> nat option \<Rightarrow> 'a structured_scheme \<Rightarrow> 'a structured_scheme" where
  "lands status target p =
     (case target of Some i \<Rightarrow> step_at status (Suc i) p | None \<Rightarrow> p\<lparr>programError := ERROR_STRUCTURE_INVALID\<rparr>)"

text \<open>A step that waits for the answer of a test.\<close>

definition decides :: "(nat \<Rightarrow> nat) \<Rightarrow> nat \<Rightarrow> nat option \<Rightarrow> 'a structured_scheme \<Rightarrow> 'a structured_scheme" where
  "decides status k target p =
     (if temporaryInformation p = TI_TRUE then step_at status (Suc k) (p\<lparr>temporaryInformation := TI_NO_INFO\<rparr>)
      else if temporaryInformation p = TI_FALSE then lands status target (p\<lparr>temporaryInformation := TI_NO_INFO\<rparr>)
      else p\<lparr>programError := ERROR_IF_WHILE_CONDITION_MISSING\<rparr>)"

text \<open>The opener above that no closer of the same number has closed.\<close>

definition open_above :: "(nat \<Rightarrow> nat) \<Rightarrow> nat \<Rightarrow> nat \<Rightarrow> nat \<Rightarrow> nat \<Rightarrow> 'a labelled_scheme \<Rightarrow> nat option" where
  "open_above status n opener closer k p =
     (case last_partner status n {opener} k p of
        None \<Rightarrow> None
      | Some i \<Rightarrow> (case last_partner status n {closer} k p of Some j \<Rightarrow> if j < i then Some i else None | None \<Rightarrow> Some i))"

lemma running_structures:
  assumes ok: "code_ok status p" and t: "tables_ok status p" and k: "stands_on status k p" "k < code_length status p"
    and run: "programRunning p" "structNumberIsValid n" and step: "\<not> isAtEndOfProgram p (Some (currentStep p))"
  shows "fnIf status n p = decides status k (next_partner status n {ITM_ENDIF, ITM_ELSE} k p) p \<and>
    fnElse n p = lands status (next_partner status n {ITM_ENDIF} k p) p \<and>
    fnEndif status n p = step_at status (Suc k) p \<and>
    fnDo status n p = step_at status (Suc k) p \<and>
    fnWhile status n p = decides status k (next_partner status n {ITM_ENDDO} k p) p \<and>
    fnEnddo n p = lands status (open_above status n ITM_DO ITM_ENDDO k p) p \<and>
    fnRepeat status n p = step_at status (Suc k) p \<and>
    fnUntil status n p = decides status k (open_above status n ITM_REPEAT ITM_UNTIL k p) p"
proof -
  define q where "q = p\<lparr>temporaryInformation := TI_NO_INFO\<rparr>"
  have missing: "structNumberMissing n r = None" for r :: "'a structured_scheme" using run by (simp add: structNumberMissing_def)
  note qs = answer_taken [where p = p and x = TI_NO_INFO, folded q_def]
  have q: "code_ok status q" "tables_ok status q" "stands_on status k q" "k < code_length status q" "\<not> isAtEndOfProgram q (Some (currentStep q))"
    using ok t k step qs places_cong(1) [of q p status] by (simp_all add: q_def code_view_def)
  have skip: "fnSkip status 0 p = step_at status (Suc k) p" "fnSkip status 0 q = step_at status (Suc k) q"
    using fnSkip_next [OF ok k step] fnSkip_next [OF q(1,3,4,5)] .
  note below = structJumpToPartner_below [OF ok t k(1)] structJumpToPartner_below [OF q(1,2,3)]
  note above = jump_back_nearest [OF ok t k(1)] jump_back_nearest [OF q(1,2,3)]
  have "fnEndif status n p = step_at status (Suc k) p" "fnDo status n p = step_at status (Suc k) p" "fnRepeat status n p = step_at status (Suc k) p"
    using run missing skip by (simp_all add: fnEndif_def fnDo_def fnRepeat_def)
  moreover have "fnElse n p = lands status (next_partner status n {ITM_ENDIF} k p) p"
    using run missing below(1) [of n ITM_ENDIF 0]
    by (simp add: fnElse_def jump_or_error_def lands_def split: option.split)
  moreover have "fnIf status n p = decides status k (next_partner status n {ITM_ENDIF, ITM_ELSE} k p) p"
    using run missing skip(2) below(2) [of n ITM_ENDIF ITM_ELSE] qs
    by (simp add: fnIf_def jump_or_error_def lands_def decides_def q_def [symmetric] Let_def split: option.split)
  moreover have "fnWhile status n p = decides status k (next_partner status n {ITM_ENDDO} k p) p"
    using run missing skip(2) below(2) [of n ITM_ENDDO 0] qs
    by (simp add: fnWhile_def jump_or_error_def lands_def decides_def q_def [symmetric] Let_def split: option.split)
  moreover have "fnEnddo n p = lands status (open_above status n ITM_DO ITM_ENDDO k p) p"
    using run missing above(1) [of n ITM_DO ITM_ENDDO]
    by (simp add: fnEnddo_def lands_def open_above_def split: option.split)
  moreover have "fnUntil status n p = decides status k (open_above status n ITM_REPEAT ITM_UNTIL k p) p"
    using run missing skip(2) above(2) [of n ITM_REPEAT ITM_UNTIL] qs
    by (simp add: fnUntil_def lands_def open_above_def decides_def q_def [symmetric] split: option.split)
  ultimately show ?thesis by blast
qed

text \<open>C37. The commands of structures in a running program, each at its step \<open>k\<close> with the number \<open>n\<close>: a true
  answer goes on with the next step; a false IF goes behind the nearest ELSE or ENDIF of its number below
  it, ELSE behind the nearest ENDIF, a false WHILE behind the nearest ENDDO; ENDDO and a false UNTIL go behind
  the nearest DO or REPEAT above, unless it is closed already.  A search stays in the program of the
  pointer; without a partner or an answer there is an error and the pointer stays.\<close>

theorem structure_commands:
  assumes ok: "code_ok status p" and t: "tables_ok status p" and k: "stands_on status k p" "k < code_length status p"
    and run: "programRunning p" "structNumberIsValid n" and step: "\<not> isAtEndOfProgram p (Some (currentStep p))"
  shows "fnIf status n p = decides status k (next_partner status n {ITM_ENDIF, ITM_ELSE} k p) p \<and>
    fnElse n p = lands status (next_partner status n {ITM_ENDIF} k p) p \<and>
    fnEndif status n p = step_at status (Suc k) p \<and>
    fnDo status n p = step_at status (Suc k) p \<and>
    fnWhile status n p = decides status k (next_partner status n {ITM_ENDDO} k p) p \<and>
    fnEnddo n p = lands status (open_above status n ITM_DO ITM_ENDDO k p) p \<and>
    fnRepeat status n p = step_at status (Suc k) p \<and>
    fnUntil status n p = decides status k (open_above status n ITM_REPEAT ITM_UNTIL k p) p"
  using assms by (rule running_structures)

section \<open>A small program\<close>

text \<open>LBL 05, EVEN?, IF n, a step, ELSE n, ENDIF n, END; the end of all programs.\<close>

definition struct_status :: "nat \<Rightarrow> nat" where
  "struct_status op = 
     (if op = ITM_LBL then 0x200 else if structOpHasNumber op then 0x1200
      else if structPlainOp op = ITM_FOR \<or> structPlainOp op = ITM_NEXT then 0x600 else 0)"

definition branch_ram :: "u32 \<Rightarrow> nat \<Rightarrow> u32" where
  "branch_ram n a =
     (if a = 65000 then 0x8B160501 else if a = 65001 then 0x8B100068 + 0x100 * n else if a = 65002 then 0x6A8B0069 + 0x100 * n
      else if a = 65003 then 0xFFB28500 + n else 0xFFFFFFFF)"

definition branch :: "u32 \<Rightarrow> structured" where
  "branch n = labelled.extend (programs.extend (memory.extend
     \<lparr>pool = \<lparr>freeMemoryRegions = [\<lparr>blockAddress = 100, sizeInBlocks = 200\<rparr>], allocatedMemoryRegions = [], ram = branch_ram n\<rparr>,
      c47MemInBlocks = 0, beginOfProgramMemory = 65000, firstFreeProgramByte = 260015\<rparr>
     (programs.fields
       [\<lparr>labelProgram = 1, labelStep = -1, labelPointer = 260001, labelInstructionPointer = 260002\<rparr>]
       [\<lparr>programStep = 1, programInstructionPointer = 260000\<rparr>] 1 260003 3 260000 0 False False))
     (labelled.fields
       [\<lparr>labelProgram = 1, labelStep = -5, labelPointer = 260009, labelInstructionPointer = 260010\<rparr>,
        \<lparr>labelProgram = 1, labelStep = -6, labelPointer = 260012, labelInstructionPointer = 260013\<rparr>]
       None None 260000 (Some 260015) 0 0 True None))
     (structured.fields TI_FALSE False)"

lemma branch_simps [simp]:
  "ram (pool (branch n)) = branch_ram n" "programBegin (branch n) = 260000" "beginOfProgramMemory (branch n) = 65000"
  "firstFreeProgramByte (branch n) = 260015"
  "labels (branch n) = [\<lparr>labelProgram = 1, labelStep = -1, labelPointer = 260001, labelInstructionPointer = 260002\<rparr>]"
  "structureLabels (branch n) = [\<lparr>labelProgram = 1, labelStep = -5, labelPointer = 260009, labelInstructionPointer = 260010\<rparr>,
     \<lparr>labelProgram = 1, labelStep = -6, labelPointer = 260012, labelInstructionPointer = 260013\<rparr>]"
  "programTable (branch n) = [\<lparr>programStep = 1, programInstructionPointer = 260000\<rparr>]" "currentStep (branch n) = 260003"
  "currentLocalStepNumber (branch n) = 3" "currentProgramNumber (branch n) = 1" "programRunning (branch n)"
  "temporaryInformation (branch n) = TI_FALSE" "\<not> programStopped (branch n)" "beginOfCurrentProgram (branch n) = 260000"
  "endOfCurrentProgram (branch n) = Some 260015" "programError (branch n) = 0"
  by (simp_all add: branch_def memory.defs programs.defs labelled.defs structured.defs)

lemma branch_bytes [simp]:
  assumes "n = 0 \<or> n = 1"
  shows "byte_at (branch n) 260000 = 0x01" "byte_at (branch n) 260001 = 0x05" "byte_at (branch n) 260002 = 0x16"
    "byte_at (branch n) 260003 = 0x8B" "byte_at (branch n) 260004 = 0x68" "byte_at (branch n) 260005 = unat n"
    "byte_at (branch n) 260006 = 0x10" "byte_at (branch n) 260007 = 0x8B" "byte_at (branch n) 260008 = 0x69"
    "byte_at (branch n) 260009 = unat n" "byte_at (branch n) 260010 = 0x8B" "byte_at (branch n) 260011 = 0x6A"
    "byte_at (branch n) 260012 = unat n" "byte_at (branch n) 260013 = 0x85" "byte_at (branch n) 260014 = 0xB2"
    "byte_at (branch n) 260015 = 0xFF" "byte_at (branch n) 260016 = 0xFF"
  using assms by (auto simp: byte_at_def branch_ram_def)

lemma branch_steps [simp]:
  assumes "n = 0 \<or> n = 1"
  shows "all_steps struct_status (branch n) = [260000, 260002, 260003, 260006, 260007, 260010, 260013, 260015]"
    "code_length struct_status (branch n) = 7"
proof -
  note b = branch_bytes [OF assms]
  have "findNextStep struct_status (branch n) (Some 260000) = Some 260002" "findNextStep struct_status (branch n) (Some 260002) = Some 260003"
    "findNextStep struct_status (branch n) (Some 260003) = Some 260006" "findNextStep struct_status (branch n) (Some 260006) = Some 260007"
    "findNextStep struct_status (branch n) (Some 260007) = Some 260010" "findNextStep struct_status (branch n) (Some 260010) = Some 260013"
    "findNextStep struct_status (branch n) (Some 260013) = Some 260015" "findNextStep struct_status (branch n) (Some 260015) = None"
    by (simp_all add: findNextStep_def checkOpCodeOfStep_def findKey2ndParam_def programBytesAvailable_def parameters_end_def
      countOpBytes_def paramTailBytes_def struct_status_def structOpHasNumber_def structPlainOp_def Let_def b)
  then show s: "all_steps struct_status (branch n) = [260000, 260002, 260003, 260006, 260007, 260010, 260013, 260015]"
    by (simp add: all_steps_def step_list_simps)
  show "code_length struct_status (branch n) = 7" by (simp add: code_length_def s)
qed

lemma branch_ok: "n = 0 \<or> n = 1 \<Longrightarrow> code_ok struct_status (branch n)"
proof -
  assume n: "n = 0 \<or> n = 1"
  have "i \<le> 7 \<longleftrightarrow> i \<in> {0, 1, 2, 3, 4, 5, 6, 7}" for i :: nat by auto
  with n show ?thesis
    by (auto simp: code_ok_def struct_status_def structOpHasNumber_def structPlainOp_def isAtEndOfPrograms_def)
qed

lemma branch_places:
  assumes "n = 0 \<or> n = 1"
  shows "label_places struct_status (branch n) = [0]" "structure_places struct_status (branch n) = [4, 5]"
    "start_places struct_status (branch n) = [0]" "i \<le> 6 \<Longrightarrow> program_of struct_status (branch n) i = 1"
proof -
  note [simp] = branch_bytes [OF assms] branch_steps [OF assms]
  let ?m = "branch n" and ?s = struct_status
  have u: "[0 ..< 7] = [0, 1, 2, 3, 4, 5, 6 :: nat]" by (simp add: upt_rec)
  have l: "label_at ?s ?m 0" "\<not> label_at ?s ?m 1" "\<not> label_at ?s ?m 2" "\<not> label_at ?s ?m 3" "\<not> label_at ?s ?m 4" "\<not> label_at ?s ?m 5" "\<not> label_at ?s ?m 6"
    by (simp_all add: label_at_def)
  then show "label_places ?s ?m = [0]" by (simp add: label_places_def u)
  have s: "\<not> structure_at ?s ?m 1" "\<not> structure_at ?s ?m 2" "\<not> structure_at ?s ?m 3" "structure_at ?s ?m 4" "structure_at ?s ?m 5" "\<not> structure_at ?s ?m 6"
    by (simp_all add: structure_at_def label_at_def structStepIsJumpTarget_def structOpOfStep_def programBytesAvailable_def structPlainOp_def)
  have "\<not> structure_at ?s ?m 0" using l by (simp add: structure_at_def)
  with s show "structure_places ?s ?m = [4, 5]" by (simp add: structure_places_def u)
  have e: "\<not> ends_program ?s ?m 0" "\<not> ends_program ?s ?m 1" "\<not> ends_program ?s ?m 2" "\<not> ends_program ?s ?m 3" "\<not> ends_program ?s ?m 4" "\<not> ends_program ?s ?m 5"
    by (simp_all add: ends_program_def isAtEndOfProgram_def checkOpCodeOfStep_def)
  then show "start_places ?s ?m = [0]" by (simp add: start_places_def start_at_def u)
  have "[0 ..< 6] = [0, 1, 2, 3, 4, 5 :: nat]" by (simp add: upt_rec)
  then have "filter (ends_program ?s ?m) [0 ..< 6] = []" using e by simp
  moreover assume "i \<le> 6"
  ultimately show "program_of ?s ?m i = 1"
    using program_of_mono [of i 6 ?s ?m] program_of_mono [of 0 i ?s ?m] by (simp add: program_of_def)
qed

lemma branch_tables:
  assumes "n = 0 \<or> n = 1"
  shows "tables_ok struct_status (branch n)" "stands_on struct_status 2 (branch n)"
proof -
  note [simp] = branch_bytes [OF assms] branch_steps [OF assms] branch_places [OF assms]
  show "tables_ok struct_status (branch n)"
    by (simp add: tables_ok_def label_of_def label_entry_def structure_of_def structure_entry_def start_of_def)
  have "program_at struct_status (branch n) 2 = 1" "start_before struct_status (branch n) 2 = 0"
    by (simp_all add: program_at_def start_before_def)
  then show "stands_on struct_status 2 (branch n)" by (simp add: stands_on_def)
qed

lemma structure_commands_witness:
  "currentStep (fnIf struct_status 1 (branch 1)) = 260010 \<and> fnIf struct_status 2 (branch 1) =
     (branch 1)\<lparr>temporaryInformation := TI_NO_INFO, programError := ERROR_STRUCTURE_INVALID\<rparr>"
proof -
  note [simp] = branch_bytes [of 1, simplified] branch_steps [of 1, simplified] branch_places [of 1, simplified]
  have here: "\<not> isAtEndOfProgram (branch 1) (Some (currentStep (branch 1)))" by (simp add: isAtEndOfProgram_def checkOpCodeOfStep_def)
  have "struct_places struct_status 1 {ITM_ENDIF, ITM_ELSE} (branch 1) = [4, 5]" "struct_places struct_status 2 {ITM_ENDIF, ITM_ELSE} (branch 1) = []"
    by (simp_all add: struct_places_def structOpOfStep_def programBytesAvailable_def)
  then have "next_partner struct_status 1 {ITM_ENDIF, ITM_ELSE} 2 (branch 1) = Some 4" "next_partner struct_status 2 {ITM_ENDIF, ITM_ELSE} 2 (branch 1) = None"
    by (simp_all add: next_partner_def)
  then show ?thesis
    using structure_commands [of struct_status "branch 1" 2 1] structure_commands [of struct_status "branch 1" 2 2]
      branch_ok [of 1] branch_tables [of 1] here code_cong(3) [of "(branch 1)\<lparr>temporaryInformation := TI_NO_INFO\<rparr>" "branch 1" struct_status]
    by (simp add: structNumberIsValid_def decides_def lands_def step_at_def code_view_def)
qed

end
