(* ===== verification/ValidText.thy ===== *)
theory ValidText
  imports Valid StructProps
begin

text \<open>
  Writing numbers and marks into program memory does not move a step: a step with a number is three bytes
  long whatever the number, and the two forms of a FOR or NEXT have the same parameters.  The outline of a
  program stays (\<open>same_outline\<close>): what the tables of labels and the check of the structures read.  That no
  other byte changes either is a matter of the walks, in \<open>ValidWalk\<close>.
\<close>

section \<open>Single bytes\<close>

lemma word_set_byte:
  fixes w :: u32
  assumes "i < 4" "j < 4"
  shows "drop_bit (8 * j) ((w AND NOT (push_bit (8 * i) 0xff)) OR push_bit (8 * i) (v AND 0xff)) AND 0xff =
    (if i = j then v AND 0xff else drop_bit (8 * j) w AND 0xff)"
proof -
  have ff: "0xff = (mask 8 :: u32)" by (simp add: mask_eq_exp_minus_1)
  have "i \<noteq> j \<Longrightarrow> 8 * i \<le> 8 * j + n \<Longrightarrow> n < 8 \<Longrightarrow> 8 \<le> 8 * j + n - 8 * i" for n using assms by linarith
  with assms show ?thesis unfolding ff
    by (intro bit_word_eqI) (auto simp: bit_simps)
qed

lemma byte_at_set_byte: "byte_at (set_byte a v m) b = (if b = a then v mod 256 else byte_at m b)"
proof (cases "a div 4 = b div 4")
  case True
  have "unat (word_of_nat v AND (0xff :: u32)) = v mod 256"
  proof -
    have "(0xff :: u32) = mask 8" by (simp add: mask_eq_exp_minus_1)
    then have "unat (word_of_nat v AND (0xff :: u32)) = take_bit 8 (unat (word_of_nat v :: u32))"
      by (simp only: take_bit_eq_mask [symmetric] unsigned_take_bit_eq)
    then show ?thesis by (simp add: take_bit_eq_mod unat_of_nat mod_mod_cancel)
  qed
  moreover have "a = b \<longleftrightarrow> a mod 4 = b mod 4" using True by (metis div_mult_mod_eq)
  ultimately show ?thesis using True word_set_byte [of "a mod 4" "b mod 4"]
    by (auto simp: byte_at_def set_byte_def)
next
  case False
  then show ?thesis by (auto simp: byte_at_def set_byte_def)
qed

section \<open>A step is decoded from its own bytes\<close>

definition FOR_OPS :: "nat set" where "FOR_OPS = {ITM_FOR, ITM_FORx, ITM_FORYX, ITM_FORYXx, ITM_FORTOP, ITM_FORTOPx}"
definition NEXT_OPS :: "nat set" where "NEXT_OPS = {ITM_NEXT, ITM_NEXTx}"

text \<open>The rows of the item table that matter here: the parameter types \<^verbatim>\<open>PTP_SKIP_BACK\<close> of the numbered steps and
  \<^verbatim>\<open>PTP_REGISTER\<close> of FOR and NEXT; no operation of one byte has a parameter of 16 bits.\<close>

definition struct_items :: "(nat \<Rightarrow> nat) \<Rightarrow> bool" where
  "struct_items status \<longleftrightarrow>
     (\<forall>op \<in> {ITM_IF, ITM_ELSE, ITM_ENDIF, ITM_DO, ITM_WHILE, ITM_ENDDO, ITM_REPEAT, ITM_UNTIL}. status op AND PTP_STATUS = 0x1200) \<and>
     (\<forall>op \<in> FOR_OPS \<union> NEXT_OPS. status op AND PTP_STATUS = 0x600) \<and>
     (\<forall>op < 128. status op AND PTP_STATUS \<noteq> 0xc00)"

definition same_range :: "'a memory_scheme \<Rightarrow> 'a memory_scheme \<Rightarrow> bool" where
  "same_range m m' \<longleftrightarrow> beginOfProgramMemory m' = beginOfProgramMemory m \<and> firstFreeProgramByte m' = firstFreeProgramByte m"

lemma same_range_available: "same_range m m' \<Longrightarrow> programBytesAvailable a n m' = programBytesAvailable a n m"
  by (simp add: same_range_def programBytesAvailable_def)

lemma countOpBytes_local:
  assumes "countOpBytes m s mode = Some b" and same: "\<And>x. s \<le> x \<Longrightarrow> x < b \<Longrightarrow> byte_at m' x = byte_at m x"
    and op: "mode = PARAM_NUMBER_16 \<Longrightarrow> byte_at m' (s - 2) = byte_at m (s - 2) \<and> byte_at m' (s - 1) = byte_at m (s - 1)"
  shows "countOpBytes m' s mode = Some b"
proof -
  let ?op = "\<lambda>m. if mode = PARAM_NUMBER_16 then (256 * byte_at m (s - 2) + byte_at m (s - 1)) AND 0x7fff else 0"
  have code: "countOpBytes m s mode = (case paramTailBytes mode (?op m) (byte_at m s) of
      PARAM_TAIL_INVALID \<Rightarrow> None | PARAM_TAIL_LENGTH_PREFIXED \<Rightarrow> Some (s + byte_at m (s + 1) + 2)
    | PARAM_TAIL n \<Rightarrow> Some (s + 1 + n) | PARAM_TAIL_BASE_LENGTH_PREFIXED \<Rightarrow> Some (s - 2))" for m :: "'c memory_scheme"
    by (simp add: countOpBytes_def Let_def split: tail.split)
  have p: "paramTailBytes mode op x \<noteq> PARAM_TAIL_BASE_LENGTH_PREFIXED" for op x by (auto simp: paramTailBytes_def)
  have "s < b" using assms(1) p by (auto simp: code split: tail.splits)
  then have b: "byte_at m' s = byte_at m s" using same by simp
  have o: "?op m' = ?op m" using op by simp
  show ?thesis
  proof (cases "paramTailBytes mode (?op m) (byte_at m s)")
    case PARAM_TAIL_LENGTH_PREFIXED
    then have "b = s + byte_at m (s + 1) + 2" using assms(1) by (simp add: code)
    then have "byte_at m' (s + 1) = byte_at m (s + 1)" using same by simp
    then show ?thesis using assms(1) PARAM_TAIL_LENGTH_PREFIXED by (simp only: code b o)
  qed (use assms(1) p in \<open>simp_all only: code b o tail.case\<close>)
qed

lemma countLiteralBytes_local:
  assumes "countLiteralBytes m s = Some b" and same: "\<And>x. s \<le> x \<Longrightarrow> x < b \<Longrightarrow> byte_at m' x = byte_at m x"
  shows "countLiteralBytes m' s = Some b"
proof -
  have s: "s < b" using assms(1) by (auto simp: countLiteralBytes_def Let_def split: tail.splits)
  then have "byte_at m' s = byte_at m s" using same by simp
  moreover have "b = s + 1 + byte_at m (s + 1) + 1 \<Longrightarrow> byte_at m' (s + 1) = byte_at m (s + 1)" using same by simp
  moreover have "b = s + 1 + byte_at m (s + 2) + 2 \<Longrightarrow> byte_at m' (s + 2) = byte_at m (s + 2)" using same by simp
  ultimately show ?thesis using assms(1)
    by (auto simp: countLiteralBytes_def Let_def split: tail.splits)
qed

lemma parameters_end_local:
  assumes e: "parameters_end status m op s = Some b" and range: "same_range m m'"
    and same: "\<And>x. s \<le> x \<Longrightarrow> x < b \<Longrightarrow> byte_at m' x = byte_at m x"
    and op: "status op AND PTP_STATUS = 0xc00 \<Longrightarrow> byte_at m' (s - 2) = byte_at m (s - 2) \<and> byte_at m' (s - 1) = byte_at m (s - 1)"
  shows "parameters_end status m' op s = Some b"
proof -
  have mode: "(status op AND PTP_STATUS) div 512 = PARAM_NUMBER_16 \<Longrightarrow> status op AND PTP_STATUS = 0xc00"
  proof -
    assume a: "(status op AND PTP_STATUS) div 512 = PARAM_NUMBER_16"
    have "512 dvd (status op AND PTP_STATUS)"
    proof -
      have "take_bit 9 (status op AND PTP_STATUS) = 0" by (rule bit_eqI) (auto simp: bit_simps)
      then show ?thesis by (simp add: take_bit_eq_mod mod_eq_0_iff_dvd)
    qed
    then have "status op AND PTP_STATUS = 512 * ((status op AND PTP_STATUS) div 512)" by simp
    with a show ?thesis by simp
  qed
  let ?ptp = "status op AND PTP_STATUS"
  let ?second = "\<lambda>m. if op \<ge> LAST_ITEM then None else if ?ptp = PTP_NONE \<or> ?ptp = PTP_DISABLED then Some s
      else if ?ptp = PTP_LITERAL \<or> ?ptp = PTP_REM then countLiteralBytes m s
      else if ?ptp = PTP_KEYG_KEYX then countOpBytes m s PARAM_NUMBER_8
      else countOpBytes m s (?ptp div 512)"
  have m: "?second m = Some b" "programBytesAvailable b 0 m"
    using e by (auto simp: parameters_end_def Let_def split: option.splits if_splits)
  have "?second m' = Some b"
    using m(1) countOpBytes_local [of m s PARAM_NUMBER_8 b m', OF _ same] countOpBytes_local [of m s "?ptp div 512" b m', OF _ same op [OF mode]]
      countLiteralBytes_local [of m s b m', OF _ same]
    by (simp only: split: if_splits) simp_all
  then show ?thesis using m(2) same_range_available [OF range]
    by (simp only: parameters_end_def Let_def option.case if_True)
qed


lemma byte_at_less: "byte_at m a < 256"
proof -
  have ff: "0xff = (mask 8 :: u32)" by (simp add: mask_eq_exp_minus_1)
  show ?thesis unfolding byte_at_def ff
    using take_bit_nat_less_exp [of 8 "unat (drop_bit (8 * (a mod 4)) (ram (pool m) (a div 4)))"]
    by (simp only: take_bit_eq_mask [symmetric] unsigned_take_bit_eq) simp
qed

lemma one_byte_op: "x < 256 \<Longrightarrow> x AND 0x80 = 0 \<longleftrightarrow> (x :: nat) < 128"
proof -
  assume x: "x < 256"
  have "x AND 0x80 = 0 \<longleftrightarrow> \<not> bit x 7" using and_exp_eq_0_iff_not_bit [of x 7] by simp
  also have "\<dots> \<longleftrightarrow> even (x div 128)" by (simp add: bit_iff_odd)
  also have "x div 128 = 0 \<or> x div 128 = 1" using x by linarith
  then have "even (x div 128) \<longleftrightarrow> x < 128" by auto
  finally show ?thesis .
qed

text \<open>Decoding the next step reads the bytes of the step only.\<close>

lemma findKey2ndParam_local:
  assumes e: "findKey2ndParam status m (Some a) = Some b" and range: "same_range m m'" and items: "struct_items status"
    and same: "\<And>x. a \<le> x \<Longrightarrow> x < b \<Longrightarrow> byte_at m' x = byte_at m x"
  shows "findKey2ndParam status m' (Some a) = Some b"
proof -
  note av = same_range_available [OF range]
  have "a < b" using findKey2ndParam_progress [OF e] by simp
  then have ba: "byte_at m' a = byte_at m a" using same by simp
  show ?thesis
  proof (cases "byte_at m a AND 0x80 = 0")
    case True
    then have p: "parameters_end status m (byte_at m a) (a + 1) = Some b" and a: "programBytesAvailable a 1 m"
      using e by (simp_all add: findKey2ndParam_def split: if_splits)
    have "status (byte_at m a) AND PTP_STATUS \<noteq> 0xc00"
      using items True one_byte_op [OF byte_at_less, of m a] by (simp add: struct_items_def)
    then have "parameters_end status m' (byte_at m a) (a + 1) = Some b"
      by (intro parameters_end_local [OF p range same]) auto
    then show ?thesis using True a by (simp add: findKey2ndParam_def ba av)
  next
    case False
    let ?op = "256 * (byte_at m a AND 0x7f) + byte_at m (a + 1)"
    have p: "parameters_end status m ?op (a + 2) = Some b" and a: "programBytesAvailable a 1 m" "programBytesAvailable (a + 1) 1 m"
      using e False by (simp_all add: findKey2ndParam_def split: if_splits)
    have "a + 2 \<le> b" using parameters_end_progress [OF p] by simp
    then have b1: "byte_at m' (a + 1) = byte_at m (a + 1)" using same by simp
    have "parameters_end status m' ?op (a + 2) = Some b"
      by (intro parameters_end_local [OF p range same]) (use ba b1 in auto)
    then show ?thesis using False a by (simp add: findKey2ndParam_def ba b1 b1 [simplified] av)
  qed
qed

lemma findNextStep_local:
  assumes e: "findNextStep status m (Some a) = Some b" and range: "same_range m m'" and items: "struct_items status"
    and same: "\<And>x. a \<le> x \<Longrightarrow> x < b \<Longrightarrow> byte_at m' x = byte_at m x"
  shows "findNextStep status m' (Some a) = Some b"
proof -
  have "a < b" using findNextStep_progress [OF e] by simp
  then have ba: "byte_at m' a = byte_at m a" using same by simp
  have key: "checkOpCodeOfStep m (Some a) op \<Longrightarrow> checkOpCodeOfStep m' (Some a) op"
    "checkOpCodeOfStep m' (Some a) op \<Longrightarrow> checkOpCodeOfStep m (Some a) op" if "a + 1 < b \<or> op < 128" for op
    using that ba same [of "a + 1"] by (auto simp: checkOpCodeOfStep_def split: if_splits)
  show ?thesis
  proof (cases "checkOpCodeOfStep m (Some a) ITM_KEY \<or> checkOpCodeOfStep m (Some a) ITM_42KEY")
    case True
    then have b: "findKey2ndParam status m (findKey2ndParam status m (Some a)) = Some b" using e by (simp add: findNextStep_def)
    then obtain c where c: "findKey2ndParam status m (Some a) = Some c" by (cases "findKey2ndParam status m (Some a)") simp_all
    with b have b': "findKey2ndParam status m (Some c) = Some b" by simp
    have "a < c" "c < b" using findKey2ndParam_progress [OF c] findKey2ndParam_progress [OF b'] by simp_all
    then have "findKey2ndParam status m' (Some a) = Some c" "findKey2ndParam status m' (Some c) = Some b"
      using findKey2ndParam_local [OF c range items] findKey2ndParam_local [OF b' range items] same by simp_all
    moreover have "checkOpCodeOfStep m' (Some a) ITM_KEY \<or> checkOpCodeOfStep m' (Some a) ITM_42KEY"
      using True key [of ITM_KEY] key [of ITM_42KEY] \<open>a < c\<close> \<open>c < b\<close> by auto
    ultimately show ?thesis by (simp add: findNextStep_def)
  next
    case False
    then have b: "findKey2ndParam status m (Some a) = Some b" using e by (simp add: findNextStep_def)
    then have b': "findKey2ndParam status m' (Some a) = Some b" using findKey2ndParam_local [OF b range items same] by simp
    show ?thesis
    proof (cases "a + 1 < b")
      case True
      then show ?thesis using False key b' by (auto simp: findNextStep_def)
    next
      case short: False
      have "byte_at m a AND 0x80 = 0"
      proof (rule ccontr)
        assume "byte_at m a AND 0x80 \<noteq> 0"
        then have "parameters_end status m (256 * (byte_at m a AND 0x7f) + byte_at m (a + 1)) (a + 2) = Some b"
          using b by (simp add: findKey2ndParam_def split: if_splits)
        from parameters_end_progress [OF this] short show False by simp
      qed
      then have "byte_at m a < 128" using one_byte_op [OF byte_at_less [of m a]] by simp
      then have "\<not> checkOpCodeOfStep m' (Some a) ITM_KEY" "\<not> checkOpCodeOfStep m' (Some a) ITM_42KEY" using ba by (simp_all add: checkOpCodeOfStep_def)
      then show ?thesis using b' by (simp add: findNextStep_def)
    qed
  qed
qed

section \<open>The outline of a program\<close>

definition plain_op :: "(nat \<Rightarrow> nat) \<Rightarrow> 'a memory_scheme \<Rightarrow> nat \<Rightarrow> nat" where
  "plain_op status m i = structPlainOp (structOpOfStep m (Some (all_steps status m ! i)))"

text \<open>
  Where the steps are, their operations up to marks, the kinds of labels and the counters of FOR and NEXT.  Other
  parameters are not part of the outline.
\<close>

definition same_step :: "'a memory_scheme \<Rightarrow> 'a memory_scheme \<Rightarrow> nat \<Rightarrow> bool" where
  "same_step m m' a \<longleftrightarrow>
     structPlainOp (structOpOfStep m' (Some a)) = structPlainOp (structOpOfStep m (Some a)) \<and> byte_at m' a = byte_at m a \<and>
     isAtEndOfProgram m' (Some a) = isAtEndOfProgram m (Some a) \<and> isAtEndOfPrograms m' (Some a) = isAtEndOfPrograms m (Some a) \<and>
     (byte_at m a = ITM_LBL \<longrightarrow> byte_at m' (a + 1) = byte_at m (a + 1))"

definition same_counters :: "(nat \<Rightarrow> nat) \<Rightarrow> 'a memory_scheme \<Rightarrow> 'a memory_scheme \<Rightarrow> nat \<Rightarrow> bool" where
  "same_counters status m m' i \<longleftrightarrow>
     (plain_op status m i = ITM_FOR \<or> plain_op status m i = ITM_NEXT \<longrightarrow>
       (\<forall>x. all_steps status m ! i + 2 \<le> x \<and> x < all_steps status m ! Suc i \<longrightarrow> byte_at m' x = byte_at m x))"

definition same_outline :: "(nat \<Rightarrow> nat) \<Rightarrow> 'a memory_scheme \<Rightarrow> 'a memory_scheme \<Rightarrow> bool" where
  "same_outline status m m' \<longleftrightarrow>
     same_range m m' \<and> all_steps status m' = all_steps status m \<and>
     (\<forall>i \<le> code_length status m. same_step m m' (all_steps status m ! i)) \<and>
     (\<forall>i < code_length status m. same_counters status m m' i)"

lemma same_outline_refl [simp]: "same_outline status m m"
  by (simp add: same_outline_def same_range_def same_step_def same_counters_def)

lemma same_outline_length: "same_outline status m m' \<Longrightarrow> code_length status m' = code_length status m"
  by (simp add: same_outline_def code_length_def)

lemma same_outline_trans:
  assumes "same_outline status m m'" "same_outline status m' m''"
  shows "same_outline status m m''"
  using assms same_outline_length [OF assms(1)]
  by (simp add: same_outline_def same_range_def same_step_def same_counters_def plain_op_def)

lemma two_bytes:
  assumes "structOpOfStep m (Some a) = op" "op \<ge> 128"
  shows "byte_at m a AND 0x80 \<noteq> 0" "op = 256 * (byte_at m a AND 0x7f) + byte_at m (a + 1)" "programBytesAvailable a 2 m"
  using assms one_byte_op [OF byte_at_less [of m a]] by (auto simp: structOpOfStep_def split: if_splits)

lemma two_byte_next:
  assumes "structOpOfStep m (Some a) = op" "op \<ge> 128" "op \<noteq> ITM_KEY" "op \<noteq> ITM_42KEY"
  shows "findNextStep status m (Some a) = parameters_end status m op (a + 2)"
proof -
  note t = two_bytes [OF assms(1,2)]
  have "programBytesAvailable a 1 m" "programBytesAvailable (a + 1) 1 m" using t(3) by (auto simp: programBytesAvailable_def)
  then have "findKey2ndParam status m (Some a) = parameters_end status m op (a + 2)" using t(1,2) by (simp add: findKey2ndParam_def Let_def)
  moreover have "\<not> checkOpCodeOfStep m (Some a) ITM_KEY" "\<not> checkOpCodeOfStep m (Some a) ITM_42KEY"
    using t(2) assms(3,4) by (auto simp: checkOpCodeOfStep_def)
  ultimately show ?thesis by (simp add: findNextStep_def)
qed

lemma numbered_cases: "structOpHasNumber op \<longleftrightarrow> op \<in> {ITM_IF, ITM_ELSE, ITM_ENDIF, ITM_DO, ITM_WHILE, ITM_ENDDO, ITM_REPEAT, ITM_UNTIL}"
  by (simp add: structOpHasNumber_def)

lemma numbered_next:
  assumes op: "structOpHasNumber (structOpOfStep m (Some a))" and items: "struct_items status"
  shows "findNextStep status m (Some a) = (if programBytesAvailable (a + 3) 0 m then Some (a + 3) else None)"
proof -
  let ?op = "structOpOfStep m (Some a)"
  have "?op \<ge> 128" "?op \<noteq> ITM_KEY" "?op \<noteq> ITM_42KEY" "?op < LAST_ITEM" using op by (auto simp: numbered_cases)
  moreover have "status ?op AND PTP_STATUS = 0x1200" using op items unfolding numbered_cases struct_items_def by blast
  moreover have "countOpBytes m (a + 2) PARAM_SKIP_BACK = Some (a + 3)" by (simp add: countOpBytes_def paramTailBytes_def)
  ultimately show ?thesis by (simp add: two_byte_next [OF refl]) (simp add: parameters_end_def)
qed

lemma steps_preserved:
  assumes steps: "\<And>i. i < code_length status m \<Longrightarrow> findNextStep status m' (Some (all_steps status m ! i)) = Some (all_steps status m ! Suc i)"
    and last: "findNextStep status m' (Some (all_steps status m ! code_length status m)) = None" and range: "same_range m m'"
  shows "all_steps status m' = all_steps status m"
proof -
  have "step_list status m' (all_steps status m ! i) = drop i (all_steps status m)" if "i \<le> code_length status m" for i
    using that
  proof (induction "code_length status m - i" arbitrary: i)
    case 0
    then have "i = code_length status m" by simp
    then show ?case using last length_all_steps [of status m] by (simp add: step_list_simps Cons_nth_drop_Suc [symmetric])
  next
    case (Suc d)
    then have i: "i < code_length status m" by simp
    show ?case using Suc.hyps(1) [of "Suc i"] Suc.hyps(2) i steps [OF i] length_all_steps [of status m]
      by (simp add: step_list_simps Cons_nth_drop_Suc)
  qed
  from this [of 0] range show ?thesis by (simp add: all_steps_def same_range_def)
qed

text \<open>A byte inside a step changes, after its first one, and the step keeps its length.\<close>

lemma interior_write:
  assumes ok: "code_ok status m" and items: "struct_items status" and i: "i < code_length status m"
    and x: "all_steps status m ! i < x" "x < all_steps status m ! Suc i"
    and nxt: "findNextStep status (set_byte x v m) (Some (all_steps status m ! i)) = Some (all_steps status m ! Suc i)"
  shows "all_steps status (set_byte x v m) = all_steps status m"
    "\<And>j. j \<le> code_length status m \<Longrightarrow> byte_at (set_byte x v m) (all_steps status m ! j) = byte_at m (all_steps status m ! j)"
    "\<And>j. j \<le> code_length status m \<Longrightarrow> j \<noteq> i \<Longrightarrow>
       byte_at (set_byte x v m) (all_steps status m ! j + 1) = byte_at m (all_steps status m ! j + 1)"
    "\<And>j y. j < code_length status m \<Longrightarrow> j \<noteq> i \<Longrightarrow> all_steps status m ! j \<le> y \<Longrightarrow> y < all_steps status m ! Suc j \<Longrightarrow>
       byte_at (set_byte x v m) y = byte_at m y"
proof -
  let ?s = "\<lambda>j. all_steps status m ! j" and ?m = "set_byte x v m"
  have range: "same_range m ?m" by (simp add: same_range_def)
  have before: "?s (Suc j) \<le> ?s i" if "j < i" for j using that i all_steps_le_iff [of "Suc j" status m i] by simp
  have after: "?s (Suc i) \<le> ?s j" if "i < j" "j \<le> code_length status m" for j using that i all_steps_le_iff [of "Suc i" status m j] by simp
  show inside: "byte_at ?m y = byte_at m y" if "j < code_length status m" "j \<noteq> i" "?s j \<le> y" "y < ?s (Suc j)" for j y
  proof -
    have "y \<noteq> x" using that x before [of j] after [of j] by (cases "j < i") auto
    then show ?thesis by (simp add: byte_at_set_byte)
  qed
  show "byte_at ?m (?s j) = byte_at m (?s j)" if "j \<le> code_length status m" for j
  proof -
    have "?s j \<noteq> x"
      using x after [of j] that all_steps_le_iff [of j status m i] i by (cases "i < j") auto
    then show ?thesis by (simp add: byte_at_set_byte)
  qed
  show "byte_at ?m (?s j + 1) = byte_at m (?s j + 1)" if "j \<le> code_length status m" "j \<noteq> i" for j
  proof -
    have "?s j + 1 \<noteq> x"
    proof (cases "j < i")
      case True
      then show ?thesis using before [OF True] all_steps_sorted [of j "Suc j" status m] x i by simp
    next
      case False
      then show ?thesis using after [of j] that x by simp
    qed
    then show ?thesis by (simp add: byte_at_set_byte)
  qed
  show "all_steps status ?m = all_steps status m"
  proof (rule steps_preserved [OF _ _ range])
    show "findNextStep status ?m (Some (?s j)) = Some (?s (Suc j))" if "j < code_length status m" for j
      using nxt findNextStep_local [OF all_steps_next [OF that] range items] inside [OF that] by (cases "j = i") auto
    have "\<not> programBytesAvailable (firstFreeProgramByte m) 1 ?m" by (simp add: programBytesAvailable_def)
    then have "findKey2ndParam status ?m (Some (firstFreeProgramByte m)) = None" by (simp add: findKey2ndParam_def)
    then show "findNextStep status ?m (Some (?s (code_length status m))) = None"
      using all_steps_last [OF ok] by (simp add: findNextStep_def)
  qed
qed

lemma same_two_bytes:
  assumes "same_range m m'" "byte_at m' a = byte_at m a" "byte_at m' (a + 1) = byte_at m (a + 1)"
  shows "structOpOfStep m' (Some a) = structOpOfStep m (Some a)" "isAtEndOfProgram m' (Some a) = isAtEndOfProgram m (Some a)"
    "isAtEndOfPrograms m' (Some a) = isAtEndOfPrograms m (Some a)" "same_step m m' a"
proof -
  show o: "structOpOfStep m' (Some a) = structOpOfStep m (Some a)" using assms same_range_available [OF assms(1)] by (simp add: structOpOfStep_def)
  show e: "isAtEndOfProgram m' (Some a) = isAtEndOfProgram m (Some a)" "isAtEndOfPrograms m' (Some a) = isAtEndOfPrograms m (Some a)"
    using assms by (simp_all add: isAtEndOfProgram_def checkOpCodeOfStep_def isAtEndOfPrograms_def)
  show "same_step m m' a" using o e assms by (simp add: same_step_def)
qed

lemma interior_text:
  assumes ok: "code_ok status m" and items: "struct_items status" and i: "i < code_length status m"
    and x: "all_steps status m ! i < x" "x < all_steps status m ! Suc i"
    and nxt: "findNextStep status (set_byte x v m) (Some (all_steps status m ! i)) = Some (all_steps status m ! Suc i)"
    and here: "same_step m (set_byte x v m) (all_steps status m ! i)" "same_counters status m (set_byte x v m) i"
  shows "same_outline status m (set_byte x v m)"
proof -
  note w = interior_write [OF ok items i x nxt]
  have range: "same_range m (set_byte x v m)" by (simp add: same_range_def)
  have "same_step m (set_byte x v m) (all_steps status m ! j)" if "j \<le> code_length status m" for j
    using here(1) same_two_bytes(4) [OF range w(2) [OF that] w(3) [OF that]] by (cases "j = i") simp_all
  moreover have "same_counters status m (set_byte x v m) j" if "j < code_length status m" for j
    using here(2) w(4) [OF that] by (cases "j = i") (simp_all add: same_counters_def)
  ultimately show ?thesis using range w(1) by (simp add: same_outline_def)
qed

lemma numbered_length:
  assumes "struct_items status" "i < code_length status m" "structOpHasNumber (structOpOfStep m (Some (all_steps status m ! i)))"
  shows "all_steps status m ! Suc i = all_steps status m ! i + 3" "has_operand status m (all_steps status m ! i)"
  using numbered_next [OF assms(3,1)] all_steps_next [OF assms(2)] by (auto simp: has_operand_def split: if_splits)

lemma number_text:
  assumes ok: "code_ok status m" and items: "struct_items status" and i: "i < code_length status m"
    and op: "structOpHasNumber (structOpOfStep m (Some (all_steps status m ! i)))"
  shows "same_outline status m (set_byte (all_steps status m ! i + 2) v m)"
proof -
  let ?a = "all_steps status m ! i" and ?m = "set_byte (all_steps status m ! i + 2) v m"
  have b: "all_steps status m ! Suc i = ?a + 3" by (rule numbered_length(1) [OF items i op])
  have range: "same_range m ?m" by (simp add: same_range_def)
  note two = same_two_bytes [OF range, of ?a]
  have same: "byte_at ?m ?a = byte_at m ?a" "byte_at ?m (?a + 1) = byte_at m (?a + 1)" by (simp_all add: byte_at_set_byte)
  have n: "structOpHasNumber (structOpOfStep ?m (Some ?a))" using two(1) [OF same] op by simp
  have "findNextStep status ?m (Some ?a) = findNextStep status m (Some ?a)"
    by (simp only: numbered_next [OF n items] numbered_next [OF op items] same_range_available [OF range])
  then have "findNextStep status ?m (Some ?a) = Some (all_steps status m ! Suc i)" using all_steps_next [OF i] by simp
  moreover have "same_counters status m ?m i"
    using op by (auto simp: same_counters_def plain_op_def numbered_cases structPlainOp_def)
  ultimately show ?thesis
    by (intro interior_text [OF ok items i]) (use b two(4) [OF same] in simp_all)
qed

lemma mark_ops: "op \<in> FOR_OPS \<Longrightarrow> structPlainOp op = ITM_FOR" "op \<in> NEXT_OPS \<Longrightarrow> structPlainOp op = ITM_NEXT"
  by (auto simp: FOR_OPS_def NEXT_OPS_def structPlainOp_def)

lemma mark_bytes:
  assumes "op \<in> FOR_OPS \<union> NEXT_OPS" "op = 256 * x + y" "y < 256"
  shows "x = 11" "y = low_byte op" "low_byte op < 256" "op < LAST_ITEM" "op \<noteq> ITM_KEY" "op \<noteq> ITM_42KEY" "op \<ge> 128" "op = 256 * 11 + low_byte op"
proof -
  have l: "low_byte op = op mod 256" for op
    using take_bit_eq_mask [of 8 op] by (simp add: low_byte_def take_bit_eq_mod mask_eq_exp_minus_1)
  have d: "op div 256 = 11" using assms(1) by (auto simp: FOR_OPS_def NEXT_OPS_def)
  then show "x = 11" using assms(2,3) by simp
  show "y = low_byte op" unfolding l assms(2) using assms(3) by simp
  show "low_byte op < 256" by (simp add: l)
  show "op = 256 * 11 + low_byte op" using d by (metis l mult_div_mod_eq)
  show "op < LAST_ITEM" "op \<noteq> ITM_KEY" "op \<noteq> ITM_42KEY" "op \<ge> 128" using assms(1) by (auto simp: FOR_OPS_def NEXT_OPS_def)
qed

lemma low_byte_bound: "low_byte op < 256"
  using take_bit_eq_mask [of 8 op] by (simp add: low_byte_def take_bit_eq_mod mask_eq_exp_minus_1)

lemma mark_op: "op \<in> FOR_OPS \<union> NEXT_OPS \<Longrightarrow> op = 256 * 11 + low_byte op \<and> 128 \<le> op"
  using mark_bytes(7,8) [of op "op div 256" "op mod 256"] by simp

lemma mark_text:
  assumes ok: "code_ok status m" and items: "struct_items status" and i: "i < code_length status m"
    and op: "structOpOfStep m (Some (all_steps status m ! i)) \<in> S" "op' \<in> S" "S = FOR_OPS \<or> S = NEXT_OPS"
  shows "same_outline status m (set_byte (all_steps status m ! i + 1) (low_byte op') m)"
    "structOpOfStep (set_byte (all_steps status m ! i + 1) (low_byte op') m) (Some (all_steps status m ! i)) = op'"
    "all_steps status m ! i + 2 \<le> all_steps status m ! Suc i"
proof -
  let ?a = "all_steps status m ! i" and ?m = "set_byte (all_steps status m ! i + 1) (low_byte op') m"
  let ?op = "structOpOfStep m (Some ?a)"
  have range: "same_range m ?m" by (simp add: same_range_def)
  have marks: "?op \<in> FOR_OPS \<union> NEXT_OPS" "op' \<in> FOR_OPS \<union> NEXT_OPS" using op by auto
  note t = two_bytes [OF refl conjunct2 [OF mark_op [OF marks(1)]]]
  have high: "byte_at m ?a AND 0x7f = 11" by (rule mark_bytes(1) [OF marks(1) t(2) byte_at_less])
  have m: "byte_at ?m ?a = byte_at m ?a" "byte_at ?m (?a + 1) = low_byte op'" using low_byte_bound [of op'] by (simp_all add: byte_at_set_byte)
  have small: "\<not> programBytesAvailable ?a 1 m \<longrightarrow> False" using t(3) by (auto simp: programBytesAvailable_def)
  show op'': "structOpOfStep ?m (Some ?a) = op'"
    using m t(1,3) small high same_range_available [OF range] mark_op [OF marks(2)] by (simp add: structOpOfStep_def)
  have keys: "op \<in> FOR_OPS \<union> NEXT_OPS \<Longrightarrow> op \<noteq> ITM_KEY \<and> op \<noteq> ITM_42KEY" for op by (auto simp: FOR_OPS_def NEXT_OPS_def)
  have len: "findNextStep status m (Some ?a) = parameters_end status m ?op (?a + 2)"
      "findNextStep status ?m (Some ?a) = parameters_end status ?m op' (?a + 2)"
    using two_byte_next [OF refl, of m ?a] two_byte_next [OF op''] mark_op [OF marks(1)] mark_op [OF marks(2)] keys [OF marks(1)] keys [OF marks(2)]
    by blast+
  have p: "parameters_end status m ?op (?a + 2) = Some (all_steps status m ! Suc i)" using all_steps_next [OF i] len(1) by simp
  have st: "status ?op AND PTP_STATUS = 0x600" "status op' AND PTP_STATUS = 0x600" using items marks by (auto simp: struct_items_def)
  have "?op < LAST_ITEM" "op' < LAST_ITEM" using marks by (auto simp: FOR_OPS_def NEXT_OPS_def)
  then have "parameters_end status m op' (?a + 2) = parameters_end status m ?op (?a + 2)" using st by (simp add: parameters_end_def)
  then have "parameters_end status ?m op' (?a + 2) = Some (all_steps status m ! Suc i)"
    using p st by (intro parameters_end_local [OF _ range]) (simp_all add: byte_at_set_byte)
  then have nxt: "findNextStep status ?m (Some ?a) = Some (all_steps status m ! Suc i)" using len(2) by simp
  show long: "?a + 2 \<le> all_steps status m ! Suc i" using parameters_end_progress [OF p] by simp
  have "same_step m ?m ?a"
  proof -
    have "structPlainOp op' = structPlainOp ?op" using op mark_ops by metis
    moreover have "byte_at m ?a \<noteq> 0x85" "byte_at m ?a \<noteq> 0xFF" "byte_at m ?a \<noteq> ITM_LBL" using high by auto
    ultimately show ?thesis using m op'' by (simp add: same_step_def isAtEndOfProgram_def checkOpCodeOfStep_def isAtEndOfPrograms_def)
  qed
  moreover have "same_counters status m ?m i" by (simp add: same_counters_def byte_at_set_byte)
  ultimately show "same_outline status m ?m"
    using long by (intro interior_text [OF ok items i _ _ nxt]) simp_all
qed

section \<open>What depends on the text\<close>

lemma text_step:
  assumes "same_outline status m m'" "i \<le> code_length status m"
  shows "plain_op status m' i = plain_op status m i" "byte_at m' (all_steps status m ! i) = byte_at m (all_steps status m ! i)"
    "isAtEndOfProgram m' (Some (all_steps status m ! i)) = isAtEndOfProgram m (Some (all_steps status m ! i))"
    "isAtEndOfPrograms m' (Some (all_steps status m ! i)) = isAtEndOfPrograms m (Some (all_steps status m ! i))"
    "label_at status m' i = label_at status m i" "ends_program status m' i = ends_program status m i"
    "structure_at status m' i = structure_at status m i"
proof -
  have st: "all_steps status m' = all_steps status m" and s: "same_step m m' (all_steps status m ! i)"
    using assms by (simp_all add: same_outline_def)
  then show "plain_op status m' i = plain_op status m i" "byte_at m' (all_steps status m ! i) = byte_at m (all_steps status m ! i)"
    "isAtEndOfProgram m' (Some (all_steps status m ! i)) = isAtEndOfProgram m (Some (all_steps status m ! i))"
    "isAtEndOfPrograms m' (Some (all_steps status m ! i)) = isAtEndOfPrograms m (Some (all_steps status m ! i))"
    and l: "label_at status m' i = label_at status m i" and "ends_program status m' i = ends_program status m i"
    by (simp_all add: same_step_def plain_op_def label_at_def ends_program_def)
  show "structure_at status m' i = structure_at status m i"
    using l s st by (simp add: structure_at_def structStepIsJumpTarget_def same_step_def)
qed

lemma text_places:
  assumes t: "same_outline status m m'"
  shows "label_places status m' = label_places status m" "structure_places status m' = structure_places status m"
    "start_places status m' = start_places status m" "code_ok status m' = code_ok status m"
    "program_at status m' = program_at status m" "start_before status m' = start_before status m"
    "\<And>i. i \<le> code_length status m \<Longrightarrow> program_of status m' i = program_of status m i"
proof -
  note n = same_outline_length [OF t]
  have st: "all_steps status m' = all_steps status m" "same_range m m'" using t by (simp_all add: same_outline_def)
  show "label_places status m' = label_places status m" "structure_places status m' = structure_places status m"
    unfolding label_places_def structure_places_def n by (rule filter_cong [OF refl]; use text_step(5,7) [OF t] in simp)+
  have "filter (start_at status m') [0 ..< code_length status m] = filter (start_at status m) [0 ..< code_length status m]"
    by (rule filter_cong [OF refl]) (use text_step(6) [OF t] n in \<open>simp add: start_at_def\<close>)
  then show s: "start_places status m' = start_places status m" by (simp add: start_places_def n)
  show "program_at status m' = program_at status m" "start_before status m' = start_before status m"
    by (simp_all add: fun_eq_iff program_at_def start_before_def s)
  have "(\<forall>i \<le> code_length status m. isAtEndOfPrograms m' (Some (all_steps status m ! i)) \<longleftrightarrow> i = code_length status m) \<longleftrightarrow>
      (\<forall>i \<le> code_length status m. isAtEndOfPrograms m (Some (all_steps status m ! i)) \<longleftrightarrow> i = code_length status m)"
    using text_step(4) [OF t] by simp
  then show "code_ok status m' = code_ok status m" using st by (simp add: code_ok_def n same_range_def)
  show "program_of status m' i = program_of status m i" if "i \<le> code_length status m" for i
  proof -
    have "filter (ends_program status m') [0 ..< i] = filter (ends_program status m) [0 ..< i]"
      by (rule filter_cong [OF refl]) (use text_step(6) [OF t] that in simp)
    then show ?thesis by (simp add: program_of_def)
  qed
qed

lemma text_tables:
  assumes t: "same_outline status (p :: 'a labelled_scheme) p'" and e: "labels p' = labels p" "structureLabels p' = structureLabels p" "programTable p' = programTable p"
  shows "tables_ok status p' = tables_ok status p"
proof -
  have st: "all_steps status p' = all_steps status p" using t by (simp add: same_outline_def)
  note pl = text_places [OF t]
  have L: "map (label_of status p') (label_places status p) = map (label_of status p) (label_places status p)"
  proof (rule map_cong [OF refl])
    fix i assume "i \<in> set (label_places status p)"
    then have i: "i < code_length status p" "label_at status p i" by (auto simp: label_places_def)
    then have "byte_at p' (all_steps status p ! i + 1) = byte_at p (all_steps status p ! i + 1)"
      using t by (simp add: same_outline_def same_step_def label_at_def)
    then show "label_of status p' i = label_of status p i" using i st pl(7) [of i] by (simp add: label_of_def label_entry_def)
  qed
  have S: "map (structure_of status p') (structure_places status p) = map (structure_of status p) (structure_places status p)"
    using pl(7) by (auto simp: structure_places_def structure_of_def st)
  have B: "start_of status p' = start_of status p" by (simp add: fun_eq_iff start_of_def st)
  show ?thesis by (simp only: tables_ok_def e pl(1,2,3) L S B)
qed

lemma text_counters:
  assumes t: "same_outline status m m'" and items: "struct_items status" and i: "i < code_length status m" "plain_op status m i = ITM_FOR"
    and j: "j < code_length status m" "plain_op status m j = ITM_NEXT" and ok: "code_ok status m"
  shows "forStepsSameCounter status m' (all_steps status m ! i) (all_steps status m ! j) =
    forStepsSameCounter status m (all_steps status m ! i) (all_steps status m ! j)"
proof -
  let ?s = "\<lambda>i. all_steps status m ! i"
  have next': "findNextStep status m' (Some (?s k)) = Some (?s (Suc k))" if "k < code_length status m" for k
    using all_steps_next [of k status m'] same_outline_length [OF t] t that by (simp add: same_outline_def)
  have bytes: "byte_at m' x = byte_at m x" if "plain_op status m k = ITM_FOR \<or> plain_op status m k = ITM_NEXT" "k < code_length status m"
      "?s k + 2 \<le> x" "x < ?s (Suc k)" for k x
    using t that unfolding same_outline_def same_counters_def by blast
  have "list_all (\<lambda>k. byte_at m' (?s i + k) = byte_at m' (?s j + k)) [2 ..< trunc16 (?s (Suc i) - ?s i)] =
      list_all (\<lambda>k. byte_at m (?s i + k) = byte_at m (?s j + k)) [2 ..< trunc16 (?s (Suc i) - ?s i)]"
    if len: "?s (Suc i) - ?s i = ?s (Suc j) - ?s j"
  proof (rule list.pred_cong [OF refl])
    fix k assume k: "k \<in> set [2 ..< trunc16 (?s (Suc i) - ?s i)]"
    have "trunc16 (?s (Suc i) - ?s i) \<le> ?s (Suc i) - ?s i" by (simp add: trunc16_def)
    then have "2 \<le> k" "?s i + k < ?s (Suc i)" "?s j + k < ?s (Suc j)" using k len by auto
    then have "byte_at m' (?s i + k) = byte_at m (?s i + k)" "byte_at m' (?s j + k) = byte_at m (?s j + k)"
      using bytes [of i "?s i + k"] bytes [of j "?s j + k"] i j by simp_all
    then show "(byte_at m' (?s i + k) = byte_at m' (?s j + k)) = (byte_at m (?s i + k) = byte_at m (?s j + k))" by simp
  qed
  then show ?thesis using next' [OF i(1)] next' [OF j(1)] all_steps_next [OF i(1)] all_steps_next [OF j(1)]
    by (simp add: forStepsSameCounter_def cong: conj_cong)
qed

end
