(* ===== verification/ValidWalk.thy ===== *)
theory ValidWalk
  imports Nesting ValidText
begin

text \<open>
  The walk of VALID over the list of steps: its stack is the list of the openers, its numbers are their
  ranks, and a walk without a fault means that the program is well nested.  The checking walk writes
  nothing; the numbering walk takes the same course and writes the numbers.
\<close>

section \<open>The open program\<close>

text \<open>The steps from \<open>s\<close> up to the END at \<open>e\<close>.\<close>

definition open_program :: "(nat \<Rightarrow> nat) \<Rightarrow> nat \<Rightarrow> nat \<Rightarrow> 'a labelled_scheme \<Rightarrow> bool" where
  "open_program status s e p \<longleftrightarrow>
     s \<le> e \<and> e \<le> code_length status p \<and> beginOfCurrentProgram p = all_steps status p ! s \<and>
     (\<exists>z. endOfCurrentProgram p = Some z \<and> (\<forall>i. s \<le> i \<and> i < e \<longrightarrow> all_steps status p ! i < z)) \<and>
     (\<forall>i. s \<le> i \<and> i < e \<longrightarrow> \<not> ends_program status p i) \<and> (e < code_length status p \<longrightarrow> ends_program status p e)"

lemma in_program_at:
  assumes "open_program status s e p" "code_ok status p" "s \<le> i" "i \<le> e"
  shows "in_program (Some (all_steps status p ! i)) p \<longleftrightarrow> i < e"
proof (cases "i < e")
  case True
  then show ?thesis using assms all_steps_end [OF assms(2), of i]
    by (auto simp: open_program_def in_program_def ends_program_def)
next
  case False
  then show ?thesis using assms all_steps_end [OF assms(2), of i]
    by (cases "e < code_length status p") (auto simp: open_program_def in_program_def ends_program_def)
qed

definition same_but_ram :: "'a memory_scheme \<Rightarrow> 'a memory_scheme \<Rightarrow> bool" where
  "same_but_ram m m' \<longleftrightarrow> (\<exists>r. m' = m\<lparr>pool := (pool m)\<lparr>ram := r\<rparr>\<rparr>)"

lemma same_but_ram_refl [simp]: "same_but_ram m m"
  unfolding same_but_ram_def by (rule exI [of _ "ram (pool m)"]) simp

lemma same_but_ram_trans: "same_but_ram m m' \<Longrightarrow> same_but_ram m' m'' \<Longrightarrow> same_but_ram m m''"
  unfolding same_but_ram_def by auto

lemma same_but_ram_set_byte [simp]: "same_but_ram m (set_byte a v m)"
  unfolding same_but_ram_def set_byte_def by blast

lemma same_but_ram_fields:
  assumes "same_but_ram p (p' :: 'a labelled_scheme)"
  shows "labels p' = labels p" "structureLabels p' = structureLabels p" "programTable p' = programTable p"
    "currentProgramNumber p' = currentProgramNumber p" "beginOfCurrentProgram p' = beginOfCurrentProgram p"
    "endOfCurrentProgram p' = endOfCurrentProgram p" "currentStep p' = currentStep p" "currentLocalStepNumber p' = currentLocalStepNumber p"
    "programRunning p' = programRunning p"
  using assms by (auto simp: same_but_ram_def)

lemma open_program_text:
  assumes t: "same_outline status p p'" and r: "same_but_ram p p'" and o: "open_program status s e p"
  shows "open_program status s e p'"
proof -
  have st: "all_steps status p' = all_steps status p" using t by (simp add: same_outline_def)
  have le: "s \<le> e" "e \<le> code_length status p" using o by (simp_all add: open_program_def)
  have ends: "ends_program status p' i = ends_program status p i" if "i \<le> e" for i using text_step(6) [OF t] that le by simp
  show ?thesis using o ends same_but_ram_fields(5,6) [OF r] by (simp add: open_program_def st same_outline_length [OF t])
qed

section \<open>The stack of the walk\<close>

definition entry_ok :: "(nat \<Rightarrow> nat) \<Rightarrow> 'a memory_scheme \<Rightarrow> nat \<Rightarrow> opened \<Rightarrow> nat \<Rightarrow> bool" where
  "entry_ok status m s x q \<longleftrightarrow>
     openedBy x = plain_op status m q \<and>
     (if plain_op status m q = ITM_FOR then openForStep x = all_steps status m ! q else openNumber x = rank (plain_op status m) s q)"

definition count_ops :: "(nat \<Rightarrow> nat) \<Rightarrow> nat \<Rightarrow> nat \<Rightarrow> nat \<Rightarrow> nat" where
  "count_ops ops s i op = length (filter (\<lambda>j. ops j = op) [s ..< i])"

definition walk_at :: "(nat \<Rightarrow> nat) \<Rightarrow> 'a memory_scheme \<Rightarrow> nat \<Rightarrow> nat \<Rightarrow> walk \<Rightarrow> bool" where
  "walk_at status m s i w \<longleftrightarrow>
     walkStep w = Some (all_steps status m ! i) \<and>
     list_all2 (entry_ok status m s) (openStructures w) (open_at (plain_op status m) s i) \<and>
     (\<forall>op \<in> {ITM_IF, ITM_DO, ITM_REPEAT}. series op w = count_ops (plain_op status m) s i op)"

lemma rank_count: "s \<le> i \<Longrightarrow> rank ops s i = Suc (count_ops ops s i (ops i))"
  by (simp add: rank_def count_ops_def)

lemma count_ops_Suc: "s \<le> i \<Longrightarrow> count_ops ops s (Suc i) op = (if ops i = op then Suc (count_ops ops s i op) else count_ops ops s i op)"
  by (simp add: count_ops_def)

lemma boundary_stack:
  "list_all2 (entry_ok status m s) (openStructures (routine_boundary op w)) qs = list_all2 (entry_ok status m s) (openStructures w) qs"
  "series x (routine_boundary op w) = series x w" "walkNumber (routine_boundary op w) = walkNumber w"
  "walkStep (routine_boundary op w) = walkStep w" "previousStepOp (routine_boundary op w) = previousStepOp w"
proof -
  have [simp]: "entry_ok status m s (x\<lparr>openCrossed := True\<rparr>) q = entry_ok status m s x q" for x q by (simp add: entry_ok_def)
  show "list_all2 (entry_ok status m s) (openStructures (routine_boundary op w)) qs = list_all2 (entry_ok status m s) (openStructures w) qs"
    by (simp add: routine_boundary_def list_all2_map1)
qed (simp_all add: routine_boundary_def series_def)

lemma see_for_stack [simp]:
  "openStructures (see_for op a w) = openStructures w" "series x (see_for op a w) = series x w"
  "walkNumber (see_for op a w) = walkNumber w" "walkStep (see_for op a w) = walkStep w"
  by (simp_all add: see_for_def series_def)

text \<open>What the check of one step means, the step being \<open>i\<close> with operation \<open>op\<close>.\<close>

lemma check_structure_stack:
  assumes ops_eq: "ops = plain_op status m" and op_eq: "op = plain_op status m i"
    and stack: "list_all2 (entry_ok status m s) (openStructures w) (open_at ops s i)"
    and counts: "\<forall>op \<in> {ITM_IF, ITM_DO, ITM_REPEAT}. series op w = count_ops ops s i op" and i: "s \<le> i"
    and c: "check_structure status m op (all_steps status m ! i) w = Inr w'"
  shows "list_all2 (entry_ok status m s) (openStructures w')
      (if opens op then i # open_at ops s i else if op = ITM_NEXT then tl (open_at ops s i) else open_at ops s i)"
    "\<forall>op \<in> {ITM_IF, ITM_DO, ITM_REPEAT}. series op w' = count_ops ops s (Suc i) op"
    "(structOpHasNumber op \<or> op = ITM_NEXT) \<and> \<not> opens op \<Longrightarrow> open_at ops s i \<noteq> [] \<and> ops (hd (open_at ops s i)) = family op"
    "opens op \<Longrightarrow> op \<noteq> ITM_FOR \<Longrightarrow> rank ops s i \<le> STRUCT_MAX_NUMBER"
proof -
  have r: "rank ops s i = Suc (count_ops ops s i op)" by (simp add: rank_count [OF i] op_eq ops_eq)
  have cs: "count_ops ops s (Suc i) x = (if op = x then Suc (count_ops ops s i x) else count_ops ops s i x)" for x
    by (simp add: count_ops_Suc [OF i] op_eq ops_eq)
  have oi: "ops i = op" by (simp add: ops_eq op_eq)
  consider (For) "op = ITM_FOR" | (Next) "op = ITM_NEXT" | (opener) "op = ITM_IF \<or> op = ITM_DO \<or> op = ITM_REPEAT"
    | (closer) "structOpHasNumber op" "\<not> opens op" | (other) "\<not> structOpHasNumber op" "op \<noteq> ITM_FOR" "op \<noteq> ITM_NEXT" "\<not> opens op"
    by (auto simp: opens_def)
  then have "list_all2 (entry_ok status m s) (openStructures w')
      (if opens op then i # open_at ops s i else if op = ITM_NEXT then tl (open_at ops s i) else open_at ops s i) \<and>
    (\<forall>op \<in> {ITM_IF, ITM_DO, ITM_REPEAT}. series op w' = count_ops ops s (Suc i) op) \<and>
    ((structOpHasNumber op \<or> op = ITM_NEXT) \<and> \<not> opens op \<longrightarrow> open_at ops s i \<noteq> [] \<and> ops (hd (open_at ops s i)) = family op) \<and>
    (opens op \<and> op \<noteq> ITM_FOR \<longrightarrow> rank ops s i \<le> STRUCT_MAX_NUMBER)"
  proof cases
    case For
    then show ?thesis using c stack counts op_eq [symmetric]
      by (auto simp: check_structure_def check_for_def opens_def cs entry_ok_def series_def split: if_splits)
  next
    case Next
    then obtain x xs where x: "openStructures w = x # xs" "openedBy x = ITM_FOR" "w' = w\<lparr>forDepth := forDepth w - 1, openStructures := xs\<rparr>"
      using c by (auto simp: check_structure_def check_next_def split: list.splits if_splits)
    with stack obtain q qs where q: "open_at ops s i = q # qs" "entry_ok status m s x q" "list_all2 (entry_ok status m s) xs qs"
      by (auto simp: list_all2_Cons1)
    have "ops q = ITM_FOR" using x(2) q(2) by (simp add: entry_ok_def ops_eq)
    then show ?thesis using x(3) q counts Next by (simp add: opens_def family_def cs series_def)
  next
    case opener
    then show ?thesis using c stack counts r oi
      by (auto simp: check_structure_def check_opener_def opens_def cs entry_ok_def series_def ops_eq [symmetric] split: if_splits)
  next
    case closer
    then have "check_closer op w = Inr w'" using c by (auto simp: check_structure_def structOpHasNumber_def opens_def)
    then obtain x xs where x: "openStructures w = x # xs" "openedBy x = opener_of op"
        "w' = w\<lparr>openStructures := (if op = ITM_WHILE then x\<lparr>openSawWhile := True\<rparr> else x) # xs\<rparr>"
      by (auto simp: check_closer_def Let_def split: list.splits if_splits)
    with stack obtain q qs where q: "open_at ops s i = q # qs" "entry_ok status m s x q" "list_all2 (entry_ok status m s) xs qs"
      by (auto simp: list_all2_Cons1)
    have "ops q = family op" using x(2) q(2) closer by (auto simp: entry_ok_def ops_eq family_def structOpHasNumber_def)
    moreover have "entry_ok status m s (if op = ITM_WHILE then x\<lparr>openSawWhile := True\<rparr> else x) q" using q(2) by (simp add: entry_ok_def)
    ultimately show ?thesis using x(3) q counts closer by (auto simp: opens_def structOpHasNumber_def cs series_def)
  next
    case other
    then have "w' = w" using c by (auto simp: check_structure_def opens_def)
    then show ?thesis using other stack counts by (auto simp: opens_def cs)
  qed
  then show "list_all2 (entry_ok status m s) (openStructures w')
      (if opens op then i # open_at ops s i else if op = ITM_NEXT then tl (open_at ops s i) else open_at ops s i)"
    "\<forall>op \<in> {ITM_IF, ITM_DO, ITM_REPEAT}. series op w' = count_ops ops s (Suc i) op"
    "(structOpHasNumber op \<or> op = ITM_NEXT) \<and> \<not> opens op \<Longrightarrow> open_at ops s i \<noteq> [] \<and> ops (hd (open_at ops s i)) = family op"
    "opens op \<Longrightarrow> op \<noteq> ITM_FOR \<Longrightarrow> rank ops s i \<le> STRUCT_MAX_NUMBER"
    by blast+
qed

text \<open>What a step without a fault contributes to a well-nested program.\<close>

definition nests :: "(nat \<Rightarrow> nat) \<Rightarrow> nat \<Rightarrow> nat \<Rightarrow> bool" where
  "nests ops s i \<longleftrightarrow>
     (structOpHasNumber (ops i) \<or> ops i = ITM_NEXT \<longrightarrow> \<not> opens (ops i) \<longrightarrow>
        open_at ops s i \<noteq> [] \<and> ops (hd (open_at ops s i)) = family (ops i)) \<and>
     (opens (ops i) \<and> ops i \<noteq> ITM_FOR \<longrightarrow> rank ops s i \<le> STRUCT_MAX_NUMBER)"

definition number_at :: "(nat \<Rightarrow> nat) \<Rightarrow> nat \<Rightarrow> nat \<Rightarrow> nat option" where
  "number_at ops s i = (if structOpHasNumber (ops i) then Some (rank ops s (owner ops s i)) else None)"

lemma walk_check_step:
  assumes w: "walk_at status m s i w" and i: "s \<le> i" "i < code_length status m"
    and c: "walk_check status m (all_steps status m ! i) w = Inr (w', number)"
  shows "walk_at status m s (Suc i) w'" "number = number_at (plain_op status m) s i" "nests (plain_op status m) s i"
proof -
  define ops where "ops = plain_op status m"
  define op where "op = plain_op status m i"
  have op_step: "structPlainOp (structOpOfStep m (Some (all_steps status m ! i))) = op" by (simp add: op_def plain_op_def)
  have oi: "ops i = op" by (simp add: ops_def op_def)
  let ?w2 = "see_for op (all_steps status m ! i) (routine_boundary op w)"
  obtain w3 where w3: "check_structure status m op (all_steps status m ! i) ?w2 = Inr w3" and cr: "check_crossed op w3 = Inr number"
    and w': "w' = walk_on (findNextStep status m (Some (all_steps status m ! i))) op w3"
    using c by (auto simp: walk_check_def op_step Let_def split: if_splits sum.splits)
  have stack: "list_all2 (entry_ok status m s) (openStructures ?w2) (open_at ops s i)"
    and counts: "\<forall>x \<in> {ITM_IF, ITM_DO, ITM_REPEAT}. series x ?w2 = count_ops ops s i x"
    using w by (simp_all add: walk_at_def boundary_stack ops_def)
  note st = check_structure_stack [OF ops_def op_def stack counts i(1) w3]
  show "nests (plain_op status m) s i" using st(3,4) by (auto simp: nests_def ops_def [symmetric] oi)
  show "walk_at status m s (Suc i) w'"
  proof -
    have "walkStep w' = Some (all_steps status m ! Suc i)" using all_steps_next [OF i(2)] by (simp add: w' walk_on_def)
    moreover have "list_all2 (entry_ok status m s) (openStructures w') (open_at ops s (Suc i))"
    proof (cases "op = ITM_ENDIF \<or> op = ITM_ENDDO \<or> op = ITM_UNTIL")
      case True
      then have "\<not> opens op" "closes op" "op \<noteq> ITM_NEXT" by (auto simp: opens_def closes_def)
      then show ?thesis using True st(1) i(1) oi
        by (cases "openStructures w3"; cases "open_at ops s i") (auto simp: w' walk_on_def)
    next
      case False
      then have "opens op \<or> op = ITM_NEXT \<or> \<not> closes op" by (auto simp: closes_def)
      moreover have "opens ITM_NEXT = False" "closes ITM_NEXT" by (simp_all add: opens_def closes_def)
      ultimately show ?thesis using False st(1) i(1) oi by (auto simp: w' walk_on_def split: if_splits)
    qed
    moreover have "series x w' = series x w3" for x by (simp add: w' walk_on_def series_def)
    ultimately show ?thesis using st(2) by (simp add: walk_at_def ops_def)
  qed
  show "number = number_at (plain_op status m) s i"
  proof (cases "structOpHasNumber op")
    case False
    then show ?thesis using cr oi by (auto simp: check_crossed_def number_at_def ops_def split: list.splits)
  next
    case True
    have plain: "op \<noteq> ITM_NEXT" "op \<noteq> ITM_FOR" using True by (auto simp: structOpHasNumber_def)
    obtain qs where q: "(if opens op then i # open_at ops s i else open_at ops s i) = owner ops s i # qs"
      using st(3) True oi by (cases "opens op"; cases "open_at ops s i") (auto simp: owner_def)
    then obtain x xs where x: "openStructures w3 = x # xs" "entry_ok status m s x (owner ops s i)"
      using st(1) plain by (auto simp: list_all2_Cons2 split: if_splits)
    have "ops (owner ops s i) \<noteq> ITM_FOR"
      using st(3) True plain oi by (cases "opens op") (auto simp: owner_def family_def opener_of_def)
    then have "openNumber x = rank ops s (owner ops s i)" using x(2) by (simp add: entry_ok_def ops_def)
    then show ?thesis using cr x(1) True oi by (auto simp: check_crossed_def number_at_def ops_def split: if_splits)
  qed
qed

text \<open>The check reads nothing but the text.\<close>

lemma walk_check_text:
  assumes t: "same_outline status m m'" and ok: "code_ok status m" and items: "struct_items status"
    and w: "walk_at status m s i w" and i: "s \<le> i" "i < code_length status m"
  shows "walk_check status m' (all_steps status m ! i) w = walk_check status m (all_steps status m ! i) w"
proof -
  define op where "op = plain_op status m i"
  have op_step: "structPlainOp (structOpOfStep m (Some (all_steps status m ! i))) = op" "structPlainOp (structOpOfStep m' (Some (all_steps status m ! i))) = op"
    using text_step(1) [OF t, of i] i t by (simp_all add: op_def plain_op_def same_outline_def)
  have nxt: "findNextStep status m' (Some (all_steps status m ! i)) = findNextStep status m (Some (all_steps status m ! i))"
    using all_steps_next [OF i(2)] all_steps_next [of i status m'] same_outline_length [OF t] t i(2) by (simp add: same_outline_def)
  have "check_structure status m' op (all_steps status m ! i) w2 = check_structure status m op (all_steps status m ! i) w2"
    if w2: "list_all2 (entry_ok status m s) (openStructures w2) (open_at (plain_op status m) s i)" for w2
  proof -
    have "check_next status m' (all_steps status m ! i) w2 = check_next status m (all_steps status m ! i) w2" if op: "op = ITM_NEXT"
    proof (cases "openStructures w2")
      case (Cons x xs)
      show ?thesis
      proof (cases "openedBy x = ITM_FOR")
        case True
        obtain q qs where q: "open_at (plain_op status m) s i = q # qs" "entry_ok status m s x q" using w2 Cons by (auto simp: list_all2_Cons1)
        have "q < i" using open_at_below [of q "plain_op status m" s i] q(1) by simp
        moreover have "plain_op status m q = ITM_FOR" "openForStep x = all_steps status m ! q" using q(2) True by (simp_all add: entry_ok_def split: if_splits)
        ultimately have "forStepsSameCounter status m' (openForStep x) (all_steps status m ! i) = forStepsSameCounter status m (openForStep x) (all_steps status m ! i)"
          using text_counters [OF t items _ _ i(2) _ ok, of q] i(2) op by (simp add: op_def)
        then show ?thesis using Cons by (simp add: check_next_def)
      qed (simp add: check_next_def Cons)
    qed (simp add: check_next_def)
    then show ?thesis by (simp add: check_structure_def)
  qed
  then have "check_structure status m' op (all_steps status m ! i) (see_for op (all_steps status m ! i) (routine_boundary op w)) =
      check_structure status m op (all_steps status m ! i) (see_for op (all_steps status m ! i) (routine_boundary op w))"
    using w by (simp add: walk_at_def boundary_stack)
  then show ?thesis by (simp only: walk_check_def op_step nxt Let_def)
qed

section \<open>The two walks\<close>

lemma plain_numbered: "structOpHasNumber (structPlainOp op) \<longleftrightarrow> structOpHasNumber op" "structOpHasNumber op \<Longrightarrow> structPlainOp op = op"
  by (auto simp: structOpHasNumber_def structPlainOp_def)

lemma walks_on_at:
  "open_program status s e p \<Longrightarrow> code_ok status p \<Longrightarrow> s \<le> i \<Longrightarrow> i \<le> e \<Longrightarrow> walks_on None (Some (all_steps status p ! i)) p \<longleftrightarrow> i < e"
  using in_program_at by (simp add: walks_on_def)

lemma write_number_False [simp]: "write_number status False a number p = p"
  by (simp add: write_number_def split: option.split)

lemma checking_walk:
  assumes ok: "code_ok status p" and o: "open_program status s e p"
  shows "s \<le> i \<Longrightarrow> i \<le> e \<Longrightarrow> walk_at status p s i w \<Longrightarrow> walk_loop status False None w p = (Inr wend, p') \<Longrightarrow>
    p' = p \<and> walk_at status p s e wend \<and> (\<forall>j. i \<le> j \<and> j < e \<longrightarrow> nests (plain_op status p) s j)"
proof (induction "e - i" arbitrary: i w)
  case 0
  then have "i = e" by simp
  moreover have "walkStep w = Some (all_steps status p ! i)" using 0(4) by (simp add: walk_at_def)
  ultimately show ?case using 0 walks_on_at [OF o ok, of e] by (auto simp: walk_loop.simps [of status False None w])
next
  case (Suc d)
  then have i: "i < e" by simp
  have n: "i < code_length status p" using o i by (simp add: open_program_def)
  have ws: "walkStep w = Some (all_steps status p ! i)" using Suc.prems(3) by (simp add: walk_at_def)
  then obtain w' number where c: "walk_check status p (all_steps status p ! i) w = Inr (w', number)"
      and rest: "walk_loop status False None w' p = (Inr wend, p')"
    using Suc.prems(1,4) i walks_on_at [OF o ok, of i] by (auto simp: walk_loop.simps [of status False None w] split: sum.splits)
  note st = walk_check_step [OF Suc.prems(3,1) n c]
  have "d = e - Suc i" using Suc.hyps(2) by simp
  from Suc.hyps(1) [OF this _ _ st(1) rest] Suc.prems(1) i
  have "p' = p \<and> walk_at status p s e wend \<and> (\<forall>j. Suc i \<le> j \<and> j < e \<longrightarrow> nests (plain_op status p) s j)" by simp
  with st(3) show ?case by (metis Suc_leI le_neq_implies_less)
qed

lemma nests_nested: "(\<And>j. s \<le> j \<Longrightarrow> j < e \<Longrightarrow> nests ops s j) \<Longrightarrow> open_at ops s e = [] \<Longrightarrow> nested ops s e"
  by (simp add: nested_def nests_def)

lemma owner_rank:
  assumes "\<And>j. s \<le> j \<Longrightarrow> j < e \<Longrightarrow> nests ops s j" "nested ops s e" "s \<le> i" "i < e" "structOpHasNumber (ops i)"
  shows "rank ops s (owner ops s i) \<le> STRUCT_MAX_NUMBER" "0 < rank ops s (owner ops s i)"
proof -
  note ow = nested_owner [OF assms(2-4) disjI1 [OF assms(5)]]
  have "ops (owner ops s i) \<noteq> ITM_FOR" using ow(1) assms(5) by (auto simp: family_def structOpHasNumber_def opener_of_def opens_def)
  then show "rank ops s (owner ops s i) \<le> STRUCT_MAX_NUMBER" using assms(1) [of "owner ops s i"] ow(3,4,5) assms(4) by (simp add: nests_def)
  show "0 < rank ops s (owner ops s i)" by (rule rank_pos [OF ow(4)])
qed

text \<open>The bytes of the open program that hold numbers.\<close>

definition number_byte :: "(nat \<Rightarrow> nat) \<Rightarrow> nat \<Rightarrow> nat \<Rightarrow> 'a memory_scheme \<Rightarrow> nat \<Rightarrow> bool" where
  "number_byte status s e m x \<longleftrightarrow>
     (\<exists>j < code_length status m. s \<le> j \<and> j < e \<and> structOpHasNumber (plain_op status m j) \<and> x = all_steps status m ! j + 2)"

lemma numbering_walk:
  assumes ok: "code_ok status p" and items: "struct_items status" and o: "open_program status s e p"
    and nests: "\<And>j. s \<le> j \<Longrightarrow> j < e \<Longrightarrow> nests (plain_op status p) s j" and n: "nested (plain_op status p) s e"
  shows "s \<le> i \<Longrightarrow> i \<le> e \<Longrightarrow> walk_at status p s i w \<Longrightarrow> walk_loop status False None w p = (Inr wend, p) \<Longrightarrow>
    same_outline status p q \<Longrightarrow> same_but_ram p q \<Longrightarrow>
    (\<And>j. s \<le> j \<Longrightarrow> j < i \<Longrightarrow> structOpHasNumber (plain_op status p j) \<Longrightarrow>
       byte_at q (all_steps status p ! j + 2) = rank (plain_op status p) s (owner (plain_op status p) s j)) \<Longrightarrow>
    (\<And>x. \<not> number_byte status s e p x \<Longrightarrow> byte_at q x = byte_at p x) \<Longrightarrow>
    \<exists>q'. walk_loop status True None w q = (Inr wend, q') \<and> same_outline status p q' \<and> same_but_ram p q' \<and>
      (\<forall>x. \<not> number_byte status s e p x \<longrightarrow> byte_at q' x = byte_at p x) \<and>
      (\<forall>j. s \<le> j \<and> j < e \<and> structOpHasNumber (plain_op status p j) \<longrightarrow>
         byte_at q' (all_steps status p ! j + 2) = rank (plain_op status p) s (owner (plain_op status p) s j))"
proof (induction "e - i" arbitrary: i w q)
  case 0
  then have "i = e" by simp
  moreover have "walkStep w = Some (all_steps status p ! i)" using 0(4) by (simp add: walk_at_def)
  moreover have "\<not> walks_on None (Some (all_steps status p ! e)) q"
    using walks_on_at [OF open_program_text [OF 0(6,7) o], of e] text_places(4) [OF 0(6)] ok 0(6) o
    by (simp add: same_outline_def open_program_def)
  moreover from calculation have "wend = w"
    using 0(2,4,5) walks_on_at [OF o ok, of e] by (simp add: walk_loop.simps [of status False None w])
  ultimately have "walk_loop status True None w q = (Inr wend, q)" by (subst walk_loop.simps) simp
  then show ?case using 0(6-9) \<open>i = e\<close> by blast
next
  case (Suc d)
  let ?ops = "plain_op status p" and ?s = "\<lambda>j. all_steps status p ! j"
  have i: "i < e" using Suc.hyps(2) by simp
  have len: "i < code_length status p" using o i by (simp add: open_program_def)
  have ws: "walkStep w = Some (?s i)" using Suc.prems(3) by (simp add: walk_at_def)
  then obtain w' number where c: "walk_check status p (?s i) w = Inr (w', number)"
      and rest: "walk_loop status False None w' p = (Inr wend, p)"
    using Suc.prems(1,4) i walks_on_at [OF o ok, of i] by (auto simp: walk_loop.simps [of status False None w] split: sum.splits)
  note st = walk_check_step [OF Suc.prems(3,1) len c]
  have okq: "code_ok status q" and sq: "all_steps status q = all_steps status p" and lenq: "i < code_length status q"
    using text_places(4) [OF Suc.prems(5)] ok Suc.prems(5) same_outline_length [OF Suc.prems(5)] len by (simp_all add: same_outline_def)
  have on: "walks_on None (Some (?s i)) q"
    using walks_on_at [OF open_program_text [OF Suc.prems(5,6) o] okq Suc.prems(1)] i by (simp add: sq)
  have cq: "walk_check status q (?s i) w = Inr (w', number)"
    using walk_check_text [OF Suc.prems(5) ok items Suc.prems(3,1) len] c by simp
  define q2 where "q2 = write_number status True (?s i) number q"
  have q2: "same_outline status q q2 \<and> same_but_ram q q2 \<and>
      (\<forall>x. \<not> number_byte status s e p x \<longrightarrow> byte_at q2 x = byte_at p x) \<and>
      (\<forall>j. s \<le> j \<and> j < Suc i \<and> structOpHasNumber (?ops j) \<longrightarrow> byte_at q2 (?s j + 2) = rank ?ops s (owner ?ops s j))"
  proof (cases "structOpHasNumber (?ops i)")
    case False
    then have "q2 = q" using st(2) by (simp add: q2_def number_at_def write_number_def)
    then show ?thesis using Suc.prems(7,8) False by (auto simp: less_Suc_eq)
  next
    case True
    have "plain_op status q i = ?ops i" using text_step(1) [OF Suc.prems(5)] len by simp
    then have num: "structOpHasNumber (structOpOfStep q (Some (all_steps status q ! i)))"
      using True plain_numbered(1) by (metis plain_op_def)
    have "has_operand status q (?s i)" using numbered_length(2) [OF items lenq num] sq by simp
    then have w2: "q2 = set_byte (?s i + 2) (rank ?ops s (owner ?ops s i)) q"
      using st(2) True by (simp add: q2_def number_at_def write_number_def)
    have "byte_at q2 (?s j + 2) = rank ?ops s (owner ?ops s j)" if "s \<le> j" "j < Suc i" "structOpHasNumber (?ops j)" for j
    proof (cases "j = i")
      case True
      then show ?thesis using owner_rank(1) [OF nests n Suc.prems(1) i \<open>structOpHasNumber (?ops i)\<close>] by (simp add: w2 byte_at_set_byte)
    next
      case False
      then have "?s j < ?s i" using that all_steps_sorted [of j i status p] len by simp
      then show ?thesis using Suc.prems(7) that False by (simp add: w2 byte_at_set_byte)
    qed
    moreover have "number_byte status s e p (?s i + 2)"
      using True i len Suc.prems(1) by (auto simp: number_byte_def)
    then have "byte_at q2 x = byte_at p x" if "\<not> number_byte status s e p x" for x
      using that Suc.prems(8) [of x] by (auto simp: w2 byte_at_set_byte)
    ultimately show ?thesis using number_text [OF okq items lenq num] by (simp add: w2 sq)
  qed
  have "d = e - Suc i" using Suc.hyps(2) by simp
  from Suc.hyps(1) [OF this _ _ st(1) rest same_outline_trans [OF Suc.prems(5)] same_but_ram_trans [OF Suc.prems(6)]] q2 Suc.prems(1) i
  have "\<exists>q'. walk_loop status True None w' q2 = (Inr wend, q') \<and> same_outline status p q' \<and> same_but_ram p q' \<and>
      (\<forall>x. \<not> number_byte status s e p x \<longrightarrow> byte_at q' x = byte_at p x) \<and>
      (\<forall>j. s \<le> j \<and> j < e \<and> structOpHasNumber (?ops j) \<longrightarrow> byte_at q' (?s j + 2) = rank ?ops s (owner ?ops s j))"
    by simp
  moreover have "walk_loop status True None w q = walk_loop status True None w' q2"
    using ws on cq by (simp add: walk_loop.simps [of status True None w] q2_def)
  ultimately show ?case by simp
qed

end
