(* ===== verification/ValidProgram.thy ===== *)
theory ValidProgram
  imports ValidWalk
begin

text \<open>
  The passes of VALID besides the walk: the program it opens, the marks it takes off, and the question
  whether a step is left without a number, over the list of steps.
\<close>

section \<open>Taking the marks off\<close>

definition remark :: "nat \<Rightarrow> nat \<Rightarrow> nat \<Rightarrow> nat \<Rightarrow> nat \<Rightarrow> nat" where
  "remark fromFor toFor fromNext toNext op = (if op = fromFor then toFor else if op = fromNext then toNext else op)"

text \<open>The bytes of the open program that tell a marked FOR or NEXT from an unmarked one.\<close>

definition mark_byte :: "(nat \<Rightarrow> nat) \<Rightarrow> nat \<Rightarrow> nat \<Rightarrow> 'a memory_scheme \<Rightarrow> nat \<Rightarrow> bool" where
  "mark_byte status s e m x \<longleftrightarrow>
     (\<exists>j < code_length status m. s \<le> j \<and> j < e \<and> plain_op status m j \<in> {ITM_FOR, ITM_NEXT} \<and> x = all_steps status m ! j + 1)"

lemma mark_byte_text: "same_outline status m m' \<Longrightarrow> mark_byte status s e m' x = mark_byte status s e m x"
  using text_step(1) [of status m m'] same_outline_length [of status m m'] by (auto simp: mark_byte_def same_outline_def)

text \<open>The operations of the steps are rewritten by \<open>f\<close>; all bytes but those stay.\<close>

definition remarked :: "(nat \<Rightarrow> nat) \<Rightarrow> nat \<Rightarrow> nat \<Rightarrow> (nat \<Rightarrow> nat \<Rightarrow> nat) \<Rightarrow> 'a memory_scheme \<Rightarrow> 'a memory_scheme \<Rightarrow> bool" where
  "remarked status s e f m m' \<longleftrightarrow>
     same_outline status m m' \<and> same_but_ram m m' \<and>
     (\<forall>x. \<not> mark_byte status s e m x \<longrightarrow> byte_at m' x = byte_at m x) \<and>
     (\<forall>j < code_length status m.
        structOpOfStep m' (Some (all_steps status m ! j)) = f j (structOpOfStep m (Some (all_steps status m ! j))) \<and>
        (structOpHasNumber (structOpOfStep m (Some (all_steps status m ! j))) \<longrightarrow>
          byte_at m' (all_steps status m ! j + 2) = byte_at m (all_steps status m ! j + 2)))"

lemma remarked_trans:
  assumes "remarked status s e f m m'" "remarked status s e g m' m''" "\<And>j op. structOpHasNumber op \<Longrightarrow> structOpHasNumber (f j op)"
  shows "remarked status s e (\<lambda>j op. g j (f j op)) m m''"
proof -
  have t: "same_outline status m m'" "same_outline status m' m''" using assms by (simp_all add: remarked_def)
  have st: "all_steps status m' = all_steps status m" "code_length status m' = code_length status m"
    using t(1) same_outline_length [OF t(1)] by (simp_all add: same_outline_def)
  show ?thesis using assms same_outline_trans [OF t] same_but_ram_trans [of m m' m''] by (simp add: remarked_def mark_byte_text [OF t(1)] st)
qed

lemma remarked_cong: "remarked status s e f m m' \<Longrightarrow> (\<And>j op. j < code_length status m \<Longrightarrow> f j op = g j op) \<Longrightarrow> remarked status s e g m m'"
  by (simp add: remarked_def)

lemma mark_step:
  assumes ok: "code_ok status p" and items: "struct_items status" and i: "i < code_length status p" and se: "s \<le> i" "i < e" "e \<le> code_length status p"
    and ops: "fromFor \<in> FOR_OPS" "toFor \<in> FOR_OPS" "fromNext \<in> NEXT_OPS" "toNext \<in> NEXT_OPS"
  shows "remarked status s e (\<lambda>j op. if j = i then remark fromFor toFor fromNext toNext op else op) p
    (rewrite_mark fromFor toFor fromNext toNext (all_steps status p ! i) p)"
proof -
  let ?s = "\<lambda>j. all_steps status p ! j"
  let ?op = "structOpOfStep p (Some (?s i))"
  have written: "remarked status s e (\<lambda>j op. if j = i then to else op) p (set_byte (?s i + 1) (low_byte to) p)"
    if S: "?op \<in> S" "to \<in> S" "S = FOR_OPS \<or> S = NEXT_OPS" for S to
  proof -
    note m = mark_text [OF ok items i S]
    have range: "same_range p (set_byte (?s i + 1) (low_byte to) p)" by (simp add: same_range_def)
    have num: "\<not> structOpHasNumber ?op" using S by (auto simp: FOR_OPS_def NEXT_OPS_def numbered_cases)
    have other: "structOpOfStep (set_byte (?s i + 1) (low_byte to) p) (Some (?s j)) = structOpOfStep p (Some (?s j)) \<and>
        (structOpHasNumber (structOpOfStep p (Some (?s j))) \<longrightarrow> byte_at (set_byte (?s i + 1) (low_byte to) p) (?s j + 2) = byte_at p (?s j + 2))"
      if j: "j < code_length status p" "j \<noteq> i" for j
    proof (cases "j < i")
      case True
      then have "?s (Suc j) \<le> ?s i" using i all_steps_le_iff [of "Suc j" status p i] by simp
      moreover have "?s j < ?s (Suc j)" using all_steps_sorted [of j "Suc j" status p] j by simp
      moreover have "structOpHasNumber (structOpOfStep p (Some (?s j))) \<Longrightarrow> ?s (Suc j) = ?s j + 3" by (rule numbered_length(1) [OF items j(1)])
      ultimately show ?thesis using same_two_bytes(1) [OF range, of "?s j"] by (auto simp: byte_at_set_byte)
    next
      case False
      then have "?s (Suc i) \<le> ?s j" using j all_steps_le_iff [of "Suc i" status p j] by simp
      then show ?thesis using m(3) same_two_bytes(1) [OF range, of "?s j"] by (auto simp: byte_at_set_byte)
    qed
    have "plain_op status p i \<in> {ITM_FOR, ITM_NEXT}" using S mark_ops by (auto simp: plain_op_def)
    then have "mark_byte status s e p (?s i + 1)" using i se unfolding mark_byte_def by blast
    then have "byte_at (set_byte (?s i + 1) (low_byte to) p) x = byte_at p x" if "\<not> mark_byte status s e p x" for x
      using that by (auto simp: byte_at_set_byte)
    then show ?thesis using m(1,2) num other by (auto simp: remarked_def)
  qed
  consider "?op = fromFor" | "?op \<noteq> fromFor" "?op = fromNext" | "?op \<noteq> fromFor" "?op \<noteq> fromNext" by blast
  then show ?thesis
  proof cases
    case 1
    then show ?thesis using written [of FOR_OPS toFor] ops by (auto simp: rewrite_mark_def remark_def remarked_def)
  next
    case 2
    then show ?thesis using written [of NEXT_OPS toNext] ops by (auto simp: rewrite_mark_def remark_def remarked_def)
  next
    case 3
    then show ?thesis by (auto simp: rewrite_mark_def remark_def remarked_def)
  qed
qed

lemma remark_number: "fromFor \<in> FOR_OPS \<Longrightarrow> fromNext \<in> NEXT_OPS \<Longrightarrow> structOpHasNumber op \<Longrightarrow> remark fromFor toFor fromNext toNext op = op"
  by (auto simp: remark_def FOR_OPS_def NEXT_OPS_def numbered_cases)

lemma rewrite_marks_effect:
  assumes items: "struct_items status"
    and ops: "fromFor \<in> FOR_OPS" "toFor \<in> FOR_OPS" "fromNext \<in> NEXT_OPS" "toNext \<in> NEXT_OPS"
  shows "code_ok status p \<Longrightarrow> open_program status s e p \<Longrightarrow> s \<le> i \<Longrightarrow> i \<le> e \<Longrightarrow>
    remarked status s e (\<lambda>j op. if i \<le> j \<and> j < e then remark fromFor toFor fromNext toNext op else op) p
      (rewrite_marks status fromFor toFor fromNext toNext (Some (all_steps status p ! i)) p)"
proof (induction "e - i" arbitrary: i p)
  case 0
  then have "\<not> in_program (Some (all_steps status p ! i)) p" using in_program_at [OF 0(3,2,4,5)] by simp
  then show ?case using 0(1) by (subst rewrite_marks.simps) (auto simp: remarked_def)
next
  case (Suc d)
  then have i: "i < e" by simp
  have n: "i < code_length status p" using Suc.prems(2) i by (simp add: open_program_def)
  let ?p = "rewrite_mark fromFor toFor fromNext toNext (all_steps status p ! i) p"
  let ?r = "remark fromFor toFor fromNext toNext"
  have m: "remarked status s e (\<lambda>j op. if j = i then ?r op else op) p ?p" by (rule mark_step [OF Suc.prems(1) items n Suc.prems(3) i _ ops]) (use Suc.prems(2) in \<open>simp add: open_program_def\<close>)
  then have t: "same_outline status p ?p" "same_but_ram p ?p" by (simp_all add: remarked_def)
  have st: "all_steps status ?p = all_steps status p" "code_length status ?p = code_length status p"
    using t same_outline_length by (auto simp: same_outline_def)
  have "remarked status s e (\<lambda>j op. if Suc i \<le> j \<and> j < e then ?r op else op) ?p
      (rewrite_marks status fromFor toFor fromNext toNext (Some (all_steps status ?p ! Suc i)) ?p)"
    using Suc.hyps Suc.prems(3) i text_places(4) [OF t(1)] Suc.prems(1) open_program_text [OF t Suc.prems(2)] by (intro Suc.hyps(1)) simp_all
  from remarked_trans [OF m this] remark_number [OF ops(1,3)]
  have "remarked status s e (\<lambda>j op. if Suc i \<le> j \<and> j < e then ?r (if j = i then ?r op else op) else if j = i then ?r op else op) p
      (rewrite_marks status fromFor toFor fromNext toNext (Some (all_steps status ?p ! Suc i)) ?p)" by simp
  then have "remarked status s e (\<lambda>j op. if i \<le> j \<and> j < e then ?r op else op) p
      (rewrite_marks status fromFor toFor fromNext toNext (Some (all_steps status ?p ! Suc i)) ?p)"
    by (rule remarked_cong) (use i in auto)
  moreover have "in_program (Some (all_steps status p ! i)) p" using in_program_at [OF Suc.prems(2,1,3,4)] i by simp
  moreover have "findNextStep status ?p (Some (all_steps status p ! i)) = Some (all_steps status ?p ! Suc i)"
    using all_steps_next [of i status ?p] st n by simp
  ultimately show ?case by (subst rewrite_marks.simps) (simp add: Let_def)
qed

definition unmark :: "nat \<Rightarrow> nat" where
  "unmark op = remark ITM_FORTOPx ITM_FORTOP ITM_NEXTx ITM_NEXT
     (remark ITM_FORYXx ITM_FORYX ITM_NEXTx ITM_NEXT (remark ITM_FORx ITM_FOR ITM_NEXTx ITM_NEXT op))"

lemma unmark_unmarked: "unmark op \<notin> {ITM_FORx, ITM_NEXTx, ITM_FORYXx, ITM_FORTOPx}"
  by (simp add: unmark_def remark_def)

lemma structClearMarks_effect:
  assumes items: "struct_items status" and ok: "code_ok status p" and o: "open_program status s e p"
  shows "remarked status s e (\<lambda>j op. if s \<le> j \<and> j < e then unmark op else op) p (structClearMarks status p)"
proof -
  have pass: "remarked status s e (\<lambda>j op. if s \<le> j \<and> j < e then remark a b c d op else op) q (forRewriteMarks status a b c d q) \<and>
      code_ok status (forRewriteMarks status a b c d q) \<and> open_program status s e (forRewriteMarks status a b c d q)"
    if q: "code_ok status q" "open_program status s e q" and ops: "a \<in> FOR_OPS" "b \<in> FOR_OPS" "c \<in> NEXT_OPS" "d \<in> NEXT_OPS"
    for a b c d and q :: "'a labelled_scheme"
  proof -
    have "beginOfCurrentProgram q = all_steps status q ! s" "s \<le> e" using q(2) by (simp_all add: open_program_def)
    then have r: "remarked status s e (\<lambda>j op. if s \<le> j \<and> j < e then remark a b c d op else op) q (forRewriteMarks status a b c d q)"
      using rewrite_marks_effect [OF items ops q, of s] by (simp add: forRewriteMarks_def)
    then have t: "same_outline status q (forRewriteMarks status a b c d q)" "same_but_ram q (forRewriteMarks status a b c d q)"
      by (simp_all add: remarked_def)
    show ?thesis using r q open_program_text [OF t q(2)] text_places(4) [OF t(1)] by simp
  qed
  let ?p1 = "forRewriteMarks status ITM_FORx ITM_FOR ITM_NEXTx ITM_NEXT p"
  let ?p2 = "forRewriteMarks status ITM_FORYXx ITM_FORYX ITM_NEXTx ITM_NEXT ?p1"
  have mem: "ITM_FORx \<in> FOR_OPS" "ITM_FOR \<in> FOR_OPS" "ITM_FORYXx \<in> FOR_OPS" "ITM_FORYX \<in> FOR_OPS" "ITM_FORTOPx \<in> FOR_OPS" "ITM_FORTOP \<in> FOR_OPS"
    "ITM_NEXTx \<in> NEXT_OPS" "ITM_NEXT \<in> NEXT_OPS" by (simp_all add: FOR_OPS_def NEXT_OPS_def)
  note pass1 = pass [OF ok o mem(1,2,7,8)]
  then have pass2: "remarked status s e (\<lambda>j op. if s \<le> j \<and> j < e then remark ITM_FORYXx ITM_FORYX ITM_NEXTx ITM_NEXT op else op) ?p1 ?p2 \<and>
      code_ok status ?p2 \<and> open_program status s e ?p2" using pass [OF _ _ mem(3,4,7,8)] by blast
  then have pass3: "remarked status s e (\<lambda>j op. if s \<le> j \<and> j < e then remark ITM_FORTOPx ITM_FORTOP ITM_NEXTx ITM_NEXT op else op) ?p2
      (structClearMarks status p)" using pass [OF _ _ mem(5,6,7,8)] by (simp add: structClearMarks_def)
  have num: "structOpHasNumber op \<Longrightarrow> structOpHasNumber (if Q then remark a b c d op else op)" if "a \<in> FOR_OPS" "c \<in> NEXT_OPS" for Q a b c d op
    using remark_number [OF that] by simp
  have two: "remarked status s e (\<lambda>j op. if s \<le> j \<and> j < e then remark ITM_FORYXx ITM_FORYX ITM_NEXTx ITM_NEXT (if s \<le> j \<and> j < e then remark ITM_FORx ITM_FOR ITM_NEXTx ITM_NEXT op else op)
      else if s \<le> j \<and> j < e then remark ITM_FORx ITM_FOR ITM_NEXTx ITM_NEXT op else op) p ?p2"
    by (rule remarked_trans [OF conjunct1 [OF pass1] conjunct1 [OF pass2]]) (rule num [OF mem(1,7)])
  then have two': "remarked status s e (\<lambda>j op. if s \<le> j \<and> j < e then remark ITM_FORYXx ITM_FORYX ITM_NEXTx ITM_NEXT (remark ITM_FORx ITM_FOR ITM_NEXTx ITM_NEXT op) else op) p ?p2"
    by (rule remarked_cong) auto
  have "structOpHasNumber op \<Longrightarrow> structOpHasNumber (if s \<le> j \<and> j < e then remark ITM_FORYXx ITM_FORYX ITM_NEXTx ITM_NEXT (remark ITM_FORx ITM_FOR ITM_NEXTx ITM_NEXT op) else op)" for j op
    using remark_number [OF mem(1,7)] remark_number [OF mem(3,7)] by simp
  from remarked_trans [OF two' pass3 this] show ?thesis by (rule remarked_cong) (auto simp: unmark_def)
qed

lemma has_unnumbered_iff:
  assumes ok: "code_ok status p" and o: "open_program status s e p"
  shows "s \<le> i \<Longrightarrow> i \<le> e \<Longrightarrow> has_unnumbered status (Some (all_steps status p ! i)) p \<longleftrightarrow>
    (\<exists>j. i \<le> j \<and> j < e \<and> unnumbered_step status p (all_steps status p ! j))"
proof (induction "e - i" arbitrary: i)
  case 0
  then have "\<not> in_program (Some (all_steps status p ! i)) p" using in_program_at [OF o ok] by simp
  then show ?case using 0 by (subst has_unnumbered.simps) auto
next
  case (Suc d)
  then have i: "i < e" by simp
  have "in_program (Some (all_steps status p ! i)) p" using in_program_at [OF o ok] Suc.prems i by simp
  moreover have "findNextStep status p (Some (all_steps status p ! i)) = Some (all_steps status p ! Suc i)"
    using all_steps_next [of i status p] o i by (simp add: open_program_def)
  ultimately have "has_unnumbered status (Some (all_steps status p ! i)) p \<longleftrightarrow>
      unnumbered_step status p (all_steps status p ! i) \<or> (\<exists>j. Suc i \<le> j \<and> j < e \<and> unnumbered_step status p (all_steps status p ! j))"
    using Suc.hyps(1) [of "Suc i"] Suc.hyps(2) Suc.prems(1) i by (subst has_unnumbered.simps) simp
  also have "\<dots> \<longleftrightarrow> (\<exists>j. i \<le> j \<and> j < e \<and> unnumbered_step status p (all_steps status p ! j))"
    using i by (metis Suc_le_eq le_eq_less_or_eq)
  finally show ?case .
qed

section \<open>The program that VALID opens\<close>

definition prog_end :: "(nat \<Rightarrow> nat) \<Rightarrow> 'a memory_scheme \<Rightarrow> nat \<Rightarrow> nat" where
  "prog_end status m s = s + length (takeWhile (\<lambda>i. \<not> ends_program status m i) [s ..< code_length status m])"

lemma prog_end_bounds:
  assumes "s \<le> code_length status m"
  shows "s \<le> prog_end status m s" "prog_end status m s \<le> code_length status m"
    "\<And>i. s \<le> i \<Longrightarrow> i < prog_end status m s \<Longrightarrow> \<not> ends_program status m i"
    "prog_end status m s < code_length status m \<Longrightarrow> ends_program status m (prog_end status m s)"
proof -
  let ?T = "takeWhile (\<lambda>i. \<not> ends_program status m i) [s ..< code_length status m]"
  have len: "length ?T \<le> code_length status m - s" using length_takeWhile_le [of _ "[s ..< code_length status m]"] by (metis length_upt)
  show "s \<le> prog_end status m s" "prog_end status m s \<le> code_length status m" using len assms by (simp_all add: prog_end_def)
  show "\<not> ends_program status m i" if "s \<le> i" "i < prog_end status m s" for i
  proof -
    have k: "i - s < length ?T" using that by (simp add: prog_end_def)
    then have "?T ! (i - s) = i" using that len by (simp add: takeWhile_nth)
    then show ?thesis using nth_mem [OF k] by (metis set_takeWhileD)
  qed
  show "ends_program status m (prog_end status m s)" if "prog_end status m s < code_length status m"
    using nth_length_takeWhile [of "\<lambda>i. \<not> ends_program status m i" "[s ..< code_length status m]"] that by (simp add: prog_end_def)
qed

lemma program_end_at:
  assumes "code_ok status p" "s \<le> code_length status p"
  shows "s \<le> i \<Longrightarrow> i \<le> prog_end status p s \<Longrightarrow> program_end status p (Some (all_steps status p ! i)) = Some (all_steps status p ! prog_end status p s)"
proof (induction "prog_end status p s - i" arbitrary: i)
  case 0
  note b = prog_end_bounds [OF assms(2)]
  have "i = prog_end status p s" using 0 by simp
  moreover have "ends_program status p i \<or> isAtEndOfPrograms p (Some (all_steps status p ! i))"
    using b(2,4) calculation all_steps_end [OF assms(1), of i] by (cases "i < code_length status p") auto
  ultimately show ?case by (subst program_end.simps) (simp add: ends_program_def)
next
  case (Suc d)
  note b = prog_end_bounds [OF assms(2)]
  have i: "i < prog_end status p s" using Suc.hyps(2) by simp
  have "\<not> isAtEndOfProgram p (Some (all_steps status p ! i))" using b(3) [OF Suc.prems(1) i] by (simp add: ends_program_def)
  moreover have "\<not> isAtEndOfPrograms p (Some (all_steps status p ! i))" using all_steps_end [OF assms(1), of i] b(2) i by simp
  moreover have "findNextStep status p (Some (all_steps status p ! i)) = Some (all_steps status p ! Suc i)"
    using all_steps_next [of i status p] b(2) i by simp
  ultimately show ?case using Suc.hyps Suc.prems(1) i by (subst program_end.simps) simp
qed

lemma view_cong:
  assumes "code_view m' = code_view m"
  shows "ends_program status m' = ends_program status m" "prog_end status m' = prog_end status m" "plain_op status m' = plain_op status m"
    "program_at status m' = program_at status m" "start_before status m' = start_before status m"
proof -
  show e: "ends_program status m' = ends_program status m" by (simp add: fun_eq_iff ends_program_def code_cong [OF assms])
  show "prog_end status m' = prog_end status m" by (simp add: fun_eq_iff prog_end_def e places_cong [OF assms])
  show "plain_op status m' = plain_op status m" by (simp add: fun_eq_iff plain_op_def code_cong [OF assms])
  show "program_at status m' = program_at status m" "start_before status m' = start_before status m"
    by (simp_all add: fun_eq_iff program_at_def start_before_def places_cong [OF assms])
qed

lemma open_program_cong:
  assumes "code_view p' = code_view p" "beginOfCurrentProgram p' = beginOfCurrentProgram p" "endOfCurrentProgram p' = endOfCurrentProgram p"
  shows "open_program status s e p' = open_program status s e p"
  using assms(2,3) view_cong(1) [OF assms(1)] code_cong(3) [OF assms(1)] places_cong(1) [OF assms(1)] by (simp add: open_program_def)

lemma start_places_after:
  assumes "k < length (start_places status m)" "0 < k"
  shows "\<exists>j < code_length status m. start_places status m ! k = Suc j \<and> ends_program status m j"
proof -
  obtain k' where k: "k = Suc k'" using assms(2) by (cases k) auto
  let ?f = "filter (start_at status m) [0 ..< code_length status m]"
  have l: "k' < length ?f" using assms(1) by (simp add: k start_places_def)
  have "?f ! k' \<in> set ?f" by (rule nth_mem [OF l])
  moreover have "start_places status m ! k = Suc (?f ! k')" using l by (simp add: k start_places_def)
  ultimately show ?thesis by (intro exI [of _ "?f ! k'"]) (auto simp: start_at_def)
qed

lemma opened_program:
  assumes ok: "code_ok status p" and t: "tables_ok status p" and c: "c \<le> code_length status p" "currentStep p = all_steps status p ! c"
  defines "p' \<equiv> defineCurrentProgramFromCurrentStep status p" and "s \<equiv> start_before status p c"
  shows "code_view p' = code_view p" "tables_ok status p'" "currentProgramNumber p' = program_at status p c"
    "open_program status s (prog_end status p s) p'"
proof -
  let ?s = "\<lambda>i. all_steps status p ! i"
  define p0 where "p0 = p\<lparr>currentProgramNumber := program_at status p c\<rparr>"
  have v0: "code_view p0 = code_view p" by (simp add: p0_def code_view_def)
  note cong = places_cong [OF v0] code_cong [OF v0] view_cong [OF v0]
  have t0: "tables_ok status p0" using t tables_cong [OF v0] by (simp add: p0_def)
  have "programBegin p \<le> currentStep p" using all_steps_le_iff [of 0 status p c] c by simp
  moreover have "currentStep p \<le> firstFreeProgramByte p" using all_steps_below [OF ok c(1)] c(2) by simp
  ultimately have p': "p' = define_bounds status p0"
    using current_program_of(2) [OF ok t c(1)] c(2) by (simp add: p'_def defineCurrentProgramFromCurrentStep_def p0_def)
  show v: "code_view p' = code_view p" using v0 by (simp add: p' code_view_def)
  show "tables_ok status p'" using t tables_cong [OF v] by (simp add: p' p0_def)
  show num: "currentProgramNumber p' = program_at status p c" by (simp add: p' p0_def)
  have sn: "s \<le> code_length status p" unfolding s_def by (rule start_before_index [OF c(1)])
  note e = prog_end_bounds [OF sn]
  have start: "program_start p0 = ?s s" using program_start_at(1) [OF t0, of c] cong by (simp add: p0_def s_def)
  have below: "?s i < ?s (prog_end status p s)" if "i < prog_end status p s" for i using all_steps_sorted [OF that e(2)] .
  have "\<exists>z. endOfCurrentProgram p' = Some z \<and> (\<forall>i. s \<le> i \<and> i < prog_end status p s \<longrightarrow> ?s i < z)"
  proof (cases "program_at status p c \<ge> length (programTable p)")
    case True
    have "length (programTable p) = length (start_places status p)" using t by (simp add: tables_ok_def)
    then have last: "program_at status p c = length (programTable p)" using True program_at_bounds(2) [of status p c] by simp
    have "program_end status p0 (Some (?s s)) = Some (?s (prog_end status p s))"
      using program_end_at [of status p0 s s] ok sn e(1) cong by simp
    then have "endOfCurrentProgram p' = Some (?s s + (?s (prog_end status p s) - ?s s + 2))"
      using True last start by (simp add: p' define_bounds_def getProgramSize_def) (simp add: p0_def)
    then show ?thesis using below by (force intro: less_le_trans)
  next
    case False
    let ?k = "program_at status p c"
    have k: "?k < length (start_places status p)" using False t by (simp add: tables_ok_def)
    obtain j where j: "j < code_length status p" "start_places status p ! ?k = Suc j" "ends_program status p j"
      using start_places_after [OF k] program_at_bounds(1) [of status p c] by auto
    have "s < Suc j"
      using start_places_sorted [of status p] program_at_bounds(1) [of status p c] k j(2)
      by (metis One_nat_def Suc_pred diff_less s_def sorted_wrt_nth_less start_before_def zero_less_one)
    then have "prog_end status p s \<le> j" using e(3) [of j] j(3) by (meson less_Suc_eq_le not_less)
    moreover have "endOfCurrentProgram p' = Some (?s (Suc j))"
    proof -
      have "programInstructionPointer (programTable p ! ?k) = ?s (Suc j)" using t k j(2) by (simp add: tables_ok_def start_of_def)
      then show ?thesis using False by (simp add: p' define_bounds_def p0_def)
    qed
    ultimately show ?thesis using below j(1) all_steps_sorted [of j "Suc j" status p] e(2) all_steps_le_iff [of "prog_end status p s" status p j]
      by (intro exI [of _ "?s (Suc j)"]) (auto intro: less_le_trans less_trans)
  qed
  moreover have "beginOfCurrentProgram p' = ?s s" using start by (simp add: p')
  ultimately show "open_program status s (prog_end status p s) p'"
    using e places_cong(1) [OF v] code_cong(3) [OF v] view_cong(1) [OF v] by (simp add: open_program_def)
qed

end
