(* ===== verification/ValidProps.thy ===== *)
theory ValidProps
  imports ValidProgram
begin

text \<open>
  VALID as a whole: a program that it passes has the numbers of its block structure and no marks, the
  tables of labels stay as they are, and at run time every jump of a structure goes where the nesting says.
\<close>

section \<open>A program that passes\<close>

lemma same_outline_view:
  assumes "code_view p' = code_view p"
  shows "same_outline status m p' = same_outline status m p" "same_outline status p' m = same_outline status p m"
proof -
  have r: "beginOfProgramMemory p' = beginOfProgramMemory p" "firstFreeProgramByte p' = firstFreeProgramByte p"
    using assms by (simp_all add: code_view_def)
  note c = code_cong [OF assms] places_cong(1) [OF assms] view_cong(3) [OF assms]
  show "same_outline status m p' = same_outline status m p" "same_outline status p' m = same_outline status p m"
    by (simp_all add: same_outline_def same_range_def same_step_def same_counters_def r c)
qed

text \<open>VALID finds no fault in the program of the pointer.\<close>

definition passes :: "(nat \<Rightarrow> nat) \<Rightarrow> 'a structured_scheme \<Rightarrow> bool" where
  "passes status p \<longleftrightarrow> fst (structWalkProgram status False None (defineCurrentProgramFromCurrentStep status p))"

lemma walk_starts: "open_program status s e p \<Longrightarrow> walk_at status p s s (walk_start p)"
  by (auto simp: walk_at_def walk_start_def open_program_def open_at_start series_def count_ops_def)

lemma passing_walk:
  assumes ok: "code_ok status p" and o: "open_program status s e p" and v: "fst (structWalkProgram status False None p)"
  shows "\<exists>w. walk_loop status False None (walk_start p) p = (Inr w, p) \<and> walk_end w = None \<and> snd (structWalkProgram status False None p) = p"
    "nested (plain_op status p) s e" "\<And>j. s \<le> j \<Longrightarrow> j < e \<Longrightarrow> nests (plain_op status p) s j"
proof -
  obtain w p1 where w: "walk_loop status False None (walk_start p) p = (Inr w, p1)" "walk_end w = None"
    using v by (auto simp: structWalkProgram_def split: prod.splits sum.splits option.splits)
  have "s \<le> e" using o by (simp add: open_program_def)
  from checking_walk [OF ok o order_refl this walk_starts [OF o] w(1)]
  have c: "p1 = p" "walk_at status p s e w" and n: "\<And>j. s \<le> j \<Longrightarrow> j < e \<Longrightarrow> nests (plain_op status p) s j" by auto
  show "\<exists>w. walk_loop status False None (walk_start p) p = (Inr w, p) \<and> walk_end w = None \<and> snd (structWalkProgram status False None p) = p"
    using w c(1) by (simp add: structWalkProgram_def)
  show "nests (plain_op status p) s j" if "s \<le> j" "j < e" for j by (rule n [OF that])
  have "openStructures w = []" using w(2) by (simp add: walk_end_def split: list.splits)
  then have "open_at (plain_op status p) s e = []" using c(2) by (simp add: walk_at_def)
  with n show "nested (plain_op status p) s e" by (rule nests_nested)
qed

text \<open>The number of each step of a structure, and no mark.\<close>

definition numbered :: "(nat \<Rightarrow> nat) \<Rightarrow> nat \<Rightarrow> nat \<Rightarrow> (nat \<Rightarrow> nat) \<Rightarrow> 'a memory_scheme \<Rightarrow> bool" where
  "numbered status s e ops m \<longleftrightarrow>
     (\<forall>i. s \<le> i \<and> i < e \<longrightarrow>
        (structOpHasNumber (ops i) \<longrightarrow> byte_at m (all_steps status m ! i + 2) = rank ops s (owner ops s i)) \<and>
        structOpOfStep m (Some (all_steps status m ! i)) \<notin> {ITM_FORx, ITM_NEXTx, ITM_FORYXx, ITM_FORTOPx})"

text \<open>The bytes that VALID may write: the number of a step of a structure, and the second byte of a marked FOR or NEXT.\<close>

definition marked_ops :: "nat set" where
  "marked_ops = {ITM_FORx, ITM_NEXTx, ITM_FORYXx, ITM_FORTOPx}"

definition valid_writes :: "(nat \<Rightarrow> nat) \<Rightarrow> nat \<Rightarrow> nat \<Rightarrow> 'a memory_scheme \<Rightarrow> nat \<Rightarrow> bool" where
  "valid_writes status s e m x \<longleftrightarrow>
     (\<exists>i. s \<le> i \<and> i < e \<and>
        (structOpHasNumber (plain_op status m i) \<and> x = all_steps status m ! i + 2 \<or>
         structOpOfStep m (Some (all_steps status m ! i)) \<in> marked_ops \<and> x = all_steps status m ! i + 1))"

definition unmarked :: "(nat \<Rightarrow> nat) \<Rightarrow> nat \<Rightarrow> nat \<Rightarrow> 'a memory_scheme \<Rightarrow> 'a memory_scheme \<Rightarrow> bool" where
  "unmarked status s e m m' \<longleftrightarrow>
     (\<forall>i. s \<le> i \<and> i < e \<longrightarrow>
        structOpOfStep m' (Some (all_steps status m ! i)) = unmark (structOpOfStep m (Some (all_steps status m ! i))))"

lemma number_byte_apart:
  assumes items: "struct_items status" and i: "i < code_length status m"
  shows "\<not> number_byte status s e m (all_steps status m ! i)" "\<not> number_byte status s e m (all_steps status m ! i + 1)"
proof -
  let ?s = "\<lambda>j. all_steps status m ! j"
  have "?s i \<noteq> ?s k + 2 \<and> ?s i + 1 \<noteq> ?s k + 2"
    if k: "k < code_length status m" "structOpHasNumber (plain_op status m k)" for k
  proof (cases "k < i")
    case True
    have "structOpHasNumber (structOpOfStep m (Some (?s k)))" using k(2) plain_numbered(1) by (simp add: plain_op_def)
    then have "?s (Suc k) = ?s k + 3" by (rule numbered_length(1) [OF items k(1)])
    moreover have "?s (Suc k) \<le> ?s i" using True i by (simp add: all_steps_le_iff)
    ultimately show ?thesis by simp
  next
    case False
    then have "?s i \<le> ?s k" using k i by (simp add: all_steps_le_iff)
    then show ?thesis by simp
  qed
  then show "\<not> number_byte status s e m (?s i)" "\<not> number_byte status s e m (?s i + 1)" by (auto simp: number_byte_def)
qed

lemma plain_mark_ops: "structPlainOp op \<in> {ITM_FOR, ITM_NEXT} \<Longrightarrow> op \<in> FOR_OPS \<union> NEXT_OPS"
  by (auto simp: structPlainOp_def FOR_OPS_def NEXT_OPS_def split: if_splits)

lemma unmark_same: "op \<notin> marked_ops \<Longrightarrow> unmark op = op"
  by (auto simp: unmark_def remark_def marked_ops_def)

lemma mark_second_byte:
  assumes "structOpOfStep m (Some a) = op" "op \<in> FOR_OPS \<union> NEXT_OPS"
  shows "byte_at m (a + 1) = low_byte op"
proof -
  note t = two_bytes [OF assms(1) conjunct2 [OF mark_op [OF assms(2)]]]
  show ?thesis by (rule mark_bytes(2) [OF assms(2) t(2) byte_at_less])
qed

lemma numbering_effect:
  assumes ok: "code_ok status p" and items: "struct_items status" and o: "open_program status s e p"
    and v: "fst (structWalkProgram status False None p)"
  defines "p2 \<equiv> snd (structWalkProgram status True None p)"
  shows "same_outline status p p2 \<and> same_but_ram p p2 \<and> numbered status s e (plain_op status p) p2 \<and> unmarked status s e p p2 \<and>
    (\<forall>x. \<not> valid_writes status s e p x \<longrightarrow> byte_at p2 x = byte_at p x)"
proof -
  note n = passing_walk(2,3) [OF ok o v]
  obtain w where w: "walk_loop status False None (walk_start p) p = (Inr w, p)" "walk_end w = None"
    using passing_walk(1) [OF ok o v] by blast
  have le: "s \<le> e" "e \<le> code_length status p" using o by (simp_all add: open_program_def)
  obtain q where q: "walk_loop status True None (walk_start p) p = (Inr w, q)" "same_outline status p q" "same_but_ram p q"
      "\<And>j. s \<le> j \<Longrightarrow> j < e \<Longrightarrow> structOpHasNumber (plain_op status p j) \<Longrightarrow>
         byte_at q (all_steps status p ! j + 2) = rank (plain_op status p) s (owner (plain_op status p) s j)"
      "\<And>x. \<not> number_byte status s e p x \<Longrightarrow> byte_at q x = byte_at p x"
    using numbering_walk [OF ok items o n(2,1) order_refl le(1) walk_starts [OF o] w(1) same_outline_refl same_but_ram_refl] by auto
  have p2: "p2 = structClearMarks status q" by (simp add: p2_def structWalkProgram_def q(1) w(2))
  have okq: "code_ok status q" "open_program status s e q" using text_places(4) [OF q(2)] ok open_program_text [OF q(2,3) o] by simp_all
  note r = structClearMarks_effect [OF items okq, folded p2]
  have t: "same_outline status q p2" "same_but_ram q p2" using r by (simp_all add: remarked_def)
  have st: "all_steps status q = all_steps status p" "code_length status q = code_length status p" "all_steps status p2 = all_steps status p"
    and range: "same_range p q"
    using q(2) t(1) same_outline_length [OF q(2)] by (simp_all add: same_outline_def)
  have opq: "structOpOfStep q (Some (all_steps status p ! i)) = structOpOfStep p (Some (all_steps status p ! i))" if "i < e" for i
    using that le(2) number_byte_apart [OF items, of i p] by (intro same_two_bytes(1) [OF range] q(5)) simp_all
  have op2: "structOpOfStep p2 (Some (all_steps status p ! i)) = unmark (structOpOfStep p (Some (all_steps status p ! i)))" if "s \<le> i" "i < e" for i
    using r that le(2) opq [of i] by (simp add: remarked_def st)
  have "byte_at p2 (all_steps status p ! i + 2) = rank (plain_op status p) s (owner (plain_op status p) s i)"
    if i: "s \<le> i" "i < e" "structOpHasNumber (plain_op status p i)" for i
  proof -
    have "structOpHasNumber (structOpOfStep q (Some (all_steps status p ! i)))"
      using i opq [OF i(2)] plain_numbered(1) by (simp add: plain_op_def)
    then have "byte_at p2 (all_steps status p ! i + 2) = byte_at q (all_steps status p ! i + 2)"
      using r i le by (simp add: remarked_def st)
    then show ?thesis using q(4) [OF i] by simp
  qed
  moreover have "structOpOfStep p2 (Some (all_steps status p ! i)) \<notin> {ITM_FORx, ITM_NEXTx, ITM_FORYXx, ITM_FORTOPx}" if "s \<le> i" "i < e" for i
    unfolding op2 [OF that] by (rule unmark_unmarked)
  moreover have "byte_at p2 x = byte_at p x" if x: "\<not> valid_writes status s e p x" for x
  proof (cases "mark_byte status s e p x")
    case True
    then obtain j where j: "s \<le> j" "j < e" "plain_op status p j \<in> {ITM_FOR, ITM_NEXT}" "x = all_steps status p ! j + 1"
      by (auto simp: mark_byte_def)
    let ?op = "structOpOfStep p (Some (all_steps status p ! j))"
    have mem: "?op \<in> FOR_OPS \<union> NEXT_OPS" using j(3) unfolding plain_op_def by (rule plain_mark_ops)
    have "?op \<notin> marked_ops" using x j by (auto simp: valid_writes_def)
    then have "structOpOfStep p2 (Some (all_steps status p ! j)) = ?op" using op2 [OF j(1,2)] unmark_same by simp
    from mark_second_byte [OF this mem] mark_second_byte [OF refl mem] show ?thesis by (simp add: j(4))
  next
    case False
    then have "byte_at p2 x = byte_at q x" using r mark_byte_text [OF q(2)] by (simp add: remarked_def)
    moreover have "\<not> number_byte status s e p x" using x by (auto simp: number_byte_def valid_writes_def)
    ultimately show ?thesis using q(5) by simp
  qed
  ultimately show ?thesis
    using same_outline_trans [OF q(2) t(1)] same_but_ram_trans [OF q(3) t(2)] op2 by (simp add: numbered_def unmarked_def st)
qed

text \<open>The pointer goes back to where it was; the program stays as the second walk left it.\<close>

lemma fnValid_frame:
  assumes "passes status p"
  defines "p1 \<equiv> defineCurrentProgramFromCurrentStep status p"
  defines "p2 \<equiv> snd (structWalkProgram status True None (snd (structWalkProgram status False None p1)))"
  shows "code_view (fnValid status p) = code_view p2" "labels (fnValid status p) = labels p2" "structureLabels (fnValid status p) = structureLabels p2"
    "programTable (fnValid status p) = programTable p2" "currentProgramNumber (fnValid status p) = currentProgramNumber p2"
    "beginOfCurrentProgram (fnValid status p) = beginOfCurrentProgram p2" "endOfCurrentProgram (fnValid status p) = endOfCurrentProgram p2"
    "programRunning (fnValid status p) = programRunning p2"
proof -
  obtain q where q: "structWalkProgram status False None p1 = (True, q)"
    using assms(1) by (cases "structWalkProgram status False None p1") (simp add: passes_def p1_def)
  then have "fnValid status p = (if structMayMoveThePointer p2
      then (defineFirstDisplayedStep status
              ((defineCurrentStep status (p2\<lparr>currentLocalStepNumber := currentLocalStepNumber q\<rparr>))
                \<lparr>firstDisplayedLocalStepNumber := firstDisplayedLocalStepNumber q\<rparr>))
            \<lparr>pemCursorIsZerothStep := pemCursorIsZerothStep q\<rparr> else p2)\<lparr>temporaryInformation := TI_NO_INFO\<rparr>"
    by (simp add: fnValid_def p1_def [symmetric] p2_def Let_def)
  then show "code_view (fnValid status p) = code_view p2" "labels (fnValid status p) = labels p2" "structureLabels (fnValid status p) = structureLabels p2"
    "programTable (fnValid status p) = programTable p2" "currentProgramNumber (fnValid status p) = currentProgramNumber p2"
    "beginOfCurrentProgram (fnValid status p) = beginOfCurrentProgram p2" "endOfCurrentProgram (fnValid status p) = endOfCurrentProgram p2"
    "programRunning (fnValid status p) = programRunning p2"
    by (simp_all add: defineFirstDisplayedStep_def defineCurrentStep_def code_view_def)
qed

lemma valid_effect:
  assumes ok: "code_ok status p" and t: "tables_ok status p" and items: "struct_items status"
    and c: "c \<le> code_length status p" "currentStep p = all_steps status p ! c" and v: "passes status p"
  defines "s \<equiv> start_before status p c"
  defines "e \<equiv> prog_end status p s" and "ops \<equiv> plain_op status p"
  shows "same_outline status p (fnValid status p)" "tables_ok status (fnValid status p)"
    "nested ops s e" "numbered status s e ops (fnValid status p)" "open_program status s e (fnValid status p)"
    "currentProgramNumber (fnValid status p) = program_at status p c"
    "\<And>j. s \<le> j \<Longrightarrow> j < e \<Longrightarrow> nests ops s j"
    "\<And>x. \<not> valid_writes status s e p x \<Longrightarrow> byte_at (fnValid status p) x = byte_at p x"
    "unmarked status s e p (fnValid status p)"
proof -
  define p1 where "p1 = defineCurrentProgramFromCurrentStep status p"
  define p2 where "p2 = snd (structWalkProgram status True None p1)"
  note o = opened_program [OF ok t c, folded p1_def s_def, folded e_def]
  have ok1: "code_ok status p1" using ok places_cong(2) [OF o(1)] by simp
  have ops: "plain_op status p1 = ops" by (simp add: ops_def view_cong(3) [OF o(1)])
  have v1: "fst (structWalkProgram status False None p1)" using v by (simp add: passes_def p1_def)
  have same: "snd (structWalkProgram status False None p1) = p1" using passing_walk(1) [OF ok1 o(4) v1] by blast
  note f = fnValid_frame [OF v, folded p1_def, unfolded same, folded p2_def]
  note n = numbering_effect [OF ok1 items o(4) v1, folded p2_def, unfolded ops]
  have t1: "same_outline status p1 p2" "same_but_ram p1 p2" using n by simp_all
  have t2: "same_outline status p1 (fnValid status p)" using t1(1) same_outline_view(1) [OF f(1)] by simp
  then show "same_outline status p (fnValid status p)" using same_outline_view(2) [OF o(1)] by simp
  note fields = same_but_ram_fields [OF t1(2)]
  show "tables_ok status (fnValid status p)" using text_tables [OF t2] f fields o(2) by simp
  show "nested ops s e" using passing_walk(2) [OF ok1 o(4) v1] ops by simp
  show "numbered status s e ops (fnValid status p)" using n by (simp add: numbered_def code_cong [OF f(1)])
  show "open_program status s e (fnValid status p)"
    using open_program_cong [OF f(1,6,7)] open_program_text [OF t1 o(4)] by simp
  show "currentProgramNumber (fnValid status p) = program_at status p c" using f(5) fields(4) o(3) by simp
  show "nests ops s j" if "s \<le> j" "j < e" for j using passing_walk(3) [OF ok1 o(4) v1 that] ops by simp
  note c1 = code_cong [OF o(1)]
  show "byte_at (fnValid status p) x = byte_at p x" if "\<not> valid_writes status s e p x" for x
  proof -
    have "\<not> valid_writes status s e p1 x" using that by (simp add: valid_writes_def c1 view_cong [OF o(1)])
    then have "byte_at p2 x = byte_at p1 x" using n by simp
    then show ?thesis by (simp add: code_cong [OF f(1)] c1)
  qed
  show "unmarked status s e p (fnValid status p)" using n by (simp add: unmarked_def code_cong [OF f(1)] c1)
qed

section \<open>The state of the editor\<close>

text \<open>The step of the pointer and the top of the window, from their step numbers; not while a program runs.\<close>

definition redisplayed :: "(nat \<Rightarrow> nat) \<Rightarrow> 'a structured_scheme \<Rightarrow> 'a structured_scheme" where
  "redisplayed status p =
     (if structMayMoveThePointer p then defineFirstDisplayedStep status (defineCurrentStep status p) else p)"

lemma opened_pool [simp]: "pool (defineCurrentProgramFromCurrentStep status p) = pool p"
  "currentStep (defineCurrentProgramFromCurrentStep status p) = currentStep p"
  "currentLocalStepNumber (defineCurrentProgramFromCurrentStep status p) = currentLocalStepNumber p"
  by (simp_all add: defineCurrentProgramFromCurrentStep_def define_bounds_def)

lemma step_forward_view: "code_view m' = code_view m \<Longrightarrow> step_forward status m' k a = step_forward status m k a"
  using code_cong(9) [of m' m status a] by (simp add: step_forward_nth)

lemma redisplayed_alt:
  "redisplayed status p =
    (if programStopped p
     then p\<lparr>currentStep := step_forward status p (currentLocalStepNumber p - 1) (program_start p),
            firstDisplayedStep := step_forward status p (firstDisplayedLocalStepNumber p - 1) (program_start p)\<rparr>
     else p)"
  using step_forward_view [of "p\<lparr>currentStep := step_forward status p (currentLocalStepNumber p - 1) (program_start p)\<rparr>" p]
  by (simp add: redisplayed_def structMayMoveThePointer_def defineFirstDisplayedStep_def defineCurrentStep_def program_start_def code_view_def)

lemma fnValid_state:
  assumes ok: "code_ok status p" and t: "tables_ok status p" and items: "struct_items status"
    and c: "c \<le> code_length status p" "currentStep p = all_steps status p ! c" and v: "passes status p"
  shows "fnValid status p = (redisplayed status (defineCurrentProgramFromCurrentStep status p))
      \<lparr>pool := (pool p)\<lparr>ram := ram (pool (fnValid status p))\<rparr>, temporaryInformation := TI_NO_INFO\<rparr>"
    "currentLocalStepNumber p = c - start_before status p c + 1 \<Longrightarrow> currentStep (fnValid status p) = currentStep p"
proof -
  define p1 where "p1 = defineCurrentProgramFromCurrentStep status p"
  define p2 where "p2 = snd (structWalkProgram status True None p1)"
  note o = opened_program [OF ok t c, folded p1_def]
  have ok1: "code_ok status p1" using ok places_cong(2) [OF o(1)] by simp
  have v1: "structWalkProgram status False None p1 = (True, p1)"
    using v passing_walk(1) [OF ok1 o(4)] by (auto simp: passes_def p1_def [symmetric] prod_eq_iff)
  have t1: "same_outline status p1 p2" "same_but_ram p1 p2" using numbering_effect [OF ok1 items o(4)] v1 by (simp_all add: p2_def)
  obtain r where r: "p2 = p1\<lparr>pool := (pool p1)\<lparr>ram := r\<rparr>\<rparr>" using t1(2) unfolding same_but_ram_def by blast
  have at: "currentProgramNumber p1 = program_at status p1 c" using o(3) view_cong(4) [OF o(1)] by simp
  have start: "program_start p1 = all_steps status p1 ! start_before status p1 c" "start_before status p1 c \<le> code_length status p1"
    using program_start_at(1) [OF o(2) at] start_before_index [of c status p1] c(1) places_cong(1) [OF o(1), of status] by simp_all
  have "step_list status p2 (program_start p1) = step_list status p1 (program_start p1)"
    using all_steps_drop [OF start(2)] all_steps_drop [of "start_before status p1 c" status p2] t1(1) same_outline_length [OF t1(1)] start
    by (simp add: same_outline_def)
  then have walk: "step_forward status p2 k (program_start p1) = step_forward status p1 k (program_start p1)" for k
    by (simp add: step_forward_nth)
  have "fnValid status p = (redisplayed status p2)\<lparr>temporaryInformation := TI_NO_INFO\<rparr>"
    using v1 r by (simp add: fnValid_def p1_def [symmetric] p2_def [symmetric] redisplayed_def Let_def
        structMayMoveThePointer_def defineFirstDisplayedStep_def defineCurrentStep_def)
  moreover have "redisplayed status p2 = (redisplayed status p1)\<lparr>pool := (pool p1)\<lparr>ram := r\<rparr>\<rparr>"
    using walk by (simp add: redisplayed_alt r program_start_def)
  ultimately have f: "fnValid status p = (redisplayed status p1)\<lparr>pool := (pool p)\<lparr>ram := r\<rparr>, temporaryInformation := TI_NO_INFO\<rparr>"
    by (simp add: p1_def)
  then show "fnValid status p = (redisplayed status p1)\<lparr>pool := (pool p)\<lparr>ram := ram (pool (fnValid status p))\<rparr>, temporaryInformation := TI_NO_INFO\<rparr>"
    by simp
  show "currentStep (fnValid status p) = currentStep p" if on: "currentLocalStepNumber p = c - start_before status p c + 1"
  proof -
    have le: "start_before status p1 c \<le> c" by (rule start_before_le)
    have "currentLocalStepNumber p1 - 1 = c - start_before status p1 c"
      using on view_cong(5) [OF o(1)] by (simp add: p1_def)
    moreover have "c - start_before status p1 c < Suc (code_length status p1) - start_before status p1 c"
      using le c(1) places_cong(1) [OF o(1), of status] by linarith
    ultimately have "step_forward status p1 (currentLocalStepNumber p1 - 1) (program_start p1) = all_steps status p1 ! c"
      using all_steps_drop [OF start(2)] start(1) le c(1) length_all_steps [of status p1] places_cong(1) [OF o(1), of status]
      by (simp add: step_forward_nth Let_def)
    then show ?thesis using c(2) code_cong(3) [OF o(1)] by (simp add: f redisplayed_alt p1_def)
  qed
qed

section \<open>The program that holds a step\<close>

lemma starts_after_end:
  assumes "0 < start_before status m c"
  shows "\<exists>j. start_before status m c = Suc j \<and> ends_program status m j"
proof -
  have k: "program_at status m c - 1 < length (start_places status m)" using program_at_bounds [of status m c] by linarith
  moreover have "0 < program_at status m c - 1" using assms by (cases "program_at status m c - 1") (simp_all add: start_before_def start_places_def)
  ultimately show ?thesis using start_places_after [of "program_at status m c - 1" status m] by (auto simp: start_before_def)
qed

lemma same_program:
  assumes c: "c \<le> code_length status m" and k: "start_before status m c \<le> k" "k \<le> prog_end status m (start_before status m c)"
    and i: "i < code_length status m"
  shows "program_of status m i = program_of status m k \<longleftrightarrow> start_before status m c \<le> i \<and> i \<le> prog_end status m (start_before status m c)"
proof -
  let ?s = "start_before status m c" and ?e = "prog_end status m (start_before status m c)"
  have "?s \<le> code_length status m" using start_before_le [of status m c] c by simp
  note e = prog_end_bounds [OF this]
  have inner: "program_of status m j = program_of status m ?s" if "?s \<le> j" "j \<le> ?e" for j
    using that
  proof (induction j rule: dec_induct)
    case (step j)
    then show ?case using e(3) [of j] by (simp add: program_of_Suc)
  qed simp
  have "program_of status m i < program_of status m ?s" if "i < ?s"
  proof -
    have "0 < ?s" using that by simp
    then obtain j where j: "?s = Suc j" "ends_program status m j" using starts_after_end by blast
    then have "program_of status m i \<le> program_of status m j" using that by (intro program_of_mono) simp
    then show ?thesis using j by (simp add: program_of_Suc)
  qed
  moreover have "program_of status m ?s < program_of status m i" if "?e < i"
  proof -
    have "program_of status m (Suc ?e) \<le> program_of status m i" using that by (intro program_of_mono) simp
    moreover have "ends_program status m ?e" using e(4) that i by simp
    ultimately show ?thesis using inner [OF e(1) order_refl] by (simp add: program_of_Suc)
  qed
  ultimately show ?thesis using inner [of i] inner [OF k] by (metis less_irrefl not_less)
qed

section \<open>The partners by number are the partners by nesting\<close>

lemma find_filter: "find Q (filter P xs) = find (\<lambda>x. P x \<and> Q x) xs"
  by (induction xs) auto

lemma last_filter: "(case filter P xs of [] \<Rightarrow> None | i # is \<Rightarrow> Some (last (i # is))) = Some b \<longleftrightarrow> filter P xs \<noteq> [] \<and> last (filter P xs) = b"
  by (cases "filter P xs") auto

abbreviation (input) TARGETS :: "nat set" where
  "TARGETS \<equiv> {ITM_ELSE, ITM_ENDIF, ITM_DO, ITM_ENDDO, ITM_REPEAT, ITM_UNTIL}"

lemma target_step:
  assumes "plain_op status m i \<in> TARGETS"
  shows "structure_at status m i" "structOpOfStep m (Some (all_steps status m ! i)) = plain_op status m i"
    "\<not> ends_program status m i" "structOpHasNumber (plain_op status m i)"
proof -
  let ?op = "structOpOfStep m (Some (all_steps status m ! i))"
  show op: "?op = plain_op status m i" using assms by (auto simp: plain_op_def structPlainOp_def split: if_splits)
  have big: "?op \<ge> 128" using assms op by auto
  have jump: "structStepIsJumpTarget m (Some (all_steps status m ! i))"
    using assms by (auto simp: structStepIsJumpTarget_def plain_op_def)
  moreover have "byte_at m (all_steps status m ! i) AND 0x80 \<noteq> 0" by (rule two_bytes(1) [OF refl big])
  then have "\<not> label_at status m i" by (auto simp: label_at_def)
  ultimately show "structure_at status m i" by (simp add: structure_at_def)
  show "\<not> ends_program status m i" using structure_not_end [OF jump] by (simp add: ends_program_def)
  show "structOpHasNumber (plain_op status m i)" using assms by (auto simp: structOpHasNumber_def)
qed

text \<open>A program with the numbers of its block structure, at one of its numbered steps.\<close>

lemma partner_places:
  assumes ok: "code_ok status r" and t: "tables_ok status r" and k: "stands_on status k r" "s \<le> k" "k < e"
    and c: "c \<le> code_length status r" "s = start_before status r c" "e = prog_end status r s"
    and n: "numbered status s e ops r" and ops: "\<forall>i < code_length status r. ops i = plain_op status r i" and S: "S \<subseteq> TARGETS"
  shows "struct_places status num S r =
    filter (\<lambda>i. s \<le> i \<and> i < e \<and> ops i \<in> S \<and> rank ops s (owner ops s i) = num) [0 ..< code_length status r]"
proof -
  have le: "e \<le> code_length status r" using prog_end_bounds(2) [of s status r] start_before_le [of status r c] c by simp
  have cur: "currentProgramNumber r = program_of status r k" using k le program_at_of [of k status r] by (simp add: stands_on_def)
  have prog: "program_of status r i = currentProgramNumber r \<longleftrightarrow> s \<le> i \<and> i \<le> e" if "i < code_length status r" for i
    using same_program [OF c(1), of k i] k c that cur by simp
  have ends: "e < code_length status r \<Longrightarrow> ends_program status r e"
    using prog_end_bounds(4) [of s status r] start_before_le [of status r c] c by simp
  have "(structure_at status r i \<and> program_of status r i = currentProgramNumber r \<and> byte_at r (all_steps status r ! i + 2) = num \<and>
        structOpOfStep r (Some (all_steps status r ! i)) \<in> S) \<longleftrightarrow>
      (s \<le> i \<and> i < e \<and> ops i \<in> S \<and> rank ops s (owner ops s i) = num)" if i: "i < code_length status r" for i
  proof
    assume a: "structure_at status r i \<and> program_of status r i = currentProgramNumber r \<and> byte_at r (all_steps status r ! i + 2) = num \<and>
        structOpOfStep r (Some (all_steps status r ! i)) \<in> S"
    then have "ops i = structOpOfStep r (Some (all_steps status r ! i))" using S by (auto simp: ops [rule_format, OF i] plain_op_def structPlainOp_def)
    then have op: "ops i \<in> S" using a by simp
    then have tg: "plain_op status r i \<in> TARGETS" using S by (auto simp: ops [rule_format, OF i])
    have "i \<noteq> e" using ends i target_step(3) [OF tg] by blast
    then have "s \<le> i" "i < e" using a prog [OF i] by auto
    then show "s \<le> i \<and> i < e \<and> ops i \<in> S \<and> rank ops s (owner ops s i) = num"
      using a op n target_step(4) [OF tg] by (simp add: numbered_def ops [rule_format, OF i])
  next
    assume a: "s \<le> i \<and> i < e \<and> ops i \<in> S \<and> rank ops s (owner ops s i) = num"
    then have tg: "plain_op status r i \<in> TARGETS" using S by (auto simp: ops [rule_format, OF i])
    show "structure_at status r i \<and> program_of status r i = currentProgramNumber r \<and> byte_at r (all_steps status r ! i + 2) = num \<and>
        structOpOfStep r (Some (all_steps status r ! i)) \<in> S"
      using a prog [OF i] target_step [OF tg] n by (simp add: numbered_def ops [rule_format, OF i])
  qed
  then show ?thesis unfolding struct_places_def structure_places_def filter_filter
    by (intro filter_cong refl) (auto simp: conj_commute)
qed

lemma next_partner_nested:
  assumes ok: "code_ok status r" and t: "tables_ok status r" and k: "stands_on status k r" "s \<le> k" "k < e"
    and c: "c \<le> code_length status r" "s = start_before status r c" "e = prog_end status r s"
    and n: "numbered status s e ops r" "nested ops s e" and ops: "\<forall>i < code_length status r. ops i = plain_op status r i"
    and op: "structOpHasNumber (ops k)" "\<not> closes (ops k)"
    and S: "S \<subseteq> TARGETS" "\<And>op. op \<in> S \<Longrightarrow> structOpHasNumber op \<and> \<not> opens op \<and> family op = family (ops k)"
      "\<And>op. closes op \<Longrightarrow> family op = family (ops k) \<Longrightarrow> op \<in> S"
  shows "\<exists>j. next_at_level ops s e S k = Some j \<and> next_partner status (byte_at r (all_steps status r ! k + 2)) S k r = Some j"
proof -
  have le: "e \<le> code_length status r" using prog_end_bounds(2) [of s status r] start_before_le [of status r c] c by simp
  have num: "byte_at r (all_steps status r ! k + 2) = rank ops s (owner ops s k)" using n(1) k op(1) by (simp add: numbered_def)
  obtain j where j: "next_at_level ops s e S k = Some j" and f: "find (\<lambda>j. owner ops s j = owner ops s k \<and> ops j \<in> S) [Suc k ..< e] = Some j"
    using next_at_level_owner [OF n(2) k(2,3) op, of S] S(2,3) by blast
  have same: "rank ops s (owner ops s i) = rank ops s (owner ops s k) \<longleftrightarrow> owner ops s i = owner ops s k" if "s \<le> i" "i < e" "ops i \<in> S" for i
    using same_number [OF n(2) that(1,2) _ k(2,3) op(1)] S(2) [OF that(3)] by simp
  let ?P = "\<lambda>i. (s \<le> i \<and> i < e \<and> ops i \<in> S \<and> rank ops s (owner ops s i) = rank ops s (owner ops s k)) \<and> k < i"
  have "find ?P [0 ..< code_length status r] = Some j"
    using f le k(2) same unfolding find_upt by auto
  then have "next_partner status (byte_at r (all_steps status r ! k + 2)) S k r = Some j"
    unfolding next_partner_def num partner_places [OF ok t k c n(1) ops S(1)] find_filter .
  then show ?thesis using j by simp
qed

lemma open_above_nested:
  assumes ok: "code_ok status r" and t: "tables_ok status r" and k: "stands_on status k r" "s \<le> k" "k < e"
    and c: "c \<le> code_length status r" "s = start_before status r c" "e = prog_end status r s"
    and n: "numbered status s e ops r" "nested ops s e" and ops: "\<forall>i < code_length status r. ops i = plain_op status r i"
    and op: "structOpHasNumber (ops k)" "closes (ops k)" and S: "family (ops k) \<in> TARGETS" "ops k \<in> TARGETS"
      "opens (family (ops k))"
  shows "\<exists>j. last_at_level ops s (family (ops k)) k = Some j \<and>
    open_above status (byte_at r (all_steps status r ! k + 2)) (family (ops k)) (ops k) k r = Some j"
proof -
  let ?b = "owner ops s k" and ?num = "byte_at r (all_steps status r ! k + 2)"
  have le: "e \<le> code_length status r" using prog_end_bounds(2) [of s status r] start_before_le [of status r c] c by simp
  have num: "?num = rank ops s ?b" using n(1) k op(1) by (simp add: numbered_def)
  note l = last_at_level_owner [OF n(2) k(2,3) op]
  note b = nested_owner [OF n(2) k(2,3) disjI1 [OF op(1)]]
  have at: "filter (\<lambda>i. i < k) (struct_places status ?num {x} r) =
      filter (\<lambda>i. s \<le> i \<and> ops i = x \<and> rank ops s (owner ops s i) = rank ops s ?b) [0 ..< k]" if x: "x \<in> TARGETS" for x
  proof -
    have split: "[0 ..< code_length status r] = [0 ..< k] @ [k ..< code_length status r]" using k le by (intro upt_split) simp_all
    have X: "{x} \<subseteq> TARGETS" using x by simp
    have none: "filter (\<lambda>i. Q i \<and> i < k) [k ..< code_length status r] = []" for Q by (simp add: filter_empty_conv)
    show ?thesis unfolding partner_places [OF ok t k c n(1) ops X] filter_filter split filter_append num none append_Nil2
      by (rule filter_cong [OF refl]) (use k(3) in auto)
  qed
  have ob: "owner ops s ?b = ?b" using b(5) by (simp add: owner_def)
  have "last_partner status ?num {family (ops k)} k r = Some ?b"
  proof -
    let ?P = "\<lambda>i. s \<le> i \<and> ops i = family (ops k) \<and> rank ops s (owner ops s i) = rank ops s ?b"
    have "?P ?b" using b(1,4) ob by simp
    moreover have "\<not> ?P i" if "?b < i" "i < k" for i
    proof
      assume P: "?P i"
      then have "owner ops s i = i" using S(3) by (simp add: owner_def)
      then have "rank ops s i = rank ops s ?b" using P by simp
      then show False using rank_inject [of ops i ?b s] P b(1,4) that by simp
    qed
    ultimately have "filter ?P [0 ..< k] \<noteq> []" "last (filter ?P [0 ..< k]) = ?b"
      using last_filter_upt [of 0 ?b k ?P] l(2) by blast+
    then show ?thesis unfolding last_partner_def at [OF S(1)] last_filter by (rule conjI)
  qed
  moreover have "last_partner status ?num {ops k} k r = None"
  proof -
    have "\<not> (s \<le> i \<and> ops i = ops k \<and> rank ops s (owner ops s i) = rank ops s ?b)" if i: "i < k" for i
      using same_number [OF n(2) _ _ _ k(2,3) op(1), of i] l(3) [OF i] i k(3) op by auto
    then have "filter (\<lambda>i. s \<le> i \<and> ops i = ops k \<and> rank ops s (owner ops s i) = rank ops s ?b) [0 ..< k] = []"
      by (simp add: filter_empty_conv)
    then show ?thesis by (simp only: last_partner_def at [OF S(2)] list.case)
  qed
  ultimately show ?thesis using l(1) by (simp add: open_above_def)
qed

section \<open>VALID\<close>

lemma valid_numbered_step:
  assumes "code_ok status p" "tables_ok status p" "struct_items status" "c \<le> code_length status p" "currentStep p = all_steps status p ! c" "passes status p"
    and s: "s = start_before status p c" and e: "e = prog_end status p s" and ops: "ops = plain_op status p"
    and i: "s \<le> i" "i < e" "structOpHasNumber (ops i)"
  shows "structNumberIsValid (byte_at (fnValid status p) (all_steps status p ! i + 2))"
proof -
  note v = valid_effect [OF assms(1-6), folded s, folded e, folded ops]
  have "all_steps status (fnValid status p) = all_steps status p" using v(1) by (simp add: same_outline_def)
  then have "byte_at (fnValid status p) (all_steps status p ! i + 2) = rank ops s (owner ops s i)"
    using v(4) i by (simp add: numbered_def)
  then show ?thesis using owner_rank [OF v(7,3) i] by (simp add: structNumberIsValid_def)
qed

text \<open>C38. VALID on a program that passes its check.  The program is well nested, and after the run every step of a
  structure carries the number of its structure, which is the count of the openers of its kind up to its
  own and fits in a byte; every FOR and NEXT has its unmarked form; no step is left without a number or with
  the mark of one that was not checked.  Nothing else changes: every byte of memory except these numbers and
  marks keeps its value, so the steps stay where they are with their parameters and the tables of labels,
  structures and programs still fit; of all other variables only the number and bounds of the open program, the
  temporary information and, with no program running, the pointers to the current and the first displayed step
  are set, the pointers from their unchanged step numbers; if the local step number was the one of the current
  step, the pointer to it comes out as it was.\<close>

theorem valid_numbers:
  assumes ok: "code_ok status p" and t: "tables_ok status p" and items: "struct_items status"
    and c: "c \<le> code_length status p" "currentStep p = all_steps status p ! c" and v: "passes status p"
    and s: "s = start_before status p c" and e: "e = prog_end status p s" and ops: "ops = plain_op status p"
  shows "fnValid status p = (redisplayed status (defineCurrentProgramFromCurrentStep status p))
      \<lparr>pool := (pool p)\<lparr>ram := ram (pool (fnValid status p))\<rparr>, temporaryInformation := TI_NO_INFO\<rparr> \<and>
    (currentLocalStepNumber p = c - s + 1 \<longrightarrow> currentStep (fnValid status p) = currentStep p) \<and>
    (\<forall>x. \<not> valid_writes status s e p x \<longrightarrow> byte_at (fnValid status p) x = byte_at p x) \<and> unmarked status s e p (fnValid status p) \<and>
    same_outline status p (fnValid status p) \<and> tables_ok status (fnValid status p) \<and>
    nested ops s e \<and> numbered status s e ops (fnValid status p) \<and>
    (\<forall>i. s \<le> i \<and> i < e \<and> structOpHasNumber (ops i) \<longrightarrow> structNumberIsValid (rank ops s (owner ops s i))) \<and>
    \<not> structProgramHasUnnumbered status (fnValid status p)"
proof -
  let ?p = "fnValid status p"
  note f = valid_effect [OF ok t items c v, folded s, folded e, folded ops]
  have st: "all_steps status ?p = all_steps status p" using f(1) by (simp add: same_outline_def)
  have ok': "code_ok status ?p" using text_places(4) [OF f(1)] ok by simp
  have le: "e \<le> code_length status p" using f(5) same_outline_length [OF f(1)] by (simp add: open_program_def)
  have number: "structNumberIsValid (byte_at ?p (all_steps status p ! i + 2))" if "s \<le> i" "i < e" "structOpHasNumber (ops i)" for i
    by (rule valid_numbered_step [OF ok t items c v s e ops that])
  have "\<not> unnumbered_step status ?p (all_steps status ?p ! i)" if i: "s \<le> i" "i < e" for i
  proof -
    have "structOpOfStep ?p (Some (all_steps status p ! i)) \<notin> {ITM_FORx, ITM_NEXTx, ITM_FORYXx, ITM_FORTOPx}"
      using f(4) i by (simp add: numbered_def st)
    moreover have "structOpHasNumber (structOpOfStep ?p (Some (all_steps status p ! i))) \<Longrightarrow> structOpHasNumber (ops i)"
      using text_step(1) [OF f(1), of i] i le plain_numbered(1) [of "structOpOfStep ?p (Some (all_steps status p ! i))"]
      by (simp add: plain_op_def st ops)
    ultimately show ?thesis using number [OF i] by (auto simp: unnumbered_step_def Let_def st)
  qed
  moreover have "beginOfCurrentProgram ?p = all_steps status ?p ! s" "s \<le> e" using f(5) by (simp_all add: open_program_def)
  ultimately have "\<not> structProgramHasUnnumbered status ?p"
    using has_unnumbered_iff [OF ok' f(5), of s] by (simp add: structProgramHasUnnumbered_def)
  moreover have "structNumberIsValid (rank ops s (owner ops s i))" if "s \<le> i" "i < e" "structOpHasNumber (ops i)" for i
    using number [OF that] f(4) that by (simp add: numbered_def st)
  ultimately show ?thesis using f(1-4,8,9) fnValid_state [OF ok t items c v] s by blast
qed

text \<open>C39. A program that VALID has passed runs as its nesting says.  The pointer is at step \<open>k\<close> of that program,
  whose operand is \<open>n\<close>: a false IF goes behind the next ELSE or ENDIF at its own level, ELSE behind the next
  ENDIF, a false WHILE behind the next ENDDO at the level; ENDDO and a false UNTIL go behind the DO or REPEAT
  one level out that opened them.  There always is such a step, so a jump never fails, whatever the numbers
  of nested or neighbouring structures are.\<close>

theorem valid_program_runs_nested:
  fixes p r :: "'a structured_scheme"
  assumes ok: "code_ok status p" and t: "tables_ok status p" and items: "struct_items status"
    and c: "c \<le> code_length status p" "currentStep p = all_steps status p ! c" and v: "passes status p"
    and s: "s = start_before status p c" and e: "e = prog_end status p s" and ops: "ops = plain_op status p"
    and r: "code_view r = code_view (fnValid status p)" "tables_ok status r" "programRunning r"
    and k: "stands_on status k r" "s \<le> k" "k < e" and n: "n = byte_at r (currentStep r + 2)"
  shows "(ops k = ITM_IF \<longrightarrow> (\<exists>j. next_at_level ops s e {ITM_ENDIF, ITM_ELSE} k = Some j \<and> fnIf status n r = decides status k (Some j) r)) \<and>
    (ops k = ITM_ELSE \<longrightarrow> (\<exists>j. next_at_level ops s e {ITM_ENDIF} k = Some j \<and> fnElse n r = step_at status (Suc j) r)) \<and>
    (ops k = ITM_WHILE \<longrightarrow> (\<exists>j. next_at_level ops s e {ITM_ENDDO} k = Some j \<and> fnWhile status n r = decides status k (Some j) r)) \<and>
    (ops k = ITM_ENDDO \<longrightarrow> (\<exists>j. last_at_level ops s ITM_DO k = Some j \<and> fnEnddo n r = step_at status (Suc j) r)) \<and>
    (ops k = ITM_UNTIL \<longrightarrow> (\<exists>j. last_at_level ops s ITM_REPEAT k = Some j \<and> fnUntil status n r = decides status k (Some j) r))"
proof (cases "structOpHasNumber (ops k)")
  case False
  then show ?thesis by (auto simp: structOpHasNumber_def)
next
  case num: True
  note f = valid_effect [OF ok t items c v, folded s, folded e, folded ops]
  have tx: "same_outline status p r" using f(1) same_outline_view(1) [OF r(1)] by simp
  note pl = text_places [OF tx]
  have st: "all_steps status r = all_steps status p" and len: "code_length status r = code_length status p"
    using tx same_outline_length [OF tx] by (simp_all add: same_outline_def)
  have ok': "code_ok status r" using pl(4) ok by simp
  have c': "c \<le> code_length status r" "s = start_before status r c" using c(1) len pl(6) s by simp_all
  have ol: "e \<le> code_length status p" using f(5) same_outline_length [OF f(1)] by (simp add: open_program_def)
  have opr: "\<forall>i < code_length status r. ops i = plain_op status r i" using text_step(1) [OF tx] len ops by simp
  have "takeWhile (\<lambda>i. \<not> ends_program status r i) [s ..< code_length status p] = takeWhile (\<lambda>i. \<not> ends_program status p i) [s ..< code_length status p]"
    using text_step(6) [OF tx] by (intro takeWhile_cong) auto
  then have e': "e = prog_end status r s" by (simp add: e prog_end_def len)
  have nr: "numbered status s e ops r" using f(4) by (simp add: numbered_def code_cong [OF r(1)])
  note places = ok' r(2) k(1-3) c' e' nr f(3) opr
  have kl: "k < code_length status r" using k(3) ol len by simp
  have cur: "currentStep r = all_steps status r ! k" using k(1) by (simp add: stands_on_def)
  have nn: "n = byte_at r (all_steps status r ! k + 2)" by (simp add: n cur)
  have valid: "structNumberIsValid n"
    using valid_numbered_step [OF ok t items c v s e ops k(2,3) num] by (simp only: nn st code_cong(1) [OF r(1)])
  have "\<not> ends_program status r k" using f(5) k(2,3) by (simp add: open_program_def view_cong(1) [OF r(1)])
  then have "\<not> isAtEndOfProgram r (Some (currentStep r))" by (simp add: ends_program_def cur)
  note run = running_structures [OF ok' r(2) k(1) kl r(3) valid this]
  have below: "\<exists>j. next_at_level ops s e S k = Some j \<and> next_partner status n S k r = Some j"
    if "\<not> closes (ops k)" "S \<subseteq> TARGETS" "\<And>op. op \<in> S \<Longrightarrow> structOpHasNumber op \<and> \<not> opens op \<and> family op = family (ops k)"
      "\<And>op. closes op \<Longrightarrow> family op = family (ops k) \<Longrightarrow> op \<in> S" for S
    using next_partner_nested [OF places num that] by (simp only: nn)
  have kinds: "closes ITM_ENDIF" "closes ITM_ENDDO" "closes ITM_UNTIL" "\<not> closes ITM_IF" "\<not> closes ITM_ELSE" "\<not> closes ITM_WHILE"
    "\<not> opens ITM_ENDIF" "\<not> opens ITM_ELSE" "\<not> opens ITM_ENDDO" "opens ITM_DO" "opens ITM_REPEAT"
    by (simp_all add: closes_def opens_def)
  have family: "family ITM_IF = ITM_IF" "family ITM_ELSE = ITM_IF" "family ITM_ENDIF = ITM_IF" "family ITM_WHILE = ITM_DO" "family ITM_ENDDO = ITM_DO"
    "family ITM_UNTIL = ITM_REPEAT" by (simp_all add: family_def opens_def opener_of_def)
  have only: "closes op \<Longrightarrow> family op = ITM_IF \<Longrightarrow> op = ITM_ENDIF" "closes op \<Longrightarrow> family op = ITM_DO \<Longrightarrow> op = ITM_ENDDO" for op
    by (auto simp: closes_def family_def opens_def opener_of_def split: if_splits)
  have above: "\<exists>j. last_at_level ops s (family (ops k)) k = Some j \<and> open_above status n (family (ops k)) (ops k) k r = Some j"
    if "closes (ops k)" "family (ops k) \<in> TARGETS" "ops k \<in> TARGETS" "opens (family (ops k))"
    using open_above_nested [OF places num that] by (simp only: nn)
  have If: "ops k = ITM_IF \<Longrightarrow> \<exists>j. next_at_level ops s e {ITM_ENDIF, ITM_ELSE} k = Some j \<and> next_partner status n {ITM_ENDIF, ITM_ELSE} k r = Some j"
    and Else: "ops k = ITM_ELSE \<Longrightarrow> \<exists>j. next_at_level ops s e {ITM_ENDIF} k = Some j \<and> next_partner status n {ITM_ENDIF} k r = Some j"
    and While: "ops k = ITM_WHILE \<Longrightarrow> \<exists>j. next_at_level ops s e {ITM_ENDDO} k = Some j \<and> next_partner status n {ITM_ENDDO} k r = Some j"
    using only by (intro below; auto simp: kinds family structOpHasNumber_def)+
  have Enddo: "ops k = ITM_ENDDO \<Longrightarrow> \<exists>j. last_at_level ops s ITM_DO k = Some j \<and> open_above status n ITM_DO ITM_ENDDO k r = Some j"
    and Until: "ops k = ITM_UNTIL \<Longrightarrow> \<exists>j. last_at_level ops s ITM_REPEAT k = Some j \<and> open_above status n ITM_REPEAT ITM_UNTIL k r = Some j"
    using above by (simp_all add: kinds family)
  show ?thesis
    using If Else While Enddo Until run by (auto simp: lands_def)
qed

section \<open>VALID on the small program\<close>

lemma struct_status_items: "struct_items struct_status"
proof -
  have "struct_status op AND PTP_STATUS \<noteq> 0xc00" if "op < 128" for op
    using that by (simp add: struct_status_def structOpHasNumber_def structPlainOp_def)
  then show ?thesis by (simp add: struct_items_def FOR_OPS_def NEXT_OPS_def struct_status_def structOpHasNumber_def structPlainOp_def)
qed

lemma branch_ops:
  assumes "n = 0 \<or> n = 1"
  shows "plain_op struct_status (branch n) 0 = 1" "plain_op struct_status (branch n) 1 = 22" "plain_op struct_status (branch n) 2 = ITM_IF"
    "plain_op struct_status (branch n) 3 = 16" "plain_op struct_status (branch n) 4 = ITM_ELSE" "plain_op struct_status (branch n) 5 = ITM_ENDIF"
    "plain_op struct_status (branch n) 6 = 1458"
  by (simp_all add: plain_op_def branch_steps [OF assms] branch_bytes [OF assms] structOpOfStep_def programBytesAvailable_def structPlainOp_def)

lemma same_number_field: "currentProgramNumber p = x \<Longrightarrow> p\<lparr>currentProgramNumber := x\<rparr> = p"
  by (cases p) auto

lemma same_bounds_fields:
  "endOfCurrentProgram p = y \<Longrightarrow> beginOfCurrentProgram p = z \<Longrightarrow> p\<lparr>endOfCurrentProgram := y, beginOfCurrentProgram := z\<rparr> = p"
  by (cases p) auto

lemma branch_program:
  assumes "n = 0 \<or> n = 1"
  shows "start_before struct_status (branch n) 2 = 0" "prog_end struct_status (branch n) 0 = 6"
    "defineCurrentProgramFromCurrentStep struct_status (branch n) = branch n"
proof -
  note [simp] = branch_bytes [OF assms] branch_steps [OF assms]
  show "start_before struct_status (branch n) 2 = 0"
    by (simp add: start_before_def program_at_def branch_places [OF assms])
  have "ends_program struct_status (branch n) i \<longleftrightarrow> i = 6" if "i < 7" for i
  proof -
    have "i \<in> {0, 1, 2, 3, 4, 5, 6}" using that by auto
    then show ?thesis by (auto simp: ends_program_def isAtEndOfProgram_def checkOpCodeOfStep_def)
  qed
  then have e: "\<forall>i < 7. ends_program struct_status (branch n) i \<longleftrightarrow> i = 6" by blast
  have "[0 ..< 7] = [0, 1, 2, 3, 4, 5, 6 :: nat]" by (simp add: upt_rec)
  then show p: "prog_end struct_status (branch n) 0 = 6" by (simp add: prog_end_def e)
  have "program_end struct_status (branch n) (Some 260000) = Some 260013"
    using program_end_at [OF branch_ok [OF assms], of 0 0] p by simp
  then have bounds: "define_bounds struct_status (branch n) = branch n"
    using same_bounds_fields [of "branch n" "Some 260015" 260000]
    by (simp only: define_bounds_def getProgramSize_def program_start_def branch_simps) simp
  have "takeWhile (\<lambda>e. 260003 \<ge> programInstructionPointer e) (programTable (branch n)) = programTable (branch n)" by simp
  then have "defineCurrentProgramFromCurrentStep struct_status (branch n) =
      define_bounds struct_status ((branch n)\<lparr>currentProgramNumber := 1\<rparr>)"
    by (simp only: defineCurrentProgramFromCurrentStep_def branch_simps) simp
  also have "(branch n)\<lparr>currentProgramNumber := 1\<rparr> = branch n" by (rule same_number_field) simp
  finally show "defineCurrentProgramFromCurrentStep struct_status (branch n) = branch n" using bounds by (simp only:)
qed

lemma branch_passes:
  assumes "n = 0 \<or> n = 1"
  shows "passes struct_status (branch n)"
proof -
  note [simp] = branch_steps [OF assms]
  have stand: "currentStep (branch n) = all_steps struct_status (branch n) ! 2" "2 \<le> code_length struct_status (branch n)" by simp_all
  have "open_program struct_status 0 6 (branch n)"
    using opened_program(4) [OF branch_ok [OF assms] branch_tables(1) [OF assms] stand(2,1)] branch_program [OF assms] by simp
  note on = walks_on_at [OF this branch_ok [OF assms] le0]
  have w: "walks_on None (Some 260000) (branch n)" "walks_on None (Some 260002) (branch n)" "walks_on None (Some 260003) (branch n)"
    "walks_on None (Some 260006) (branch n)" "walks_on None (Some 260007) (branch n)" "walks_on None (Some 260010) (branch n)"
    "\<not> walks_on None (Some 260013) (branch n)"
    using on [of 0] on [of 1] on [of 2] on [of 3] on [of 4] on [of 5] on [of 6] by simp_all
  note next' = all_steps_next [of _ struct_status "branch n", simplified branch_steps [OF assms]]
  have nxt: "findNextStep struct_status (branch n) (Some 260000) = Some 260002" "findNextStep struct_status (branch n) (Some 260002) = Some 260003"
    "findNextStep struct_status (branch n) (Some 260003) = Some 260006" "findNextStep struct_status (branch n) (Some 260006) = Some 260007"
    "findNextStep struct_status (branch n) (Some 260007) = Some 260010" "findNextStep struct_status (branch n) (Some 260010) = Some 260013"
    using next' [of 0] next' [of 1] next' [of 2] next' [of 3] next' [of 4] next' [of 5] by simp_all
  note op = branch_ops [OF assms, unfolded plain_op_def, simplified branch_steps [OF assms], simplified]
  have start: "walk_start (branch n) = \<lparr>walkStep = Some 260000, walkNumber = 1, openStructures = [], forDepth = 0, previousOp = 0, previousStepOp = 0,
      ifNext = 0, doNext = 0, repeatNext = 0, forSeen = False, firstForStep = 0\<rparr>" by (simp add: walk_start_def)
  have "\<exists>w. walk_loop struct_status False None (walk_start (branch n)) (branch n) = (Inr w, branch n) \<and> walk_end w = None"
    by (simp add: start walk_loop.simps w nxt op walk_check_def routine_boundary_def see_for_def check_structure_def check_opener_def check_closer_def
      check_crossed_def walk_on_def series_def opener_of_def structOpIsTest_def structTest_def structOpHasNumber_def walk_end_def trunc16_def Let_def)
  then show ?thesis using branch_program(3) [OF assms] by (auto simp: passes_def structWalkProgram_def)
qed

lemma branch_valid:
  shows "prog_end struct_status (branch 0) (start_before struct_status (branch 0) 2) = 6"
    "rank (plain_op struct_status (branch 0)) 0 (owner (plain_op struct_status (branch 0)) 0 2) = 1"
    "rank (plain_op struct_status (branch 0)) 0 (owner (plain_op struct_status (branch 0)) 0 4) = 1"
    "rank (plain_op struct_status (branch 0)) 0 (owner (plain_op struct_status (branch 0)) 0 5) = 1"
    "next_at_level (plain_op struct_status (branch 0)) 0 6 {ITM_ENDIF, ITM_ELSE} 2 = Some 4"
proof -
  note [simp] = branch_ops [of 0, simplified] branch_ops [of 0, simplified, unfolded One_nat_def]
  let ?ops = "plain_op struct_status (branch 0)"
  show "prog_end struct_status (branch 0) (start_before struct_status (branch 0) 2) = 6" by (simp add: branch_program)
  have "open_at ?ops 0 2 = []" using open_at.simps(2) [of ?ops 0 1] by (simp add: opens_def closes_def numeral_2_eq_2)
  moreover from this have o3: "open_at ?ops 0 3 = [2]" using open_at.simps(2) [of ?ops 0 2] by (simp add: opens_def closes_def)
  moreover from this have o4: "open_at ?ops 0 4 = [2]" using open_at.simps(2) [of ?ops 0 3] by (simp add: opens_def closes_def)
  moreover from this have o5: "open_at ?ops 0 5 = [2]" using open_at.simps(2) [of ?ops 0 4] by (simp add: opens_def closes_def)
  ultimately have o: "open_at ?ops 0 2 = []" "open_at ?ops 0 3 = [2]" "open_at ?ops 0 4 = [2]" "open_at ?ops 0 5 = [2]" by simp_all
  have u: "[0 ..< 3] = [0, 1, 2 :: nat]" "[3 ..< 6] = [3, 4, 5 :: nat]" by (simp_all add: upt_rec)
  have r: "rank ?ops 0 2 = 1" by (simp add: rank_def u)
  show "rank ?ops 0 (owner ?ops 0 2) = 1" "rank ?ops 0 (owner ?ops 0 4) = 1" "rank ?ops 0 (owner ?ops 0 5) = 1"
    using r o by (simp_all add: owner_def opens_def)
  show "next_at_level ?ops 0 6 {ITM_ENDIF, ITM_ELSE} 2 = Some 4"
    using o by (simp add: next_at_level_def level_def opens_def u)
qed

lemma valid_numbers_witness:
  "byte_at (branch 0) 260005 = 0 \<and> byte_at (fnValid struct_status (branch 0)) 260005 = 1 \<and>
   byte_at (fnValid struct_status (branch 0)) 260009 = 1 \<and> byte_at (fnValid struct_status (branch 0)) 260012 = 1"
proof -
  note [simp] = branch_steps [of 0, simplified] branch_ops [of 0, simplified]
  have at: "currentStep (branch 0) = all_steps struct_status (branch 0) ! 2" "2 \<le> code_length struct_status (branch 0)" by simp_all
  note v = valid_numbers [OF branch_ok [of 0, simplified] branch_tables(1) [of 0, simplified] struct_status_items at(2,1) branch_passes [of 0, simplified] refl refl refl]
  have st: "all_steps struct_status (fnValid struct_status (branch 0)) = all_steps struct_status (branch 0)"
    using v by (simp add: same_outline_def)
  have n: "\<forall>i. 0 \<le> i \<and> i < 6 \<longrightarrow> structOpHasNumber (plain_op struct_status (branch 0) i) \<longrightarrow>
      byte_at (fnValid struct_status (branch 0)) (all_steps struct_status (branch 0) ! i + 2) =
        rank (plain_op struct_status (branch 0)) 0 (owner (plain_op struct_status (branch 0)) 0 i)"
    using v branch_program(1,2) [of 0] by (simp add: numbered_def st)
  show ?thesis
    using n [rule_format, of 2] n [rule_format, of 4] n [rule_format, of 5] branch_valid(2-4) branch_bytes(6) [of 0]
    by (simp add: structOpHasNumber_def)
qed

lemma valid_program_runs_nested_witness:
  "currentStep (fnIf struct_status 1 ((step_at struct_status 2 (fnValid struct_status (branch 0)))\<lparr>temporaryInformation := TI_FALSE\<rparr>)) = 260010"
proof -
  note [simp] = branch_steps [of 0, simplified] branch_ops [of 0, simplified]
  let ?s = struct_status and ?v = "fnValid struct_status (branch 0)"
  let ?q = "step_at ?s 2 ?v"
  let ?r = "?q\<lparr>temporaryInformation := TI_FALSE\<rparr>"
  have at: "currentStep (branch 0) = all_steps ?s (branch 0) ! 2" "2 \<le> code_length ?s (branch 0)" by simp_all
  note hyps = branch_ok [of 0, simplified] branch_tables(1) [of 0, simplified] struct_status_items at(2,1) branch_passes [of 0, simplified]
  note f = valid_effect [OF hyps, unfolded branch_program(1,2) [of 0, simplified]]
  have st: "all_steps ?s ?v = all_steps ?s (branch 0)" "code_length ?s ?v = 7" using f(1) same_outline_length [OF f(1)] by (simp_all add: same_outline_def)
  have prog: "program_at ?s ?v 2 = currentProgramNumber ?v" using f(6) text_places(5) [OF f(1)] by simp
  note q = step_at_stands [of 2 ?s ?v, OF _ prog]
  have view: "code_view ?q = code_view ?v" "stands_on ?s 2 ?q" using q st by simp_all
  have tq: "tables_ok ?s ?q" using f(2) tables_cong [OF view(1)] by (simp add: step_at_def)
  have run: "programRunning ?v"
  proof -
    have o: "open_program ?s 0 6 (branch 0)"
      using opened_program(4) [OF hyps(1,2,4,5)] branch_program [of 0] by simp
    have p: "fst (structWalkProgram ?s False None (branch 0))" using hyps(6) branch_program(3) [of 0] by (simp add: passes_def)
    have "snd (structWalkProgram ?s False None (branch 0)) = branch 0" using passing_walk(1) [OF hyps(1) o p] by blast
    then show ?thesis using fnValid_frame(8) [OF hyps(6)] branch_program(3) [of 0] numbering_effect [OF hyps(1,3) o p] same_but_ram_fields(9) by fastforce
  qed
  have r: "code_view ?r = code_view ?v" "tables_ok ?s ?r" "programRunning ?r" "stands_on ?s 2 ?r"
    using view tq run answer_taken(2,3) [where p = ?q and x = TI_FALSE] by (simp_all add: code_view_def) (simp add: step_at_def)
  have "structOpHasNumber (plain_op ?s (branch 0) 2)" by (simp add: structOpHasNumber_def)
  then have "byte_at ?v (all_steps ?s ?v ! 2 + 2) = 1"
    using f(4) [unfolded numbered_def, rule_format, of 2] branch_valid(2) by simp
  then have "byte_at ?v 260005 = 1" by (simp add: st)
  then have n: "byte_at ?r (currentStep ?r + 2) = 1" using code_cong(1) [OF r(1)] by (simp add: step_at_def st)
  have "fnIf ?s 1 ?r = decides ?s 2 (Some 4) ?r"
    using valid_program_runs_nested [OF hyps refl refl refl r(1,2,3,4) _ _ refl] branch_program(1,2) [of 0] branch_valid(5) n by simp
  moreover have "currentStep (decides ?s 2 (Some 4) ?r) = all_steps ?s (?r\<lparr>temporaryInformation := TI_NO_INFO\<rparr>) ! 5"
    by (simp add: decides_def lands_def step_at_def)
  moreover have "code_view (?r\<lparr>temporaryInformation := TI_NO_INFO\<rparr>) = code_view ?v" using view(1) by (simp add: code_view_def)
  then have "all_steps ?s (?r\<lparr>temporaryInformation := TI_NO_INFO\<rparr>) = all_steps ?s (branch 0)" using code_cong(3) st(1) by metis
  ultimately show ?thesis by simp
qed

end
