(* ===== verification/Subroutines.thy ===== *)
theory Subroutines
  imports Labels Registers
begin

text \<open>
  Subroutine levels, \<^verbatim>\<open>programming/lblGtoXeq.c\<close>: XEQ, RTN and what they need of the local registers of a level
  (\<^verbatim>\<open>allocateLocalRegisters\<close> in \<^verbatim>\<open>registers.c\<close>).  A level is a piece of RAM with a header of three blocks,
  after it a word of local flags and the headers of the local registers, if there are any.

  The headers of the levels are a list, the current one apart; the pointers between the levels are the order
  of the list.  What the piece of the current level holds after its header is \<^verbatim>\<open>currentLocalFlags\<close> and
  \<^verbatim>\<open>currentLocalRegisters\<close>, of an outer level it is kept with its header.  As for the tables of registers,
  nothing else writes to these pieces.
\<close>

text \<open>\<^verbatim>\<open>subroutineLevelHeader_t\<close> and where it lies.\<close>

record level =
  levelData :: nat
  returnProgramNumber :: int
  returnLocalStep :: nat
  subroutineLevel :: nat

type_synonym outer_level = "level \<times> u32 option \<times> registerHeader list option"

text \<open>
  The registers and the other global variables are in \<open>registerFile\<close>; the memory and \<^verbatim>\<open>lastErrorCode\<close> are
  the same variables for both parts.
\<close>

record calculator = labelled +
  numberOfSubroutineLevels :: nat
  currentLevel :: level
  outerLevels :: "outer_level list"
  registerFile :: machine

datatype failure =
    Crash crash
  | LostStep       \<comment> \<open>the search for a step does not end\<close>
  | NoOuterLevel   \<comment> \<open>the header of the calling level is read through a null pointer\<close>

abbreviation (input) SUBROUTINE_LEVEL_BLOCKS :: nat where "SUBROUTINE_LEVEL_BLOCKS \<equiv> 3"
abbreviation (input) LOCAL_FLAGS_BLOCKS :: nat where "LOCAL_FLAGS_BLOCKS \<equiv> 1"

definition afterwards :: "failure + 'a \<Rightarrow> ('a \<Rightarrow> failure + 'b) \<Rightarrow> failure + 'b" where
  "afterwards r f = (case r of Inl e \<Rightarrow> Inl e | Inr x \<Rightarrow> f x)"

lemma afterwards_simps [simp]: "afterwards (Inl e) f = Inl e" "afterwards (Inr x) f = f x"
  by (simp_all add: afterwards_def)

definition or_lost :: "'a option \<Rightarrow> failure + 'a" where
  "or_lost r = (case r of None \<Rightarrow> Inl LostStep | Some p \<Rightarrow> Inr p)"

definition with_blocks :: "mem_error + memory \<Rightarrow> calculator \<Rightarrow> failure + calculator" where
  "with_blocks r p = (case r of Inl e \<Rightarrow> Inl (Crash (Exit e)) | Inr m \<Rightarrow> Inr (with_memory m p))"

definition machine_of :: "calculator \<Rightarrow> machine" where
  "machine_of p = (registerFile p)\<lparr>memory := memory.truncate p, lastErrorCode := programError p\<rparr>"

definition with_machine :: "crash + machine \<Rightarrow> calculator \<Rightarrow> failure + calculator" where
  "with_machine r p =
     (case r of
        Inl e \<Rightarrow> Inl (Crash e)
      | Inr m \<Rightarrow> Inr (with_memory (memory m) (p\<lparr>registerFile := m, programError := lastErrorCode m\<rparr>)))"

definition set_locals :: "u32 option \<Rightarrow> registerHeader list option \<Rightarrow> calculator \<Rightarrow> calculator" where
  "set_locals flags registers p =
     p\<lparr>registerFile := (registerFile p)\<lparr>currentLocalFlags := flags, currentLocalRegisters := registers\<rparr>\<rparr>"

definition numberOfLocalRegisters :: "calculator \<Rightarrow> nat" where
  "numberOfLocalRegisters p = (case currentLocalRegisters (registerFile p) of None \<Rightarrow> 0 | Some rs \<Rightarrow> length rs)"

text \<open>The blocks of the local flags in the piece of the current level.\<close>

definition flag_blocks :: "calculator \<Rightarrow> nat" where
  "flag_blocks p = (if currentLocalFlags (registerFile p) = None then 0 else LOCAL_FLAGS_BLOCKS)"

section \<open>Leaving the local registers\<close>

fun free_registers :: "nat list \<Rightarrow> machine \<Rightarrow> crash + machine" where
  "free_registers [] m = Inr m"
| "free_registers (r # rs) m = andThen (freeRegisterData r m) (free_registers rs)"

text \<open>\<^verbatim>\<open>allocateLocalRegisters(0)\<close> on a level that has local registers: their number decreases.\<close>

definition drop_local_registers :: "calculator \<Rightarrow> failure + calculator" where
  "drop_local_registers p =
     (let n = numberOfLocalRegisters p in
      afterwards (with_machine (free_registers (map ((+) FIRST_LOCAL_REGISTER) [0 ..< n]) (machine_of p)) p) (\<lambda>p1.
      afterwards (with_blocks
          (reduceC47Blocks (Some (levelData (currentLevel p1))) (SUBROUTINE_LEVEL_BLOCKS + LOCAL_FLAGS_BLOCKS + n)
            (SUBROUTINE_LEVEL_BLOCKS + LOCAL_FLAGS_BLOCKS) (memory.truncate p1)) p1)
        (\<lambda>p2. Inr (set_locals (currentLocalFlags (registerFile p2)) None p2))))"

definition cleanLocalFlagsAndRegisters :: "calculator \<Rightarrow> failure + calculator" where
  "cleanLocalFlagsAndRegisters p =
     afterwards (if numberOfLocalRegisters p > 0 then drop_local_registers p else Inr p) (\<lambda>p1.
     afterwards
       (if currentLocalFlags (registerFile p1) \<noteq> None
        then with_blocks (reduceC47Blocks (Some (levelData (currentLevel p1))) (SUBROUTINE_LEVEL_BLOCKS + LOCAL_FLAGS_BLOCKS)
               SUBROUTINE_LEVEL_BLOCKS (memory.truncate p1)) p1
        else Inr p1)
       (\<lambda>p2. Inr (set_locals None None p2)))"

section \<open>RTN\<close>

definition cancel_input :: "calculator \<Rightarrow> calculator" where
  "cancel_input p =
     (if currentInputVariable (registerFile p) \<noteq> INVALID_VARIABLE
      then p\<lparr>registerFile := (registerFile p)\<lparr>currentInputVariable := INVALID_VARIABLE, screenUpdatingMode := SCRUPD_AUTO\<rparr>\<rparr>
      else p)"

definition return_pointer :: "(nat \<Rightarrow> nat) \<Rightarrow> calculator \<Rightarrow> failure + calculator" where
  "return_pointer status p =
     (let l = currentLevel p in
      if programRunning p
      then Inr (defineCurrentStep status
        (p\<lparr>currentProgramNumber := wrap16 (returnProgramNumber l), currentLocalStepNumber := trunc16 (returnLocalStep l + 1)\<rparr>))
      else or_lost (goToGlobalStep status
        (int (wrap16 (int (returnLocalStep l) + programStep (programTable p ! nat (returnProgramNumber l - 1))))) p))"

definition skip_return :: "(nat \<Rightarrow> nat) \<Rightarrow> nat \<Rightarrow> calculator \<Rightarrow> calculator" where
  "skip_return status skip p =
     (if skip > 0 \<and> \<not> isAtEndOfProgram p (Some (currentStep p)) \<and> \<not> isAtEndOfPrograms p (Some (currentStep p))
      then p\<lparr>currentLocalStepNumber := trunc16 (currentLocalStepNumber p + 1),
             currentStep := case findNextStep status p (Some (currentStep p)) of None \<Rightarrow> 0 | Some a \<Rightarrow> a\<rparr>
      else p)"

definition leave_level :: "calculator \<Rightarrow> failure + calculator" where
  "leave_level p =
     (case outerLevels p of
        [] \<Rightarrow> Inl NoOuterLevel
      | (l, flags, registers) # ls \<Rightarrow>
          afterwards (with_blocks (freeC47Blocks (Some (levelData (currentLevel p))) (SUBROUTINE_LEVEL_BLOCKS + flag_blocks p) (memory.truncate p)) p)
            (\<lambda>p1. Inr (set_locals flags (if flags = None then None else registers)
               (p1\<lparr>currentLevel := l, outerLevels := ls, numberOfSubroutineLevels := wrap16 (int (numberOfSubroutineLevels p1) - 1)\<rparr>))))"

definition fnReturn :: "(nat \<Rightarrow> nat) \<Rightarrow> nat \<Rightarrow> calculator \<Rightarrow> failure + calculator" where
  "fnReturn status skip p0 =
     (let p = cancel_input p0 in
      if subroutineLevel (currentLevel p) > 0 then
        afterwards (return_pointer status p) (\<lambda>p1.
          (let p2 = skip_return status skip p1 in
           afterwards (if numberOfLocalRegisters p2 > 0 then drop_local_registers p2 else Inr p2) leave_level))
      else
        afterwards (or_lost (goToPgmStep status (currentProgramNumber p) 1 p)) (\<lambda>p1.
          cleanLocalFlagsAndRegisters (p1\<lparr>pemCursorIsZerothStep := True\<rparr>)))"

section \<open>XEQ\<close>

text \<open>The new level, in the piece at \<open>a\<close>.\<close>

definition enter_level :: "nat \<Rightarrow> calculator \<Rightarrow> calculator" where
  "enter_level a p =
     set_locals None None
       (p\<lparr>currentLevel := \<lparr>levelData = a, returnProgramNumber = to_int16 (int (currentProgramNumber p)),
            returnLocalStep = currentLocalStepNumber p, subroutineLevel = wrap16 (int (numberOfSubroutineLevels p) - 1)\<rparr>,
          outerLevels := (currentLevel p, currentLocalFlags (registerFile p), currentLocalRegisters (registerFile p)) # outerLevels p\<rparr>)"

text \<open>\<open>run\<close> is the run loop, started by XEQ from the keyboard.\<close>

definition fnExecute ::
    "(nat \<Rightarrow> nat) \<Rightarrow> (calculator \<Rightarrow> failure + calculator) \<Rightarrow> nat \<Rightarrow> calculator \<Rightarrow> failure + calculator" where
  "fnExecute status run label p =
     (if programRunning p then
        (let p1 = p\<lparr>numberOfSubroutineLevels := trunc16 (numberOfSubroutineLevels p + 1)\<rparr> in
         case allocC47Blocks 3 (memory.truncate p1) of
           (None, m) \<Rightarrow> Inr ((with_memory m p1)\<lparr>programError := ERROR_RAM_FULL\<rparr>)
         | (Some a, m) \<Rightarrow>
             afterwards (or_lost (fnGoto status label (enter_level a (with_memory m p1)))) (\<lambda>p2.
               (let p3 = p2\<lparr>dynamicMenuItem := None\<rparr> in
                if programError p3 \<noteq> ERROR_NONE
                then afterwards (fnReturn status 0 p3) (\<lambda>p4. Inr (fnBack status 1 p4))
                else Inr p3)))
      else
        afterwards (or_lost (fnGoto status label p)) (\<lambda>p1.
          (let p2 = p1\<lparr>dynamicMenuItem := None\<rparr> in if programError p2 = ERROR_NONE then run p2 else Inr p2)))"

definition fnExecutePlusSkip ::
    "(nat \<Rightarrow> nat) \<Rightarrow> (calculator \<Rightarrow> failure + calculator) \<Rightarrow> nat \<Rightarrow> calculator \<Rightarrow> failure + calculator" where
  "fnExecutePlusSkip status run label p =
     afterwards (fnExecute status run label p) (\<lambda>p1.
       Inr (if programRunning p1 \<and> programError p1 = ERROR_NONE
            then p1\<lparr>currentLevel := (currentLevel p1)\<lparr>returnLocalStep := trunc16 (returnLocalStep (currentLevel p1) + 1)\<rparr>\<rparr>
            else p1))"

end
