(* ===== verification/SubroutineProps.thy ===== *)
theory SubroutineProps
  imports Subroutines GotoProps RegisterProps
begin

text \<open>
  XEQ and RTN: the levels own disjoint pieces of the pool and are numbered from the main program on; a
  call that fails leaves the pointer at the call, a return goes to the step behind it with the local data of the caller.
\<close>

section \<open>Levels\<close>

definition outer_piece :: "outer_level \<Rightarrow> piece" where
  "outer_piece = (\<lambda>(l, flags, registers). (levelData l, SUBROUTINE_LEVEL_BLOCKS + (if flags = None then 0 else LOCAL_FLAGS_BLOCKS) +
     (case registers of None \<Rightarrow> 0 | Some rs \<Rightarrow> length rs)))"

definition level_pieces :: "calculator \<Rightarrow> piece multiset" where
  "level_pieces p =
     add_mset (levelData (currentLevel p), SUBROUTINE_LEVEL_BLOCKS + flag_blocks p + numberOfLocalRegisters p)
       (image_mset outer_piece (mset (outerLevels p)))"

fun outer_ok :: "outer_level list \<Rightarrow> bool" where
  "outer_ok [] \<longleftrightarrow> True"
| "outer_ok ((l, flags, registers) # ls) \<longleftrightarrow>
     subroutineLevel l = length ls \<and> (flags = None \<longrightarrow> registers = None) \<and> outer_ok ls"

definition levels_ok :: "nat \<Rightarrow> piece multiset \<Rightarrow> calculator \<Rightarrow> bool" where
  "levels_ok lim M p \<longleftrightarrow>
     pool_ok lim (pool p) (level_pieces p + M) \<and>
     outer_ok ((currentLevel p, currentLocalFlags (registerFile p), currentLocalRegisters (registerFile p)) # outerLevels p) \<and>
     numberOfSubroutineLevels p = Suc (length (outerLevels p)) \<and> numberOfSubroutineLevels p < 65536"

text \<open>The same levels with the same local data.\<close>

definition same_levels :: "calculator \<Rightarrow> calculator \<Rightarrow> bool" where
  "same_levels p p' \<longleftrightarrow>
     currentLevel p' = currentLevel p \<and> outerLevels p' = outerLevels p \<and>
     currentLocalFlags (registerFile p') = currentLocalFlags (registerFile p) \<and>
     currentLocalRegisters (registerFile p') = currentLocalRegisters (registerFile p)"

lemma same_levels_trans: "same_levels p q \<Longrightarrow> same_levels q r \<Longrightarrow> same_levels p r"
  by (simp add: same_levels_def)

lemma same_levels_ok:
  assumes "same_levels p p'" "pool p' = pool p" "numberOfSubroutineLevels p' = numberOfSubroutineLevels p"
  shows "levels_ok lim M p' = levels_ok lim M p"
  using assms by (simp add: levels_ok_def same_levels_def level_pieces_def flag_blocks_def numberOfLocalRegisters_def)

section \<open>What stays the same\<close>

lemma with_memory_calculator [simp]:
  "currentLevel (with_memory m p) = currentLevel p" "outerLevels (with_memory m p) = outerLevels p"
  "registerFile (with_memory m p) = registerFile p" "numberOfSubroutineLevels (with_memory m p) = numberOfSubroutineLevels p"
  "programRunning (with_memory m p) = programRunning p" "currentProgramNumber (with_memory m p) = currentProgramNumber p"
  "currentLocalStepNumber (with_memory m p) = currentLocalStepNumber p" "dynamicMenuItem (with_memory m p) = dynamicMenuItem p"
  by (simp_all add: with_memory_def)

lemma set_locals_simps [simp]:
  "currentLevel (set_locals f g p) = currentLevel p" "outerLevels (set_locals f g p) = outerLevels p"
  "currentLocalFlags (registerFile (set_locals f g p)) = f" "currentLocalRegisters (registerFile (set_locals f g p)) = g"
  "numberOfSubroutineLevels (set_locals f g p) = numberOfSubroutineLevels p" "pool (set_locals f g p) = pool p"
  "code_view (set_locals f g p) = code_view p" "programTable (set_locals f g p) = programTable p" "labels (set_locals f g p) = labels p"
  "structureLabels (set_locals f g p) = structureLabels p" "programRunning (set_locals f g p) = programRunning p"
  "currentProgramNumber (set_locals f g p) = currentProgramNumber p" "currentStep (set_locals f g p) = currentStep p"
  "currentLocalStepNumber (set_locals f g p) = currentLocalStepNumber p" "programError (set_locals f g p) = programError p"
  "dynamicMenuItem (set_locals f g p) = dynamicMenuItem p"
  by (simp_all add: set_locals_def code_view_def)

text \<open>GTO moves the pointer or sets the error.\<close>

lemma pointer_calculator [simp]:
  fixes p :: calculator
  shows "currentLevel (display_window status p) = currentLevel p" "outerLevels (display_window status p) = outerLevels p"
    "registerFile (display_window status p) = registerFile p"
    "numberOfSubroutineLevels (display_window status p) = numberOfSubroutineLevels p"
    "currentLevel (defineCurrentProgramFromGlobalStepNumber status n p) = currentLevel p"
    "outerLevels (defineCurrentProgramFromGlobalStepNumber status n p) = outerLevels p"
    "registerFile (defineCurrentProgramFromGlobalStepNumber status n p) = registerFile p"
    "numberOfSubroutineLevels (defineCurrentProgramFromGlobalStepNumber status n p) = numberOfSubroutineLevels p"
  by (simp_all add: display_window_def defineFirstDisplayedStep_def defineCurrentProgramFromGlobalStepNumber_def define_bounds_def Let_def)

lemma same_code_define: "same_code p (defineCurrentProgramFromGlobalStepNumber status n p)"
  by (simp add: defineCurrentProgramFromGlobalStepNumber_def define_bounds_def Let_def same_code_def code_view_def)

lemma goto_step_frame:
  fixes p :: calculator
  assumes "goto_step status n p = Some p'"
  shows "same_levels p p' \<and> same_code p p' \<and> numberOfSubroutineLevels p' = numberOfSubroutineLevels p"
proof -
  let ?q = "defineCurrentProgramFromGlobalStepNumber status (to_int16 n) p"
  obtain i a where p': "p' = display_window status (?q\<lparr>currentLocalStepNumber := i, currentStep := a\<rparr>)"
    using assms unfolding goto_step_def Let_def by (metis option.distinct(1) option.inject)
  have "same_code ?q (?q\<lparr>currentLocalStepNumber := i, currentStep := a\<rparr>)" by (simp add: same_code_def code_view_def)
  then have "same_code p p'" using same_code_define [of p status "to_int16 n"] display_window_simps(5) [of "?q\<lparr>currentLocalStepNumber := i, currentStep := a\<rparr>" status]
    unfolding p' same_code_def by simp
  then show ?thesis by (simp add: p' same_levels_def)
qed

lemma same_code_refl [simp]: "same_code p p"
  by (simp add: same_code_def)

lemma same_levels_refl [simp]: "same_levels p p"
  by (simp add: same_levels_def)

lemma goToGlobalStep_frame:
  fixes p :: calculator
  assumes "goToGlobalStep status n p = Some p'"
  shows "same_levels p p' \<and> same_code p p' \<and> numberOfSubroutineLevels p' = numberOfSubroutineLevels p"
  using assms by (auto simp: goToGlobalStep_def Let_def dest!: goto_step_frame split: option.splits if_splits)

lemma fnGoto_frame:
  fixes p :: calculator
  assumes "fnGoto status label p = Some p'"
  shows "same_levels p p' \<and> code_view p' = code_view p \<and> pool p' = pool p \<and> programTable p' = programTable p \<and>
      labels p' = labels p \<and> structureLabels p' = structureLabels p \<and> programRunning p' = programRunning p \<and>
      numberOfSubroutineLevels p' = numberOfSubroutineLevels p"
    "programError p' \<noteq> programError p \<Longrightarrow> p' = p\<lparr>programError := ERROR_LABEL_NOT_FOUND\<rparr>"
proof -
  have "p' = p\<lparr>programError := ERROR_LABEL_NOT_FOUND\<rparr> \<or> (\<exists>n. goToGlobalStep status n p = Some p') \<or>
      (\<exists>l. p' = p\<lparr>currentLocalStepNumber := local_step p l, currentStep := labelPointer l - 1\<rparr>)"
    using assms by (auto simp: fnGoto_def Let_def split: if_splits option.splits)
  then consider (failed) "p' = p\<lparr>programError := ERROR_LABEL_NOT_FOUND\<rparr>" | (moved) n where "goToGlobalStep status n p = Some p'"
    | (near) l where "p' = p\<lparr>currentLocalStepNumber := local_step p l, currentStep := labelPointer l - 1\<rparr>" by blast
  then have "(same_levels p p' \<and> code_view p' = code_view p \<and> pool p' = pool p \<and> programTable p' = programTable p \<and>
      labels p' = labels p \<and> structureLabels p' = structureLabels p \<and> programRunning p' = programRunning p \<and>
      numberOfSubroutineLevels p' = numberOfSubroutineLevels p) \<and>
    (programError p' \<noteq> programError p \<longrightarrow> p' = p\<lparr>programError := ERROR_LABEL_NOT_FOUND\<rparr>)"
  proof cases
    case (moved n)
    from goToGlobalStep_frame [OF this] show ?thesis by (simp add: same_code_def)
  qed (simp_all add: same_levels_def code_view_def)
  then show "same_levels p p' \<and> code_view p' = code_view p \<and> pool p' = pool p \<and> programTable p' = programTable p \<and>
      labels p' = labels p \<and> structureLabels p' = structureLabels p \<and> programRunning p' = programRunning p \<and>
      numberOfSubroutineLevels p' = numberOfSubroutineLevels p"
    "programError p' \<noteq> programError p \<Longrightarrow> p' = p\<lparr>programError := ERROR_LABEL_NOT_FOUND\<rparr>" by blast+
qed

section \<open>The pointer\<close>

lemma define_step_at:
  assumes "tables_ok status p" "i \<le> code_length status p" "currentProgramNumber p = program_at status p i"
    "currentLocalStepNumber p = i - start_before status p i + 1"
  shows "stands_on status i (defineCurrentStep status p)"
proof -
  let ?s = "start_before status p i"
  have steps: "step_list status p (program_start p) = drop ?s (all_steps status p)"
    using steps_of_program [OF assms(1,3,2)] by (simp add: steps_of_def)
  have le: "?s \<le> i" by (rule start_before_le)
  then have "step_forward status p (i - ?s) (program_start p) = all_steps status p ! i"
    using assms(2) length_all_steps [of status p] diff_less_mono [of i "Suc (code_length status p)" ?s] by (simp add: step_forward_nth steps Let_def)
  then have "defineCurrentStep status p = p\<lparr>currentStep := all_steps status p ! i\<rparr>" using assms(4) by (simp add: defineCurrentStep_def)
  moreover have "code_view (p\<lparr>currentStep := all_steps status p ! i\<rparr>) = code_view p" by (simp add: code_view_def)
  ultimately show ?thesis using assms by (simp add: stands_on_cong)
qed

lemma same_start: "\<not> ends_program status p i \<Longrightarrow> start_before status p (Suc i) = start_before status p i"
  by (simp add: start_before_def program_at_Suc)

lemma back_one:
  assumes "tables_ok status p" "stands_on status (Suc k) p" "\<not> ends_program status p k"
  shows "stands_on status k (fnBack status 1 p)"
proof -
  let ?s = "start_before status p k"
  note at = program_at_Suc [OF assms(3)] same_start [OF assms(3)]
  have le: "?s \<le> k" "k \<le> code_length status p" using start_before_le assms(2) by (simp_all add: stands_on_def)
  have here: "currentProgramNumber p = program_at status p k" "currentLocalStepNumber p = k - ?s + 2"
    using assms(2) at le by (simp_all add: stands_on_def)
  show ?thesis
  proof (cases "k = ?s")
    case True
    then have "fnBack status 1 p = p\<lparr>currentLocalStepNumber := 1, currentStep := program_start p\<rparr>" using here by (simp add: fnBack_def)
    moreover have "program_start p = all_steps status p ! k" using program_start_at(1) [OF assms(1) here(1)] True by simp
    moreover have "code_view (p\<lparr>currentLocalStepNumber := 1, currentStep := program_start p\<rparr>) = code_view p" by (simp add: code_view_def)
    ultimately show ?thesis using here le True by (simp add: stands_on_cong)
  next
    case False
    define q where "q = p\<lparr>currentLocalStepNumber := k - ?s + 1\<rparr>"
    have v: "code_view q = code_view p" by (simp add: q_def code_view_def)
    have "fnBack status 1 p = defineCurrentStep status q" using here False le by (simp add: fnBack_def q_def)
    moreover have "tables_ok status q" using assms(1) tables_cong [OF v] by (simp add: q_def)
    then have "stands_on status k (defineCurrentStep status q)"
      using here le places_cong [OF v, of status] by (intro define_step_at) (simp_all add: program_at_def start_before_def, simp_all add: q_def program_at_def start_before_def)
    ultimately show ?thesis by simp
  qed
qed

section \<open>Entering and leaving a level\<close>

lemma enter_level_ok:
  assumes inv: "levels_ok lim M p" and n: "numberOfSubroutineLevels p < 65535"
    and a: "allocC47Blocks 3 (memory.truncate p1) = (Some a, m)" and p1: "p1 = p\<lparr>numberOfSubroutineLevels := trunc16 (numberOfSubroutineLevels p + 1)\<rparr>"
  defines "q \<equiv> enter_level a (with_memory m p1)"
  shows "levels_ok lim M q" "code_view q = code_view p"
    "outerLevels q = (currentLevel p, currentLocalFlags (registerFile p), currentLocalRegisters (registerFile p)) # outerLevels p"
    "returnProgramNumber (currentLevel q) = to_int16 (int (currentProgramNumber p))" "returnLocalStep (currentLevel q) = currentLocalStepNumber p"
    "numberOfLocalRegisters q = 0"
proof -
  have same: "pool p1 = pool p" "level_pieces p1 = level_pieces p" by (simp_all add: p1 level_pieces_def flag_blocks_def numberOfLocalRegisters_def)
  have "pool_ok lim (pool (memory.truncate p1)) (level_pieces p + M)" using inv same by (simp add: levels_ok_def)
  from alloc_pool [OF this a] have pool: "pool_ok lim (pool m) (add_mset (a, 3) (level_pieces p + M))" "ram (pool m) = ram (pool p)"
    by (simp_all add: ptr_piece_def same)
  show outer: "outerLevels q = (currentLevel p, currentLocalFlags (registerFile p), currentLocalRegisters (registerFile p)) # outerLevels p"
    and "returnProgramNumber (currentLevel q) = to_int16 (int (currentProgramNumber p))" "returnLocalStep (currentLevel q) = currentLocalStepNumber p"
    and regs: "numberOfLocalRegisters q = 0"
    by (simp_all add: q_def enter_level_def p1 numberOfLocalRegisters_def)
  show "code_view q = code_view p" using pool(2) by (simp add: q_def enter_level_def code_view_def set_locals_def p1)
  have pieces: "level_pieces q = add_mset (a, 3) (level_pieces p)"
    using outer regs by (simp add: level_pieces_def outer_piece_def flag_blocks_def) (simp add: q_def enter_level_def numberOfLocalRegisters_def)
  have num: "numberOfSubroutineLevels q = numberOfSubroutineLevels p + 1" "subroutineLevel (currentLevel q) = numberOfSubroutineLevels p"
    using n by (simp_all add: q_def enter_level_def p1 trunc16_def wrap16_def)
  have "pool q = pool m" "currentLocalFlags (registerFile q) = None" "currentLocalRegisters (registerFile q) = None"
    by (simp_all add: q_def enter_level_def)
  then show "levels_ok lim M q" using inv pool(1) pieces num n outer by (simp add: levels_ok_def)
qed

lemma leave_level_ok:
  assumes inv: "levels_ok lim M p" and regs: "numberOfLocalRegisters p = 0" and outer: "outerLevels p = (l, fl, rg) # ls"
    and r: "leave_level p = Inr r"
  shows "levels_ok lim M r" "code_view r = code_view p" "currentLevel r = l" "outerLevels r = ls"
    "currentLocalFlags (registerFile r) = fl" "currentLocalRegisters (registerFile r) = rg"
    "labels r = labels p" "structureLabels r = structureLabels p" "programTable r = programTable p" "programRunning r = programRunning p"
    "programError r = programError p" "currentStep r = currentStep p" "currentLocalStepNumber r = currentLocalStepNumber p"
    "currentProgramNumber r = currentProgramNumber p"
proof -
  let ?n = "SUBROUTINE_LEVEL_BLOCKS + flag_blocks p"
  obtain m where m: "freeC47Blocks (Some (levelData (currentLevel p))) ?n (memory.truncate p) = Inr m"
      and r': "r = set_locals fl (if fl = None then None else rg) ((with_memory m p)\<lparr>currentLevel := l, outerLevels := ls,
        numberOfSubroutineLevels := wrap16 (int (numberOfSubroutineLevels p) - 1)\<rparr>)"
    using r by (auto simp: leave_level_def outer with_blocks_def split: sum.splits)
  have rel: "release (Some (levelData (currentLevel p))) ?n p = Inr (with_memory m p)" using m by (simp add: release_def)
  have "level_pieces p + M = ptr_piece (Some (levelData (currentLevel p))) ?n + (image_mset outer_piece (mset (outerLevels p)) + M)"
    by (simp add: level_pieces_def regs ptr_piece_def)
  then have "pool_ok lim (pool p) (ptr_piece (Some (levelData (currentLevel p))) ?n + (image_mset outer_piece (mset (outerLevels p)) + M))"
    using inv by (simp add: levels_ok_def add.assoc)
  from release_pool(1,2) [OF this rel]
  have pool: "pool_ok lim (pool m) (image_mset outer_piece (mset (outerLevels p)) + M)" "ram (pool m) = ram (pool p)" by simp_all
  have saved: "fl = None \<Longrightarrow> rg = None" using inv outer by (simp add: levels_ok_def)
  show locals: "currentLocalFlags (registerFile r) = fl" "currentLocalRegisters (registerFile r) = rg"
    and levels: "currentLevel r = l" "outerLevels r = ls"
    using saved by (auto simp: r')
  show "code_view r = code_view p" using pool(2) by (simp add: r' set_locals_def code_view_def)
  show "labels r = labels p" "structureLabels r = structureLabels p" "programTable r = programTable p" "programRunning r = programRunning p"
    "programError r = programError p" "currentStep r = currentStep p" "currentLocalStepNumber r = currentLocalStepNumber p"
    "currentProgramNumber r = currentProgramNumber p"
    by (simp_all add: r')
  have "level_pieces r = image_mset outer_piece (mset (outerLevels p))"
    using locals levels outer by (simp add: level_pieces_def outer_piece_def flag_blocks_def numberOfLocalRegisters_def)
  moreover have "pool r = pool m" "numberOfSubroutineLevels r = wrap16 (int (numberOfSubroutineLevels p) - 1)" by (simp_all add: r')
  ultimately show "levels_ok lim M r"
    using pool(1) inv outer locals levels by (auto simp: levels_ok_def wrap16_def nat_add_distrib)
qed

lemma leave_level_fails:
  assumes inv: "levels_ok lim M p" and regs: "numberOfLocalRegisters p = 0" and outer: "outerLevels p \<noteq> []" and e: "leave_level p = Inl f"
  shows "f = Crash (Exit TooManyFreeRegions) \<and> length (freeMemoryRegions (pool p)) = MAX_FREE_REGIONS"
proof -
  let ?n = "SUBROUTINE_LEVEL_BLOCKS + flag_blocks p"
  obtain x where x: "freeC47Blocks (Some (levelData (currentLevel p))) ?n (memory.truncate p) = Inl x" and f: "f = Crash (Exit x)"
    using e outer by (auto simp: leave_level_def with_blocks_def split: sum.splits list.splits)
  have mem: "(levelData (currentLevel p), ?n) \<in># level_pieces p + M" by (simp add: level_pieces_def regs)
  have "freeListFree (Some (levelData (currentLevel p))) ?n (pool p) = Inl x"
    using x by (auto simp: freeC47Blocks_def split: sum.splits)
  from pool_free_error [OF _ mem this, of lim] inv f show ?thesis by (simp add: levels_ok_def)
qed

lemma cancel_input_same [simp]:
  "same_levels p (cancel_input p)" "pool (cancel_input p) = pool p" "code_view (cancel_input p) = code_view p"
  "numberOfSubroutineLevels (cancel_input p) = numberOfSubroutineLevels p" "programRunning (cancel_input p) = programRunning p"
  "programTable (cancel_input p) = programTable p" "labels (cancel_input p) = labels p" "structureLabels (cancel_input p) = structureLabels p"
  "programError (cancel_input p) = programError p" "currentLevel (cancel_input p) = currentLevel p"
  by (simp_all add: cancel_input_def same_levels_def code_view_def)

text \<open>RTN in a running program, to the step number \<open>i\<close> that the level remembers.\<close>

lemma fnReturn_running:
  assumes inv: "levels_ok lim M p" and regs: "numberOfLocalRegisters p = 0" and outer: "outerLevels p = (l, fl, rg) # ls"
    and run: "programRunning p" and t: "tables_ok status p" and i: "i \<le> code_length status p"
    and to: "wrap16 (returnProgramNumber (currentLevel p)) = program_at status p i"
      "trunc16 (returnLocalStep (currentLevel p) + 1) = i - start_before status p i + 1"
  shows "fnReturn status 0 p = Inl f \<Longrightarrow> f = Crash (Exit TooManyFreeRegions) \<and> length (freeMemoryRegions (pool p)) = MAX_FREE_REGIONS"
    and "fnReturn status 0 p = Inr r \<Longrightarrow> stands_on status i r \<and> levels_ok lim M r \<and> code_view r = code_view p \<and> currentLevel r = l \<and>
      outerLevels r = ls \<and> currentLocalFlags (registerFile r) = fl \<and> currentLocalRegisters (registerFile r) = rg \<and> tables_ok status r \<and>
      programRunning r \<and> programError r = programError p"
proof -
  define q where "q = (cancel_input p)\<lparr>currentProgramNumber := wrap16 (returnProgramNumber (currentLevel p)),
    currentLocalStepNumber := trunc16 (returnLocalStep (currentLevel p) + 1)\<rparr>"
  let ?q = "defineCurrentStep status q"
  have qs: "same_levels p q" "pool q = pool p" "code_view q = code_view p" "numberOfSubroutineLevels q = numberOfSubroutineLevels p"
      "labels q = labels p" "structureLabels q = structureLabels p" "programTable q = programTable p" "programRunning q" "programError q = programError p"
    using run cancel_input_same(1) [of p] cancel_input_same(3) [of p] by (simp_all add: q_def same_levels_def code_view_def)
  have ds: "same_levels p ?q" "pool ?q = pool p" "code_view ?q = code_view p" "numberOfSubroutineLevels ?q = numberOfSubroutineLevels p"
      "labels ?q = labels p" "structureLabels ?q = structureLabels p" "programTable ?q = programTable p" "programRunning ?q" "programError ?q = programError p"
    using qs by (simp_all add: defineCurrentStep_def same_levels_def code_view_def)
  have tq: "tables_ok status q" using t tables_cong [OF qs(3,5,6,7)] by simp
  have stand: "stands_on status i ?q"
    using i to by (intro define_step_at [OF tq])
      (simp_all add: places_cong [OF qs(3)] program_at_def start_before_def, simp_all add: q_def program_at_def start_before_def)
  have ok: "levels_ok lim M ?q" using inv same_levels_ok [OF ds(1,2,4)] by simp
  have no: "numberOfLocalRegisters ?q = 0" "outerLevels ?q = (l, fl, rg) # ls"
    using regs outer ds(1) by (simp_all add: numberOfLocalRegisters_def same_levels_def)
  have "subroutineLevel (currentLevel (cancel_input p)) > 0" using inv outer by (simp add: levels_ok_def)
  then have leave: "fnReturn status 0 p = leave_level ?q"
    using run no(1) by (simp add: fnReturn_def return_pointer_def q_def skip_return_def Let_def)
  show "f = Crash (Exit TooManyFreeRegions) \<and> length (freeMemoryRegions (pool p)) = MAX_FREE_REGIONS" if "fnReturn status 0 p = Inl f"
    using leave_level_fails [OF ok no(1), of f] no(2) that ds(2) leave by simp
  assume "fnReturn status 0 p = Inr r"
  then have "leave_level ?q = Inr r" using leave by simp
  note lv = leave_level_ok [OF ok no this]
  have "stands_on status i r" using stand lv(12-14) by (simp only: stands_on_cong [OF lv(2)]) (simp add: stands_on_def)
  moreover have "tables_ok status r" using t tables_cong [of r p status] lv ds by simp
  ultimately show "stands_on status i r \<and> levels_ok lim M r \<and> code_view r = code_view p \<and> currentLevel r = l \<and>
      outerLevels r = ls \<and> currentLocalFlags (registerFile r) = fl \<and> currentLocalRegisters (registerFile r) = rg \<and> tables_ok status r \<and>
      programRunning r \<and> programError r = programError p"
    using lv ds by simp
qed

section \<open>XEQ and RTN\<close>

lemma program_number_small: "code_ok status p \<Longrightarrow> wrap16 (to_int16 (int (program_at status p i))) = program_at status p i"
proof -
  assume ok: "code_ok status p"
  have "length (start_places status p) \<le> Suc (code_length status p)"
    using length_filter_le [of "start_at status p" "[0 ..< code_length status p]"] by (simp add: start_places_def)
  then have "program_at status p i < 32768" using program_at_bounds(2) [of status p i] ok by (simp add: code_ok_def)
  then show ?thesis by (simp add: to_int16_small wrap16_small)
qed

lemma same_code_enter:
  assumes "code_view q = code_view p"
  shows "program_at status q = program_at status p" "start_before status q = start_before status p" "ends_program status q = ends_program status p"
    "code_length status q = code_length status p" "code_ok status q = code_ok status p"
  using places_cong [OF assms, of status] code_cong [OF assms]
  by (simp_all add: fun_eq_iff program_at_def start_before_def ends_program_def)

text \<open>The level of a call from step \<open>k\<close> of \<open>p\<close>.  Its piece may have moved since.\<close>

definition called_from :: "(nat \<Rightarrow> nat) \<Rightarrow> nat \<Rightarrow> calculator \<Rightarrow> calculator \<Rightarrow> bool" where
  "called_from status k p q \<longleftrightarrow>
     outerLevels q = (currentLevel p, currentLocalFlags (registerFile p), currentLocalRegisters (registerFile p)) # outerLevels p \<and>
     returnProgramNumber (currentLevel q) = to_int16 (int (program_at status p k)) \<and>
     returnLocalStep (currentLevel q) = k - start_before status p k + 1"

text \<open>Behind the call, with the local data of the caller.\<close>

definition returned :: "(nat \<Rightarrow> nat) \<Rightarrow> nat \<Rightarrow> calculator \<Rightarrow> calculator \<Rightarrow> bool" where
  "returned status k p r \<longleftrightarrow>
     stands_on status (Suc k) r \<and> same_levels p r \<and> code_view r = code_view p \<and> tables_ok status r"

lemma return_to_caller:
  assumes ok: "code_ok status p" and k: "k < code_length status p" "\<not> ends_program status p k"
    and from_k: "called_from status k p q" and regs: "numberOfLocalRegisters q = 0"
    and q: "levels_ok lim N q" "code_view q = code_view p" "tables_ok status q" "programRunning q"
  shows "case fnReturn status 0 q of
        Inl f \<Rightarrow> f = Crash (Exit TooManyFreeRegions) \<and> length (freeMemoryRegions (pool q)) = MAX_FREE_REGIONS
      | Inr r \<Rightarrow> returned status k p r \<and> levels_ok lim N r \<and> programError r = programError q"
proof -
  note c = same_code_enter [OF q(2)]
  have le: "start_before status p k \<le> k" by (rule start_before_le)
  have small: "k < 32767" using ok k by (simp add: code_ok_def)
  have to: "wrap16 (returnProgramNumber (currentLevel q)) = program_at status q (Suc k)"
    "trunc16 (returnLocalStep (currentLevel q) + 1) = Suc k - start_before status q (Suc k) + 1"
    using from_k program_number_small [OF ok, of k] program_at_Suc [OF k(2)] small le same_start [OF k(2)]
    by (simp_all add: called_from_def c trunc16_def Suc_diff_le)
  have i: "Suc k \<le> code_length status q" using k by (simp add: c)
  have outer: "outerLevels q = (currentLevel p, currentLocalFlags (registerFile p), currentLocalRegisters (registerFile p)) # outerLevels p"
    using from_k by (simp add: called_from_def)
  note f = fnReturn_running [OF q(1) regs outer q(4,3) i to]
  show ?thesis
  proof (cases "fnReturn status 0 q")
    case (Inl f')
    with f(1) [OF Inl] show ?thesis by simp
  next
    case (Inr r)
    from f(2) [OF Inr] Inr q(2) show ?thesis by (simp add: returned_def same_levels_def)
  qed
qed

lemma fnBack_frame:
  fixes p :: calculator
  shows "same_levels p (fnBack status n p)" "code_view (fnBack status n p) = code_view p" "labels (fnBack status n p) = labels p"
    "structureLabels (fnBack status n p) = structureLabels p" "programTable (fnBack status n p) = programTable p"
    "programError (fnBack status n p) = programError p" "pool (fnBack status n p) = pool p"
    "numberOfSubroutineLevels (fnBack status n p) = numberOfSubroutineLevels p"
  by (simp_all add: fnBack_def defineCurrentStep_def same_levels_def code_view_def)

lemma entered:
  assumes ok: "code_ok status p" and t: "tables_ok status p" and k: "stands_on status k p" and run: "programRunning p"
    and inv: "levels_ok lim M p" "numberOfSubroutineLevels p < 65535"
    and a: "allocC47Blocks 3 (memory.truncate p1) = (Some a, m)" and p1: "p1 = p\<lparr>numberOfSubroutineLevels := trunc16 (numberOfSubroutineLevels p + 1)\<rparr>"
    and g: "fnGoto status label (enter_level a (with_memory m p1)) = Some p2"
  shows "levels_ok lim M p2" "code_view p2 = code_view p" "tables_ok status p2" "called_from status k p p2" "programRunning p2"
    "numberOfLocalRegisters p2 = 0" "programError p2 \<noteq> programError p \<Longrightarrow> programError p2 = ERROR_LABEL_NOT_FOUND"
proof -
  let ?q = "enter_level a (with_memory m p1)"
  note e = enter_level_ok [OF inv a p1]
  note f = fnGoto_frame(1) [OF g]
  have q: "programTable ?q = programTable p" "labels ?q = labels p" "structureLabels ?q = structureLabels p" "programRunning ?q = programRunning p"
    "programError ?q = programError p" by (simp_all add: enter_level_def p1)
  show "levels_ok lim M p2" using e(1) same_levels_ok [of ?q p2] f by simp
  show v: "code_view p2 = code_view p" using e(2) f by simp
  show "tables_ok status p2" using t tables_cong [OF v] f q by simp
  show "called_from status k p p2" using e(3-5) f k by (simp add: called_from_def same_levels_def stands_on_def)
  show "programRunning p2" "numberOfLocalRegisters p2 = 0" using f q run e(6) by (simp_all add: numberOfLocalRegisters_def same_levels_def)
  show "programError p2 = ERROR_LABEL_NOT_FOUND" if "programError p2 \<noteq> programError p" using fnGoto_frame(2) [OF g] that q by simp
qed

text \<open>C40. A call and its return.  In a running program with room for a level, XEQ at step \<open>k\<close> that ends with an error
  leaves the pointer at the XEQ and the local data as they were.  If the label is missing, the new level is gone
  again; if there is no memory for the level, the memory is unchanged, but the number of levels has grown.
  A call without an error adds one level, whose piece of RAM is disjoint from all others; when the
  routine has run, in whatever way, and has left its local registers, RTN goes to the step behind the XEQ,
  the caller has its level and its local flags and registers again, and the piece is free again.  The return
  can only fail by the program exit on a full region table.\<close>

theorem call_and_return:
  assumes ok: "code_ok status p" and t: "tables_ok status p" and k: "stands_on status k p" "k < code_length status p" "\<not> ends_program status p k"
    and run: "programRunning p" "programError p = ERROR_NONE" and inv: "levels_ok lim M p" "numberOfSubroutineLevels p < 65535"
    and call: "fnExecute status loop label p = Inr e"
  shows "(programError e \<noteq> ERROR_NONE \<longrightarrow>
      stands_on status k e \<and> same_levels p e \<and> code_view e = code_view p \<and> tables_ok status e \<and>
      (programError e = ERROR_LABEL_NOT_FOUND \<and> levels_ok lim M e \<or>
       programError e = ERROR_RAM_FULL \<and> pool e = pool p \<and> numberOfSubroutineLevels e = numberOfSubroutineLevels p + 1)) \<and>
    (programError e = ERROR_NONE \<longrightarrow>
      levels_ok lim M e \<and> called_from status k p e \<and> code_view e = code_view p \<and> tables_ok status e \<and>
      (\<forall>q N. called_from status k p q \<and> levels_ok lim N q \<and> numberOfLocalRegisters q = 0 \<and>
          code_view q = code_view p \<and> tables_ok status q \<and> programRunning q \<longrightarrow>
        (case fnReturn status 0 q of
           Inl f \<Rightarrow> f = Crash (Exit TooManyFreeRegions) \<and> length (freeMemoryRegions (pool q)) = MAX_FREE_REGIONS
         | Inr r \<Rightarrow> returned status k p r \<and> levels_ok lim N r \<and> programError r = programError q)))"
proof -
  define p1 where "p1 = p\<lparr>numberOfSubroutineLevels := trunc16 (numberOfSubroutineLevels p + 1)\<rparr>"
  note home = return_to_caller [OF ok k(2,3)]
  obtain b m where a: "allocC47Blocks 3 (memory.truncate p1) = (b, m)" by (cases "allocC47Blocks 3 (memory.truncate p1)")
  have exec: "fnExecute status loop label p =
      (case b of None \<Rightarrow> Inr ((with_memory m p1)\<lparr>programError := ERROR_RAM_FULL\<rparr>)
       | Some c \<Rightarrow> afterwards (or_lost (fnGoto status label (enter_level c (with_memory m p1)))) (\<lambda>p2.
           if programError (p2\<lparr>dynamicMenuItem := None\<rparr>) \<noteq> ERROR_NONE
           then afterwards (fnReturn status 0 (p2\<lparr>dynamicMenuItem := None\<rparr>)) (\<lambda>p4. Inr (fnBack status 1 p4))
           else Inr (p2\<lparr>dynamicMenuItem := None\<rparr>)))"
    using a run(1) unfolding fnExecute_def Let_def p1_def by (simp split: option.split)
  show ?thesis
  proof (cases b)
    case None
    obtain h where "freeListAlloc 3 (pool p) = (None, h)" "pool m = h" using a None by (auto simp: allocC47Blocks_None p1_def)
    have "mem_inv lim (memory.truncate p1)" using inv(1) by (simp add: levels_ok_def pool_ok_def mem_inv_def p1_def)
    from allocC47Blocks_fails [OF this _ a [unfolded None]] have m: "m = memory.truncate p1" by simp
    have e: "e = (with_memory m p1)\<lparr>programError := ERROR_RAM_FULL\<rparr>"
      using call None by (simp add: exec)
    have v: "code_view e = code_view p" by (simp add: e m p1_def code_view_def)
    have "tables_ok status e" using t tables_cong [OF v] by (simp add: e p1_def)
    moreover have "stands_on status k e" using k(1) by (simp add: stands_on_cong [OF v]) (simp add: stands_on_def e p1_def)
    moreover have "same_levels p e" "programError e \<noteq> ERROR_NONE" by (simp_all add: e p1_def same_levels_def)
    moreover have "programError e = ERROR_RAM_FULL" "pool e = pool p" "numberOfSubroutineLevels e = numberOfSubroutineLevels p + 1"
      using inv(2) by (simp_all add: e m p1_def trunc16_def)
    ultimately show ?thesis using v by simp
  next
    case (Some c)
    then obtain p2 where g: "fnGoto status label (enter_level c (with_memory m p1)) = Some p2"
      using call by (auto simp: exec or_lost_def split: option.splits)
    note n = entered [OF ok t k(1) run(1) inv a [unfolded Some] p1_def g]
    define p3 where "p3 = p2\<lparr>dynamicMenuItem := None\<rparr>"
    have v3: "code_view p3 = code_view p2" by (simp add: p3_def code_view_def)
    have s3: "same_levels p2 p3" "pool p3 = pool p2" "numberOfSubroutineLevels p3 = numberOfSubroutineLevels p2" by (simp_all add: p3_def same_levels_def)
    have l3: "labels p3 = labels p2" "structureLabels p3 = structureLabels p2" "programTable p3 = programTable p2" "programError p3 = programError p2"
      by (simp_all add: p3_def)
    have n3: "levels_ok lim M p3" "code_view p3 = code_view p" "tables_ok status p3"
      using n(1-3) v3 same_levels_ok [OF s3] tables_cong [OF v3 l3(1-3)] by simp_all
    have n4: "called_from status k p p3" "programRunning p3" "numberOfLocalRegisters p3 = 0"
      using n(4-6) by (simp_all add: p3_def called_from_def numberOfLocalRegisters_def)
    show ?thesis
    proof (cases "programError p2 = ERROR_NONE")
      case True
      then have e: "e = p3" using call Some g by (simp add: exec or_lost_def p3_def)
      then show ?thesis unfolding e l3(4) True using n3 n4(1) home by blast
    next
      case False
      then obtain p4 where p4: "fnReturn status 0 p3 = Inr p4" "e = fnBack status 1 p4"
        using call Some g by (auto simp: exec or_lost_def p3_def afterwards_def split: sum.splits)
      have r: "returned status k p p4" "levels_ok lim M p4" "programError p4 = programError p3"
        using home [OF n4(1,3) n3 n4(2)] p4(1) by simp_all
      have "\<not> ends_program status p4 k" using k(3) r(1) same_code_enter(3) [of p4 p] by (simp add: returned_def)
      then have "stands_on status k e" using r(1) back_one [of status p4 k] unfolding p4(2) returned_def by blast
      moreover have v: "code_view e = code_view p4" by (simp add: p4(2) fnBack_frame)
      moreover have "same_levels p e" using r(1) same_levels_trans fnBack_frame(1) p4(2) unfolding returned_def by blast
      moreover have "tables_ok status e" using r(1) tables_cong [OF v] by (simp add: p4(2) fnBack_frame returned_def)
      moreover have "levels_ok lim M e" using r(2) same_levels_ok [of p4 e] by (simp add: p4(2) fnBack_frame)
      moreover have "programError e = ERROR_LABEL_NOT_FOUND"
        using r(3) l3(4) n(7) run(2) False by (simp add: p4(2) fnBack_frame)
      ultimately show ?thesis using r(1) by (simp add: returned_def)
    qed
  qed
qed

text \<open>The second step of the sample program calls its LBL 05, in a main program with local flags.\<close>

definition caller :: calculator where
  "caller = labelled.extend sample_filled
     (calculator.fields 1 \<lparr>levelData = 50, returnProgramNumber = 0, returnLocalStep = 0, subroutineLevel = 0\<rparr> [] plain_machine)"

lemma caller_simps [simp]:
  "pool caller = pool sample" "programRunning caller" "programError caller = 0" "numberOfSubroutineLevels caller = 1"
  "outerLevels caller = []" "levelData (currentLevel caller) = 50" "subroutineLevel (currentLevel caller) = 0" "registerFile caller = plain_machine"
  "dynamicMenuItem caller = None" "labels caller = labels sample_filled" "structureLabels caller = structureLabels sample_filled"
  "programTable caller = programTable sample_filled" "currentProgramNumber caller = currentProgramNumber sample_filled"
  "currentLocalStepNumber caller = currentLocalStepNumber sample_filled" "currentStep caller = currentStep sample_filled"
  "code_view caller = code_view sample_filled"
  by (simp_all add: caller_def sample_filled_def calculator.defs labelled.defs code_view_def)

lemma caller_view: "code_view caller = code_view sample"
  using sample_filled_view by simp

lemma caller_ok: "code_ok sample_status caller" "tables_ok sample_status caller" "stands_on sample_status 1 caller"
    "code_length sample_status caller = 6" "levels_ok 300 {#} caller"
proof -
  note c = places_cong [OF caller_simps(16), of sample_status] code_cong [OF caller_simps(16)]
  note d = places_cong [OF sample_filled_view, of sample_status]
  show "code_ok sample_status caller" using sample_filled_ok(1) c by simp
  show "tables_ok sample_status caller" using sample_filled_ok(2) tables_cong [of caller sample_filled sample_status] by simp
  show "stands_on sample_status 1 caller" using sample_filled_ok(3) by (simp add: stands_on_cong [OF caller_simps(16)]) (simp add: stands_on_def)
  show "code_length sample_status caller = 6" using c d by simp
  have "currentLocalFlags plain_machine = Some 0" "currentLocalRegisters plain_machine = None"
    by (simp_all add: plain_machine_def plain_calc_def calc.defs machine.defs)
  then show "levels_ok 300 {#} caller"
    by (simp add: levels_ok_def level_pieces_def flag_blocks_def numberOfLocalRegisters_def pool_ok_def fl_inv_def free_blocks_def r_blocks_def r_end_def)
qed

lemma fnExecute_ok:
  assumes "programRunning p" "allocC47Blocks 3 (memory.truncate (p\<lparr>numberOfSubroutineLevels := trunc16 (numberOfSubroutineLevels p + 1)\<rparr>)) = (Some a, m)"
    "fnGoto status label (enter_level a (with_memory m (p\<lparr>numberOfSubroutineLevels := trunc16 (numberOfSubroutineLevels p + 1)\<rparr>))) = Some p2"
    "programError p2 = ERROR_NONE"
  shows "fnExecute status run label p = Inr (p2\<lparr>dynamicMenuItem := None\<rparr>)"
  using assms by (simp add: fnExecute_def or_lost_def)

lemma caller_calls: "\<exists>e. fnExecute sample_status run 5 caller = Inr e \<and> programError e = ERROR_NONE"
proof -
  define p1 where "p1 = caller\<lparr>numberOfSubroutineLevels := trunc16 (numberOfSubroutineLevels caller + 1)\<rparr>"
  have "\<exists>a m. allocC47Blocks 3 (memory.truncate p1) = (Some a, m)"
    by (simp add: allocC47Blocks_def freeListAlloc_def TO_PCMEMPTR_def mk_region_def log_allocation_def Let_def p1_def)
  then obtain a m where a: "allocC47Blocks 3 (memory.truncate p1) = (Some a, m)" by blast
  define q where "q = enter_level a (with_memory m p1)"
  have v: "code_view q = code_view caller" unfolding q_def by (rule enter_level_ok(2) [OF caller_ok(5) _ a p1_def]) simp
  have s: "labels q = labels caller" "structureLabels q = structureLabels caller" "programTable q = programTable caller"
    "currentProgramNumber q = currentProgramNumber caller" "currentLocalStepNumber q = currentLocalStepNumber caller" "currentStep q = currentStep caller"
    "programRunning q" "programError q = 0" "dynamicMenuItem q = None"
    by (simp_all add: q_def enter_level_def p1_def)
  have v': "code_view q = code_view sample_filled" using v by simp
  have ok: "code_ok sample_status q" "tables_ok sample_status q" "stands_on sample_status 1 q"
    using caller_ok(1-3) places_cong [OF v] tables_cong [OF v s(1-3)] s by (simp_all add: stands_on_cong [OF v]) (simp add: stands_on_def)
  have "goto_places sample_status 5 q = goto_places sample_status 5 sample_filled"
    using s by (simp add: goto_places_def places_cong [OF v'] code_cong [OF v'])
  then have "find_local (local_label 5 q) q \<noteq> None"
    using find_local_places(1) [OF ok, of 5] sample_filled_ok(4) by (auto simp: next_or_first_def)
  then obtain j where "find_local (local_label 5 q) q = Some j" by blast
  then have "fnGoto sample_status 5 q = Some (q\<lparr>currentLocalStepNumber := local_step q (labels q ! j), currentStep := labelPointer (labels q ! j) - 1\<rparr>)"
    using s by (simp add: fnGoto_def Let_def)
  from fnExecute_ok [OF _ a [unfolded p1_def] this [unfolded q_def p1_def]] s(8) show ?thesis by (simp add: q_def p1_def)
qed

lemma call_and_return_witness:
  "\<exists>e. fnExecute sample_status Inr 5 caller = Inr e \<and> levels_ok 300 {#} e \<and> called_from sample_status 1 caller e"
proof -
  obtain e where e: "fnExecute sample_status Inr 5 caller = Inr e" "programError e = ERROR_NONE" using caller_calls by blast
  have "\<not> ends_program sample_status caller 1"
    using code_cong [OF caller_view]
    by (simp add: ends_program_def isAtEndOfProgram_def checkOpCodeOfStep_def places_cong [OF caller_view])
  from call_and_return [OF caller_ok(1-3) _ this _ _ caller_ok(5) _ e(1)] e show ?thesis by (simp add: caller_ok(4))
qed

end
