(* ===== verification/ShortIntProps.thy ===== *)
theory ShortIntProps
  imports ShortIntLaws
begin

text \<open>
  Properties of the short integer operations: each computes the integer operation on the values of
  its operands when the result is in the range of the mode, and reports OVERFLOW and CARRY as the
  comments of the source say, with the exceptions the statements name.
\<close>

section \<open>The OVERFLOW and CARRY flags\<close>

lemma carry_overflow_action:
  "f = FLAG_CARRY \<or> f = FLAG_OVERFLOW \<Longrightarrow> systemFlagAction ui f a s = fnRefreshState s"
  by (elim disjE; simp add: systemFlagAction_def refresh_action_def interaction_flags_def refreshStateFlags_def)

abbreviation ovf :: "'a calc_scheme \<Rightarrow> bool" where "ovf s \<equiv> getSystemFlag FLAG_OVERFLOW s"
abbreviation cry :: "'a calc_scheme \<Rightarrow> bool" where "cry s \<equiv> getSystemFlag FLAG_CARRY s"

lemma ovf_cry_simps [simp]:
  "ovf (setSystemFlag ui FLAG_OVERFLOW s)" "\<not> ovf (clearSystemFlag ui FLAG_OVERFLOW s)"
  "cry (setSystemFlag ui FLAG_CARRY s)" "\<not> cry (clearSystemFlag ui FLAG_CARRY s)"
  "ovf (setSystemFlag ui FLAG_CARRY s) = ovf s" "ovf (clearSystemFlag ui FLAG_CARRY s) = ovf s"
  "cry (setSystemFlag ui FLAG_OVERFLOW s) = cry s" "cry (clearSystemFlag ui FLAG_OVERFLOW s) = cry s"
  "ovf (set_overflow_to ui b s) = b" "cry (set_overflow_to ui b s) = cry s"
  "cry (set_carry_to ui b s) = b" "ovf (set_carry_to ui b s) = ovf s"
  by (simp_all add: setSystemFlag_def clearSystemFlag_def carry_overflow_action getSystemFlag_sysbit
      set_overflow_to_def set_carry_to_def sysbit_set sysbit_clear flag_ix_mod)

lemma set_bit_frame [simp]:
  "lastErrorCode (set_system_bit f s) = lastErrorCode s" "lastErrorCode (clear_system_bit f s) = lastErrorCode s"
  "lastErrorCode (fnRefreshState s) = lastErrorCode s"
  by (simp_all add: set_system_bit_def clear_system_bit_def fnRefreshState_def Let_def)

lemma error_simps [simp]:
  "lastErrorCode (setSystemFlag ui FLAG_OVERFLOW s) = lastErrorCode s"
  "lastErrorCode (clearSystemFlag ui FLAG_OVERFLOW s) = lastErrorCode s"
  "lastErrorCode (setSystemFlag ui FLAG_CARRY s) = lastErrorCode s"
  "lastErrorCode (clearSystemFlag ui FLAG_CARRY s) = lastErrorCode s"
  "lastErrorCode (set_overflow_to ui b s) = lastErrorCode s"
  "lastErrorCode (set_carry_to ui b s) = lastErrorCode s"
  by (simp_all add: setSystemFlag_def clearSystemFlag_def carry_overflow_action set_overflow_to_def set_carry_to_def)

lemma set_bit_fields [simp]:
  "shortIntegerMode (set_system_bit f s) = shortIntegerMode s" "shortIntegerMode (clear_system_bit f s) = shortIntegerMode s"
  "shortIntegerMask (set_system_bit f s) = shortIntegerMask s" "shortIntegerMask (clear_system_bit f s) = shortIntegerMask s"
  "shortIntegerSignBit (set_system_bit f s) = shortIntegerSignBit s" "shortIntegerSignBit (clear_system_bit f s) = shortIntegerSignBit s"
  "shortIntegerWordSize (set_system_bit f s) = shortIntegerWordSize s" "shortIntegerWordSize (clear_system_bit f s) = shortIntegerWordSize s"
  by (simp_all add: set_system_bit_def clear_system_bit_def Let_def)

text \<open>The setting of the two flags leaves the parameters of the arithmetic alone.\<close>

lemma si_fields [simp]:
  assumes "f = FLAG_OVERFLOW \<or> f = FLAG_CARRY"
  shows "shortIntegerMode (setSystemFlag ui f s) = shortIntegerMode s"
    "shortIntegerMode (clearSystemFlag ui f s) = shortIntegerMode s"
    "shortIntegerMask (setSystemFlag ui f s) = shortIntegerMask s"
    "shortIntegerMask (clearSystemFlag ui f s) = shortIntegerMask s"
    "shortIntegerSignBit (setSystemFlag ui f s) = shortIntegerSignBit s"
    "shortIntegerSignBit (clearSystemFlag ui f s) = shortIntegerSignBit s"
    "shortIntegerWordSize (setSystemFlag ui f s) = shortIntegerWordSize s"
    "shortIntegerWordSize (clearSystemFlag ui f s) = shortIntegerWordSize s"
  using assms by (auto simp: setSystemFlag_def clearSystemFlag_def carry_overflow_action fnRefreshState_def)

section \<open>The overflow test\<close>

lemma uint_low_part:
  assumes ok: "si_ok s"
  shows "uint (w AND (shortIntegerSignBit s - 1)) = uint w mod si_half s"
proof -
  let ?n = "shortIntegerWordSize s - 1"
  have "shortIntegerSignBit s - 1 = mask ?n" using ok by (simp add: si_ok_def mask_eq_exp_minus_1)
  then have "w AND (shortIntegerSignBit s - 1) = take_bit ?n w" by (simp add: take_bit_eq_mask)
  then have "uint (w AND (shortIntegerSignBit s - 1)) = take_bit ?n (uint w)"
    using ok by (simp add: unsigned_take_bit_eq si_ok_def)
  then show ?thesis by (simp add: si_half_def take_bit_eq_mod)
qed

lemma uint_add_small:
  assumes "si_ok s" "uint (a::u64) + uint b < 2 * si_half s"
  shows "uint (a + b) = uint a + uint b"
  using assms half_le [OF assms(1)] uint_nonnegative [of a] uint_nonnegative [of b]
  by (simp add: uint_word_ariths mod_pos_pos_trivial)

definition overflow_of :: "u64 \<Rightarrow> u64 \<Rightarrow> bool \<Rightarrow> 'a calc_scheme \<Rightarrow> bool" where
  "overflow_of xv yv neg s = fst (calc_overflow undefined xv yv neg s)"

lemma if_pair: "(if b then (True, u) else (False, w)) =
    (fst (if b then (True, v) else (False, w)), if fst (if b then (True, v) else (False, w)) then u else w)"
  by simp

lemma calc_overflow_overflow_of:
  "calc_overflow ui xv yv neg s = (overflow_of xv yv neg s, if overflow_of xv yv neg s then setSystemFlag ui FLAG_OVERFLOW s else s)"
  unfolding overflow_of_def calc_overflow_def Let_def by (rule if_pair)

text \<open>Between operands of one sign the test says whether the sum of the magnitudes leaves the range.\<close>

lemma overflow_of_iff:
  assumes ok: "si_ok s" and x: "uint xv \<le> si_mag s" and y: "uint yv \<le> si_mag s"
    and unsigned: "neg \<Longrightarrow> shortIntegerMode s \<noteq> SIM_UNSIGN"
  shows "overflow_of xv yv neg s = (\<not> si_fits s (if neg then - (uint xv + uint yv) else uint xv + uint yv))"
proof -
  obtain h a b where hab: "si_half s = h" "uint xv = a" "uint yv = b" by blast
  have pos: "0 < h" "0 \<le> a" "0 \<le> b" unfolding hab [symmetric] by simp_all
  have h: "h \<le> 9223372036854775808" using half_le [OF ok] hab by simp
  have sb: "uint (shortIntegerSignBit s) = h" using uint_signbit [OF ok] hab by simp
  have eq_sb: "w = shortIntegerSignBit s \<longleftrightarrow> uint w = h" for w
    by (simp add: word_uint_eq_iff sb)
  have nz: "w \<noteq> 0 \<longleftrightarrow> uint w \<noteq> 0" for w :: u64 by (simp add: word_uint_eq_iff)
  have sum: "a + b < 2 * h \<Longrightarrow> uint (xv + yv) = a + b" using uint_add_small [OF ok, of xv yv] hab by simp
  have test: "uint w < 2 * h \<Longrightarrow> (shortIntegerSignBit s AND w \<noteq> 0) = (h \<le> uint w)"
    "uint w < 2 * h \<Longrightarrow> (w AND shortIntegerSignBit s \<noteq> 0) = (h \<le> uint w)" for w
    using signbit_test [OF ok, of w] hab by (simp_all add: si_wf_def and.commute)
  show ?thesis using ok
  proof (cases rule: si_mode_cases)
    case unsigned
    then have ng: "\<not> neg" using assms(4) by blast
    have ab: "a < 2 * h" "b < 2 * h" using x y unsigned hab pos by (auto simp: si_mag_def si_max_def si_min_def)
    define u where "u = (yv AND (shortIntegerSignBit s - 1)) + (xv AND (shortIntegerSignBit s - 1))"
    have lo: "uint (yv AND (shortIntegerSignBit s - 1)) = (if h \<le> b then b - h else b)"
      "uint (xv AND (shortIntegerSignBit s - 1)) = (if h \<le> a then a - h else a)"
      using uint_low_part [OF ok] hab ab pos by (auto simp: mod_once_above mod_pos_pos_trivial)
    have u: "uint u = (if h \<le> b then b - h else b) + (if h \<le> a then a - h else a)"
      unfolding u_def using uint_add_small [OF ok] lo ab hab by (auto split: if_splits)
    have ul: "uint u < 2 * h" using u ab by (auto split: if_splits)
    show ?thesis
      using unsigned ng test(2) [of xv] test(2) [of yv] test(2) [OF ul] ab pos u
      by (auto simp: overflow_of_def calc_overflow_def Let_def u_def [symmetric] hab si_fits_def si_min_def si_max_def split: if_splits)
  next
    case twos
    have ab: "a \<le> h" "b \<le> h" using x y twos hab by (auto simp: si_mag_def si_min_def si_max_def)
    show ?thesis
    proof (cases "a + b < 2 * h")
      case True
      then show ?thesis
        using twos ab pos test(1) [of "xv + yv"] sum
        by (auto simp: overflow_of_def calc_overflow_def Let_def hab si_fits_def si_min_def si_max_def eq_sb nz)
    next
      case False
      then have ah: "a = h" "b = h" using ab by auto
      have "uint (xv + yv) = (2 * h) mod 18446744073709551616"
        using ah hab by (simp add: uint_word_ariths)
      moreover have "(2 * h) mod 18446744073709551616 \<noteq> h"
      proof (cases "h = 9223372036854775808")
        case False
        then have "(2 * h) mod 18446744073709551616 = 2 * h" using h pos by (intro mod_pos_pos_trivial) auto
        with pos show ?thesis by simp
      qed simp
      ultimately have "uint (xv + yv) \<noteq> h" by simp
      then show ?thesis
        using twos ah pos by (auto simp: overflow_of_def calc_overflow_def Let_def hab si_fits_def si_min_def si_max_def eq_sb nz)
    qed
  next
    case ones
    have ab: "a < h" "b < h" using x y ones hab by (auto simp: si_mag_def si_min_def si_max_def)
    then show ?thesis
      using ones pos test(1) [of "xv + yv"] sum
      by (auto simp: overflow_of_def calc_overflow_def Let_def hab si_fits_def si_min_def si_max_def)
  next
    case signmag
    have ab: "a < h" "b < h" using x y signmag hab by (auto simp: si_mag_def si_min_def si_max_def)
    then show ?thesis
      using signmag pos test(1) [of "xv + yv"] sum
      by (auto simp: overflow_of_def calc_overflow_def Let_def hab si_fits_def si_min_def si_max_def)
  qed
qed

section \<open>Addition and subtraction\<close>

lemma mask_and_signbit: "si_ok s \<Longrightarrow> shortIntegerMask s AND shortIntegerSignBit s = shortIntegerSignBit s"
  by (rule bit_word_eqI) (auto simp: si_ok_def bit_simps)

lemma signbit_test_mod:
  assumes ok: "si_ok s"
  shows "(w AND shortIntegerSignBit s \<noteq> 0) = (si_half s \<le> uint w mod (2 * si_half s))"
proof -
  have "w AND shortIntegerSignBit s = (w AND shortIntegerMask s) AND shortIntegerSignBit s"
    by (simp add: and.assoc mask_and_signbit [OF ok])
  then show ?thesis using signbit_test [OF ok mask_wf [OF ok, of w]] by (simp add: uint_mask [OF ok])
qed

text \<open>Sign and magnitude words as two's complement words, and back.\<close>

lemma signmag_to_word:
  assumes ok: "si_ok s" and mode: "shortIntegerMode s = SIM_SIGNMT" and x: "si_wf s x"
  shows "uint (if x AND shortIntegerSignBit s \<noteq> 0 then - (x XOR shortIntegerSignBit s) else x) mod (2 * si_half s) =
    si_val s x mod (2 * si_half s)"
  using signbit_test [OF ok x] uint_xor_signbit [OF ok x] mode
  by (auto simp: si_val_def Let_def uint_arith_half [OF ok] not_le)

lemma signmag_from_word:
  assumes ok: "si_ok s" and mode: "shortIntegerMode s = SIM_SIGNMT"
    and w: "uint w mod (2 * si_half s) = v mod (2 * si_half s)" and v: "- si_half s < v" "v < si_half s"
  shows "si_val s ((if w AND shortIntegerSignBit s \<noteq> 0 then (- w) OR shortIntegerSignBit s else w) AND shortIntegerMask s) = v"
proof (cases "0 \<le> v")
  case True
  then have "uint w mod (2 * si_half s) = v" using w v by (simp add: mod_pos_pos_trivial)
  with True v show ?thesis
    using mode by (simp add: signbit_test_mod [OF ok] si_val_def Let_def uint_mask [OF ok])
next
  case False
  then have vm: "uint w mod (2 * si_half s) = v + 2 * si_half s" using w v by (simp add: mod_once_below)
  then have bit: "w AND shortIntegerSignBit s \<noteq> 0" using v by (simp add: signbit_test_mod [OF ok])
  have "uint ((- w) AND shortIntegerMask s) = (- (uint w mod (2 * si_half s))) mod (2 * si_half s)"
    by (simp add: uint_mask [OF ok] uint_arith_half [OF ok] mod_minus_eq)
  also have "\<dots> = - v" using False v by (simp add: vm mod_once_below)
  finally have neg: "uint ((- w) AND shortIntegerMask s) = - v" .
  have "((- w) OR shortIntegerSignBit s) AND shortIntegerMask s = ((- w) AND shortIntegerMask s) OR shortIntegerSignBit s"
    by (rule bit_word_eqI) (use ok in \<open>auto simp: si_ok_def bit_simps\<close>)
  then have "uint (((- w) OR shortIntegerSignBit s) AND shortIntegerMask s) = - v + si_half s"
    using uint_or_signbit [OF ok, of "(- w) AND shortIntegerMask s"] neg v by simp
  with bit False mode show ?thesis by (simp add: si_val_def Let_def)
qed

text \<open>The magnitude and sign of the operands satisfy the premises of the overflow test.\<close>

lemma overflow_of_same_sign:
  assumes ok: "si_ok s" and x: "si_wf s x" and y: "si_wf s y"
    and mx: "extract_value x s = (mx, g)" and my: "extract_value y s = (my, g)"
  shows "overflow_of mx my g s = (\<not> si_fits s (si_val s x + si_val s y))"
proof -
  have g: "g = si_neg s x" "g = si_neg s y" "uint mx = \<bar>si_val s x\<bar>" "uint my = \<bar>si_val s y\<bar>"
    using extract_value_val [OF ok x] extract_value_val [OF ok y] mx my by auto
  have vx: "si_val s x = (if g then - uint mx else uint mx)" and vy: "si_val s y = (if g then - uint my else uint my)"
    using si_val_sign [OF x] si_val_sign [OF y] g by auto
  have "g \<Longrightarrow> shortIntegerMode s \<noteq> SIM_UNSIGN" using g(1) by (simp add: si_neg_def)
  then have "overflow_of mx my g s = (\<not> si_fits s (if g then - (uint mx + uint my) else uint mx + uint my))"
    using overflow_of_iff [OF ok, of mx my g] si_val_mag [OF x] si_val_mag [OF y] g by simp
  then show ?thesis using vx vy by auto
qed

text \<open>The sum in the modes that add words directly, with the end-around carry of one's complement.\<close>

lemma add_words_val:
  assumes ok: "si_ok s" and x: "si_wf s x" and y: "si_wf s y" and mode: "shortIntegerMode s \<noteq> SIM_SIGNMT"
    and fits: "si_fits s (si_val s y + si_val s x)"
    and r: "uint r = (uint y + uint x + (if 2 * si_half s \<le> uint y + uint x \<and> shortIntegerMode s = SIM_1COMPL then 1 else 0)) mod (2 * si_half s)"
  shows "si_val s r = si_val s y + si_val s x"
proof -
  obtain h a b where hab: "si_half s = h" "uint x = a" "uint y = b" by blast
  have pos: "0 < h" "0 \<le> a" "0 \<le> b" unfolding hab [symmetric] by simp_all
  have ab: "a < 2 * h" "b < 2 * h" using x y hab by (auto simp: si_wf_def)
  have m1: "b + a < 2 * h \<Longrightarrow> (b + a) mod (2 * h) = b + a" using pos by (simp add: mod_pos_pos_trivial)
  have m2: "2 * h \<le> b + a \<Longrightarrow> (b + a) mod (2 * h) = b + a - 2 * h" using ab by (simp add: mod_once_above)
  have m3: "2 * h \<le> b + a \<Longrightarrow> (b + a + 1) mod (2 * h) = b + a + 1 - 2 * h" using ab by (simp add: mod_once_above)
  show ?thesis using ok
  proof (cases rule: si_mode_cases)
    case unsigned
    then show ?thesis using fits r m1 ab pos unfolding hab by (auto simp: si_val_def si_fits_def si_min_def si_max_def hab)
  next
    case ones
    show ?thesis
      using ones fits r m1 m3 ab pos unfolding si_val_def si_fits_def si_min_def si_max_def Let_def hab
      by (cases "2 * h \<le> b + a"; cases "a < h"; cases "b < h") auto
  next
    case twos
    show ?thesis
      using twos fits r m1 m2 ab pos unfolding si_val_def si_fits_def si_min_def si_max_def Let_def hab
      by (cases "2 * h \<le> b + a"; cases "a < h"; cases "b < h") auto
  qed (use mode in simp)
qed

lemma intAdd_carry_word:
  assumes ok: "si_ok s" and x: "si_wf s x" and y: "si_wf s y"
  shows "((y + x) AND shortIntegerMask s < (y AND shortIntegerMask s)) = (2 * si_half s \<le> uint y + uint x)"
proof -
  obtain h a b where hab: "si_half s = h" "uint x = a" "uint y = b" by blast
  have pos: "0 < h" "0 \<le> a" "0 \<le> b" unfolding hab [symmetric] by simp_all
  have ab: "a < 2 * h" "b < 2 * h" using x y hab by (auto simp: si_wf_def)
  have "(b + a) mod (2 * h) = (if 2 * h \<le> b + a then b + a - 2 * h else b + a)"
    using ab pos by (simp add: mod_once_above mod_pos_pos_trivial)
  moreover have "uint ((y + x) AND shortIntegerMask s) = (b + a) mod (2 * h)"
    using uint_mask [OF ok, of "y + x"] uint_arith_half(1) [OF ok, of y x] hab by simp
  moreover have "uint (y AND shortIntegerMask s) = b" using uint_mask_wf [OF ok y] hab by simp
  ultimately show ?thesis using ab pos by (simp add: word_less_def hab)
qed

lemma uint_add_one_half:
  fixes y x :: u64
  assumes ok: "si_ok s"
  shows "uint (y + x + 1) mod (2 * si_half s) = (uint y + uint x + 1) mod (2 * si_half s)"
proof -
  have "uint (y + x + 1) mod (2 * si_half s) = (uint (y + x) + 1) mod (2 * si_half s)"
    using uint_arith_half(1) [OF ok, of "y + x" 1] by simp
  also have "\<dots> = (uint (y + x) mod (2 * si_half s) + 1) mod (2 * si_half s)" by (simp only: mod_add_left_eq)
  also have "\<dots> = (uint y + uint x + 1) mod (2 * si_half s)" by (simp only: uint_arith_half(1) [OF ok] mod_add_left_eq)
  finally show ?thesis .
qed

lemma uint_sub_one_half:
  fixes y x :: u64
  assumes ok: "si_ok s"
  shows "uint (y - x - 1) mod (2 * si_half s) = (uint y - uint x - 1) mod (2 * si_half s)"
proof -
  have "uint (y - x - 1) mod (2 * si_half s) = (uint (y - x) - 1) mod (2 * si_half s)"
    using uint_arith_half(2) [OF ok, of "y - x" 1] by simp
  also have "\<dots> = (uint (y - x) mod (2 * si_half s) - 1) mod (2 * si_half s)" by (simp only: mod_diff_left_eq)
  also have "\<dots> = (uint y - uint x - 1) mod (2 * si_half s)" by (simp only: uint_arith_half(2) [OF ok] mod_diff_left_eq)
  finally show ?thesis .
qed

text \<open>C13. Addition of short integers, in every word size and mode: when the sum of the two values is
  in the range the result stands for it; OVERFLOW is set exactly when it is not; CARRY is the carry
  out of the word (of the magnitudes in sign and magnitude mode); the result always fits the word.\<close>

theorem intAdd_correct:
  assumes ok: "si_ok s" and x: "si_wf s x" and y: "si_wf s y" and r: "intAdd ui y x s = (r, t)"
  shows "si_wf s r \<and> (si_fits s (si_val s y + si_val s x) \<longrightarrow> si_val s r = si_val s y + si_val s x) \<and>
    ovf t = (\<not> si_fits s (si_val s y + si_val s x)) \<and>
    cry t = (if shortIntegerMode s = SIM_SIGNMT then ovf t else 2 * si_half s \<le> uint y + uint x)"
proof -
  obtain mx gx where ex: "extract_value x s = (mx, gx)" "gx = si_neg s x" using extract_value_cases [OF ok x] by blast
  obtain my gy where ey: "extract_value y s = (my, gy)" "gy = si_neg s y" using extract_value_cases [OF ok y] by blast
  define ov where "ov = (gx = gy \<and> overflow_of mx my gx s)"
  have ovs: "overflow_of mx my g (clearSystemFlag ui FLAG_OVERFLOW s) = overflow_of mx my g s" for g
    by (simp add: overflow_of_def calc_overflow_def Let_def)
  let ?s1 = "clearSystemFlag ui FLAG_OVERFLOW s"
  have co: "(if gx = gy then calc_overflow ui mx my gx ?s1 else (False, ?s1)) =
      (ov, if ov then setSystemFlag ui FLAG_OVERFLOW ?s1 else ?s1)"
    by (simp add: calc_overflow_overflow_of ovs ov_def)
  note add = r [unfolded intAdd_def ex(1) ey(1) Let_def prod.case co]
  have ovt: "ovf (if ov then setSystemFlag ui FLAG_OVERFLOW ?s1 else ?s1) = ov" by simp
  have ov: "ov = (\<not> si_fits s (si_val s y + si_val s x))"
  proof (cases "gx = gy")
    case True
    then show ?thesis using overflow_of_same_sign [OF ok x y ex(1)] ey by (simp add: ov_def add.commute)
  next
    case False
    then have "si_val s x \<le> 0 \<and> 0 \<le> si_val s y \<or> 0 \<le> si_val s x \<and> si_val s y \<le> 0"
      using si_neg_val [OF x] si_neg_val [OF y] ex(2) ey(2) by blast
    with si_val_range [OF x] si_val_range [OF y] False show ?thesis by (auto simp: si_fits_def ov_def)
  qed
  show ?thesis
  proof (cases "shortIntegerMode s = SIM_SIGNMT")
    case True
    let ?sb = "shortIntegerSignBit s" and ?m = "2 * si_half s"
    let ?x2 = "if x AND ?sb \<noteq> 0 then - (x XOR ?sb) else x" and ?y2 = "if y AND ?sb \<noteq> 0 then - (y XOR ?sb) else y"
    have rt: "r = (if (?y2 + ?x2) AND ?sb \<noteq> 0 then (- (?y2 + ?x2)) OR ?sb else ?y2 + ?x2) AND shortIntegerMask s"
      "ovf t = ov" "cry t = ov"
      using add True ovt by auto
    have "uint (?y2 + ?x2) mod ?m = (uint ?y2 mod ?m + uint ?x2 mod ?m) mod ?m"
      by (simp add: uint_arith_half [OF ok] mod_add_eq)
    also have "\<dots> = (si_val s y + si_val s x) mod ?m"
      unfolding signmag_to_word [OF ok True y] signmag_to_word [OF ok True x] by (simp add: mod_add_eq)
    finally have w: "uint (?y2 + ?x2) mod ?m = (si_val s y + si_val s x) mod ?m" .
    have "si_fits s (si_val s y + si_val s x) \<longrightarrow> si_val s r = si_val s y + si_val s x"
      using signmag_from_word [OF ok True w] True unfolding rt(1) by (auto simp: si_fits_def si_min_def si_max_def)
    then show ?thesis using True rt(2,3) ov ok by (simp add: rt(1))
  next
    case False
    let ?c = "2 * si_half s \<le> uint y + uint x"
    have rt: "r = (if ?c \<and> shortIntegerMode s = SIM_1COMPL then y + x + 1 else y + x) AND shortIntegerMask s"
      "ovf t = ov" "cry t = ?c"
      using add False ovt unfolding intAdd_carry_word [OF ok x y] by auto
    have "uint r = (uint y + uint x + (if ?c \<and> shortIntegerMode s = SIM_1COMPL then 1 else 0)) mod (2 * si_half s)"
      using uint_add_one_half [OF ok, of y x] uint_arith_half(1) [OF ok, of y x]
      unfolding rt(1) by (simp add: uint_mask [OF ok])
    then have "si_fits s (si_val s y + si_val s x) \<longrightarrow> si_val s r = si_val s y + si_val s x"
      using add_words_val [OF ok x y False] by blast
    then show ?thesis using False rt(2,3) ov ok by (simp add: rt(1))
  qed
qed

definition byte_calc :: "nat \<Rightarrow> calc" where
  "byte_calc mode = updateShortIntegerMasks (plain_calc\<lparr>shortIntegerMode := mode, shortIntegerWordSize := 8\<rparr>)"

lemma byte_calc_ok: "mode \<le> 3 \<Longrightarrow> si_ok (byte_calc mode)"
  unfolding byte_calc_def by (rule updateShortIntegerMasks_ok) simp_all

lemma byte_calc_fields [simp]:
  "si_half (byte_calc mode) = 128" "shortIntegerMode (byte_calc mode) = mode"
  by (simp_all add: si_half_def byte_calc_def updateShortIntegerMasks_def)

lemma intAdd_correct_witness:
  "si_val (byte_calc 2) (fst (intAdd silent_ui 250 100 (byte_calc 2))) = 94"
proof -
  obtain r t where rt: "intAdd silent_ui 250 100 (byte_calc 2) = (r, t)" by (cases "intAdd silent_ui 250 100 (byte_calc 2)")
  have "si_wf (byte_calc 2) 100" "si_wf (byte_calc 2) 250" by (simp_all add: si_wf_def)
  from intAdd_correct [OF byte_calc_ok this rt] rt show ?thesis
    by (simp add: si_fits_def si_min_def si_max_def si_val_def Let_def)
qed

text \<open>The difference of words, with the end-around borrow of one's complement.\<close>

lemma sub_words_val:
  assumes ok: "si_ok s" and x: "si_wf s x" and y: "si_wf s y" and mode: "shortIntegerMode s \<noteq> SIM_SIGNMT"
    and fits: "si_fits s (si_val s y - si_val s x)"
    and r: "uint r = (uint y - uint x - (if uint y < uint x \<and> shortIntegerMode s = SIM_1COMPL then 1 else 0)) mod (2 * si_half s)"
  shows "si_val s r = si_val s y - si_val s x"
proof -
  obtain h a b where hab: "si_half s = h" "uint x = a" "uint y = b" by blast
  have pos: "0 < h" "0 \<le> a" "0 \<le> b" unfolding hab [symmetric] by simp_all
  have ab: "a < 2 * h" "b < 2 * h" using x y hab by (auto simp: si_wf_def)
  have m1: "\<not> b < a \<Longrightarrow> (b - a) mod (2 * h) = b - a" using ab pos by (simp add: mod_pos_pos_trivial)
  have m2: "b < a \<Longrightarrow> (b - a) mod (2 * h) = b - a + 2 * h" using ab pos by (simp add: mod_once_below)
  have m3: "b < a \<Longrightarrow> (b - a - 1) mod (2 * h) = b - a - 1 + 2 * h" using ab pos by (simp add: mod_once_below)
  show ?thesis using ok
  proof (cases rule: si_mode_cases)
    case unsigned
    then show ?thesis using fits r m1 ab pos unfolding hab by (auto simp: si_val_def si_fits_def si_min_def si_max_def hab)
  next
    case ones
    show ?thesis
      using ones fits r m1 m3 ab pos unfolding si_val_def si_fits_def si_min_def si_max_def Let_def hab
      by (cases "b < a"; cases "a < h"; cases "b < h") auto
  next
    case twos
    show ?thesis
      using twos fits r m1 m2 ab pos unfolding si_val_def si_fits_def si_min_def si_max_def Let_def hab
      by (cases "b < a"; cases "a < h"; cases "b < h") auto
  qed (use mode in simp)
qed

text \<open>Between operands of different signs the test is about the magnitudes' sum.\<close>

lemma overflow_of_other_sign:
  assumes ok: "si_ok s" and x: "si_wf s x" and y: "si_wf s y" and ne: "si_neg s x \<noteq> si_neg s y"
    and mx: "uint mx = \<bar>si_val s x\<bar>" and my: "uint my = \<bar>si_val s y\<bar>"
  shows "overflow_of mx my (si_neg s y) s = (\<not> si_fits s (si_val s y - si_val s x))"
proof -
  have "si_neg s y \<Longrightarrow> shortIntegerMode s \<noteq> SIM_UNSIGN" by (simp add: si_neg_def)
  then have "overflow_of mx my (si_neg s y) s = (\<not> si_fits s (if si_neg s y then - (uint mx + uint my) else uint mx + uint my))"
    using overflow_of_iff [OF ok, of mx my "si_neg s y"] si_val_mag [OF x] si_val_mag [OF y] mx my by simp
  moreover have "(if si_neg s y then - (uint mx + uint my) else uint mx + uint my) = si_val s y - si_val s x"
    using ne si_neg_val [OF x] si_neg_val [OF y] mx my by (cases "si_neg s y") auto
  ultimately show ?thesis by simp
qed

text \<open>C14. Subtraction of short integers, in every word size and mode: when the difference of the two
  values is in the range the result stands for it, and OVERFLOW is set exactly when it is not; CARRY is
  the borrow of the words (in sign and magnitude mode, of magnitudes of one sign).\<close>

theorem intSubtract_correct:
  assumes ok: "si_ok s" and x: "si_wf s x" and y: "si_wf s y" and r: "intSubtract ui y x s = (r, t)"
  shows "si_wf s r \<and> (si_fits s (si_val s y - si_val s x) \<longrightarrow> si_val s r = si_val s y - si_val s x) \<and>
    ovf t = (\<not> si_fits s (si_val s y - si_val s x)) \<and>
    cry t = (if shortIntegerMode s = SIM_SIGNMT
             then si_neg s x = si_neg s y \<and> \<bar>si_val s x\<bar> \<noteq> \<bar>si_val s y\<bar> \<and> (\<bar>si_val s x\<bar> > \<bar>si_val s y\<bar>) = (\<not> si_neg s x)
             else uint y < uint x)"
proof -
  obtain mx where ex: "extract_value x s = (mx, si_neg s x)" "uint mx = \<bar>si_val s x\<bar>" using extract_value_cases [OF ok x] by blast
  obtain my where ey: "extract_value y s = (my, si_neg s y)" "uint my = \<bar>si_val s y\<bar>" using extract_value_cases [OF ok y] by blast
  define ov where "ov = (si_neg s x \<noteq> si_neg s y \<and> overflow_of mx my (si_neg s y) s)"
  let ?s1 = "clearSystemFlag ui FLAG_OVERFLOW s"
  have ovs: "overflow_of mx my g ?s1 = overflow_of mx my g s" for g
    by (simp add: overflow_of_def calc_overflow_def Let_def)
  define s2 where "s2 = (if ov then setSystemFlag ui FLAG_OVERFLOW ?s1 else ?s1)"
  have co: "(if si_neg s x \<noteq> si_neg s y then snd (calc_overflow ui mx my (si_neg s y) ?s1) else ?s1) = s2"
    by (simp add: calc_overflow_overflow_of ovs ov_def s2_def)
  note sub = r [unfolded intSubtract_def ex(1) ey(1) Let_def prod.case co]
  have ov2: "ovf s2 = ov" by (simp add: s2_def)
  have ov: "shortIntegerMode s \<noteq> SIM_UNSIGN \<Longrightarrow> ov = (\<not> si_fits s (si_val s y - si_val s x))"
  proof (cases "si_neg s x = si_neg s y")
    case False
    then show ?thesis using overflow_of_other_sign [OF ok x y False ex(2) ey(2)] by (simp add: ov_def)
  next
    case True
    assume m: "shortIntegerMode s \<noteq> SIM_UNSIGN"
    have signs: "si_neg s x \<and> si_val s x \<le> 0 \<and> si_val s y \<le> 0 \<or> \<not> si_neg s x \<and> 0 \<le> si_val s x \<and> 0 \<le> si_val s y"
      using True si_neg_val [OF x] si_neg_val [OF y] by blast
    have "shortIntegerMode s = SIM_2COMPL \<Longrightarrow> si_neg s x \<Longrightarrow> si_val s x < 0 \<and> si_val s y < 0"
      using si_neg_twos [OF x] si_neg_twos [OF y] True by blast
    with signs si_val_range [OF x] si_val_range [OF y] True m show ?thesis
      by (auto simp: si_fits_def ov_def si_min_def si_max_def)
  qed
  show ?thesis
  proof (cases "shortIntegerMode s = SIM_SIGNMT")
    case True
    let ?sb = "shortIntegerSignBit s" and ?m = "2 * si_half s"
    let ?x2 = "if x AND ?sb \<noteq> 0 then - (x XOR ?sb) else x" and ?y2 = "if y AND ?sb \<noteq> 0 then - (y XOR ?sb) else y"
    have rt: "r = (if (?y2 - ?x2) AND ?sb \<noteq> 0 then (- (?y2 - ?x2)) OR ?sb else ?y2 - ?x2) AND shortIntegerMask s"
      "t = set_carry_to ui (\<not> si_neg s x \<and> \<not> si_neg s y \<and> mx > my \<or> si_neg s x \<and> si_neg s y \<and> mx < my) s2"
      using sub True by auto
    have cry: "cry t = (si_neg s x = si_neg s y \<and> \<bar>si_val s x\<bar> \<noteq> \<bar>si_val s y\<bar> \<and> (\<bar>si_val s x\<bar> > \<bar>si_val s y\<bar>) = (\<not> si_neg s x))"
      unfolding rt(2) using ex(2) ey(2) by (auto simp: word_less_def)
    have "uint (?y2 - ?x2) mod ?m = (uint ?y2 mod ?m - uint ?x2 mod ?m) mod ?m"
      by (simp add: uint_arith_half [OF ok] mod_diff_eq)
    also have "\<dots> = (si_val s y - si_val s x) mod ?m"
      unfolding signmag_to_word [OF ok True y] signmag_to_word [OF ok True x] by (simp add: mod_diff_eq)
    finally have w: "uint (?y2 - ?x2) mod ?m = (si_val s y - si_val s x) mod ?m" .
    have "si_fits s (si_val s y - si_val s x) \<longrightarrow> si_val s r = si_val s y - si_val s x"
      using signmag_from_word [OF ok True w] True unfolding rt(1) by (auto simp: si_fits_def si_min_def si_max_def)
    moreover have "ovf t = ov" unfolding rt(2) by (simp add: ov2)
    ultimately show ?thesis using True cry ov ok by (simp add: rt(1))
  next
    case False
    have less: "(y < x) = (uint y < uint x)" by (simp add: word_less_def)
    have ru: "uint r = (uint y - uint x - (if uint y < uint x \<and> shortIntegerMode s = SIM_1COMPL then 1 else 0)) mod (2 * si_half s)"
      using sub False uint_arith_half(2) [OF ok, of y x] uint_sub_one_half [OF ok, of y x]
      by (cases "uint y < uint x"; cases "shortIntegerMode s = SIM_1COMPL") (auto simp: less uint_mask [OF ok])
    have rw: "si_wf s r" using sub False ok by (auto split: if_splits)
    have val: "si_fits s (si_val s y - si_val s x) \<longrightarrow> si_val s r = si_val s y - si_val s x"
      using sub_words_val [OF ok x y False _ ru] by blast
    have cry: "cry t = (uint y < uint x)" using sub False by (auto simp: less split: if_splits)
    have "ovf t = (\<not> si_fits s (si_val s y - si_val s x))"
    proof (cases "shortIntegerMode s = SIM_UNSIGN")
      case True
      then have "ov = False" by (simp add: ov_def si_neg_def)
      with True ov2 have "ovf t = (uint y < uint x)" using sub by (auto simp: less split: if_splits)
      moreover have "uint y - uint x < 2 * si_half s" using y uint_nonnegative [of x] unfolding si_wf_def by linarith
      ultimately show ?thesis using True by (auto simp: si_fits_def si_min_def si_max_def si_val_def)
    next
      case nu: False
      have "ovf t = ov" using sub False nu ov2 by (auto simp: less split: if_splits)
      with ov nu show ?thesis by simp
    qed
    with False rw val cry show ?thesis by simp
  qed
qed

lemma intSubtract_correct_witness:
  "ovf (snd (intSubtract silent_ui 128 1 (byte_calc 2)))"
proof -
  obtain r t where rt: "intSubtract silent_ui 128 1 (byte_calc 2) = (r, t)" by (cases "intSubtract silent_ui 128 1 (byte_calc 2)")
  have "si_wf (byte_calc 2) 1" "si_wf (byte_calc 2) 128" by (simp_all add: si_wf_def)
  from intSubtract_correct [OF byte_calc_ok this rt] rt show ?thesis
    by (simp add: si_fits_def si_min_def si_max_def si_val_def Let_def)
qed

end
