(* ===== verification/ShortIntMul.thy ===== *)
theory ShortIntMul
  imports ShortIntProps
begin

text \<open>
  Multiplication of short integers, and the product with overflow test the other operations use.
\<close>

section \<open>Multiplication\<close>

lemma uint_less_two64: "uint (w::u64) \<le> 18446744073709551615"
  using uint_less_64 [of w] by linarith

lemma si_max_less: "v \<le> si_max s \<Longrightarrow> v < 2 * si_half s"
proof -
  assume v: "v \<le> si_max s"
  obtain h where h: "si_half s = h" "0 < h" using si_half_pos [of s] by blast
  show ?thesis using v h(2) unfolding si_max_def h(1) by (simp split: if_splits)
qed

lemma fits_signed: "shortIntegerMode s \<noteq> SIM_UNSIGN \<Longrightarrow> 0 \<le> v \<Longrightarrow> v < si_half s \<Longrightarrow> si_fits s (if g then - v else v)"
  by (auto simp: si_fits_def si_min_def si_max_def)

lemma multiply_with_overflow_val:
  assumes ok: "si_ok s" and r: "multiply_with_overflow m d ov s = (p, ov')"
  shows "uint p = (uint m * uint d) mod (2 * si_half s)" and "ov' = (ov \<or> si_max s < uint m * uint d)" and "si_wf s p"
proof -
  have p: "p = (m * d) AND shortIntegerMask s"
    using r by (simp add: multiply_with_overflow_def Let_def)
  show up: "uint p = (uint m * uint d) mod (2 * si_half s)"
    by (simp add: p uint_mask [OF ok] uint_arith_half [OF ok])
  show wf: "si_wf s p" by (simp add: p ok)
  obtain h a b where hab: "si_half s = h" "uint m = a" "uint d = b" by blast
  have pos: "0 < h" "0 \<le> a" "0 \<le> b" unfolding hab [symmetric] by simp_all
  have d0: "d = 0 \<longleftrightarrow> b = 0" using hab by (simp add: word_uint_eq_iff)
  have sbit: "(p AND (if shortIntegerMode s = SIM_UNSIGN then 0 else shortIntegerSignBit s) \<noteq> 0) =
      (shortIntegerMode s \<noteq> SIM_UNSIGN \<and> si_half s \<le> uint p)"
    using signbit_test [OF ok wf] by (cases "shortIntegerMode s = SIM_UNSIGN") simp_all
  have dv: "(p div d = m) = (uint p div b = a)" by (simp add: word_uint_eq_iff uint_div hab [symmetric])
  have "ov' = (if \<not> ov \<and> d \<noteq> 0 then p AND (if shortIntegerMode s = SIM_UNSIGN then 0 else shortIntegerSignBit s) \<noteq> 0 \<or> p div d \<noteq> m else ov)"
    using arg_cong [OF r, of snd] by (simp only: multiply_with_overflow_def Let_def snd_conv p)
  then have ov: "ov' = (if \<not> ov \<and> d \<noteq> 0 then (shortIntegerMode s \<noteq> SIM_UNSIGN \<and> si_half s \<le> uint p) \<or> uint p div b \<noteq> a else ov)"
    unfolding sbit dv .
  have max: "si_max s = (if shortIntegerMode s = SIM_UNSIGN then 2 * h - 1 else h - 1)"
    by (simp add: si_max_def hab)
  show "ov' = (ov \<or> si_max s < uint m * uint d)"
  proof (cases "b = 0")
    case True
    then show ?thesis using ov d0 pos by (simp add: max hab)
  next
    case False
    show ?thesis
    proof (cases "a * b < 2 * h")
      case True
      then have "uint p = a * b" using up pos by (simp add: hab mod_pos_pos_trivial)
      then show ?thesis using ov d0 False True by (auto simp: max hab)
    next
      case big: False
      have "uint p < 2 * h" using wf by (simp add: si_wf_def hab)
      moreover have "uint p div b = a \<Longrightarrow> a * b \<le> uint p"
        using pos False by (metis div_mult_mod_eq le_add_same_cancel1 pos_mod_sign order_less_le)
      ultimately have "uint p div b \<noteq> a" using big by auto
      then show ?thesis using ov d0 False big pos by (auto simp: max hab)
    qed
  qed
qed

lemma uint_clear_signbit:
  assumes ok: "si_ok s" and p: "uint p < si_half s"
  shows "p AND NOT (shortIntegerSignBit s) = p"
proof -
  have "si_wf s p" using order.strict_trans [OF p, of "2 * si_half s"] by (simp add: si_wf_def)
  then have z: "p AND shortIntegerSignBit s = 0" using signbit_test [OF ok, of p] p by auto
  have "\<not> (bit p k \<and> bit (shortIntegerSignBit s) k)" for k
    using bit_and_iff [of p "shortIntegerSignBit s" k] z by simp
  then show ?thesis by (intro bit_word_eqI) (auto simp: bit_simps)
qed

lemma uint_low_part_clear:
  assumes ok: "si_ok s" and p: "si_wf s p"
  shows "uint (p AND NOT (shortIntegerSignBit s)) < si_half s"
proof (cases "uint p < si_half s")
  case True
  then show ?thesis by (simp add: uint_clear_signbit [OF ok])
next
  case False
  then have b: "bit p (shortIntegerWordSize s - 1)"
    using signbit_test [OF ok p] ok by (simp add: si_ok_def and_exp_eq_0_iff_not_bit)
  have "p AND NOT (shortIntegerSignBit s) = p XOR shortIntegerSignBit s"
    by (rule bit_word_eqI) (use b ok in \<open>auto simp: si_ok_def bit_simps\<close>)
  then show ?thesis using uint_xor_signbit [OF ok p] False p by (simp add: si_wf_def)
qed

lemma signed_product: "si_wf s x \<Longrightarrow> si_wf s y \<Longrightarrow>
  (if si_neg s x \<noteq> si_neg s y then - (\<bar>si_val s y\<bar> * \<bar>si_val s x\<bar>) else \<bar>si_val s y\<bar> * \<bar>si_val s x\<bar>) = si_val s y * si_val s x"
  using si_val_sign [of s x] si_val_sign [of s y] by (cases "si_neg s x"; cases "si_neg s y") (auto simp: abs_if)

text \<open>C15. Multiplication of short integers, in every word size and mode: OVERFLOW is set exactly when
  the magnitude of the product exceeds the largest value of the mode, and otherwise the result stands
  for the product.\<close>

theorem intMultiply_correct:
  assumes ok: "si_ok s" and x: "si_wf s x" and y: "si_wf s y" and r: "intMultiply ui y x s = (r, t)"
  shows "si_wf s r \<and> ovf t = (si_max s < \<bar>si_val s y * si_val s x\<bar>) \<and>
    (\<bar>si_val s y * si_val s x\<bar> \<le> si_max s \<longrightarrow> si_val s r = si_val s y * si_val s x) \<and> cry t = cry s"
proof -
  obtain mx where ex: "extract_value x s = (mx, si_neg s x)" "uint mx = \<bar>si_val s x\<bar>" using extract_value_cases [OF ok x] by blast
  obtain my where ey: "extract_value y s = (my, si_neg s y)" "uint my = \<bar>si_val s y\<bar>" using extract_value_cases [OF ok y] by blast
  obtain p ov where mp: "multiply_with_overflow my mx False s = (p, ov)" by fastforce
  note mv = multiply_with_overflow_val [OF ok mp]
  note mul = r [unfolded intMultiply_def ex(1) ey(1) Let_def prod.case mp]
  have abs: "\<bar>si_val s y * si_val s x\<bar> = uint my * uint mx" by (simp add: ex(2) ey(2) abs_mult)
  have t: "ovf t = ov" "cry t = cry s" using mul by (auto split: if_splits)
  have fit: "uint p = uint my * uint mx" if "uint my * uint mx \<le> si_max s"
  proof -
    have "uint my * uint mx < 2 * si_half s" by (rule si_max_less [OF that])
    then show ?thesis using mv(1) by (simp add: mod_pos_pos_trivial)
  qed
  show ?thesis
  proof (cases "shortIntegerMode s = SIM_UNSIGN")
    case True
    then have nn: "0 \<le> si_val s x" "0 \<le> si_val s y" by (simp_all add: si_val_def Let_def)
    have "r = p" using mul True by simp
    moreover have "si_val s p = uint p" using True by (simp add: si_val_def Let_def)
    ultimately show ?thesis using t mv fit abs nn ex(2) ey(2) by auto
  next
    case False
    let ?g = "si_neg s x \<noteq> si_neg s y" and ?q = "p AND NOT (shortIntegerSignBit s)"
    have rb: "r = build_value ?q ?g s" using mul False by simp
    have q: "uint ?q < si_half s"
      using uint_low_part_clear [OF ok mv(3)] by simp
    have fq: "si_fits s (if ?g then - uint ?q else uint ?q)"
      using q False by (intro fits_signed) simp_all
    note bv = build_value_val [OF ok fq disjI1 [OF False]]
    have "si_val s r = si_val s y * si_val s x" if le: "uint my * uint mx \<le> si_max s"
    proof -
      have "uint p < si_half s" using fit [OF le] le False by (simp add: si_max_def)
      then have "?q = p" by (rule uint_clear_signbit [OF ok])
      then have "si_val s r = (if ?g then - (uint my * uint mx) else uint my * uint mx)"
        using bv(1) fit [OF le] by (simp add: rb)
      then show ?thesis unfolding ex(2) ey(2) signed_product [OF x y] .
    qed
    then show ?thesis using t mv abs bv(2) by (simp add: rb)
  qed
qed

lemma intMultiply_correct_witness:
  "si_val (byte_calc 1) (fst (intMultiply silent_ui 250 9 (byte_calc 1))) = - 45"
proof -
  obtain r t where rt: "intMultiply silent_ui 250 9 (byte_calc 1) = (r, t)" by (cases "intMultiply silent_ui 250 9 (byte_calc 1)")
  have "si_wf (byte_calc 1) 9" "si_wf (byte_calc 1) 250" by (simp_all add: si_wf_def)
  from intMultiply_correct [OF byte_calc_ok this rt] rt show ?thesis
    by (simp add: si_max_def si_val_def Let_def)
qed

end
