(* ===== verification/ShortIntDiv.thy ===== *)
theory ShortIntDiv
  imports ShortIntMul
begin

text \<open>
  Division, the changes of sign, the greatest common divisor and the least common multiple of
  short integers.
\<close>

section \<open>Division\<close>

lemma si_mag_less: "si_mag s < 2 * si_half s"
proof -
  obtain h where h: "si_half s = h" "0 < h" using si_half_pos [of s] by blast
  show ?thesis using h(2) unfolding si_mag_def si_max_def si_min_def h(1) by auto
qed

lemma abs_val_less: "si_wf s x \<Longrightarrow> \<bar>si_val s x\<bar> < 2 * si_half s"
  using si_val_mag si_mag_less by (rule order.strict_trans1)

lemma wf_of_le: "si_ok s \<Longrightarrow> si_wf s x \<Longrightarrow> uint m \<le> \<bar>si_val s x\<bar> \<Longrightarrow> si_wf s m"
  using abs_val_less [of s x] unfolding si_wf_def by linarith

lemma div_le_self: "0 \<le> (a::int) \<Longrightarrow> 0 < b \<Longrightarrow> a div b \<le> a"
  using zdiv_mono2 [of a 1 b] by simp

lemma abs_half [simp]: "\<bar>si_half s\<bar> = si_half s"
  using si_half_pos [of s] by linarith

lemma temporaryInformation_flags [simp]: "getSystemFlag f (s\<lparr>temporaryInformation := v\<rparr>) = getSystemFlag f s"
  by (simp add: getSystemFlag_def)

lemma build_value_wf [simp]: "si_ok s \<Longrightarrow> si_wf s (build_value m g s)"
proof -
  assume ok: "si_ok s"
  have "shortIntegerSignBit s AND shortIntegerMask s = shortIntegerSignBit s"
    using mask_and_signbit [OF ok] by (simp add: and.commute)
  then have "(m AND shortIntegerMask s) OR shortIntegerSignBit s = (m OR shortIntegerSignBit s) AND shortIntegerMask s"
    by (simp add: bit.conj_disj_distrib2)
  then show ?thesis using ok by (auto simp: build_value_def Let_def)
qed

lemma signed_mag_le: "si_wf s x \<Longrightarrow> shortIntegerMode s \<noteq> SIM_UNSIGN \<Longrightarrow> \<bar>si_val s x\<bar> \<le> si_half s"
proof -
  assume x: "si_wf s x" "shortIntegerMode s \<noteq> SIM_UNSIGN"
  obtain h where h: "si_half s = h" "0 < h" using si_half_pos [of s] by blast
  show ?thesis using si_val_mag [OF x(1)] x(2) h(2) unfolding si_mag_def si_max_def si_min_def h(1) by (auto split: if_splits)
qed

lemma twos_extremes:
  assumes ok: "si_ok s" and m: "shortIntegerMode s = SIM_2COMPL" and y: "si_wf s y"
  shows "(y = shortIntegerSignBit s) = (si_val s y = si_min s)"
proof -
  obtain h a where hab: "si_half s = h" "uint y = a" by blast
  have pos: "0 < h" "0 \<le> a" "a < 2 * h" using y unfolding hab [symmetric] si_wf_def by simp_all
  have "(y = shortIntegerSignBit s) = (a = h)" by (simp add: word_uint_eq_iff uint_signbit [OF ok] hab)
  then show ?thesis using pos m unfolding si_val_def si_min_def Let_def hab by auto
qed

text \<open>The one quotient that leaves the range is the smallest value over minus one.\<close>

lemma quotient_range:
  assumes y: "si_wf s y" and x: "si_wf s x" and q: "0 \<le> q" "q \<le> \<bar>si_val s y\<bar>"
    and whole: "q < \<bar>si_val s y\<bar> \<or> si_val s y = 0 \<or> \<bar>si_val s x\<bar> = 1"
  shows "si_fits s (if si_neg s x \<noteq> si_neg s y then - q else q) =
    (\<not> (shortIntegerMode s = SIM_2COMPL \<and> si_val s y = si_min s \<and> si_val s x = - 1 \<and> q = si_half s))"
proof -
  obtain h a b where hab: "si_half s = h" "si_val s x = a" "si_val s y = b" by blast
  have pos: "0 < h" unfolding hab(1) [symmetric] by simp
  have rng: "si_fits s a" "si_fits s b" using si_val_range [OF x] si_val_range [OF y] by (simp_all add: hab)
  have sx: "si_neg s x \<Longrightarrow> a \<le> 0" "\<not> si_neg s x \<Longrightarrow> 0 \<le> a" using si_neg_val [OF x] by (simp_all add: hab)
  have sy: "si_neg s y \<Longrightarrow> b \<le> 0" "\<not> si_neg s y \<Longrightarrow> 0 \<le> b" using si_neg_val [OF y] by (simp_all add: hab)
  have un: "shortIntegerMode s = SIM_UNSIGN \<Longrightarrow> \<not> si_neg s x \<and> \<not> si_neg s y" by (simp add: si_neg_def)
  have tw: "shortIntegerMode s = SIM_2COMPL \<Longrightarrow> si_neg s x = (a < 0) \<and> si_neg s y = (b < 0)"
    using si_neg_twos [OF x] si_neg_twos [OF y] by (simp add: hab)
  show ?thesis
    using q whole rng sx sy un tw pos unfolding si_fits_def si_min_def si_max_def hab
    by (cases "si_neg s x"; cases "si_neg s y"; cases "shortIntegerMode s = SIM_2COMPL"; cases "shortIntegerMode s = SIM_UNSIGN") auto
qed

text \<open>C16. Division of short integers, in every word size and mode: a zero divisor is refused with
  error 2 and the flags untouched; otherwise the result stands for the quotient rounded to zero whenever
  it is in the range, OVERFLOW is set exactly when it is not, and CARRY exactly when the division
  leaves a remainder or the magnitude of the quotient needs the sign bit of a signed mode.\<close>

theorem intDivide_correct:
  assumes ok: "si_ok s" and x: "si_wf s x" and y: "si_wf s y" and r: "intDivide ui y x s = (r, t)"
  defines "m \<equiv> \<bar>si_val s y\<bar> div \<bar>si_val s x\<bar>"
  defines "q \<equiv> (if si_neg s x \<noteq> si_neg s y then - m else m)"
  shows "(si_val s x = 0 \<longrightarrow> r = 0 \<and> lastErrorCode t = ERROR_BAD_TIME_OR_DATE_INPUT \<and> ovf t = ovf s \<and> cry t = cry s) \<and>
    (si_val s x \<noteq> 0 \<longrightarrow> si_wf s r \<and> lastErrorCode t = lastErrorCode s \<and> (si_fits s q \<longrightarrow> si_val s r = q) \<and>
       ovf t = (\<not> si_fits s q) \<and>
       cry t = (\<not> \<bar>si_val s x\<bar> dvd \<bar>si_val s y\<bar> \<or> shortIntegerMode s \<noteq> SIM_UNSIGN \<and> m = si_half s))"
proof -
  obtain mx where ex: "extract_value x s = (mx, si_neg s x)" "uint mx = \<bar>si_val s x\<bar>" using extract_value_cases [OF ok x] by blast
  obtain my where ey: "extract_value y s = (my, si_neg s y)" "uint my = \<bar>si_val s y\<bar>" using extract_value_cases [OF ok y] by blast
  note dv = r [unfolded intDivide_def ex(1) ey(1) Let_def prod.case]
  show ?thesis
  proof (cases "mx = 0")
    case True
    then have "si_val s x = 0" using ex(2) by simp
    then show ?thesis using dv True by (auto simp: displayCalcErrorMessage_def getSystemFlag_def)
  next
    case False
    then have x0: "si_val s x \<noteq> 0" using ex(2) by (auto simp: word_uint_eq_iff)
    have um: "uint (my div mx) = m" by (simp add: uint_div m_def ex(2) ey(2))
    have m: "0 \<le> m" "m \<le> \<bar>si_val s y\<bar>" using x0 by (simp_all add: m_def pos_imp_zdiv_nonneg_iff div_le_self)
    have wfm: "si_wf s (my div mx)" using m um by (intro wf_of_le [OF ok y]) simp
    then have msk: "(my div mx) AND shortIntegerMask s = my div mx" by (rule mask_id [OF ok])
    have sb: "((my div mx) AND shortIntegerSignBit s \<noteq> 0) = (si_half s \<le> m)"
      using signbit_test [OF ok wfm] um by simp
    have big: "(shortIntegerMode s \<noteq> SIM_UNSIGN \<and> si_half s \<le> m) = (shortIntegerMode s \<noteq> SIM_UNSIGN \<and> m = si_half s)"
      using signed_mag_le [OF y] m(2) by auto
    have rem: "((my div mx) * mx \<noteq> my) = (\<not> \<bar>si_val s x\<bar> dvd \<bar>si_val s y\<bar>)"
    proof -
      have "((my div mx) * mx \<noteq> my) = (my mod mx \<noteq> 0)"
        using div_mult_mod_eq [of my mx] by (metis add.right_neutral add_left_cancel)
      then show ?thesis by (simp add: word_uint_eq_iff uint_mod ex(2) ey(2) dvd_eq_mod_eq_0)
    qed
    have one: "(mx = 1) = (\<bar>si_val s x\<bar> = 1)" by (simp add: word_uint_eq_iff flip: ex(2))
    have whole: "m < \<bar>si_val s y\<bar> \<or> si_val s y = 0 \<or> \<bar>si_val s x\<bar> = 1"
    proof -
      have "1 < \<bar>si_val s x\<bar> \<or> \<bar>si_val s x\<bar> = 1" using x0 by linarith
      then show ?thesis using int_div_less_self [of "\<bar>si_val s y\<bar>" "\<bar>si_val s x\<bar>"] by (auto simp: m_def)
    qed
    have m1: "si_val s x = - 1 \<Longrightarrow> si_val s y = si_min s \<Longrightarrow> shortIntegerMode s = SIM_2COMPL \<Longrightarrow> m = si_half s"
      by (simp add: m_def si_min_def)
    have fits: "si_fits s q = (\<not> (shortIntegerMode s = SIM_2COMPL \<and> si_neg s x \<and> mx = 1 \<and> y = shortIntegerSignBit s))"
    proof (cases "shortIntegerMode s = SIM_2COMPL")
      case True
      then show ?thesis unfolding q_def quotient_range [OF y x m whole] one twos_extremes [OF ok True y]
        using si_neg_twos [OF x True] m1 by auto
    next
      case False
      then show ?thesis unfolding q_def quotient_range [OF y x m whole] by simp
    qed
    have neg_mode: "shortIntegerMode s \<noteq> SIM_UNSIGN \<or> \<not> (si_neg s x \<noteq> si_neg s y)" by (auto simp: si_neg_def)
    have rv: "r = build_value (my div mx) (si_neg s x \<noteq> si_neg s y) s"
      using dv False by (simp only: if_False msk prod.inject)
    have qm: "(if si_neg s x \<noteq> si_neg s y then - uint (my div mx) else uint (my div mx)) = q"
      unfolding um q_def ..
    have "si_fits s q \<longrightarrow> si_val s r = q"
      unfolding rv using build_value_val(1) [OF ok, of "si_neg s x \<noteq> si_neg s y" "my div mx", unfolded qm] neg_mode by blast
    moreover have "ovf t = (\<not> si_fits s q)"
      unfolding fits using dv False by (auto simp only: if_False msk prod.inject ovf_cry_simps split: if_splits)
    moreover have "cry t = (\<not> \<bar>si_val s x\<bar> dvd \<bar>si_val s y\<bar> \<or> shortIntegerMode s \<noteq> SIM_UNSIGN \<and> m = si_half s)"
      unfolding rem [symmetric] big [symmetric] sb [symmetric] using dv False
      by (auto simp only: if_False msk prod.inject ovf_cry_simps split: if_splits)
    moreover have "lastErrorCode t = lastErrorCode s"
      using dv False by (auto simp only: if_False msk prod.inject error_simps split: if_splits)
    ultimately show ?thesis using x0 ok by (simp add: rv)
  qed
qed

lemma intDivide_correct_witness:
  "si_val (byte_calc 2) (fst (intDivide silent_ui 249 2 (byte_calc 2))) = - 3 \<and> cry (snd (intDivide silent_ui 249 2 (byte_calc 2)))"
proof -
  obtain r t where rt: "intDivide silent_ui 249 2 (byte_calc 2) = (r, t)" by (cases "intDivide silent_ui 249 2 (byte_calc 2)")
  have "si_wf (byte_calc 2) 2" "si_wf (byte_calc 2) 249" by (simp_all add: si_wf_def)
  from intDivide_correct [OF byte_calc_ok this rt] rt show ?thesis
    by (simp add: si_fits_def si_max_def si_min_def si_neg_def si_val_def Let_def)
qed

section \<open>Changes of sign\<close>

lemma fits_minus:
  assumes ok: "si_ok s" and x: "si_wf s x"
  shows "shortIntegerMode s \<noteq> SIM_UNSIGN \<Longrightarrow>
    si_fits s (- si_val s x) = (\<not> (shortIntegerMode s = SIM_2COMPL \<and> si_val s x = si_min s))"
    and "si_fits s \<bar>si_val s x\<bar> = (\<not> (shortIntegerMode s = SIM_2COMPL \<and> si_val s x = si_min s))"
proof -
  obtain h a where hab: "si_half s = h" "si_val s x = a" by blast
  have pos: "0 < h" unfolding hab(1) [symmetric] by simp
  have rng: "si_fits s a" using si_val_range [OF x] by (simp add: hab)
  show "shortIntegerMode s \<noteq> SIM_UNSIGN \<Longrightarrow>
      si_fits s (- si_val s x) = (\<not> (shortIntegerMode s = SIM_2COMPL \<and> si_val s x = si_min s))"
    using pos rng unfolding si_fits_def si_min_def si_max_def hab by auto
  show "si_fits s \<bar>si_val s x\<bar> = (\<not> (shortIntegerMode s = SIM_2COMPL \<and> si_val s x = si_min s))"
    using pos rng unfolding si_fits_def si_min_def si_max_def hab by auto
qed

lemma intChs_correct:
  assumes ok: "si_ok s" and x: "si_wf s x" and r: "intChs ui x s = (r, t)"
  shows "si_wf s r" and "si_fits s (- si_val s x) \<Longrightarrow> si_val s r = - si_val s x"
    and "ovf t = (shortIntegerMode s = SIM_UNSIGN \<or> \<not> si_fits s (- si_val s x))" and "cry t = cry s"
proof -
  obtain mx where ex: "extract_value x s = (mx, si_neg s x)" "uint mx = \<bar>si_val s x\<bar>" using extract_value_cases [OF ok x] by blast
  note ch = r [unfolded intChs_def ex(1) Let_def prod.case]
  have rng: "si_fits s (si_val s x)" by (rule si_val_range [OF x])
  have sx: "(if \<not> si_neg s x then - \<bar>si_val s x\<bar> else \<bar>si_val s x\<bar>) = - si_val s x" using si_val_sign [OF x] by auto
  show "si_wf s r" using ch ok by (auto split: if_splits)
  show "cry t = cry s" using ch by (auto split: if_splits)
  have "ovf t = (shortIntegerMode s = SIM_UNSIGN \<or> shortIntegerMode s = SIM_2COMPL \<and> x = shortIntegerSignBit s)"
    using ch by (auto split: if_splits)
  then show "ovf t = (shortIntegerMode s = SIM_UNSIGN \<or> \<not> si_fits s (- si_val s x))"
    using fits_minus [OF ok x] twos_extremes [OF ok _ x] by auto
  show "si_val s r = - si_val s x" if fit: "si_fits s (- si_val s x)" 
  proof (cases "shortIntegerMode s = SIM_UNSIGN \<or> shortIntegerMode s = SIM_2COMPL \<and> x = shortIntegerSignBit s")
    case False
    then have "r = build_value mx (\<not> si_neg s x) s" using ch by (auto split: if_splits)
    then show ?thesis
      using build_value_val(1) [OF ok, of "\<not> si_neg s x" mx, unfolded ex(2) sx] fit False by simp
  next
    case True
    then have "si_val s x = 0"
      using fit rng twos_extremes [OF ok _ x] by (auto simp: si_fits_def si_min_def si_max_def)
    then have "mx = 0" using ex(2) by (simp add: word_uint_eq_iff)
    then have "r = 0" using ch True by auto
    then show ?thesis using \<open>si_val s x = 0\<close> by (simp add: si_val_def)
  qed
qed

lemma intAbs_correct:
  assumes ok: "si_ok s" and x: "si_wf s x" and r: "intAbs ui x s = (r, t)"
  shows "si_wf s r" and "si_fits s \<bar>si_val s x\<bar> \<Longrightarrow> si_val s r = \<bar>si_val s x\<bar>"
    and "ovf t = (\<not> si_fits s \<bar>si_val s x\<bar>)" and "cry t = cry s"
proof -
  obtain mx where ex: "extract_value x s = (mx, si_neg s x)" "uint mx = \<bar>si_val s x\<bar>" using extract_value_cases [OF ok x] by blast
  note ab = r [unfolded intAbs_def ex(1) Let_def prod.case]
  show "si_wf s r" using ab ok x by (auto split: if_splits)
  show "cry t = cry s" using ab by (auto split: if_splits)
  have "ovf t = (shortIntegerMode s = SIM_2COMPL \<and> x = shortIntegerSignBit s)"
    using ab by (auto split: if_splits)
  then show ov: "ovf t = (\<not> si_fits s \<bar>si_val s x\<bar>)"
    using fits_minus(2) [OF ok x] twos_extremes [OF ok _ x] by auto
  show "si_val s r = \<bar>si_val s x\<bar>" if fit: "si_fits s \<bar>si_val s x\<bar>"
  proof -
    have "r = build_value mx False s" using ab ov fit by (auto split: if_splits)
    then show ?thesis using build_value_val(1) [OF ok, of False mx] fit by (simp add: ex(2))
  qed
qed

lemma intSign_correct:
  assumes ok: "si_ok s" and x: "si_wf s x" and fit: "si_fits s (sgn (si_val s x))"
  shows "si_val s (intSign x s) = sgn (si_val s x)"
proof -
  obtain mx where ex: "extract_value x s = (mx, si_neg s x)" "uint mx = \<bar>si_val s x\<bar>" using extract_value_cases [OF ok x] by blast
  show ?thesis
  proof (cases "mx = 0")
    case True
    then have "si_val s x = 0" using ex(2) by simp
    then show ?thesis using build_value_val(1) [OF ok, of False 0] fit True by (simp add: intSign_def ex(1))
  next
    case False
    then have nz: "si_val s x \<noteq> 0" using ex(2) by (auto simp: word_uint_eq_iff)
    then have "(if si_neg s x then - uint (1::u64) else uint (1::u64)) = sgn (si_val s x)"
      using si_neg_val [OF x] by (auto simp: sgn_if)
    moreover have "shortIntegerMode s \<noteq> SIM_UNSIGN \<or> \<not> si_neg s x" by (auto simp: si_neg_def)
    ultimately show ?thesis using build_value_val(1) [OF ok, of "si_neg s x" 1] fit False by (simp add: intSign_def ex(1))
  qed
qed

text \<open>Change of sign, absolute value and sign of short integers, in every word size and mode: the
  result stands for the negated value, the absolute value, or -1, 0, 1, whenever that is in the range;
  OVERFLOW is set exactly when it is not, except that a change of sign in unsigned mode always sets it.\<close>

theorem sign_operations_correct:
  assumes ok: "si_ok s" and x: "si_wf s x"
  shows "(case intChs ui x s of (r, t) \<Rightarrow>
      si_wf s r \<and> (si_fits s (- si_val s x) \<longrightarrow> si_val s r = - si_val s x) \<and>
      ovf t = (shortIntegerMode s = SIM_UNSIGN \<or> \<not> si_fits s (- si_val s x)) \<and> cry t = cry s) \<and>
    (case intAbs ui x s of (r, t) \<Rightarrow>
      si_wf s r \<and> (si_fits s \<bar>si_val s x\<bar> \<longrightarrow> si_val s r = \<bar>si_val s x\<bar>) \<and>
      ovf t = (\<not> si_fits s \<bar>si_val s x\<bar>) \<and> cry t = cry s) \<and>
    si_wf s (intSign x s) \<and> (si_fits s (sgn (si_val s x)) \<longrightarrow> si_val s (intSign x s) = sgn (si_val s x))"
proof -
  obtain r1 t1 where r1: "intChs ui x s = (r1, t1)" by fastforce
  obtain r2 t2 where r2: "intAbs ui x s = (r2, t2)" by fastforce
  have "si_wf s (intSign x s)" using ok by (simp add: intSign_def Let_def split: prod.split)
  then show ?thesis
    unfolding r1 r2 prod.case
    using intChs_correct [OF ok x r1] intAbs_correct [OF ok x r2] intSign_correct [OF ok x] by blast
qed

lemma sign_operations_correct_witness:
  "si_val (byte_calc 3) (intSign 200 (byte_calc 3)) = - 1"
  using sign_operations_correct [OF byte_calc_ok, of 3 200 silent_ui]
  by (auto simp: si_wf_def si_fits_def si_min_def si_max_def si_val_def Let_def)

section \<open>Greatest common divisor and least common multiple\<close>

lemma int_gcd_gcd: "uint (int_gcd a b) = gcd (uint a) (uint b)"
proof (induction a b rule: int_gcd.induct)
  case (1 a b)
  show ?case
  proof (cases "b = 0")
    case True
    then show ?thesis by (simp add: int_gcd.simps [of a 0])
  next
    case False
    then have "uint (int_gcd a b) = gcd (uint b) (uint (a mod b))" using 1 by (simp add: int_gcd.simps [of a b])
    also have "\<dots> = gcd (uint a) (uint b)" by (simp add: uint_mod gcd_red_int [symmetric])
    finally show ?thesis .
  qed
qed

lemma gcd_word_le:
  assumes ok: "si_ok s" and x: "si_wf s x" and y: "si_wf s y"
  shows "gcd \<bar>si_val s x\<bar> \<bar>si_val s y\<bar> < 2 * si_half s"
  using gcd_le1_int [of "\<bar>si_val s x\<bar>" "\<bar>si_val s y\<bar>"] abs_val_less [OF x] abs_val_less [OF y]
  by (cases "si_val s x = 0") auto

lemma uint_magnitude:
  assumes ok: "si_ok s" and x: "si_wf s x"
  shows "uint (build_value (fst (extract_value x s)) False s) = \<bar>si_val s x\<bar>"
  using uint_build_value [OF ok, of "fst (extract_value x s)" False] extract_value_val(2) [OF ok x] abs_val_less [OF x] by simp

text \<open>The magnitude of a word, read again under the sign mode.\<close>

lemma abs_val_magnitude: "uint m \<le> si_mag s \<Longrightarrow> \<bar>si_val s m\<bar> = uint m"
proof -
  obtain h n where hab: "si_half s = h" "uint m = n" by blast
  have pos: "0 < h" "0 \<le> n" unfolding hab [symmetric] by simp_all
  assume "uint m \<le> si_mag s"
  then show ?thesis using pos unfolding si_mag_def si_max_def si_min_def si_val_def Let_def hab by (auto split: if_splits)
qed

lemma val_small: "uint m \<le> si_max s \<Longrightarrow> si_val s m = uint m"
proof -
  obtain h n where hab: "si_half s = h" "uint m = n" by blast
  assume "uint m \<le> si_max s"
  then show ?thesis unfolding si_max_def si_val_def Let_def hab by (auto split: if_splits)
qed

lemma div_gcd_mult: "0 \<le> a \<Longrightarrow> 0 \<le> b \<Longrightarrow> a div gcd a b * b = lcm (a::int) b"
proof (cases "gcd a b = 0")
  case False
  assume nn: "0 \<le> a" "0 \<le> b"
  have "(a div gcd a b * b) * gcd a b = a * b" by (metis dvd_div_mult_self gcd_dvd1 mult.assoc mult.commute)
  also have "\<dots> = lcm a b * gcd a b" using prod_gcd_lcm_int [of a b] nn by (simp add: mult.commute del: prod_gcd_lcm_int)
  finally show ?thesis using False by (metis mult_right_cancel)
qed simp

text \<open>Greatest common divisor and least common multiple of short integers, in every word size and
  mode, are those of the magnitudes: the word of the first is the greatest common divisor; the second
  stands for the least common multiple when that is in the range, and with non-zero operands OVERFLOW
  is set exactly when it is not.\<close>

theorem gcd_lcm_correct:
  assumes ok: "si_ok s" and x: "si_wf s x" and y: "si_wf s y" and r: "intLCM ui y x s = (r, t)"
  shows "uint (intGCD y x s) = gcd (si_val s y) (si_val s x) \<and> si_wf s r \<and>
    (lcm (si_val s y) (si_val s x) \<le> si_max s \<longrightarrow> si_val s r = lcm (si_val s y) (si_val s x)) \<and>
    (si_val s y \<noteq> 0 \<longrightarrow> si_val s x \<noteq> 0 \<longrightarrow> ovf t = (si_max s < lcm (si_val s y) (si_val s x)))"
proof -
  obtain mx where ex: "extract_value x s = (mx, si_neg s x)" "uint mx = \<bar>si_val s x\<bar>" using extract_value_cases [OF ok x] by blast
  obtain my where ey: "extract_value y s = (my, si_neg s y)" "uint my = \<bar>si_val s y\<bar>" using extract_value_cases [OF ok y] by blast
  have zx: "(mx = 0) = (si_val s x = 0)" using ex(2) by (auto simp: word_uint_eq_iff)
  have zy: "(my = 0) = (si_val s y = 0)" using ey(2) by (auto simp: word_uint_eq_iff)
  let ?g = "if mx = 0 then my else if my = 0 then mx else int_gcd mx my"
  have ug: "uint ?g = gcd (si_val s y) (si_val s x)"
    using zx zy ex(2) ey(2) by (auto simp: int_gcd_gcd gcd.commute)
  have "gcd (si_val s y) (si_val s x) < 2 * si_half s" using gcd_word_le [OF ok y x] by simp
  then have gcd: "uint (intGCD y x s) = gcd (si_val s y) (si_val s x)"
    using uint_build_value [OF ok, of ?g False] ug unfolding intGCD_def ex(1) ey(1) by (simp add: Let_def)
  show ?thesis
  proof (cases "mx = 0 \<or> my = 0")
    case True
    then have "r = 0" "lcm (si_val s y) (si_val s x) = 0" "si_val s x = 0 \<or> si_val s y = 0"
      using r zx zy by (auto simp: intLCM_def ex(1) ey(1))
    then show ?thesis using gcd by (auto simp: si_wf_def si_val_def)
  next
    case False
    then have nz: "si_val s x \<noteq> 0" "si_val s y \<noteq> 0" using zx zy by simp_all
    let ?p = "mx div int_gcd mx my" and ?q = "build_value my False s"
    have up: "uint ?p = \<bar>si_val s x\<bar> div gcd \<bar>si_val s x\<bar> \<bar>si_val s y\<bar>"
      by (simp only: uint_div int_gcd_gcd ex(2) ey(2))
    then have ple: "uint ?p \<le> \<bar>si_val s x\<bar>" using nz by (simp add: div_le_self)
    have wp: "si_wf s ?p" by (rule wf_of_le [OF ok x ple])
    have uq: "uint ?q = \<bar>si_val s y\<bar>" using uint_magnitude [OF ok y] by (simp add: ey(1))
    have mul: "intMultiply ui ?p ?q s = (r, t)"
      using r False mask_id [OF ok wp] by (simp add: intLCM_def ex(1) ey(1))
    have prod: "uint ?p * uint ?q = lcm (si_val s y) (si_val s x)"
      unfolding up uq using div_gcd_mult [of "\<bar>si_val s x\<bar>" "\<bar>si_val s y\<bar>"] by (simp add: lcm.commute)
    have "uint ?p \<le> si_mag s" "uint ?q \<le> si_mag s" using ple uq si_val_mag [OF x] si_val_mag [OF y] by simp_all
    then have ab: "\<bar>si_val s ?p * si_val s ?q\<bar> = lcm (si_val s y) (si_val s x)"
      by (simp add: abs_mult abs_val_magnitude prod)
    have qp: "0 < uint ?q" using uq nz by simp
    have pp: "0 < uint ?p" proof -
      have "uint ?p \<noteq> 0" using prod nz by auto
      then show ?thesis using uint_nonnegative [of ?p] by linarith
    qed
    have small: "si_val s ?p * si_val s ?q = lcm (si_val s y) (si_val s x)" if le: "lcm (si_val s y) (si_val s x) \<le> si_max s"
    proof -
      have "uint ?p * 1 \<le> uint ?p * uint ?q" "1 * uint ?q \<le> uint ?p * uint ?q"
        using pp qp by (intro mult_mono; linarith)+
      then have "uint ?p \<le> si_max s" "uint ?q \<le> si_max s" using le prod by linarith+
      then show ?thesis by (simp add: val_small prod)
    qed
    show ?thesis
      using intMultiply_correct [OF ok build_value_wf [OF ok] wp mul] small gcd nz unfolding ab by auto
  qed
qed

lemma gcd_lcm_correct_witness:
  "uint (intGCD 12 18 (byte_calc 2)) = 6 \<and> si_val (byte_calc 2) (fst (intLCM silent_ui 12 18 (byte_calc 2))) = 36"
proof -
  obtain r t where rt: "intLCM silent_ui 12 18 (byte_calc 2) = (r, t)" by (cases "intLCM silent_ui 12 18 (byte_calc 2)")
  have "si_wf (byte_calc 2) 18" "si_wf (byte_calc 2) 12" by (simp_all add: si_wf_def)
  moreover have "lcm (12::int) 18 = 36" by (simp add: lcm_int_def lcm_nat_def gcd_non_0_nat)
  ultimately show ?thesis
    using gcd_lcm_correct [OF byte_calc_ok _ _ rt] rt by (simp add: si_max_def si_val_def Let_def gcd_non_0_int)
qed

end
