(* ===== verification/ShortIntRoots.thy ===== *)
theory ShortIntRoots
  imports ShortIntDiv
begin

text \<open>
  The integer square root and the integer logarithms of short integers.
\<close>

section \<open>Square root\<close>

lemma newton_above:
  assumes "r * r \<le> (v::nat)" "0 < n"
  shows "r \<le> (n + v div n) div 2"
proof -
  have "2 * r \<le> n + v div n"
  proof (cases "n \<le> 2 * r")
    case True
    then have "int ((2 * r - n) * n) \<le> int (r * r)"
      using zero_le_power2 [of "int r - int n"] by (simp add: of_nat_diff power2_eq_square algebra_simps)
    then have "(2 * r - n) * n \<le> v" using assms(1) by (simp only: of_nat_le_iff)
    then have "2 * r - n \<le> v div n" using assms(2) by (simp add: less_eq_div_iff_mult_less_eq)
    then show ?thesis using True by linarith
  next
    case False
    then show ?thesis by linarith
  qed
  then show ?thesis by linarith
qed

lemma newton_end: "r * r \<le> (v::nat) \<Longrightarrow> v < Suc r * Suc r \<Longrightarrow> r \<le> n \<Longrightarrow> 0 < n \<Longrightarrow> n \<le> (n + v div n) div 2 \<Longrightarrow> n = r"
proof -
  assume a: "v < Suc r * Suc r" "r \<le> n" "0 < n" "n \<le> (n + v div n) div 2"
  then have "n \<le> v div n" by linarith
  then have "n * n \<le> v" using a(3) by (simp add: less_eq_div_iff_mult_less_eq)
  then have "n * n < Suc r * Suc r" using a(1) by linarith
  then have "n < Suc r" by (metis mult_le_mono not_less)
  with a(2) show ?thesis by linarith
qed

lemma unat_less_64: "unat (w::u64) < 2 ^ 64"
  using unsigned_less [of w] by simp

lemma unat_newton:
  assumes "unat n \<le> 2 ^ 63" "unat v div unat n < 2 ^ 63"
  shows "unat ((n + v div n) div 2 :: u64) = (unat n + unat v div unat n) div 2"
proof -
  have "unat (n + v div n) = unat n + unat v div unat n"
    using assms by (subst unat_add_lem [THEN iffD1]) (simp_all add: unat_div)
  then show ?thesis by (simp add: unat_div)
qed

lemma sqrt_loop_root:
  assumes v: "r * r \<le> unat v" "unat v < Suc r * Suc r" "0 < r"
    and n: "r \<le> unat n1" "unat n1 \<le> 2 ^ 63"
    and s: "n1 < n0 \<or> unat n0 = r \<and> unat n1 = (r + unat v div r) div 2"
  shows "unat (sqrt_loop v n0 n1) = (r + unat v div r) div 2"
  using v n s
proof (induction v n0 n1 rule: sqrt_loop.induct)
  case (1 v n0 n1)
  show ?case
  proof (cases "n1 < n0")
    case False
    then show ?thesis using 1 by (simp add: sqrt_loop.simps [of v n0 n1])
  next
    case True
    let ?n2 = "(n1 + v div n1) div 2"
    have n1: "0 < unat n1" using 1 by linarith
    have q: "unat v div unat n1 \<le> r + 2"
    proof -
      have "unat v div unat n1 \<le> unat v div r" using 1(4,5) by (intro div_le_mono2) simp_all
      also have "\<dots> < r + 3" using 1(3,4) by (simp add: less_mult_imp_div_less algebra_simps)
      finally show ?thesis by linarith
    qed
    have r32: "r < 2 ^ 32"
    proof (rule ccontr)
      assume "\<not> r < 2 ^ 32"
      then have "(2 ^ 32) * (2 ^ 32) \<le> r * r" by (intro mult_le_mono) simp_all
      then show False using 1(2) unat_less_64 [of v] by simp
    qed
    have u2: "unat ?n2 = (unat n1 + unat v div unat n1) div 2"
      using 1(6) q r32 by (intro unat_newton) simp_all
    have ge: "r \<le> unat ?n2" using newton_above [OF 1(2) n1] by (simp add: u2)
    have le: "unat ?n2 \<le> 2 ^ 63" using 1(6) q r32 unfolding u2 by simp
    have "?n2 < n1 \<or> unat n1 = r \<and> unat ?n2 = (r + unat v div r) div 2"
    proof (cases "?n2 < n1")
      case False
      then have "unat n1 \<le> (unat n1 + unat v div unat n1) div 2" using u2 by (simp add: word_less_nat_alt)
      then have "unat n1 = r" using newton_end [OF 1(2,3,5) n1] by blast
      then show ?thesis using u2 by simp
    qed simp
    then show ?thesis using 1(1) [OF True 1(2,3,4) ge le] True by (simp add: sqrt_loop.simps [of v n0 n1])
  qed
qed

lemma root_exists: "\<exists>r. r * r \<le> (v::nat) \<and> v < Suc r * Suc r"
proof (induction v)
  case (Suc v)
  then obtain r where "r * r \<le> v" "v < Suc r * Suc r" by blast
  then show ?case by (cases "Suc v < Suc r * Suc r") (auto intro: exI [of _ r] exI [of _ "Suc r"])
qed simp

text \<open>The iteration ends at the root or one above it, and the square of the latter fits 64 bits but
  for one operand.\<close>

lemma sqrt_loop_start:
  assumes v: "r * r \<le> unat v" "unat v < Suc r * Suc r" "0 < r" and v64: "unat v \<noteq> 2 ^ 64 - 1"
  defines "n0 \<equiv> v div 2 + 1"
  defines "n \<equiv> unat (sqrt_loop v n0 (v div n0 + n0 div 2))"
  shows "n = r \<or> n = Suc r \<and> n * n < 2 ^ 64 \<and> r * r < unat v"
proof -
  have u0: "unat n0 = unat v div 2 + 1"
    unfolding n0_def using unat_less_64 [of v] by (subst unat_add_lem [THEN iffD1]) (simp_all add: unat_div)
  have vpos: "1 \<le> unat v" using v(1,3) by (cases "unat v") simp_all
  have one: "unat v div unat n0 = 1"
    unfolding u0 using vpos by (intro div_nat_eqI) simp_all
  have u1: "unat (v div n0 + n0 div 2) = 1 + unat n0 div 2"
    using u0 one unat_less_64 [of v] by (subst unat_add_lem [THEN iffD1]) (simp_all add: unat_div)
  show ?thesis
  proof (cases "4 \<le> unat v")
    case False
    have "r < 2"
    proof (rule ccontr)
      assume "\<not> r < 2"
      then have "2 * 2 \<le> r * r" by (intro mult_le_mono) simp_all
      then show False using False v(1) by simp
    qed
    moreover have "v = 1 \<or> v = 2 \<or> v = 3"
      using False vpos by (auto simp: word_unat_eq_iff)
    moreover have "r = 1" using v(3) \<open>r < 2\<close> by linarith
    ultimately show ?thesis by (elim disjE) (simp_all add: n_def n0_def sqrt_loop.simps)
  next
    case True
    have lt: "v div n0 + n0 div 2 < n0" unfolding word_less_nat_alt u1 using True u0 by simp
    have ge: "r \<le> unat (v div n0 + n0 div 2)"
      using newton_above [OF v(1), of "unat n0"] u0 unfolding u1 one by linarith
    have le: "unat (v div n0 + n0 div 2) \<le> 2 ^ 63"
      unfolding u1 u0 using unat_less_64 [of v] by simp
    have n: "n = (r + unat v div r) div 2"
      unfolding n_def using sqrt_loop_root [OF v ge le] lt by blast
    have q: "unat v div r < r + 3" using v(2,3) by (simp add: less_mult_imp_div_less algebra_simps)
    have q0: "r \<le> unat v div r" using v(1,3) by (simp add: less_eq_div_iff_mult_less_eq)
    show ?thesis
    proof (cases "unat v div r < r + 2")
      case True
      then have "n = r" using n q0 by linarith
      then show ?thesis by simp
    next
      case False
      then have "unat v div r = r + 2" using q by linarith
      then have ns: "n = Suc r" using n by simp
      have "(r + 2) * r \<le> unat v" using False v(3) by (simp add: less_eq_div_iff_mult_less_eq not_less)
      then have "Suc r * Suc r = unat v + 1" "r * r < unat v" using v(2,3) by (simp_all add: algebra_simps)
      then show ?thesis using ns v64 unat_less_64 [of v] by simp
    qed
  qed
qed

lemma fits_nonneg: "0 \<le> v \<Longrightarrow> v \<le> si_max s \<Longrightarrow> si_fits s v"
proof -
  obtain h where h: "si_half s = h" "0 < h" using si_half_pos [of s] by blast
  assume "0 \<le> v" "v \<le> si_max s"
  then show ?thesis using h(2) unfolding si_fits_def si_min_def h(1) by auto
qed

text \<open>C17. The integer square root, in every word size and mode: a negative operand is refused; the
  root of zero is zero and leaves the flags; otherwise, but for the unsigned 64-bit operand
  \<open>2 ^ 64 - 1\<close>, the result stands for the root rounded down and CARRY is set exactly when the operand
  is not a square.\<close>

theorem intSqrt_correct:
  assumes ok: "si_ok s" and x: "si_wf s x" and r: "intSqrt ui x s = (w, t)"
  shows "(si_neg s x \<longrightarrow> w = 0 \<and> t = displayCalcErrorMessage ERROR_ARG_EXCEEDS_FUNCTION_DOMAIN ERR_REGISTER_LINE s) \<and>
    (\<not> si_neg s x \<and> si_val s x = 0 \<longrightarrow> w = 0 \<and> t = s) \<and>
    (\<not> si_neg s x \<and> 0 < si_val s x \<and> si_val s x \<noteq> 2 ^ 64 - 1 \<longrightarrow>
      0 \<le> si_val s w \<and> (si_val s w)\<^sup>2 \<le> si_val s x \<and> si_val s x < (si_val s w + 1)\<^sup>2 \<and>
      cry t = ((si_val s w)\<^sup>2 \<noteq> si_val s x) \<and> ovf t = ovf s)"
proof -
  obtain v where ex: "extract_value x s = (v, si_neg s x)" "uint v = \<bar>si_val s x\<bar>" using extract_value_cases [OF ok x] by blast
  note rt = r [unfolded intSqrt_def ex(1) Let_def prod.case]
  show ?thesis
  proof (cases "si_neg s x \<or> v = 0")
    case True
    moreover have "build_value 0 False s = 0" by (simp add: build_value_def)
    ultimately show ?thesis using rt ex(2) by auto
  next
    case False
    then have val: "si_val s x = uint v" using ex(2) si_neg_val [OF x] by simp
    show ?thesis
    proof (cases "si_val s x = 2 ^ 64 - 1")
      case True
      then show ?thesis using False by simp
    next
      case ne: False
      obtain q where q: "q * q \<le> unat v" "unat v < Suc q * Suc q" using root_exists by blast
      have q0: "0 < q" using False q by (cases q) (auto simp: word_unat_eq_iff)
      let ?n0 = "v div 2 + 1"
      define n where "n = sqrt_loop v ?n0 (v div ?n0 + ?n0 div 2)"
      have v64: "unat v \<noteq> 2 ^ 64 - 1"
      proof
        assume "unat v = 2 ^ 64 - 1"
        then have "int (unat v) = 2 ^ 64 - 1" by simp
        then show False using ne val by simp
      qed
      have nq: "unat n = q \<or> unat n = Suc q \<and> unat n * unat n < 2 ^ 64 \<and> q * q < unat v"
        unfolding n_def by (rule sqrt_loop_start [OF q q0 v64])
      have wf: "si_wf s v" using ex(2) by (intro wf_of_le [OF ok x]) simp
      have vmax: "uint v \<le> si_max s" using si_val_range [OF x] val by (simp add: si_fits_def)
      have sq: "(n * n > v) = (unat n = Suc q) \<and> (n * n = v) = (q * q = unat v)"
        using nq
      proof (elim disjE conjE)
        assume a: "unat n = q"
        then have "unat (n * n) = q * q"
          using q(1) unat_less_64 [of v] by (subst unat_mult_lem [THEN iffD1]) simp_all
        then show ?thesis using a q(1) by (auto simp: word_less_nat_alt word_unat_eq_iff)
      next
        assume a: "unat n = Suc q" "unat n * unat n < 2 ^ 64" "q * q < unat v"
        then have u: "unat (n * n) = Suc q * Suc q" by (subst unat_mult_lem [THEN iffD1]) simp_all
        then show ?thesis using a q(2) by (auto simp: word_less_nat_alt word_unat_eq_iff simp del: mult_Suc mult_Suc_right)
      qed
      define root where "root = (if n * n > v then n - 1 else n)"
      have "unat n = Suc q \<Longrightarrow> unat (n - 1) = q" using unat_minus_one [of n] by (cases "n = 0") simp_all
      then have "unat root = q" using nq sq by (auto simp: root_def)
      then have ur: "uint root = int q" by (simp add: uint_nat)
      have vi: "int q * int q \<le> uint v" "uint v < (int q + 1) * (int q + 1)"
      proof -
        have "int (q * q) \<le> int (unat v)" "int (unat v) < int (Suc q * Suc q)"
          using q by (simp_all only: of_nat_le_iff of_nat_less_iff)
        then show "int q * int q \<le> uint v" "uint v < (int q + 1) * (int q + 1)" by (simp_all add: algebra_simps)
      qed
      have "int q * 1 \<le> int q * int q" using q0 by (intro mult_left_mono) simp_all
      then have fits: "si_fits s (uint root)"
        using vi(1) vmax by (intro fits_nonneg) (simp_all add: ur)
      have w: "w = build_value root False s" "t = set_carry_to ui (n * n \<noteq> v) s"
        using rt [folded n_def, folded root_def] False by auto
      have "si_val s w = int q" using build_value_val(1) [OF ok, of False root] fits by (simp add: w ur)
      moreover have "(q * q = unat v) = (int q * int q = uint v)" using of_nat_eq_iff [of "q * q" "unat v", where 'a = int] by simp
      moreover have "uint v \<noteq> 0" using False by (simp add: word_uint_eq_iff)
      ultimately show ?thesis using False val vi sq by (simp add: w power2_eq_square)
    qed
  qed
qed

lemma intSqrt_correct_witness:
  "si_val (byte_calc 0) (fst (intSqrt silent_ui 200 (byte_calc 0))) = 14"
proof -
  obtain w t where rt: "intSqrt silent_ui 200 (byte_calc 0) = (w, t)" by (cases "intSqrt silent_ui 200 (byte_calc 0)")
  have "si_wf (byte_calc 0) 200" by (simp add: si_wf_def)
  from intSqrt_correct [OF byte_calc_ok this rt]
  have a: "0 \<le> si_val (byte_calc 0) w" "(si_val (byte_calc 0) w)\<^sup>2 \<le> 200" "200 < (si_val (byte_calc 0) w + 1)\<^sup>2"
    by (simp_all add: si_neg_def si_val_def Let_def)
  have "si_val (byte_calc 0) w < 15" using a(1,2) power_mono [of 15 "si_val (byte_calc 0) w" 2] by (intro notI ccontr [of "_ < _"]) simp
  moreover have "14 < si_val (byte_calc 0) w + 1" using a(1,3) power_mono [of "si_val (byte_calc 0) w + 1" 14 2] by (intro notI ccontr [of "_ < _"]) simp
  ultimately show ?thesis by (simp add: rt)
qed

section \<open>Logarithms\<close>

lemma log2_loop_val:
  "2 ^ k \<le> unat v \<Longrightarrow> unat v < 2 ^ Suc k \<Longrightarrow> log2_loop v l = l + of_nat k"
proof (induction k arbitrary: v l)
  case 0
  then have "v = 1" by (simp add: word_unat_eq_iff)
  then show ?case by (simp add: log2_loop.simps [of 1] Let_def)
next
  case (Suc k)
  have u: "unat (drop_bit 1 v) = unat v div 2" by (simp add: drop_bit_eq_div unat_div)
  have "2 ^ k \<le> unat (drop_bit 1 v)" "unat (drop_bit 1 v) < 2 ^ Suc k" unfolding u using Suc.prems by simp_all
  from Suc.IH [OF this] have "log2_loop (drop_bit 1 v) (l + 1) = l + of_nat (Suc k)" by simp
  moreover have "drop_bit 1 v \<noteq> 0"
  proof
    assume "drop_bit 1 v = 0"
    then show False using \<open>2 ^ k \<le> unat (drop_bit 1 v)\<close> by simp
  qed
  ultimately show ?case by (simp add: log2_loop.simps [of v l] Let_def)
qed

lemma log10_loop_val:
  "10 ^ k \<le> unat v \<Longrightarrow> unat v < 10 ^ Suc k \<Longrightarrow>
    \<exists>u. log10_loop v l c = (u, l + of_nat k, c \<or> unat v mod 10 ^ k \<noteq> 0) \<and> unat u = unat v div 10 ^ k"
proof (induction k arbitrary: v l c)
  case 0
  then show ?case by (simp add: log10_loop.simps [of v l c] word_le_nat_alt)
next
  case (Suc k)
  have u: "unat (v div 10) = unat v div 10" by (simp add: unat_div)
  have b: "10 ^ k \<le> unat (v div 10)" "unat (v div 10) < 10 ^ Suc k" unfolding u using Suc.prems by simp_all
  have "10 \<le> v" using Suc.prems(1) order.trans [of "10::nat" "10 ^ Suc k" "unat v"] by (simp add: word_le_nat_alt)
  then have step: "log10_loop v l c = log10_loop (v div 10) (l + 1) (c \<or> v mod 10 \<noteq> 0)"
    by (simp add: log10_loop.simps [of v l c])
  have "v mod 10 \<noteq> 0 \<longleftrightarrow> unat v mod 10 \<noteq> 0" by (simp add: word_unat_eq_iff unat_mod)
  moreover have "unat v mod (10 * 10 ^ k) = 10 * (unat v div 10 mod 10 ^ k) + unat v mod 10" by (rule mod_mult2_eq)
  ultimately have "(c \<or> unat v mod 10 ^ Suc k \<noteq> 0) = ((c \<or> v mod 10 \<noteq> 0) \<or> unat v div 10 mod 10 ^ k \<noteq> 0)" by auto
  then show ?case
    using Suc.IH [OF b, of "l + 1" "c \<or> v mod 10 \<noteq> 0"] unfolding step u by (simp add: div_mult2_eq add.assoc)
qed

lemma power_bracket: "1 < b \<Longrightarrow> 0 < v \<Longrightarrow> \<exists>k. b ^ k \<le> (v::nat) \<and> v < b ^ Suc k"
proof (induction v rule: less_induct)
  case (less v)
  show ?case
  proof (cases "v < b")
    case True
    then show ?thesis using less.prems by (intro exI [of _ 0]) simp
  next
    case False
    have "v div b < v" "0 < v div b" using less.prems False by (simp_all add: div_greater_zero_iff)
    then obtain k where k: "b ^ k \<le> v div b" "v div b < b ^ Suc k" using less by blast
    have b0: "0 < b" using less.prems by simp
    have "b ^ k * b \<le> v" using k(1) less_eq_div_iff_mult_less_eq [OF b0, of "b ^ k" v] by simp
    moreover have "v < b ^ Suc k * b" using k(2) div_less_iff_less_mult [OF b0, of v "b ^ Suc k"] by simp
    ultimately show ?thesis by (intro exI [of _ "Suc k"]) (simp add: mult.commute)
  qed
qed

lemma exponent_64: "b ^ k \<le> unat (v::u64) \<Longrightarrow> 2 \<le> b \<Longrightarrow> k < 64"
proof (rule ccontr)
  assume a: "b ^ k \<le> unat v" "2 \<le> b" "\<not> k < 64"
  have "(2::nat) ^ 64 \<le> 2 ^ k" using a(3) by (intro power_increasing) simp_all
  also have "\<dots> \<le> b ^ k" using a(2) by (intro power_mono) simp_all
  finally show False using a(1) unat_less_64 [of v] by linarith
qed

lemma build_exponent:
  assumes ok: "si_ok s" and k: "k < 64" "int k \<le> si_max s"
  shows "si_val s (build_value (ucast (of_nat k :: u32)) False s) = int k"
proof -
  have "uint (ucast (of_nat k :: u32) :: u64) = int k"
    using k(1) by (simp add: unsigned_ucast_eq unsigned_of_nat take_bit_nat_eq_self)
  then show ?thesis using build_value_val(1) [OF ok, of False "ucast (of_nat k :: u32)"] fits_nonneg [of "int k" s] k(2) by simp
qed

lemma power_of_two_test:
  assumes k: "2 ^ k \<le> unat (v::u64)" "unat v < 2 ^ Suc k"
  shows "(v AND (v - 1) = 0) = (unat v = 2 ^ k)"
proof
  have bit_k: "bit w k" if "2 ^ k \<le> unat w" "unat w < 2 ^ Suc k" for w :: u64
  proof -
    have "unat w div 2 ^ k = 1" using that by (intro div_nat_eqI) simp_all
    then have "bit (unat w) k" by (simp add: bit_iff_odd)
    then show ?thesis by (simp add: bit_unsigned_iff)
  qed
  assume z: "v AND (v - 1) = 0"
  show "unat v = 2 ^ k"
  proof (rule ccontr)
    assume ne: "unat v \<noteq> 2 ^ k"
    have "v \<noteq> 0" using k(1) by (intro notI) simp
    then have "unat (v - 1) = unat v - 1" by (rule unat_minus_one)
    then have "bit (v - 1) k" using ne k by (intro bit_k) simp_all
    moreover have "bit v k" using k by (rule bit_k)
    ultimately show False using bit_and_iff [of v "v - 1" k] z by simp
  qed
next
  assume u: "unat v = 2 ^ k"
  have "v = 2 ^ k" using arg_cong [OF u, of "of_nat :: nat \<Rightarrow> u64"] by simp
  then show "v AND (v - 1) = 0"
    by (intro bit_word_eqI) (auto simp: bit_simps simp flip: mask_eq_exp_minus_1)
qed

text \<open>The integer logarithms to base 2 and 10, in every word size and mode: an operand that is not
  positive is refused; otherwise the result stands for the logarithm rounded down, and CARRY is set
  exactly when the operand is not a power of the base.\<close>

theorem intLog_correct:
  assumes ok: "si_ok s" and x: "si_wf s x"
    and f: "b = 2 \<and> (w, t) = intLog2 ui x s \<or> b = 10 \<and> (w, t) = intLog10 ui x s"
  shows "(si_neg s x \<or> si_val s x = 0 \<longrightarrow> w = 0 \<and> t = displayCalcErrorMessage ERROR_ARG_EXCEEDS_FUNCTION_DOMAIN ERR_REGISTER_LINE s) \<and>
    (0 < si_val s x \<longrightarrow> (\<exists>k. si_val s w = int k \<and> b ^ k \<le> si_val s x \<and> si_val s x < b ^ Suc k \<and>
      cry t = (si_val s x \<noteq> b ^ k)) \<and> ovf t = ovf s)"
proof -
  obtain v where ex: "extract_value x s = (v, si_neg s x)" "uint v = \<bar>si_val s x\<bar>" using extract_value_cases [OF ok x] by blast
  have b: "b = 2 \<or> b = 10" using f by blast
  have v0: "v = 0 \<longleftrightarrow> si_val s x = 0" using ex(2) by (auto simp: word_uint_eq_iff)
  show ?thesis
  proof (cases "si_neg s x \<or> si_val s x = 0")
    case True
    moreover have "\<not> 0 < si_val s x" using True si_neg_val(1) [OF x] by auto
    ultimately show ?thesis using f v0 by (auto simp: intLog2_def intLog10_def ex(1))
  next
    case False
    then have val: "si_val s x = int (unat v)" "\<not> si_neg s x" "v \<noteq> 0" using ex(2) v0 si_neg_val(2) [OF x] by auto
    have "0 < unat v" using val(3) by (simp add: unat_gt_0)
    then obtain k where k: "nat b ^ k \<le> unat v" "unat v < nat b ^ Suc k"
      using power_bracket [of "nat b" "unat v"] b by auto
    have k64: "k < 64" using exponent_64 [OF k(1)] b by auto
    have ki: "b ^ k \<le> int (unat v)" "int (unat v) < b ^ Suc k" 
    proof -
      have "int (nat b ^ k) \<le> int (unat v)" "int (unat v) < int (nat b ^ Suc k)" using k by (simp_all only: of_nat_le_iff of_nat_less_iff)
      then show "b ^ k \<le> int (unat v)" "int (unat v) < b ^ Suc k" using b by auto
    qed
    have "int k \<le> b ^ k"
    proof -
      have "int k < int (2 ^ k)" using less_exp [of k] by (simp only: of_nat_less_iff)
      then have "int k < 2 ^ k" by simp
      also have "(2::int) ^ k \<le> b ^ k" using b by (intro power_mono) auto
      finally show ?thesis by simp
    qed
    moreover have "int (unat v) \<le> si_max s" using si_val_range [OF x] val by (simp add: si_fits_def)
    ultimately have kmax: "int k \<le> si_max s" using ki(1) by linarith
    have "si_val s w = int k \<and> cry t = (int (unat v) \<noteq> b ^ k) \<and> ovf t = ovf s"
      using f
    proof (elim disjE conjE)
      assume a: "b = 2" "(w, t) = intLog2 ui x s"
      have l: "log2_loop v 0 = of_nat k" using log2_loop_val [of k v 0] k a(1) by simp
      have "(v AND (v - 1) \<noteq> 0) = (int (unat v) \<noteq> b ^ k)"
        using power_of_two_test [of k v] k a(1) of_nat_eq_iff [of "unat v" "2 ^ k", where 'a = int] by simp
      then show ?thesis using a val build_exponent [OF ok k64 kmax] by (simp add: intLog2_def ex(1) l)
    next
      assume a: "b = 10" "(w, t) = intLog10 ui x s"
      obtain u where u: "log10_loop v 0 False = (u, of_nat k, unat v mod 10 ^ k \<noteq> 0)" "unat u = unat v div 10 ^ k"
        using log10_loop_val [of k v 0 False] k a(1) by auto
      have "(unat v mod 10 ^ k \<noteq> 0 \<or> u \<noteq> 1) = (unat v \<noteq> 10 ^ k)"
        using u(2) div_mult_mod_eq [of "unat v" "10 ^ k"] by (auto simp: word_unat_eq_iff)
      moreover have "(unat v = 10 ^ k) = (int (unat v) = b ^ k)" using a(1) by (metis of_nat_eq_iff of_nat_numeral of_nat_power)
      ultimately show ?thesis using a val build_exponent [OF ok k64 kmax] by (simp add: intLog10_def ex(1) u(1))
    qed
    then show ?thesis using False val ki by auto
  qed
qed

lemma intLog_correct_witness:
  "\<exists>k. si_val (byte_calc 0) (fst (intLog10 silent_ui 200 (byte_calc 0))) = int k \<and> 10 ^ k \<le> (200::int) \<and> 200 < (10::int) ^ Suc k"
proof -
  obtain w t where rt: "intLog10 silent_ui 200 (byte_calc 0) = (w, t)" by (cases "intLog10 silent_ui 200 (byte_calc 0)")
  have "si_wf (byte_calc 0) 200" by (simp add: si_wf_def)
  from intLog_correct [OF byte_calc_ok this, where b = 10 and w = w and t = t and ui = silent_ui]
  show ?thesis by (auto simp: rt si_val_def Let_def)
qed

end
