(* ===== verification/ShortIntPower.thy ===== *)
theory ShortIntPower
  imports ShortIntRoots
begin

text \<open>
  Powers of short integers and the modular arithmetic on 64-bit words.
\<close>

section \<open>Powers\<close>

text \<open>A product of two numbers of which only the residues are left once one of them is too large.\<close>

lemma multiply_exact:
  assumes ok: "si_ok s" and m: "uint m = P mod (2 * si_half s)" and d: "uint d = B mod (2 * si_half s)"
    and ov: "ov \<Longrightarrow> si_max s < P \<or> si_max s < B" and ex: "\<not> ov \<Longrightarrow> uint m = P \<and> uint d = B"
    and pos: "1 \<le> P" "1 \<le> B"
  shows "uint (fst (multiply_with_overflow m d ov s)) = (P * B) mod (2 * si_half s)"
    and "snd (multiply_with_overflow m d ov s) = (si_max s < P * B)"
proof -
  obtain p ov' where r: "multiply_with_overflow m d ov s = (p, ov')" by fastforce
  note v = multiply_with_overflow_val [OF ok r]
  show "uint (fst (multiply_with_overflow m d ov s)) = (P * B) mod (2 * si_half s)"
    by (simp add: r v m d mod_mult_eq)
  have "P \<le> P * B" "B \<le> P * B"
    using pos mult_left_mono [of 1 B P] mult_right_mono [of 1 P B] by simp_all
  then have "ov' = (si_max s < P * B)" using v(2) ov ex by (cases ov) auto
  then show "snd (multiply_with_overflow m d ov s) = (si_max s < P * B)" by (simp add: r)
qed

lemma low_bit_odd: "((e::u64) AND 1 \<noteq> 0) = odd (unat e)"
  by (simp add: and_one_eq word_unat_eq_iff unat_mod odd_iff_mod_2_eq_one)

lemma power_loop_exact:
  assumes "si_ok s" and "uint pw = P mod (2 * si_half s)" and "uint base = B mod (2 * si_half s)"
    and "ov = (si_max s < P)" and "ovn \<Longrightarrow> si_max s < B" and "\<not> ovn \<Longrightarrow> uint base = B" and "1 \<le> P" "1 \<le> B" and "unat e < 2 ^ n"
  shows "uint (fst (power_loop n pw base e ov ovn s)) = (P * B ^ unat e) mod (2 * si_half s) \<and>
    snd (power_loop n pw base e ov ovn s) = (si_max s < P * B ^ unat e)"
  using assms
proof (induction n arbitrary: pw base e ov ovn P B)
  case 0
  then show ?case by simp
next
  case (Suc n)
  show ?case
  proof (cases "e = 0")
    case True
    then show ?thesis using Suc.prems by simp
  next
    case False
    define pw' ov' where "pw' = (if e AND 1 \<noteq> 0 then fst (multiply_with_overflow pw base (ovn \<or> ov) s) else pw)"
      and "ov' = (if e AND 1 \<noteq> 0 then snd (multiply_with_overflow pw base (ovn \<or> ov) s) else ov)"
    define e' where "e' = drop_bit 1 e"
    define base' ovn' where "base' = (if e' \<noteq> 0 then fst (multiply_with_overflow base base ovn s) else base)"
      and "ovn' = (if e' \<noteq> 0 then snd (multiply_with_overflow base base ovn s) else ovn)"
    define P' B' where "P' = (if odd (unat e) then P * B else P)" and "B' = (if e' \<noteq> 0 then B * B else B)"
    note odd = low_bit_odd [of e]
    have ue: "unat e' = unat e div 2" by (simp add: e'_def drop_bit_eq_div unat_div)
    have step: "power_loop (Suc n) pw base e ov ovn s = power_loop n pw' base' e' ov' ovn' s"
      using False by (auto simp: Let_def pw'_def ov'_def base'_def ovn'_def e'_def split: prod.splits)
    have exP: "\<not> ov \<Longrightarrow> uint pw = P"
      using Suc.prems(2,4,7) si_max_less [of P s] by (simp add: mod_pos_pos_trivial)
    have P: "uint pw' = P' mod (2 * si_half s)" "ov' = (si_max s < P')"
      using multiply_exact [OF Suc.prems(1-3), of "ovn \<or> ov"] exP Suc.prems(2,4-8) by (auto simp: pw'_def ov'_def P'_def odd)
    have sq: "uint (fst (multiply_with_overflow base base ovn s)) = (B * B) mod (2 * si_half s)"
      "snd (multiply_with_overflow base base ovn s) = (si_max s < B * B)"
      using multiply_exact [OF Suc.prems(1,3,3), of ovn] Suc.prems(5,6,8) by auto
    have pos: "1 \<le> P'" "1 \<le> B'" using Suc.prems(7,8) mult_mono [of 1 P 1 B] mult_mono [of 1 B 1 B] by (simp_all add: P'_def B'_def)
    have B: "uint base' = B' mod (2 * si_half s)" "ovn' \<Longrightarrow> si_max s < B'"
      using sq Suc.prems(3,5) by (auto simp: base'_def ovn'_def B'_def)
    have exB: "\<not> ovn' \<Longrightarrow> uint base' = B'"
      using sq Suc.prems(6) pos(2) si_max_less [of B' s] by (auto simp: base'_def ovn'_def B'_def mod_pos_pos_trivial split: if_splits)
    have "unat e' < 2 ^ n" using Suc.prems(9) by (simp add: ue)
    note ih = Suc.IH [OF Suc.prems(1) P(1) B(1) P(2) B(2) exB pos this]
    have "P' * B' ^ unat e' = P * B ^ unat e"
    proof -
      have "B' ^ unat e' = (B * B) ^ unat e'" by (simp add: B'_def)
      also have "\<dots> = B ^ (2 * (unat e div 2))" by (simp add: ue power_mult power2_eq_square)
      also have "B ^ (2 * (unat e div 2)) * (if odd (unat e) then B else 1) = B ^ unat e"
        using power_add [of B "2 * (unat e div 2)" "unat e mod 2"] by (simp add: odd_iff_mod_2_eq_one even_iff_mod_2_eq_zero)
      finally show ?thesis by (auto simp: P'_def ac_simps)
    qed
    then show ?thesis using ih unfolding step by simp
  qed
qed

lemma power_loop_overflow: "snd (power_loop n pw base e True ovn s)"
proof (induction n arbitrary: pw base e ovn)
  case (Suc n)
  have "snd (multiply_with_overflow pw base (ovn \<or> True) s)" by (simp add: multiply_with_overflow_def Let_def)
  then show ?case using Suc by (auto simp: Let_def multiply_with_overflow_def split: prod.splits)
qed simp

lemma power_helper:
  assumes ok: "si_ok s" and e: "unat e < 2 ^ shortIntegerWordSize s"
    and base: "uint base < 2 * si_half s" "1 \<le> uint base" and max: "1 \<le> si_max s"
    and r: "int_power_helper ui base e False s = (p, t)"
  shows "uint p = (uint base ^ unat e) mod (2 * si_half s)" and "ovf t = (si_max s < uint base ^ unat e)" and "cry t = cry s"
proof -
  obtain pw ov where pl: "power_loop (shortIntegerWordSize s) 1 base e False False s = (pw, ov)" by fastforce
  have pt: "p = pw" "t = set_overflow_to ui ov s" using r by (simp_all add: int_power_helper_def pl)
  have "uint (1::u64) = 1 mod (2 * si_half s)" using si_max_less [OF max] by simp
  moreover have "uint base = uint base mod (2 * si_half s)" using base by (simp add: mod_pos_pos_trivial)
  ultimately have "uint pw = (uint base ^ unat e) mod (2 * si_half s) \<and> ov = (si_max s < uint base ^ unat e)"
    using power_loop_exact [OF ok, of 1 1 base "uint base" False False e "shortIntegerWordSize s"] base max e pl by simp
  then show "uint p = (uint base ^ unat e) mod (2 * si_half s)" "ovf t = (si_max s < uint base ^ unat e)" "cry t = cry s"
    by (simp_all add: pt)
qed

lemma odd_magnitude: "si_wf s x \<Longrightarrow> (if si_neg s x \<and> odd k then - (\<bar>si_val s x\<bar> ^ k) else \<bar>si_val s x\<bar> ^ k) = si_val s x ^ k"
proof -
  assume "si_wf s x"
  from si_val_sign [OF this] obtain v where v: "si_val s x = (if si_neg s x then - v else v)" "v = \<bar>si_val s x\<bar>" by blast
  show ?thesis unfolding v(2) [symmetric] unfolding v(1) by (cases "odd k") (simp_all add: power_minus_odd power_minus_even)
qed

lemma exponent_bound: "si_ok s \<Longrightarrow> si_wf s e \<Longrightarrow> unat e < 2 ^ shortIntegerWordSize s"
proof -
  assume a: "si_ok s" "si_wf s e"
  then have "int (unat e) < int (2 ^ shortIntegerWordSize s)" by (simp add: si_wf_def two_half)
  then show ?thesis by (simp only: of_nat_less_iff)
qed

lemma fits_magnitude: "0 \<le> v \<Longrightarrow> v \<le> si_max s \<Longrightarrow> (g \<Longrightarrow> shortIntegerMode s \<noteq> SIM_UNSIGN) \<Longrightarrow> si_fits s (if g then - v else v)"
proof -
  assume a: "0 \<le> v" "v \<le> si_max s" "g \<Longrightarrow> shortIntegerMode s \<noteq> SIM_UNSIGN"
  show ?thesis
  proof (cases g)
    case True
    then have "v < si_half s" using a(2,3) by (simp add: si_max_def)
    then show ?thesis using fits_signed [OF a(3) a(1)] True by blast
  next
    case False
    then show ?thesis using fits_nonneg [OF a(1,2)] by simp
  qed
qed

text \<open>C18. Powers of short integers, in every word size and mode with a positive value: zero to the
  power zero is refused with error 1 and OVERFLOW; otherwise the result stands for the power of the
  base by the magnitude of the exponent whenever the magnitude of the power is in the range, OVERFLOW
  is set exactly when it is not, and CARRY is clear.\<close>

theorem intPower_correct:
  assumes ok: "si_ok s" and max: "1 \<le> si_max s" and b: "si_wf s b" and e: "si_wf s e" and r: "intPower ui b e s = (w, t)"
  defines "k \<equiv> nat \<bar>si_val s e\<bar>"
  shows "(si_val s b = 0 \<and> k = 0 \<longrightarrow> w = 0 \<and> lastErrorCode t = ERROR_ARG_EXCEEDS_FUNCTION_DOMAIN \<and> ovf t) \<and>
    (si_val s b \<noteq> 0 \<or> k \<noteq> 0 \<longrightarrow> si_wf s w \<and> \<not> cry t \<and> ovf t = (si_max s < \<bar>si_val s b\<bar> ^ k) \<and>
      (\<bar>si_val s b\<bar> ^ k \<le> si_max s \<longrightarrow> si_val s w = si_val s b ^ k))"
proof -
  obtain me where ee: "extract_value e s = (me, si_neg s e)" "uint me = \<bar>si_val s e\<bar>" using extract_value_cases [OF ok e] by blast
  obtain mb where eb: "extract_value b s = (mb, si_neg s b)" "uint mb = \<bar>si_val s b\<bar>" using extract_value_cases [OF ok b] by blast
  have k: "unat me = k" unfolding k_def using ee(2) by (simp flip: ee(2))
  have e0: "me = 0 \<longleftrightarrow> k = 0" using k by (auto simp: word_unat_eq_iff)
  have b0: "mb = 0 \<longleftrightarrow> si_val s b = 0" using eb(2) by (auto simp: word_uint_eq_iff)
  note pw = r [unfolded intPower_def ee(1) eb(1) Let_def prod.case]
  have one: "si_val s 1 = 1" using val_small [of 1 s] max by simp
  have wf1: "si_wf s 1" "si_wf s 0" using si_max_less [OF max] by (simp_all add: si_wf_def)
  have zero: "si_val s 0 = 0" by (simp add: si_val_def)
  have ltmax: "\<not> si_max s < 1" "\<not> si_max s < 0" using max by simp_all
  show ?thesis
  proof (cases "me = 0 \<or> mb = 0")
    case True
    then show ?thesis using pw e0 b0 one zero wf1 ltmax
      by (auto simp: displayCalcErrorMessage_def power_0_left split: if_splits)
  next
    case False
    let ?s1 = "clearSystemFlag ui FLAG_OVERFLOW (clearSystemFlag ui FLAG_CARRY s)"
    obtain p s2 where ph: "int_power_helper ui mb me False ?s1 = (p, s2)" by fastforce
    have ok1: "si_ok ?s1" using ok by (simp add: si_ok_def)
    have same: "si_half ?s1 = si_half s" "si_max ?s1 = si_max s" by (simp_all add: si_half_def si_max_def)
    have bb: "uint mb < 2 * si_half ?s1" "1 \<le> uint mb" using eb(2) abs_val_less [OF b] b0 False zero_less_abs_iff [of "si_val s b"] by (simp_all add: same) linarith
    have "si_wf s me" using wf_of_le [OF ok e] ee(2) by simp
    then have "unat me < 2 ^ shortIntegerWordSize ?s1" using exponent_bound [OF ok] by simp
    note h = power_helper [OF ok1 this bb _ ph, unfolded same, OF max]
    have wt: "w = build_value p (si_neg s b \<and> odd k) s" "t = s2"
      using pw False ph low_bit_odd [of me] k by (simp_all add: k)
    have fl: "ovf t = (si_max s < \<bar>si_val s b\<bar> ^ k)" "\<not> cry t"
      using h(2,3) by (simp_all add: wt k eb(2))
    have "si_val s w = si_val s b ^ k" if le: "\<bar>si_val s b\<bar> ^ k \<le> si_max s"
    proof -
      have "uint p = \<bar>si_val s b\<bar> ^ k" using h(1) si_max_less [OF le] by (simp add: k eb(2) mod_pos_pos_trivial)
      then have up: "(if si_neg s b \<and> odd k then - uint p else uint p) = si_val s b ^ k"
        using odd_magnitude [OF b, of k] by (simp only:)
      have "si_fits s (si_val s b ^ k)"
        unfolding odd_magnitude [OF b, of k, symmetric] using le by (intro fits_magnitude) (simp_all add: si_neg_def)
      moreover have "shortIntegerMode s \<noteq> SIM_UNSIGN \<or> \<not> (si_neg s b \<and> odd k)" by (auto simp: si_neg_def)
      ultimately show ?thesis using build_value_val(1) [OF ok, of "si_neg s b \<and> odd k" p] by (simp only: up wt)
    qed
    then show ?thesis using fl e0 False ok by (simp add: wt)
  qed
qed

lemma intPower_correct_witness:
  "si_val (byte_calc 2) (fst (intPower silent_ui 253 3 (byte_calc 2))) = - 27"
proof -
  obtain w t where rt: "intPower silent_ui 253 3 (byte_calc 2) = (w, t)" by (cases "intPower silent_ui 253 3 (byte_calc 2)")
  have "1 \<le> si_max (byte_calc 2)" by (simp add: si_max_def)
  moreover have "si_wf (byte_calc 2) 253" "si_wf (byte_calc 2) 3" by (simp_all add: si_wf_def)
  ultimately show ?thesis using intPower_correct [OF byte_calc_ok _ _ _ rt] rt
    by (simp add: si_max_def si_val_def Let_def)
qed

lemma low_byte: "unat (m::u64) < 256 \<Longrightarrow> m AND 0xff = m"
proof -
  assume "unat m < 256"
  then have "take_bit 8 m = m" by (simp add: word_unat_eq_iff unsigned_take_bit_eq take_bit_nat_eq_self)
  then show ?thesis by (simp add: take_bit_eq_mask mask_eq_exp_minus_1)
qed

lemma uint_two_power: "k < 64 \<Longrightarrow> uint (push_bit k 1 :: u64) = 2 ^ k"
proof -
  assume k: "k < 64"
  then have "(2::int) ^ k < 2 ^ 64" by (intro power_strict_increasing) auto
  then have "take_bit 64 ((2::int) ^ k) = 2 ^ k" by (intro take_bit_int_eq_self) auto
  moreover have "uint (push_bit k (1::u64)) = take_bit LENGTH(64) (push_bit k (uint (1::u64)))"
    by (rule unsigned_push_bit_eq)
  ultimately show ?thesis by simp
qed

text \<open>The powers of two and of ten, in every word size and mode with a positive value: for an
  exponent that is not negative the result stands for the power whenever it is in the range and
  OVERFLOW is set exactly when it is not; for a negative exponent the result is zero.  CARRY tells, for
  the powers of two, that one more bit or one less shift would have given one; for the powers of ten,
  that the exponent was negative.\<close>

theorem int2pow_int10pow_correct:
  assumes ok: "si_ok s" and max: "1 \<le> si_max s" and x: "si_wf s x"
    and p2: "int2pow ui x s = (w2, t2)" and p10: "int10pow ui x s = (w10, t10)"
  defines "k \<equiv> nat (si_val s x)"
  shows "(si_val s x < 0 \<longrightarrow> w2 = 0 \<and> w10 = 0 \<and> \<not> ovf t2 \<and> cry t2 = (si_val s x = - 1) \<and> cry t10 \<and> ovf t10 = ovf s) \<and>
    (0 \<le> si_val s x \<longrightarrow>
      ovf t2 = (si_max s < 2 ^ k) \<and> (2 ^ k \<le> si_max s \<longrightarrow> si_val s w2 = 2 ^ k) \<and> cry t2 = (2 ^ k = si_max s + 1) \<and>
      ovf t10 = (si_max s < 10 ^ k) \<and> (10 ^ k \<le> si_max s \<longrightarrow> si_val s w10 = 10 ^ k) \<and> \<not> cry t10)"
proof -
  obtain m where ex: "extract_value x s = (m, si_neg s x)" "uint m = \<bar>si_val s x\<bar>" using extract_value_cases [OF ok x] by blast
  have m0: "m = 0 \<longleftrightarrow> si_val s x = 0" using ex(2) by (auto simp: word_uint_eq_iff)
  have m1: "m = 1 \<longleftrightarrow> \<bar>si_val s x\<bar> = 1" by (simp add: word_uint_eq_iff flip: ex(2))
  have neg: "si_neg s x \<and> m \<noteq> 0 \<longleftrightarrow> si_val s x < 0" using si_neg_val [OF x] m0 by (cases "si_neg s x") auto
  note two = p2 [unfolded int2pow_def ex(1) Let_def prod.case]
  note ten = p10 [unfolded int10pow_def ex(1) Let_def prod.case]
  define W where "W = (if shortIntegerMode s \<noteq> SIM_UNSIGN then shortIntegerWordSize s - 1 else shortIntegerWordSize s)"
  have maxW: "si_max s + 1 = 2 ^ W" using two_half [OF ok] by (simp add: si_max_def W_def si_half_def)
  have W64: "W \<le> 64" using ok by (auto simp: W_def si_ok_def)
  show ?thesis
  proof (cases "si_val s x < 0")
    case True
    then have "si_neg s x" "m \<noteq> 0" using neg by blast+
    then show ?thesis using two ten True m1 by auto
  next
    case False
    then have um: "unat m = k" using arg_cong [OF ex(2), of nat] by (simp add: k_def)
    have nn: "\<not> (si_neg s x \<and> m \<noteq> 0)" using neg False by simp
    have kW: "W \<le> k \<longleftrightarrow> si_max s < 2 ^ k" "k = W \<longleftrightarrow> (2::int) ^ k = si_max s + 1"
    proof -
      have "si_max s < 2 ^ k \<longleftrightarrow> (2::int) ^ W \<le> 2 ^ k" using maxW by linarith
      then show "W \<le> k \<longleftrightarrow> si_max s < 2 ^ k" by simp
      show "k = W \<longleftrightarrow> (2::int) ^ k = si_max s + 1" using maxW by simp
    qed
    have gate: "(si_neg s x \<and> m = 1) = False" "(si_neg s x \<and> m \<noteq> 0) = False" using nn by auto
    note two' = two [unfolded gate if_False, folded W_def, unfolded um]
    have "ovf t2 = (W \<le> k)" "cry t2 = (k = W)" using two' by (auto split: if_splits)
    moreover have "si_val s w2 = 2 ^ k" if le: "2 ^ k \<le> si_max s"
    proof -
      have kl: "k < W" using kW(1) le by auto
      then have "k < 64" using W64 by simp
      then have "m AND 0xff = m" using um by (intro low_byte) simp
      then have "w2 = push_bit k 1" using two' kl um by (simp split: if_splits)
      then have "uint w2 = 2 ^ k" using uint_two_power [OF \<open>k < 64\<close>] by simp
      then show ?thesis using val_small [of w2 s] le by simp
    qed
    ultimately have "ovf t2 = (si_max s < 2 ^ k) \<and> (2 ^ k \<le> si_max s \<longrightarrow> si_val s w2 = 2 ^ k) \<and> cry t2 = (2 ^ k = si_max s + 1)"
      using kW by blast
    moreover have "ovf t10 = (si_max s < 10 ^ k) \<and> (10 ^ k \<le> si_max s \<longrightarrow> si_val s w10 = 10 ^ k) \<and> \<not> cry t10"
    proof (cases "m = 0")
      case True
      then show ?thesis using ten um max val_small [of 1 s] by auto
    next
      case m0: False
      then have ng: "\<not> si_neg s x" using nn by blast
      then have "si_val s x = uint x" by (auto simp: si_val_def si_neg_def Let_def)
      then have ux: "unat x = k" using arg_cong [of "si_val s x" "uint x" nat] by (simp add: k_def)
      let ?ov = "shortIntegerWordSize s \<le> 3 \<or> shortIntegerMode s \<noteq> SIM_UNSIGN \<and> shortIntegerWordSize s = 4"
      let ?s1 = "clearSystemFlag ui FLAG_CARRY s"
      obtain p s2 where ph: "int_power_helper ui 10 x ?ov ?s1 = (p, s2)" by fastforce
      have wt: "w10 = build_value p False s" "t10 = s2" using ten m0 ng ph by auto
      have k1: "(10::int) \<le> 10 ^ k" using um m0 power_increasing [of 1 k "10::int"] by (auto simp: word_unat_eq_iff)
      have ov: "?ov = (si_max s < 10)"
      proof -
        have "?ov = (W \<le> 3)" by (auto simp: W_def)
        also have "\<dots> = ((2::int) ^ W < 2 ^ 4)" by (subst power_strict_increasing_iff) auto
        also have "\<dots> = (si_max s < 10)"
        proof
          assume "(2::int) ^ W < 2 ^ 4"
          then have "(2::int) ^ W \<le> 2 ^ 3" by (simp only: power_strict_increasing_iff power_increasing_iff)
          then show "si_max s < 10" using maxW by simp
        next
          assume "si_max s < 10"
          then show "(2::int) ^ W < 2 ^ 4" using maxW by simp
        qed
        finally show ?thesis .
      qed
      show ?thesis
      proof (cases ?ov)
        case True
        then have "ovf s2 \<and> \<not> cry s2" using ph power_loop_overflow [of "shortIntegerWordSize ?s1" 1 10 x False ?s1]
          by (auto simp: int_power_helper_def split: prod.splits)
        then show ?thesis using True ov k1 by (simp add: wt)
      next
        case False
        have ok1: "si_ok ?s1" using ok by (simp add: si_ok_def)
        have same: "si_half ?s1 = si_half s" "si_max ?s1 = si_max s" by (simp_all add: si_half_def si_max_def)
        have ten_max: "10 \<le> si_max s" using False unfolding ov by simp
        have base: "uint (10::u64) < 2 * si_half ?s1" "1 \<le> uint (10::u64)" using si_max_less [OF ten_max] by (simp_all add: same)
        have xb: "unat x < 2 ^ shortIntegerWordSize ?s1" using exponent_bound [OF ok x] by simp
        have no: "?ov = False" using False by blast
        have ph': "int_power_helper ui 10 x False ?s1 = (p, s2)" using ph unfolding no .
        note h = power_helper [OF ok1 xb base _ ph', unfolded same, OF max]
        have "si_val s w10 = 10 ^ k" if le: "10 ^ k \<le> si_max s"
        proof -
          have "uint p = 10 ^ k" using h(1) si_max_less [OF le] by (simp add: ux mod_pos_pos_trivial)
          then show ?thesis using build_value_val(1) [OF ok, of False p] fits_nonneg [of "10 ^ k" s] le by (simp add: wt)
        qed
        then show ?thesis using h(2,3) by (simp add: wt ux)
      qed
    qed
    ultimately show ?thesis using False by simp
  qed
qed

lemma int2pow_int10pow_correct_witness:
  "si_val (byte_calc 2) (fst (int2pow silent_ui 6 (byte_calc 2))) = 64 \<and> ovf (snd (int10pow silent_ui 6 (byte_calc 2)))"
proof -
  obtain w2 t2 where r2: "int2pow silent_ui 6 (byte_calc 2) = (w2, t2)" by (cases "int2pow silent_ui 6 (byte_calc 2)")
  obtain w10 t10 where r10: "int10pow silent_ui 6 (byte_calc 2) = (w10, t10)" by (cases "int10pow silent_ui 6 (byte_calc 2)")
  have "1 \<le> si_max (byte_calc 2)" by (simp add: si_max_def)
  moreover have "si_wf (byte_calc 2) 6" by (simp add: si_wf_def)
  ultimately show ?thesis using int2pow_int10pow_correct [OF byte_calc_ok _ _ r2 r10] r2 r10
    by (simp add: si_max_def si_val_def Let_def)
qed

section \<open>Modular arithmetic\<close>

lemma unat_mulmod: "c \<noteq> 0 \<Longrightarrow> unat (mulmod a b c) = (unat a * unat b) mod unat c"
proof -
  assume c: "c \<noteq> 0"
  have wide: "unat (ucast w :: 128 word) = unat w" for w :: u64
    by (simp add: unsigned_ucast_eq take_bit_nat_eq_self order.strict_trans [OF unat_less_64])
  have "unat a * unat b < 2 ^ 64 * 2 ^ 64" using unat_less_64 [of a] unat_less_64 [of b] by (intro mult_strict_mono) simp_all
  then have "unat ((ucast a :: 128 word) * ucast b) = unat a * unat b"
    by (subst unat_mult_lem [THEN iffD1]) (simp_all add: wide)
  then have "unat (((ucast a :: 128 word) * ucast b) mod ucast c) = (unat a * unat b) mod unat c"
    by (simp add: unat_mod wide)
  moreover have "(unat a * unat b) mod unat c < 2 ^ 64"
  proof -
    have "0 < unat c" using c by (simp add: unat_gt_0)
    then have "(unat a * unat b) mod unat c < unat c" by (rule mod_less_divisor)
    then show ?thesis using unat_less_64 [of c] by linarith
  qed
  ultimately show ?thesis unfolding mulmod_def by (simp add: unsigned_ucast_eq take_bit_nat_eq_self)
qed

lemma square_power: "(y * y) ^ (b div 2) * (if odd b then y else 1) = y ^ (b::nat)" for y :: nat
proof -
  have "y ^ (2 * (b div 2) + b mod 2) = (y * y) ^ (b div 2) * y ^ (b mod 2)"
    by (simp only: power_add power_mult power2_eq_square)
  then have "y ^ b = (y * y) ^ (b div 2) * y ^ (b mod 2)" by simp
  then show ?thesis by (simp add: odd_iff_mod_2_eq_one)
qed

lemma expmod_loop_val: "c \<noteq> 0 \<Longrightarrow> unat (expmod_loop x y b c) mod unat c = (unat x * unat y ^ unat b) mod unat c"
proof (induction x y b c rule: expmod_loop.induct)
  case (1 x y b c)
  show ?case
  proof (cases "b = 0")
    case True
    then show ?thesis by (simp add: expmod_loop.simps [of x y 0 c])
  next
    case False
    then have pos: "0 < b" by (simp add: word_neq_0_conv)
    let ?x = "if b AND 1 \<noteq> 0 then mulmod x y c else x" and ?k = "unat b div 2"
    have "unat (expmod_loop x y b c) mod unat c = (unat ?x * unat (mulmod y y c) ^ ?k) mod unat c"
      using 1(1) [OF pos 1(2)] pos by (simp add: expmod_loop.simps [of x y b c] unat_div)
    also have "\<dots> = (unat ?x mod unat c * (unat (mulmod y y c) ^ ?k mod unat c)) mod unat c" by (simp add: mod_mult_eq)
    also have "unat (mulmod y y c) ^ ?k mod unat c = (unat y * unat y) ^ ?k mod unat c"
      by (simp add: unat_mulmod [OF 1(2)] power_mod)
    also have "unat ?x mod unat c = (unat x * (if odd (unat b) then unat y else 1)) mod unat c"
      by (simp add: unat_mulmod [OF 1(2)] low_bit_odd)
    also have "(unat x * (if odd (unat b) then unat y else 1)) mod unat c * ((unat y * unat y) ^ ?k mod unat c) mod unat c =
        (unat x * ((unat y * unat y) ^ ?k * (if odd (unat b) then unat y else 1))) mod unat c"
      by (simp only: mod_mult_eq mult.assoc mult.commute [of "(unat y * unat y) ^ ?k"])
    finally show ?thesis unfolding square_power .
  qed
qed

text \<open>C19. Modular exponentiation of 64-bit words with 128-bit products: for a modulus that is not zero
  the result is the power reduced by the modulus.\<close>

theorem expmod_correct: "c \<noteq> 0 \<Longrightarrow> unat (expmod a b c) = unat a ^ unat b mod unat c"
  using expmod_loop_val [of c 1 a b] by (simp add: expmod_def unat_mod)

lemma expmod_correct_witness: "unat (expmod 3 10 1000) = 49"
  using expmod_correct [of 1000 3 10] by simp

end
