(* ===== verification/LongInt.thy ===== *)
theory LongInt
  imports CalcState
begin

text \<open>
  Long integers, \<^verbatim>\<open>integers.c\<close>: the bounded operations and the division of integers with decimal
  exponents.  A \<^verbatim>\<open>longInteger_t\<close> is an integer of the GNU MP library, which is not part of the
  repository: its functions are the fields of a record the operations take, and \<open>gmp_documented\<close>
  states the documented behaviour the theorems rest on.  A result pointer is a returned value; an
  operation that refuses returns the value its result variable had before.
\<close>

section \<open>The library\<close>

record gmp =
  mpz_mul :: "int \<Rightarrow> int \<Rightarrow> int"
  mpz_add :: "int \<Rightarrow> int \<Rightarrow> int"
  mpz_sub :: "int \<Rightarrow> int \<Rightarrow> int"
  mpz_sgn :: "int \<Rightarrow> int"
  mpz_sizeinbase :: "int \<Rightarrow> nat \<Rightarrow> nat"
  mpz_tdiv_qr :: "int \<Rightarrow> int \<Rightarrow> int \<times> int"
  mpz_ui_pow_ui :: "nat \<Rightarrow> nat \<Rightarrow> int"

abbreviation (input) MAX_LONG_INTEGER_SIZE_IN_BITS :: nat where "MAX_LONG_INTEGER_SIZE_IN_BITS \<equiv> 3328"
abbreviation (input) ERROR_OVERFLOW_PLUS_INF :: nat where "ERROR_OVERFLOW_PLUS_INF \<equiv> 4"
abbreviation (input) ERROR_OVERFLOW_MINUS_INF :: nat where "ERROR_OVERFLOW_MINUS_INF \<equiv> 5"

abbreviation longIntegerBits :: "gmp \<Rightarrow> int \<Rightarrow> nat" where "longIntegerBits g op \<equiv> mpz_sizeinbase g op 2"
abbreviation longIntegerSign :: "gmp \<Rightarrow> int \<Rightarrow> int" where "longIntegerSign g op \<equiv> mpz_sgn g op"

section \<open>Bounded operations\<close>

definition longIntegerMultiply :: "gmp \<Rightarrow> int \<Rightarrow> int \<Rightarrow> int \<Rightarrow> 'a calc_scheme \<Rightarrow> int \<times> 'a calc_scheme" where
  "longIntegerMultiply g opY opX result s =
     (if longIntegerBits g opY + longIntegerBits g opX \<le> MAX_LONG_INTEGER_SIZE_IN_BITS then (mpz_mul g opY opX, s)
      else (result, displayCalcErrorMessage
              (if longIntegerSign g opY = longIntegerSign g opX then ERROR_OVERFLOW_PLUS_INF else ERROR_OVERFLOW_MINUS_INF)
              ERR_REGISTER_LINE s))"

definition longIntegerSquare :: "gmp \<Rightarrow> int \<Rightarrow> int \<Rightarrow> 'a calc_scheme \<Rightarrow> int \<times> 'a calc_scheme" where
  "longIntegerSquare g opr result s =
     (if longIntegerBits g opr * 2 \<le> MAX_LONG_INTEGER_SIZE_IN_BITS then (mpz_mul g opr opr, s)
      else (result, displayCalcErrorMessage ERROR_OVERFLOW_PLUS_INF ERR_REGISTER_LINE s))"

definition longIntegerAdd :: "gmp \<Rightarrow> int \<Rightarrow> int \<Rightarrow> int \<Rightarrow> 'a calc_scheme \<Rightarrow> int \<times> 'a calc_scheme" where
  "longIntegerAdd g opY opX result s =
     (if longIntegerSign g opY \<noteq> longIntegerSign g opX \<or>
         max (longIntegerBits g opY) (longIntegerBits g opX) \<le> MAX_LONG_INTEGER_SIZE_IN_BITS - 1
      then (mpz_add g opY opX, s)
      else (result, displayCalcErrorMessage
              (if longIntegerSign g opY = 0 then ERROR_OVERFLOW_PLUS_INF else ERROR_OVERFLOW_MINUS_INF)
              ERR_REGISTER_LINE s))"

definition longIntegerSubtract :: "gmp \<Rightarrow> int \<Rightarrow> int \<Rightarrow> int \<Rightarrow> 'a calc_scheme \<Rightarrow> int \<times> 'a calc_scheme" where
  "longIntegerSubtract g opY opX result s =
     (if longIntegerSign g opY = longIntegerSign g opX \<or>
         max (longIntegerBits g opY) (longIntegerBits g opX) \<le> MAX_LONG_INTEGER_SIZE_IN_BITS - 1
      then (mpz_sub g opY opX, s)
      else (result, displayCalcErrorMessage
              (if longIntegerSign g opY = 0 then ERROR_OVERFLOW_PLUS_INF else ERROR_OVERFLOW_MINUS_INF)
              ERR_REGISTER_LINE s))"

section \<open>Division with decimal exponents\<close>

text \<open>The result is the quotient, the remainder and the decimal exponent of the remainder.\<close>

definition longIntegerScaledDivide :: "gmp \<Rightarrow> int \<Rightarrow> int \<Rightarrow> int \<Rightarrow> int \<Rightarrow> int \<times> int \<times> int" where
  "longIntegerScaledDivide g opY yExp opX xExp =
     (let remainderExp = min yExp xExp;
          (scaledY, scaledX) =
            (if yExp > remainderExp then (mpz_mul g opY (mpz_ui_pow_ui g 10 (nat (yExp - remainderExp))), opX)
             else if xExp > remainderExp then (opY, mpz_mul g opX (mpz_ui_pow_ui g 10 (nat (xExp - remainderExp))))
             else (opY, opX));
          (quotient, remainder) = mpz_tdiv_qr g scaledY scaledX
      in (quotient, remainder, remainderExp))"

section \<open>Documented behaviour of the library\<close>

text \<open>\<^verbatim>\<open>mpz_sizeinbase (0, 2)\<close> is 1; division rounds to zero and the remainder takes the sign of the dividend.\<close>

definition bit_length :: "int \<Rightarrow> nat \<Rightarrow> bool" where
  "bit_length v n \<longleftrightarrow> (if v = 0 then n = 1 else 0 < n \<and> 2 ^ (n - 1) \<le> \<bar>v\<bar> \<and> \<bar>v\<bar> < 2 ^ n)"

definition gmp_documented :: "gmp \<Rightarrow> bool" where
  "gmp_documented g \<longleftrightarrow>
     (\<forall>a b. mpz_mul g a b = a * b \<and> mpz_add g a b = a + b \<and> mpz_sub g a b = a - b) \<and>
     (\<forall>a. mpz_sgn g a = sgn a \<and> bit_length a (mpz_sizeinbase g a 2)) \<and>
     (\<forall>a b. b \<noteq> 0 \<longrightarrow> mpz_tdiv_qr g a b = (sgn a * sgn b * (\<bar>a\<bar> div \<bar>b\<bar>), sgn a * (\<bar>a\<bar> mod \<bar>b\<bar>))) \<and>
     (\<forall>b e. mpz_ui_pow_ui g b e = int b ^ e)"

lemma gmp_simps:
  assumes "gmp_documented g"
  shows "mpz_mul g a b = a * b" "mpz_add g a b = a + b" "mpz_sub g a b = a - b" "mpz_sgn g a = sgn a"
    "mpz_ui_pow_ui g m e = int m ^ e" "bit_length a (mpz_sizeinbase g a 2)"
    "b \<noteq> 0 \<Longrightarrow> mpz_tdiv_qr g a b = (sgn a * sgn b * (\<bar>a\<bar> div \<bar>b\<bar>), sgn a * (\<bar>a\<bar> mod \<bar>b\<bar>))"
  using assms by (simp_all add: gmp_documented_def)

text \<open>An instance, for the witnesses.\<close>

fun int_bits :: "nat \<Rightarrow> nat" where
  "int_bits n = (if n < 2 then 1 else Suc (int_bits (n div 2)))"

declare int_bits.simps [simp del]

definition gmp_int :: gmp where
  "gmp_int = \<lparr>mpz_mul = (*), mpz_add = (+), mpz_sub = (-), mpz_sgn = sgn, mpz_sizeinbase = (\<lambda>a _. int_bits (nat \<bar>a\<bar>)),
     mpz_tdiv_qr = (\<lambda>a b. (sgn a * sgn b * (\<bar>a\<bar> div \<bar>b\<bar>), sgn a * (\<bar>a\<bar> mod \<bar>b\<bar>))), mpz_ui_pow_ui = (\<lambda>b e. int b ^ e)\<rparr>"

lemma int_bits_length: "0 < n \<Longrightarrow> 0 < int_bits n \<and> 2 ^ (int_bits n - 1) \<le> n \<and> n < 2 ^ int_bits n"
proof (induction n rule: int_bits.induct)
  case (1 n)
  show ?case
  proof (cases "n < 2")
    case True
    then have "n = 1" using 1 by simp
    then show ?thesis by (simp add: int_bits.simps [of "Suc 0"])
  next
    case False
    then have ih: "0 < int_bits (n div 2)" "2 ^ (int_bits (n div 2) - 1) \<le> n div 2" "n div 2 < 2 ^ int_bits (n div 2)"
      using 1 by simp_all
    have "2 ^ int_bits (n div 2) = 2 * (2::nat) ^ (int_bits (n div 2) - 1)" using ih(1) by (cases "int_bits (n div 2)") simp_all
    then have "2 ^ int_bits (n div 2) \<le> n" using ih(2) by simp
    moreover have "n < 2 * 2 ^ int_bits (n div 2)" using ih(3) by simp
    ultimately show ?thesis using False by (simp add: int_bits.simps [of n])
  qed
qed

lemma gmp_int_documented: "gmp_documented gmp_int"
proof -
  have "bit_length a (int_bits (nat \<bar>a\<bar>))" for a
  proof (cases "a = 0")
    case True
    then show ?thesis by (simp add: bit_length_def int_bits.simps [of 0])
  next
    case False
    let ?n = "int_bits (nat \<bar>a\<bar>)"
    have b: "0 < ?n" "2 ^ (?n - 1) \<le> nat \<bar>a\<bar>" "nat \<bar>a\<bar> < 2 ^ ?n" using int_bits_length [of "nat \<bar>a\<bar>"] False by simp_all
    have "int (2 ^ (?n - 1)) \<le> int (nat \<bar>a\<bar>)" "int (nat \<bar>a\<bar>) < int (2 ^ ?n)" using b by (simp_all only: of_nat_le_iff of_nat_less_iff)
    then show ?thesis using False b(1) by (simp add: bit_length_def)
  qed
  then show ?thesis by (simp add: gmp_documented_def gmp_int_def)
qed

end
