(* ===== verification/LongIntProps.thy ===== *)
theory LongIntProps
  imports LongInt FlagProps
begin

text \<open>
  Properties of the long integer operations under the documented behaviour of the library: results
  are exact and stay within the size limit, refusals leave the result alone and are due to large
  operands; division with decimal exponents loses nothing.
\<close>

section \<open>Bit lengths\<close>

lemma bit_length_le: "bit_length v n \<Longrightarrow> n \<le> k \<Longrightarrow> \<bar>v\<bar> < 2 ^ k"
proof -
  assume a: "bit_length v n" "n \<le> k"
  have "(2::int) ^ n \<le> 2 ^ k" using a(2) by (intro power_increasing) simp_all
  moreover have "\<bar>v\<bar> < 2 ^ n" using a(1) by (auto simp: bit_length_def split: if_splits)
  ultimately show ?thesis by linarith
qed

lemma bit_length_gt: "bit_length v n \<Longrightarrow> v \<noteq> 0 \<Longrightarrow> k < n \<Longrightarrow> 2 ^ k \<le> \<bar>v\<bar>"
proof -
  assume a: "bit_length v n" "v \<noteq> 0" "k < n"
  have "(2::int) ^ k \<le> 2 ^ (n - 1)" using a(3) by (intro power_increasing) simp_all
  moreover have "2 ^ (n - 1) \<le> \<bar>v\<bar>" using a(1,2) by (auto simp: bit_length_def)
  ultimately show ?thesis by linarith
qed

lemma bit_length_product:
  assumes "bit_length a m" "bit_length b n"
  shows "m + n \<le> k \<Longrightarrow> \<bar>a * b\<bar> < 2 ^ k"
    and "a \<noteq> 0 \<Longrightarrow> b \<noteq> 0 \<Longrightarrow> k + 1 < m + n \<Longrightarrow> 2 ^ k \<le> \<bar>a * b\<bar>"
proof -
  assume k: "m + n \<le> k"
  have "\<bar>a\<bar> * \<bar>b\<bar> < 2 ^ m * 2 ^ n"
    using bit_length_le [OF assms(1) order_refl] bit_length_le [OF assms(2) order_refl] by (intro mult_strict_mono) simp_all
  also have "\<dots> \<le> (2::int) ^ k" unfolding power_add [symmetric] using k by (intro power_increasing) simp_all
  finally show "\<bar>a * b\<bar> < 2 ^ k" by (simp add: abs_mult)
next
  assume a: "a \<noteq> 0" "b \<noteq> 0" "k + 1 < m + n"
  then have p: "0 < m" "0 < n" "2 ^ (m - 1) \<le> \<bar>a\<bar>" "2 ^ (n - 1) \<le> \<bar>b\<bar>" using assms by (auto simp: bit_length_def)
  have "(2::int) ^ k \<le> 2 ^ (m - 1 + (n - 1))" using a(3) p(1,2) by (intro power_increasing) simp_all
  also have "\<dots> \<le> \<bar>a\<bar> * \<bar>b\<bar>" unfolding power_add using p(3,4) by (intro mult_mono) simp_all
  finally show "2 ^ k \<le> \<bar>a * b\<bar>" by (simp add: abs_mult)
qed

lemma error_code_set [simp]:
  "e = ERROR_OVERFLOW_PLUS_INF \<or> e = ERROR_OVERFLOW_MINUS_INF \<Longrightarrow> lastErrorCode (displayCalcErrorMessage e ERR_REGISTER_LINE s) = e"
  by (auto simp: displayCalcErrorMessage_def)

section \<open>Sums and differences\<close>

text \<open>The test of addition, for a limit of \<open>k + 1\<close> bits; \<open>bl\<close> measures the operands.\<close>

lemma bounded_sum:
  assumes bl: "bit_length y m" "bit_length x n" and b: "\<bar>y\<bar> < 2 ^ Suc k" "\<bar>x\<bar> < 2 ^ Suc k" and k: "0 < k"
  shows "sgn y \<noteq> sgn x \<or> max m n \<le> k \<Longrightarrow> \<bar>y + x\<bar> < 2 ^ Suc k"
    and "\<not> (sgn y \<noteq> sgn x \<or> max m n \<le> k) \<Longrightarrow> 0 < y * x \<and> 2 ^ k \<le> max \<bar>y\<bar> \<bar>x\<bar>"
proof -
  obtain P where P: "2 ^ k = P" "2 ^ Suc k = 2 * (P::int)" by simp
  assume acc: "sgn y \<noteq> sgn x \<or> max m n \<le> k"
  show "\<bar>y + x\<bar> < 2 ^ Suc k"
  proof (cases "sgn y = sgn x")
    case True
    then have "\<bar>y\<bar> < 2 ^ k" "\<bar>x\<bar> < 2 ^ k" using acc bit_length_le [OF bl(1), of k] bit_length_le [OF bl(2), of k] by simp_all
    then show ?thesis unfolding P by linarith
  next
    case False
    then have "\<bar>y + x\<bar> \<le> max \<bar>y\<bar> \<bar>x\<bar>" by (auto simp: sgn_if split: if_splits)
    then show ?thesis using b by linarith
  qed
next
  assume ref: "\<not> (sgn y \<noteq> sgn x \<or> max m n \<le> k)"
  then have s: "sgn y = sgn x" and mn: "k < m \<or> k < n" by auto
  have nz: "y \<noteq> 0"
  proof
    assume "y = 0"
    then have "x = 0" "m = 1" "n = 1" using s bl by (auto simp: bit_length_def sgn_if split: if_splits)
    then show False using mn k by simp
  qed
  then have nx: "x \<noteq> 0" using s by (auto simp: sgn_if split: if_splits)
  have "2 ^ k \<le> max \<bar>y\<bar> \<bar>x\<bar>"
    using mn bit_length_gt [OF bl(1) nz, of k] bit_length_gt [OF bl(2) nx, of k] by auto
  moreover have "0 < y * x" using s nz nx by (auto simp: sgn_if zero_less_mult_iff split: if_splits)
  ultimately show "0 < y * x \<and> 2 ^ k \<le> max \<bar>y\<bar> \<bar>x\<bar>" by blast
qed

lemma bounded_difference:
  assumes bl: "bit_length y m" "bit_length x n" and b: "\<bar>y\<bar> < 2 ^ Suc k" "\<bar>x\<bar> < 2 ^ Suc k" and k: "0 < k"
  shows "sgn y = sgn x \<or> max m n \<le> k \<Longrightarrow> \<bar>y - x\<bar> < 2 ^ Suc k"
    and "\<not> (sgn y = sgn x \<or> max m n \<le> k) \<Longrightarrow> y * x \<le> 0 \<and> 2 ^ k \<le> max \<bar>y\<bar> \<bar>x\<bar>"
proof -
  obtain P where P: "2 ^ k = P" "2 ^ Suc k = 2 * (P::int)" by simp
  assume acc: "sgn y = sgn x \<or> max m n \<le> k"
  show "\<bar>y - x\<bar> < 2 ^ Suc k"
  proof (cases "sgn y = sgn x")
    case False
    then have "\<bar>y\<bar> < 2 ^ k" "\<bar>x\<bar> < 2 ^ k" using acc bit_length_le [OF bl(1), of k] bit_length_le [OF bl(2), of k] by simp_all
    then show ?thesis unfolding P by linarith
  next
    case True
    then have "\<bar>y - x\<bar> \<le> max \<bar>y\<bar> \<bar>x\<bar>" by (auto simp: sgn_if split: if_splits)
    then show ?thesis using b by linarith
  qed
next
  assume ref: "\<not> (sgn y = sgn x \<or> max m n \<le> k)"
  then have s: "sgn y \<noteq> sgn x" and mn: "k < m \<or> k < n" by auto
  have big: "k < m \<Longrightarrow> y \<noteq> 0" "k < n \<Longrightarrow> x \<noteq> 0" using bl k by (auto simp: bit_length_def)
  have "2 ^ k \<le> max \<bar>y\<bar> \<bar>x\<bar>"
    using mn big bit_length_gt [OF bl(1), of k] bit_length_gt [OF bl(2), of k] by auto
  moreover have "y * x \<le> 0" using s by (auto simp: sgn_if mult_le_0_iff split: if_splits)
  ultimately show "y * x \<le> 0 \<and> 2 ^ k \<le> max \<bar>y\<bar> \<bar>x\<bar>" by blast
qed

lemma bounded_product:
  assumes bl: "bit_length y m" "bit_length x n" and k: "0 < k"
  shows "m + n \<le> Suc k \<Longrightarrow> \<bar>y * x\<bar> < 2 ^ Suc k"
    and "\<not> m + n \<le> Suc k \<Longrightarrow> (y * x = 0 \<or> 2 ^ k \<le> \<bar>y * x\<bar>) \<and> (sgn y = sgn x \<longleftrightarrow> 0 < y * x)"
proof -
  show "m + n \<le> Suc k \<Longrightarrow> \<bar>y * x\<bar> < 2 ^ Suc k" by (rule bit_length_product(1) [OF bl])
  assume r: "\<not> m + n \<le> Suc k"
  then have "\<not> (y = 0 \<and> x = 0)" using bl k by (auto simp: bit_length_def)
  then have "sgn y = sgn x \<longleftrightarrow> 0 < y * x" by (auto simp: sgn_if zero_less_mult_iff split: if_splits)
  moreover have "y * x = 0 \<or> 2 ^ k \<le> \<bar>y * x\<bar>" using bit_length_product(2) [OF bl, of k] r by auto
  ultimately show "(y * x = 0 \<or> 2 ^ k \<le> \<bar>y * x\<bar>) \<and> (sgn y = sgn x \<longleftrightarrow> 0 < y * x)" by blast
qed

text \<open>C20. The bounded operations on long integers of at most 3328 bits: an accepted sum, difference or
  product is exact and has at most 3328 bits; a refused one leaves the result variable alone, sets an
  overflow error, and happens only when an operand of the sum has 3328 bits and the signs agree, when
  one of the difference does and they differ, or when the product has at least 3328 bits or is zero.
  The error of a refused sum is always minus infinity, that of a difference minus infinity unless the
  minuend is zero; that of a product has its sign.\<close>

theorem longInteger_bounded:
  assumes g: "gmp_documented g"
    and b: "\<bar>y\<bar> < 2 ^ MAX_LONG_INTEGER_SIZE_IN_BITS" "\<bar>x\<bar> < 2 ^ MAX_LONG_INTEGER_SIZE_IN_BITS"
    and add: "longIntegerAdd g y x v s = (w1, t1)" and sub: "longIntegerSubtract g y x v s = (w2, t2)"
    and mul: "longIntegerMultiply g y x v s = (w3, t3)"
  shows "(w1 = y + x \<and> t1 = s \<and> \<bar>w1\<bar> < 2 ^ MAX_LONG_INTEGER_SIZE_IN_BITS \<or>
      w1 = v \<and> 0 < y * x \<and> 2 ^ 3327 \<le> max \<bar>y\<bar> \<bar>x\<bar> \<and> lastErrorCode t1 = ERROR_OVERFLOW_MINUS_INF) \<and>
    (w2 = y - x \<and> t2 = s \<and> \<bar>w2\<bar> < 2 ^ MAX_LONG_INTEGER_SIZE_IN_BITS \<or>
      w2 = v \<and> y * x \<le> 0 \<and> 2 ^ 3327 \<le> max \<bar>y\<bar> \<bar>x\<bar> \<and>
      lastErrorCode t2 = (if y = 0 then ERROR_OVERFLOW_PLUS_INF else ERROR_OVERFLOW_MINUS_INF)) \<and>
    (w3 = y * x \<and> t3 = s \<and> \<bar>w3\<bar> < 2 ^ MAX_LONG_INTEGER_SIZE_IN_BITS \<or>
      w3 = v \<and> (y * x = 0 \<or> 2 ^ 3327 \<le> \<bar>y * x\<bar>) \<and>
      lastErrorCode t3 = (if 0 < y * x then ERROR_OVERFLOW_PLUS_INF else ERROR_OVERFLOW_MINUS_INF))"
proof -
  obtain k where k: "(3327::nat) = k" "(3328::nat) = Suc k" "0 < k" by simp
  have k1: "Suc k - 1 = k" by simp
  note bl = gmp_simps(6) [OF g, of y] gmp_simps(6) [OF g, of x]
  note b' = b [unfolded k]
  note s = bounded_sum [OF bl b' k(3)] and d = bounded_difference [OF bl b' k(3)] and p = bounded_product [OF bl k(3)]
  show ?thesis unfolding k
  proof (intro conjI)
    show "w1 = y + x \<and> t1 = s \<and> \<bar>w1\<bar> < 2 ^ Suc k \<or>
        w1 = v \<and> 0 < y * x \<and> 2 ^ k \<le> max \<bar>y\<bar> \<bar>x\<bar> \<and> lastErrorCode t1 = ERROR_OVERFLOW_MINUS_INF"
    proof (cases "sgn y \<noteq> sgn x \<or> max (longIntegerBits g y) (longIntegerBits g x) \<le> k")
      case True
      then have "w1 = y + x" "t1 = s" using add unfolding longIntegerAdd_def k k1 gmp_simps [OF g] by auto
      then show ?thesis using s(1) [OF True] by blast
    next
      case False
      then have "w1 = v" "t1 = displayCalcErrorMessage (if sgn y = 0 then ERROR_OVERFLOW_PLUS_INF else ERROR_OVERFLOW_MINUS_INF) ERR_REGISTER_LINE s"
        using add unfolding longIntegerAdd_def k k1 gmp_simps [OF g] by auto
      moreover have "sgn y \<noteq> 0" using s(2) [OF False] by (auto simp: sgn_0_0)
      ultimately show ?thesis using s(2) [OF False] by simp
    qed
    show "w2 = y - x \<and> t2 = s \<and> \<bar>w2\<bar> < 2 ^ Suc k \<or>
        w2 = v \<and> y * x \<le> 0 \<and> 2 ^ k \<le> max \<bar>y\<bar> \<bar>x\<bar> \<and>
        lastErrorCode t2 = (if y = 0 then ERROR_OVERFLOW_PLUS_INF else ERROR_OVERFLOW_MINUS_INF)"
    proof (cases "sgn y = sgn x \<or> max (longIntegerBits g y) (longIntegerBits g x) \<le> k")
      case True
      then have "w2 = y - x" "t2 = s" using sub unfolding longIntegerSubtract_def k k1 gmp_simps [OF g] by auto
      then show ?thesis using d(1) [OF True] by blast
    next
      case False
      then have "w2 = v" "t2 = displayCalcErrorMessage (if sgn y = 0 then ERROR_OVERFLOW_PLUS_INF else ERROR_OVERFLOW_MINUS_INF) ERR_REGISTER_LINE s"
        using sub unfolding longIntegerSubtract_def k k1 gmp_simps [OF g] by auto
      then show ?thesis using d(2) [OF False] by (simp add: sgn_0_0)
    qed
    show "w3 = y * x \<and> t3 = s \<and> \<bar>w3\<bar> < 2 ^ Suc k \<or>
        w3 = v \<and> (y * x = 0 \<or> 2 ^ k \<le> \<bar>y * x\<bar>) \<and>
        lastErrorCode t3 = (if 0 < y * x then ERROR_OVERFLOW_PLUS_INF else ERROR_OVERFLOW_MINUS_INF)"
    proof (cases "longIntegerBits g y + longIntegerBits g x \<le> Suc k")
      case True
      then have "w3 = y * x" "t3 = s" using mul unfolding longIntegerMultiply_def k gmp_simps [OF g] by auto
      then show ?thesis using p(1) [OF True] by blast
    next
      case False
      then have "w3 = v" "t3 = displayCalcErrorMessage (if sgn y = sgn x then ERROR_OVERFLOW_PLUS_INF else ERROR_OVERFLOW_MINUS_INF) ERR_REGISTER_LINE s"
        using mul unfolding longIntegerMultiply_def k gmp_simps [OF g] by auto
      then show ?thesis using p(2) [OF False] by simp
    qed
  qed
qed

lemma four_le_power: "2 \<le> k \<Longrightarrow> (4::int) \<le> 2 ^ k"
  using power_increasing [of 2 k "2::int"] by simp

lemma longInteger_bounded_witness:
  "fst (longIntegerAdd gmp_int 2 3 0 plain_calc) = 5"
proof -
  obtain w1 t1 where a: "longIntegerAdd gmp_int 2 3 0 plain_calc = (w1, t1)" by fastforce
  obtain w2 t2 where d: "longIntegerSubtract gmp_int 2 3 0 plain_calc = (w2, t2)" by fastforce
  obtain w3 t3 where m: "longIntegerMultiply gmp_int 2 3 0 plain_calc = (w3, t3)" by fastforce
  have big: "(4::int) \<le> 2 ^ 3328" "(4::int) \<le> 2 ^ 3327" by (rule four_le_power; simp)+
  have b: "\<bar>2::int\<bar> < 2 ^ 3328" "\<bar>3::int\<bar> < 2 ^ 3328" using big(1) by linarith+
  have n: "\<not> 2 ^ 3327 \<le> max \<bar>2::int\<bar> \<bar>3\<bar>" using big(2) by linarith
  have "w1 = 5" using conjunct1 [OF longInteger_bounded [OF gmp_int_documented b a d m]] n by linarith
  then show ?thesis using a by simp
qed

section \<open>Division with decimal exponents\<close>

text \<open>The division of \<open>y * 10 ^ yExp\<close> by \<open>x * 10 ^ xExp\<close> loses nothing: with both operands brought
  to the smaller exponent, dividend = quotient * divisor + remainder, the remainder is smaller than the
  divisor and has the sign of the dividend, and its exponent is the smaller one.\<close>

theorem longIntegerScaledDivide_exact:
  assumes g: "gmp_documented g" and x: "x \<noteq> 0" and r: "longIntegerScaledDivide g y yExp x xExp = (quot, rest, remainderExp)"
  defines "Y \<equiv> y * 10 ^ nat (yExp - min yExp xExp)"
  defines "X \<equiv> x * 10 ^ nat (xExp - min yExp xExp)"
  shows "Y = quot * X + rest \<and> \<bar>rest\<bar> < \<bar>X\<bar> \<and> (rest = 0 \<or> sgn rest = sgn y) \<and>
    remainderExp = min yExp xExp"
proof -
  have X0: "X \<noteq> 0" using x by (simp add: X_def)
  have "mpz_tdiv_qr g Y X = (quot, rest) \<and> remainderExp = min yExp xExp"
    using r by (auto simp: longIntegerScaledDivide_def gmp_simps [OF g] Let_def Y_def X_def split: if_splits prod.splits)
  then have q: "quot = sgn Y * sgn X * (\<bar>Y\<bar> div \<bar>X\<bar>)" "rest = sgn Y * (\<bar>Y\<bar> mod \<bar>X\<bar>)" "remainderExp = min yExp xExp"
    using gmp_simps(7) [OF g X0, of Y] by simp_all
  have sX: "sgn X * X = \<bar>X\<bar>" by (simp add: abs_sgn mult.commute)
  have "quot * X + rest = sgn Y * (\<bar>Y\<bar> div \<bar>X\<bar> * (sgn X * X) + \<bar>Y\<bar> mod \<bar>X\<bar>)"
    unfolding q by (simp only: distrib_left ac_simps)
  also have "\<dots> = sgn Y * \<bar>Y\<bar>" unfolding sX by simp
  also have "\<dots> = Y" by (simp add: sgn_mult_abs)
  finally have "Y = quot * X + rest" by simp
  moreover have "\<bar>rest\<bar> < \<bar>X\<bar>"
    unfolding q(2) using X0 pos_mod_bound [of "\<bar>X\<bar>" "\<bar>Y\<bar>"] by (simp add: abs_mult sgn_if)
  moreover have "rest = 0 \<or> sgn rest = sgn y"
  proof -
    have "0 \<le> \<bar>Y\<bar> mod \<bar>X\<bar>" using X0 by simp
    then have "rest = 0 \<or> sgn rest = sgn Y" unfolding q(2) by (cases "\<bar>Y\<bar> mod \<bar>X\<bar> = 0") (simp_all add: sgn_mult)
    moreover have "sgn Y = sgn y" by (simp add: Y_def sgn_mult)
    ultimately show ?thesis by simp
  qed
  ultimately show ?thesis using q(3) by blast
qed

lemma longIntegerScaledDivide_exact_witness:
  "longIntegerScaledDivide gmp_int (- 7) 1 3 0 = (- 23, - 1, 0)"
proof -
  obtain q r e where d: "longIntegerScaledDivide gmp_int (- 7) 1 3 0 = (q, r, e)" by (cases "longIntegerScaledDivide gmp_int (- 7) 1 3 0")
  have "- 70 = q * 3 + r \<and> \<bar>r\<bar> < 3 \<and> (r = 0 \<or> sgn r = - 1) \<and> e = 0"
    using longIntegerScaledDivide_exact [OF gmp_int_documented _ d] by simp
  then have "r = - 1" "q = - 23" "e = 0" by (auto simp: sgn_if split: if_splits) presburger+
  then show ?thesis by (simp add: d)
qed

end
