(* ===== verification/Spec2Isabelle.thy ===== *)
theory Spec2Isabelle
  imports MemoryCount Utf8Props WordSize StackLift ValidProps SubroutineProps ShortIntPower LongIntProps
begin

text \<open>
  Verification of the calculator core of C47, the RPN calculator whose C sources z47 keeps under
  \<^verbatim>\<open>src/upstream/src/c47\<close> as the reference its port is measured against.  File names below are relative
  to that directory.  The development models the parts on which every command rests: the memory of the
  machine, its flags, its integer arithmetic, its registers and stack, the commands on bits, program
  memory, and strings.

  How the parts interact.  All data live in one array of 32-bit blocks, RAM.  The block allocator keeps
  the table of its free regions; the memory manager gives blocks to its clients and moves program
  memory, which lies at the top of RAM.  A register is a 32-bit header (type, tag, block number) in one
  of three tables, its value a piece of RAM whose size follows from the type and sometimes from a
  length word inside the value.  The stack is the first four or eight lettered registers; lifting,
  dropping and rolling move headers and allocate and release pieces.  Commands read a register, save X
  in L, and store the result through the reallocation of the register.  Flags and the word size and
  sign mode of short integers are global variables that the commands read and write; changing a system
  flag runs the interlocks between flags.  A program is a sequence of steps of variable length that is
  decoded byte by byte.  Names of variables and labels are strings of glyphs of one or two bytes.

  Theories, in the order of the code.

    \<^item> \<^verbatim>\<open>Prelude\<close>: 8 to 64-bit words, the truncation of a store to \<^verbatim>\<open>uint16_t\<close>, named theorems.
    \<^item> \<^verbatim>\<open>FreeList\<close> (\<^verbatim>\<open>core/freeList.c\<close>, \<^verbatim>\<open>xcopy\<close> of \<^verbatim>\<open>charString.c\<close>): record \<open>heap\<close>, the region table, the log of
      live allocations, RAM contents; allocation, release, reallocation, reduction.  \<^verbatim>\<open>Ownership\<close> says what
      it means that pieces are disjoint and live, and holds the interface \<open>block_allocator\<close>;
      \<^verbatim>\<open>FreeListLaws\<close> interprets it, \<^verbatim>\<open>FreeListProps\<close> its properties.
    \<^item> \<^verbatim>\<open>Memory\<close> (\<^verbatim>\<open>memory.c\<close>): record \<open>memory\<close>, the entry points, the availability query, resizing of program
      memory; the same interface interpreted one level up.  \<^verbatim>\<open>MemoryCount\<close> relates the count of the blocks in use
      to the free memory, requests of no block included.
    \<^item> \<^verbatim>\<open>CalcState\<close> (\<^verbatim>\<open>c47.c\<close>, \<^verbatim>\<open>defines.h\<close>): record \<open>calc\<close>, the shared global variables and the flag numbers.
    \<^item> \<^verbatim>\<open>Flags\<close> (\<^verbatim>\<open>flags.c\<close>), \<^verbatim>\<open>FlagLaws\<close>, \<^verbatim>\<open>FlagProps\<close>: system flags, change detection, interlocks, user flags,
      settings; the step relation of all flag commands and its invariants.
    \<^item> \<^verbatim>\<open>ShortInt\<close> (\<^verbatim>\<open>integers.c\<close>, masks of \<^verbatim>\<open>config.c\<close>): arithmetic on words of 1 to 64 bits in the four sign
      modes, with OVERFLOW and CARRY.  \<^verbatim>\<open>ShortIntLaws\<close> gives the integer value of a word and its
      range; \<^verbatim>\<open>ShortIntProps\<close>, \<^verbatim>\<open>ShortIntMul\<close>, \<^verbatim>\<open>ShortIntDiv\<close>, \<^verbatim>\<open>ShortIntRoots\<close>, \<^verbatim>\<open>ShortIntPower\<close> prove each operation
      against integer arithmetic, in value and flags.
    \<^item> \<^verbatim>\<open>LongInt\<close>, \<^verbatim>\<open>LongIntProps\<close> (\<^verbatim>\<open>integers.c\<close>): the bounded long integer operations; the GNU MP functions
      they call are the record \<open>gmp\<close>, their documented behaviour a named hypothesis with an instance.
    \<^item> \<^verbatim>\<open>Registers\<close> (\<^verbatim>\<open>registers.c\<close>, \<^verbatim>\<open>registerValueConversions.c\<close>, word size of \<^verbatim>\<open>config.c\<close>): record \<open>machine\<close>,
      which extends \<open>calc\<close>; getters, setters, sizes, reallocation, copying.  \<^verbatim>\<open>RegisterLaws\<close> states the
      invariant \<open>regs_inv\<close> (the data of all registers are disjoint pieces of the pool, the headers are in
      range) and the abstraction \<open>reg_values\<close> (the list of the values); \<^verbatim>\<open>RegisterProps\<close> proves that copying
      refines an assignment in that list; \<^verbatim>\<open>ShortRegs\<close> reads and writes short integers as values;
      \<^verbatim>\<open>WordSize\<close> has the word size command.
    \<^item> \<^verbatim>\<open>Stack\<close> (\<^verbatim>\<open>stack.c\<close>), \<^verbatim>\<open>StackProps\<close>, \<^verbatim>\<open>StackLift\<close>: rolling and swapping are permutations of the values
      (interface \<open>header_permutation\<close>), lifting and dropping a permutation and a replacement.
    \<^item> \<^verbatim>\<open>BitOps\<close> (\<^verbatim>\<open>logicalOps/\<close>), \<^verbatim>\<open>BitLaws\<close>, \<^verbatim>\<open>BitCommands\<close>: shifts, rotations, justification, mirror, byte order,
      zip, masks, single bits, logical operations; the loops bit by bit, the commands on the machine, the
      inverses.
    \<^item> \<^verbatim>\<open>ProgramSteps\<close> (\<^verbatim>\<open>programming/nextStep.c\<close>, \<^verbatim>\<open>programming/manage.c\<close>), \<^verbatim>\<open>StepProps\<close>: the grammar of steps, the
      walkers, SKIP and BACK, single-stepping in the editor; program memory as the list of its steps.
    \<^item> \<^verbatim>\<open>Labels\<close> (\<^verbatim>\<open>programming/manage.c\<close>, \<^verbatim>\<open>programming/lblGtoXeq.c\<close>, step tests of \<^verbatim>\<open>programming/structured.c\<close>):
      record \<open>labelled\<close>, the tables of labels and programs, the scan that fills them, the searches for a
      label, GTO.  \<^verbatim>\<open>LabelLaws\<close> gives the reference tables over the list of all steps (\<open>all_steps\<close>) and says what
      well-formed program memory is (\<open>code_ok\<close>); \<^verbatim>\<open>LabelProps\<close> proves the scan against them, \<^verbatim>\<open>GotoProps\<close> GTO.
    \<^item> \<^verbatim>\<open>Structures\<close> (\<^verbatim>\<open>programming/structured.c\<close>), \<^verbatim>\<open>StructProps\<close>: record \<open>structured\<close>, the commands IF to UNTIL,
      whose searches through the label table find the nearest partner in the program text.
    \<^item> \<^verbatim>\<open>Valid\<close> (\<^verbatim>\<open>programming/structured.c\<close>): the walk of VALID with its stack of open structures, the faults,
      the numbers and the marks it writes.  \<^verbatim>\<open>Nesting\<close> is block structure without numbers: the openers open
      at a step, the owner of a step, the next step at its level.  \<^verbatim>\<open>ValidText\<close> shows that numbers and marks
      move no step and keep the outline of a program (\<open>same_outline\<close>), \<^verbatim>\<open>ValidWalk\<close> that the stack of the walk is the list of openers, \<^verbatim>\<open>ValidProgram\<close> what the
      other passes do; \<^verbatim>\<open>ValidProps\<close> puts both ends together: VALID numbers the blocks and writes nothing
      but numbers, marks and the variables of the open program (\<open>valid_writes\<close>, \<open>redisplayed\<close>), and the searches of
      \<^verbatim>\<open>Structures\<close> by number then follow the nesting.
    \<^item> \<^verbatim>\<open>Subroutines\<close> (\<^verbatim>\<open>programming/lblGtoXeq.c\<close>, the release of local registers in \<^verbatim>\<open>registers.c\<close>): record
      \<open>calculator\<close>, which adds the levels and the register file to \<open>labelled\<close>; XEQ and RTN.  The run loop that
      XEQ starts from the keyboard is the argument \<open>run\<close>.  \<^verbatim>\<open>SubroutineProps\<close>: the levels own disjoint pieces of
      the pool (\<open>levels_ok\<close>), a failed call leaves the pointer at the call, a return goes to the step behind it with
      the local data of the caller.
    \<^item> \<^verbatim>\<open>Strings\<close> (\<^verbatim>\<open>charString.c\<close>, \<^verbatim>\<open>sort.c\<close>, the search for a glyph in \<^verbatim>\<open>fonts.c\<close>): a string is the list of its
      bytes before the terminator; walks over glyphs, UTF-8, folding and comparison of names, by code or by
      rank in a font.  Positions are \<^verbatim>\<open>int16_t\<close> and wrap; an access outside a string or a table has no value.
      \<^verbatim>\<open>StringProps\<close> turns the walks over strings of less than 32768 bytes into functions of the list of glyph
      codes: comparison is a lexicographic order, the search by folded names agrees with it, and the binary
      search finds the glyphs of a sorted font and no others.  \<^verbatim>\<open>Utf8Props\<close>: the conversions are inverse up to
      32767 glyphs, and the bounded one stays in its buffer.

  Correspondence.  Definitions keep the names of the C functions (the prefixes \<^verbatim>\<open>WP34S_\<close> and \<^verbatim>\<open>_\<close> are
  dropped); loops are separate recursive functions.  Machine integers keep their width where the code
  relies on it: \<^verbatim>\<open>uint64_t\<close> words wrap, 16-bit sizes and counters are natural numbers truncated where
  they are stored.  A pointer into RAM is \<open>None\<close> (null) or a block number, one into program memory a
  byte address.  A program exit of the allocator, a write through a null pointer and an access
  outside a header table are error values; an error shown to the user sets \<open>lastErrorCode\<close>.

  Termination.  Loops are structural or come with a measure, so that no fuel is needed: the Newton
  iteration of the square root decreases, walks over program memory advance, the doubling loops of
  logarithms and powers are bounded by the word size.  The state relations of the allocator, the memory
  manager and the flags are inductive, with invariants by rule induction.

  Parameters.  Code that is not part of the modelled sources is an argument: the GNU MP functions
  (\<open>gmp\<close>), what the interface does when flags change (\<open>flag_ui\<close>), the conversion of other types to
  short integers, \<^verbatim>\<open>tvmSyncIp\<close> and the range checks of real results (\<open>env\<close>), the status words of the
  item table, the table of glyphs of the standard font, which is generated.  Allocation of host memory, debug output and the screens for internal errors are left
  out.

  Not modelled: the mathematics on real and complex numbers (\<^verbatim>\<open>mathematics/\<close>, \<^verbatim>\<open>distributions/\<close>, \<^verbatim>\<open>solver/\<close>), which
  rests on the vendored decNumber library, rounds at 34 to 1071 digits and has no contract short of
  numerical analysis; screen, fonts and widths of strings, status bar, menus, browsers, plots and printing, which
  produce pixels; keyboard and calculator modes, which are driven by the hardware; saving and
  restoring state, which is file input and output; the execution of programs beyond the program
  pointer (the run loop, the allocation of local registers, FOR and NEXT, whose counters may have any type), date and time, statistics, the text entry of
  the editor.  Of the register stack, undo and clearing are missing, as they save the state of the
  statistics and solver components.
\<close>

end
